(* ===== verification/Prelude.thy ===== *)
theory Prelude
  imports Main "HOL-Library.Word" "HOL-Library.AList"
begin

text \<open>
  Shared material of the development: machine integers and durations, Go's maps as association
  lists with an explicit interface, byte strings, hexadecimal text (the encoding/hex and
  math/big routines of Go's standard library that the node uses) and the generic lemmas on
  them.  Nothing here is specific to one component.
\<close>

section \<open>Machine integers\<close>

type_synonym byte = "8 word"
type_synonym u32 = "32 word"
type_synonym u64 = "64 word"

text \<open>
  Go's \<open>int64\<close> (and \<open>time.Duration\<close>, a count of nanoseconds) is an \<open>int\<close> whose arithmetic
  results are brought back into range by \<open>wrap64\<close>, two's complement wrap-around.
\<close>

type_synonym duration = int

definition wrap64 :: "int \<Rightarrow> int" where
  "wrap64 x = (x + 2 ^ 63) mod 2 ^ 64 - 2 ^ 63"

lemma wrap64_id: "- (2 ^ 63) \<le> x \<Longrightarrow> x < 2 ^ 63 \<Longrightarrow> wrap64 x = x"
  by (simp add: wrap64_def)

lemma wrap64_range: "- (2 ^ 63) \<le> wrap64 x \<and> wrap64 x < 2 ^ 63"
proof -
  have "0 \<le> (x + 2 ^ 63) mod 2 ^ 64 \<and> (x + 2 ^ 63) mod 2 ^ 64 < (2 ^ 64 :: int)" by simp
  then show ?thesis by (simp add: wrap64_def)
qed

abbreviation milliseconds :: "int \<Rightarrow> duration" where "milliseconds n \<equiv> n * 1000000"
abbreviation seconds :: "int \<Rightarrow> duration" where "seconds n \<equiv> n * 1000000000"

text \<open>Go's integer division truncates towards zero.\<close>

definition quot :: "int \<Rightarrow> int \<Rightarrow> int" where
  "quot a b = sgn a * sgn b * (\<bar>a\<bar> div \<bar>b\<bar>)"

lemma quot_pos: "0 \<le> a \<Longrightarrow> 0 < b \<Longrightarrow> quot a b = a div b"
  by (cases "a = 0") (simp_all add: quot_def)

section \<open>Go maps\<close>

text \<open>
  A Go map is an association list with distinct keys.  Reading the list from left to right is
  one iteration order; where the code ranges over a map the model takes the order as an
  argument, because Go leaves it open.
\<close>

type_synonym ('k, 'v) gomap = "('k \<times> 'v) list"

definition mempty :: "('k, 'v) gomap" where "mempty = []"
definition mget :: "('k, 'v) gomap \<Rightarrow> 'k \<Rightarrow> 'v option" where "mget m k = map_of m k"
definition mput :: "('k, 'v) gomap \<Rightarrow> 'k \<Rightarrow> 'v \<Rightarrow> ('k, 'v) gomap" where
  "mput m k v = AList.update k v m"
definition mdel :: "('k, 'v) gomap \<Rightarrow> 'k \<Rightarrow> ('k, 'v) gomap" where
  "mdel m k = AList.delete k m"
definition mlen :: "('k, 'v) gomap \<Rightarrow> int" where "mlen m = int (length m)"
definition mok :: "('k, 'v) gomap \<Rightarrow> bool" where "mok m = distinct (map fst m)"

text \<open>
  The contract every component relies on when it uses a map: what a lookup returns after each
  operation, and the well-formedness that the operations keep.
\<close>

locale kv_map =
  fixes empty :: "'m"
    and get :: "'m \<Rightarrow> 'k \<Rightarrow> 'v option"
    and put :: "'m \<Rightarrow> 'k \<Rightarrow> 'v \<Rightarrow> 'm"
    and del :: "'m \<Rightarrow> 'k \<Rightarrow> 'm"
    and len :: "'m \<Rightarrow> int"
    and ok :: "'m \<Rightarrow> bool"
  assumes get_empty: "get empty k = None"
    and get_put: "get (put m k v) k' = (if k' = k then Some v else get m k')"
    and get_del: "get (del m k) k' = (if k' = k then None else get m k')"
    and ok_empty: "ok empty"
    and ok_put: "ok m \<Longrightarrow> ok (put m k v)"
    and ok_del: "ok m \<Longrightarrow> ok (del m k)"
    and finite_get: "finite (dom (get m))"
    and len_card: "ok m \<Longrightarrow> len m = int (card (dom (get m)))"
begin

lemma dom_put: "dom (get (put m k v)) = insert k (dom (get m))"
  by (auto simp: get_put split: if_splits)

lemma dom_del: "dom (get (del m k)) = dom (get m) - {k}"
  by (auto simp: get_del split: if_splits)

lemma len_put:
  assumes "ok m"
  shows "len (put m k v) = (if get m k = None then len m + 1 else len m)"
proof -
  have "len (put m k v) = int (card (insert k (dom (get m))))"
    using assms by (simp add: len_card ok_put dom_put)
  then show ?thesis
    using assms finite_get[of m]
    by (auto simp: len_card card_insert_if dom_def)
qed

lemma len_del:
  assumes "ok m"
  shows "len (del m k) = (if get m k = None then len m else len m - 1)"
proof -
  have "len (del m k) = int (card (dom (get m) - {k}))"
    using assms by (simp add: len_card ok_del dom_del)
  moreover have "k \<in> dom (get m) \<Longrightarrow> 0 < card (dom (get m))"
    using finite_get[of m] by (auto simp: card_gt_0_iff)
  ultimately show ?thesis
    using assms finite_get[of m]
    by (cases "k \<in> dom (get m)") (auto simp: len_card card_Diff_singleton of_nat_diff domIff)
qed

lemma len_nonneg: "ok m \<Longrightarrow> 0 \<le> len m"
  by (simp add: len_card)

end

interpretation gm: kv_map mempty mget mput mdel mlen mok
proof
  fix m :: "('k, 'v) gomap" and k k' v
  show "mget (mempty :: ('k, 'v) gomap) k = None" by (simp add: mget_def mempty_def)
  show "mget (mput m k v) k' = (if k' = k then Some v else mget m k')"
    by (simp add: mget_def mput_def update_conv')
  show "mget (mdel m k) k' = (if k' = k then None else mget m k')"
    by (simp add: mget_def mdel_def delete_conv')
  show "mok (mempty :: ('k, 'v) gomap)" by (simp add: mok_def mempty_def)
  show "mok m \<Longrightarrow> mok (mput m k v)" by (simp add: mok_def mput_def distinct_update)
  show "mok m \<Longrightarrow> mok (mdel m k)" by (simp add: mok_def mdel_def distinct_delete)
  have m: "mget m = map_of m" by (rule ext) (simp add: mget_def)
  show "finite (dom (mget m))" by (simp add: m finite_dom_map_of)
  show "mok m \<Longrightarrow> mlen m = int (card (dom (mget m)))"
    using distinct_card[of "map fst m"]
    by (simp add: mok_def mlen_def m dom_map_of_conv_image_fst)
qed

lemmas mget_simps [simp] = gm.get_empty gm.get_put gm.get_del
lemmas mok_simps [simp] = gm.ok_empty gm.ok_put gm.ok_del

lemma mget_Some_in: "mget m k = Some v \<Longrightarrow> (k, v) \<in> set m"
  by (simp add: mget_def map_of_SomeD)

lemma mget_iff_in: "mok m \<Longrightarrow> (k, v) \<in> set m \<longleftrightarrow> mget m k = Some v"
  by (simp add: mget_def mok_def map_of_eq_Some_iff)

lemma mlen_mempty [simp]: "mlen mempty = 0"
  by (simp add: mlen_def mempty_def)

section \<open>Strings\<close>

text \<open>\<open>strings.TrimPrefix\<close> and \<open>strings.TrimSuffix\<close> of the standard library.\<close>

definition trim_prefix :: "string \<Rightarrow> string \<Rightarrow> string" where
  "trim_prefix p s = (if take (length p) s = p then drop (length p) s else s)"

definition trim_suffix :: "string \<Rightarrow> string \<Rightarrow> string" where
  "trim_suffix p s = rev (trim_prefix (rev p) (rev s))"

text \<open>\<open>strings.TrimSpace\<close> on ASCII text.\<close>

definition is_space :: "char \<Rightarrow> bool" where
  "is_space c \<longleftrightarrow> c \<in> set [CHR '' '', CHR 0x09, CHR 0x0A, CHR 0x0B, CHR 0x0C, CHR 0x0D]"

definition trim_space :: "string \<Rightarrow> string" where
  "trim_space s = rev (dropWhile is_space (rev (dropWhile is_space s)))"

lemma trim_prefix_append [simp]: "trim_prefix p (p @ s) = s"
  by (simp add: trim_prefix_def)

section \<open>Hexadecimal text\<close>

definition hexdigit :: "nat \<Rightarrow> char" where
  "hexdigit n = ''0123456789abcdef'' ! n"

definition hexvalue :: "char \<Rightarrow> nat option" where
  "hexvalue ch =
     (let c = (of_char ch :: nat) in
      if 48 \<le> c \<and> c \<le> 57 then Some (c - 48)
      else if 97 \<le> c \<and> c \<le> 102 then Some (c - 87)
      else if 65 \<le> c \<and> c \<le> 70 then Some (c - 55)
      else None)"

lemma all_lt_16: "(n :: nat) < 16 \<longleftrightarrow>
    n \<in> {0, 1, 2, 3, 4, 5, 6, 7, 8, 9, 10, 11, 12, 13, 14, 15}"
  by simp presburger

lemma hexvalue_hexdigit [simp]: "n < 16 \<Longrightarrow> hexvalue (hexdigit n) = Some n"
  unfolding all_lt_16 by (elim insertE emptyE) (simp_all add: hexvalue_def hexdigit_def)

lemma hexvalue_less: "hexvalue c = Some n \<Longrightarrow> n < 16"
  by (auto simp: hexvalue_def Let_def split: if_splits)

lemma hexdigit_neq [simp]:
  "n < 16 \<Longrightarrow> hexdigit n \<noteq> CHR ''x''" "n < 16 \<Longrightarrow> hexdigit n \<noteq> CHR ''X''"
  "n < 16 \<Longrightarrow> hexdigit n \<noteq> CHR ''-''" "n < 16 \<Longrightarrow> hexdigit n \<noteq> CHR ''+''"
  unfolding all_lt_16 by (elim insertE emptyE; simp add: hexdigit_def)+

text \<open>\<open>hex.EncodeToString\<close> and \<open>hex.DecodeString\<close>, with the two errors of the latter.\<close>

datatype hex_error = InvalidByte char | OddLength

fun hex_encode :: "byte list \<Rightarrow> string" where
  "hex_encode [] = []"
| "hex_encode (b # bs) =
     hexdigit (unat b div 16) # hexdigit (unat b mod 16) # hex_encode bs"

fun hex_decode :: "string \<Rightarrow> hex_error + byte list" where
  "hex_decode [] = Inr []"
| "hex_decode [c] = (if hexvalue c = None then Inl (InvalidByte c) else Inl OddLength)"
| "hex_decode (c # d # cs) =
     (case hexvalue c of None \<Rightarrow> Inl (InvalidByte c)
      | Some h \<Rightarrow> (case hexvalue d of None \<Rightarrow> Inl (InvalidByte d)
        | Some l \<Rightarrow> (case hex_decode cs of Inl e \<Rightarrow> Inl e
          | Inr bs \<Rightarrow> Inr (word_of_nat (16 * h + l) # bs))))"

lemma unat_byte_less [simp]: "unat (b :: byte) div 16 < 16"
proof -
  have "unat b < 2 ^ 8" using unsigned_less[of b] by simp
  then show ?thesis by simp
qed

lemma hex_decode_encode [simp]: "hex_decode (hex_encode bs) = Inr bs"
  by (induction bs) simp_all

lemma length_hex_encode [simp]: "length (hex_encode bs) = 2 * length bs"
  by (induction bs) simp_all

lemma hex_decode_length: "hex_decode s = Inr bs \<Longrightarrow> length s = 2 * length bs"
  by (induction s arbitrary: bs rule: hex_decode.induct)
     (auto split: option.splits sum.splits if_splits)

lemma hex_encode_no_x [simp]: "take 2 (hex_encode bs) \<noteq> ''0x''"
  by (cases bs) auto

section \<open>Integers as hexadecimal text\<close>

text \<open>\<open>(*big.Int).Text(16)\<close>: a minus sign for a negative number, no leading zeros.\<close>

fun hex_of_nat :: "nat \<Rightarrow> string" where
  "hex_of_nat n = (if n < 16 then [hexdigit n] else hex_of_nat (n div 16) @ [hexdigit (n mod 16)])"

declare hex_of_nat.simps [simp del]

definition text16 :: "int \<Rightarrow> string" where
  "text16 i = (if i < 0 then CHR ''-'' # hex_of_nat (nat (- i)) else hex_of_nat (nat i))"

text \<open>
  \<open>(*big.Int).SetString(s, 16)\<close>: an optional sign, then at least one digit and nothing else.
\<close>

fun hex_digits :: "nat \<Rightarrow> string \<Rightarrow> nat option" where
  "hex_digits acc [] = Some acc"
| "hex_digits acc (c # cs) =
     (case hexvalue c of None \<Rightarrow> None | Some d \<Rightarrow> hex_digits (16 * acc + d) cs)"

definition hex_nat :: "string \<Rightarrow> nat option" where
  "hex_nat s = (if s = [] then None else hex_digits 0 s)"

definition set_string16 :: "string \<Rightarrow> int option" where
  "set_string16 s =
     (case s of
        [] \<Rightarrow> None
      | c # cs \<Rightarrow>
          if c = CHR ''-'' then map_option (\<lambda>n. - int n) (hex_nat cs)
          else if c = CHR ''+'' then map_option int (hex_nat cs)
          else map_option int (hex_nat s))"

lemma hex_digits_append:
  "hex_digits acc (s @ t) = (case hex_digits acc s of None \<Rightarrow> None | Some n \<Rightarrow> hex_digits n t)"
  by (induction s arbitrary: acc) (auto split: option.splits)

lemma hex_of_nat_not_Nil [simp]: "hex_of_nat n \<noteq> []"
  by (subst hex_of_nat.simps) simp

lemma hex_digits_hex_of_nat: "hex_digits 0 (hex_of_nat n) = Some n"
proof (induction n rule: hex_of_nat.induct)
  case (1 n)
  show ?case
  proof (cases "n < 16")
    case True
    then show ?thesis by (simp add: hex_of_nat.simps[of n])
  next
    case False
    then show ?thesis
      using 1 by (simp add: hex_of_nat.simps[of n] hex_digits_append)
  qed
qed

lemma hex_nat_hex_of_nat [simp]: "hex_nat (hex_of_nat n) = Some n"
  by (simp add: hex_nat_def hex_digits_hex_of_nat)

lemma hd_hex_of_nat: "\<exists>d < 16. hd (hex_of_nat n) = hexdigit d"
proof (induction n rule: hex_of_nat.induct)
  case (1 n)
  then show ?case
    by (cases "n < 16") (auto simp: hex_of_nat.simps[of n] hd_append)
qed

lemma hex_of_nat_Cons: "hex_of_nat n = c # cs \<Longrightarrow> \<exists>d < 16. c = hexdigit d"
  using hd_hex_of_nat[of n] by auto

lemma set_string16_text16 [simp]: "set_string16 (text16 i) = Some i"
proof (cases "i < 0")
  case True
  then show ?thesis by (simp add: text16_def set_string16_def)
next
  case False
  then obtain c cs where c: "hex_of_nat (nat i) = c # cs"
    by (cases "hex_of_nat (nat i)") auto
  then have "c \<noteq> CHR ''-''" "c \<noteq> CHR ''+''"
    using hex_of_nat_Cons[OF c] by auto
  moreover have "hex_nat (c # cs) = Some (nat i)"
    using hex_nat_hex_of_nat[of "nat i"] by (simp add: c)
  ultimately show ?thesis
    using False by (simp add: text16_def set_string16_def c)
qed

section \<open>Big-endian byte strings\<close>

text \<open>
  \<open>(*big.Int).Bytes\<close> (absolute value, no leading zeros), \<open>(*big.Int).SetBytes\<close>,
  \<open>common.LeftPadBytes\<close> (a longer input is returned as it is), and \<open>FillBytes\<close>.
\<close>

fun be_bytes :: "nat \<Rightarrow> byte list" where
  "be_bytes n = (if n = 0 then [] else be_bytes (n div 256) @ [word_of_nat n])"

declare be_bytes.simps [simp del]

definition be_value :: "byte list \<Rightarrow> nat" where
  "be_value bs = foldl (\<lambda>acc b. 256 * acc + unat b) 0 bs"

definition left_pad :: "byte list \<Rightarrow> nat \<Rightarrow> byte list" where
  "left_pad bs n = replicate (n - length bs) 0 @ bs"

lemma be_value_Nil [simp]: "be_value [] = 0"
  by (simp add: be_value_def)

lemma be_value_snoc: "be_value (bs @ [b]) = 256 * be_value bs + unat b"
  by (simp add: be_value_def)

lemma be_value_be_bytes [simp]: "be_value (be_bytes n) = n"
proof (induction n rule: be_bytes.induct)
  case (1 n)
  show ?case
  proof (cases "n = 0")
    case True
    then show ?thesis by (simp add: be_bytes.simps[of 0])
  next
    case False
    have "unat (word_of_nat n :: byte) = n mod 256"
      by (simp add: unat_of_nat)
    with False 1 show ?thesis
      by (simp add: be_bytes.simps[of n] be_value_snoc)
  qed
qed

lemma foldl_be_zeros:
  "foldl (\<lambda>acc b. 256 * acc + unat (b :: byte)) 0 (replicate k 0) = (0 :: nat)"
  by (induction k) simp_all

lemma be_value_left_pad [simp]: "be_value (left_pad bs n) = be_value bs"
  by (simp add: be_value_def left_pad_def foldl_be_zeros)

lemma be_bytes_length: "n < 256 ^ k \<Longrightarrow> length (be_bytes n) \<le> k"
proof (induction n arbitrary: k rule: be_bytes.induct)
  case (1 n)
  show ?case
  proof (cases "n = 0")
    case True
    then show ?thesis by (simp add: be_bytes.simps[of 0])
  next
    case False
    then obtain j where k: "k = Suc j" using 1(2) by (cases k) auto
    have "n div 256 < 256 ^ j"
      using 1(2) k by (simp add: less_mult_imp_div_less mult.commute)
    with 1(1)[of j] False k show ?thesis
      by (simp add: be_bytes.simps[of n])
  qed
qed

lemma length_left_pad: "length (left_pad bs n) = max n (length bs)"
  by (simp add: left_pad_def)

lemma length_left_pad_be_bytes: "n < 256 ^ k \<Longrightarrow> length (left_pad (be_bytes n) k) = k"
  using be_bytes_length[of n k] by (simp add: length_left_pad)

lemma left_pad_inject:
  "left_pad (be_bytes m) k = left_pad (be_bytes n) k \<Longrightarrow> m = n"
  by (metis be_value_be_bytes be_value_left_pad)

section \<open>Lists\<close>

lemma sum_nth_distinct_less:
  "distinct (map f xs) \<Longrightarrow> (\<forall>x \<in> set xs. f x < (n :: nat)) \<Longrightarrow> length xs \<le> n"
proof -
  assume d: "distinct (map f xs)" and b: "\<forall>x \<in> set xs. f x < n"
  have "length xs = card (set (map f xs))" using d distinct_card[of "map f xs"] by simp
  also have "\<dots> \<le> card {..<n}" using b by (intro card_mono) auto
  finally show ?thesis by simp
qed

end
