(* ===== verification/Field_Poly.thy ===== *)
theory Field_Poly
  imports Prelude
begin

text \<open>
  The algebra behind threshold signing, over an arbitrary field: evaluation of the dealing
  polynomial, interpolation at zero, and a small concrete field used to show that the laws
  assumed of the pairing library can hold.
\<close>

section \<open>Polynomials as coefficient lists\<close>

text \<open>\<open>peval a x\<close> is \<open>a0 + a1 x + a2 x^2 + \<dots>\<close>, by Horner's rule.\<close>

fun peval :: "'a::comm_ring_1 list \<Rightarrow> 'a \<Rightarrow> 'a" where
  "peval [] x = 0"
| "peval (c # cs) x = c + x * peval cs x"

lemma peval_0: "peval (c # cs) 0 = c"
  by simp

text \<open>Synthetic division: \<open>a(x) = a(r) + (x - r) q(x)\<close> with \<open>q\<close> one coefficient shorter.\<close>

fun pquot :: "'a::comm_ring_1 list \<Rightarrow> 'a \<Rightarrow> 'a list" where
  "pquot [] r = []"
| "pquot [c] r = []"
| "pquot (c # d # cs) r = peval (d # cs) r # pquot (d # cs) r"

lemma peval_pquot: "peval a x = peval a r + (x - r) * peval (pquot a r) x"
proof (induction a r rule: pquot.induct)
  case (3 c d cs r)
  let ?P = "peval (d # cs)" and ?Q = "peval (pquot (d # cs) r) x"
  have "peval (c # d # cs) x = c + x * ?P x" by simp
  also have "\<dots> = c + r * ?P r + (x - r) * (?P r + x * ?Q)"
    by (subst "3.IH") (simp add: algebra_simps)
  also have "\<dots> = peval (c # d # cs) r + (x - r) * peval (pquot (c # d # cs) r) x" by simp
  finally show ?case .
qed simp_all

lemma length_pquot [simp]: "length (pquot a r) = length a - 1"
  by (induction a r rule: pquot.induct) simp_all

section \<open>Interpolation at zero\<close>

text \<open>
  The value at zero of the polynomial of least degree through the given points, in Newton's
  form: take one point out, divide the differences of the others by the distance to it, and
  recurse.
\<close>

function interp0 :: "('a::field \<times> 'a) list \<Rightarrow> 'a" where
  "interp0 [] = 0"
| "interp0 ((x, y) # ps) =
     y - x * interp0 (map (\<lambda>p. (fst p, (snd p - y) / (fst p - x))) ps)"
  by pat_completeness auto
termination
  by (relation "measure length") auto

theorem interp0_correct:
  assumes "distinct xs" and "length a \<le> length xs" and "a \<noteq> []"
  shows "interp0 (map (\<lambda>x. (x, peval a x)) xs) = peval a 0"
  using assms
proof (induction xs arbitrary: a)
  case Nil
  then show ?case by simp
next
  case (Cons r xs)
  let ?q = "pquot a r"
  have quot: "(peval a x - peval a r) / (x - r) = peval ?q x" if "x \<in> set xs" for x
  proof -
    from that Cons.prems(1) have "x - r \<noteq> 0" by auto
    then show ?thesis using peval_pquot[of a x r] by simp
  qed
  have pts: "map (\<lambda>p. (fst p, (snd p - peval a r) / (fst p - r))) (map (\<lambda>x. (x, peval a x)) xs)
      = map (\<lambda>x. (x, peval ?q x)) xs"
    by (simp add: quot)
  have IH: "interp0 (map (\<lambda>x. (x, peval ?q x)) xs) = peval ?q 0"
  proof (cases "?q = []")
    case True
    have zero: "interp0 (map (\<lambda>x. (x, 0 :: 'a)) ys) = 0" for ys
      by (induction ys) (simp_all add: comp_def)
    from True show ?thesis by (simp add: zero)
  next
    case False
    have "length ?q \<le> length xs" using Cons.prems(2) by simp
    with False Cons.prems(1) show ?thesis by (intro Cons.IH) simp_all
  qed
  have "interp0 (map (\<lambda>x. (x, peval a x)) (r # xs)) = peval a r - r * peval ?q 0"
    by (simp only: list.map interp0.simps pts IH)
  also have "\<dots> = peval a 0"
    using peval_pquot[of a 0 r] by (simp add: algebra_simps)
  finally show ?case .
qed

section \<open>The field with eleven elements\<close>

text \<open>
  A prime field small enough to compute with by hand and large enough for the nine operators of
  the deployed group.  It is used only to exhibit concrete instances.
\<close>

typedef gf11 = "{0 ..< 11 :: int}" morphisms gf_rep gf_abs
  by (rule exI[of _ 0]) simp

setup_lifting type_definition_gf11

instantiation gf11 :: comm_ring_1
begin
lift_definition zero_gf11 :: gf11 is 0 by simp
lift_definition one_gf11 :: gf11 is 1 by simp
lift_definition plus_gf11 :: "gf11 \<Rightarrow> gf11 \<Rightarrow> gf11" is "\<lambda>a b. (a + b) mod 11" by simp
lift_definition uminus_gf11 :: "gf11 \<Rightarrow> gf11" is "\<lambda>a. (- a) mod 11" by simp
lift_definition minus_gf11 :: "gf11 \<Rightarrow> gf11 \<Rightarrow> gf11" is "\<lambda>a b. (a - b) mod 11" by simp
lift_definition times_gf11 :: "gf11 \<Rightarrow> gf11 \<Rightarrow> gf11" is "\<lambda>a b. (a * b) mod 11" by simp
instance
proof
  fix a b c :: gf11
  show "a + b + c = a + (b + c)" by transfer (simp add: mod_simps algebra_simps)
  show "a + b = b + a" by transfer (simp add: algebra_simps)
  show "0 + a = a" by transfer simp
  show "- a + a = 0" by transfer (simp add: mod_simps)
  show "a - b = a + - b" by transfer (simp add: mod_simps)
  show "a * b * c = a * (b * c)" by transfer (simp add: mod_simps algebra_simps)
  show "a * b = b * a" by transfer (simp add: algebra_simps)
  show "1 * a = a" by transfer simp
  show "(a + b) * c = a * c + b * c" by transfer (simp add: mod_simps algebra_simps)
  show "(0 :: gf11) \<noteq> 1" by transfer simp
qed
end

text \<open>The inverse is the ninth power, by Fermat; eleven cases are checked one by one.\<close>

lemma inverse_mod_11: "0 \<le> a \<Longrightarrow> a < 11 \<Longrightarrow> a \<noteq> 0 \<Longrightarrow> a ^ 9 mod 11 * a mod 11 = (1 :: int)"
proof -
  assume "0 \<le> a" "a < 11" "a \<noteq> 0"
  then have "a \<in> {1, 2, 3, 4, 5, 6, 7, 8, 9, 10}" by simp presburger
  then show ?thesis by auto
qed

instantiation gf11 :: field
begin
lift_definition inverse_gf11 :: "gf11 \<Rightarrow> gf11" is "\<lambda>a. a ^ 9 mod 11" by simp
definition divide_gf11 :: "gf11 \<Rightarrow> gf11 \<Rightarrow> gf11" where "divide_gf11 a b = a * inverse b"
instance
proof
  fix a b :: gf11
  show "a \<noteq> 0 \<Longrightarrow> inverse a * a = 1" by transfer (use inverse_mod_11 in auto)
  show "a div b = a * inverse b" by (simp add: divide_gf11_def)
  show "inverse (0 :: gf11) = 0" by transfer simp
qed
end

definition gf_of_int :: "int \<Rightarrow> gf11" where "gf_of_int i = gf_abs (i mod 11)"

lemma gf_rep_of_nat: "gf_rep (of_nat n) = int n mod 11"
  by (induction n) (simp_all add: zero_gf11.rep_eq one_gf11.rep_eq plus_gf11.rep_eq mod_simps
      add.commute)

lemma gf_rep_of_int: "gf_rep (of_int i) = i mod 11"
proof (cases i)
  case (nonneg n)
  then show ?thesis by (simp add: gf_rep_of_nat)
next
  case (neg n)
  then have "gf_rep (of_int i) = gf_rep (- of_nat (Suc n))" by simp
  also have "\<dots> = (- (int (Suc n) mod 11)) mod 11"
    by (simp only: uminus_gf11.rep_eq gf_rep_of_nat)
  also have "\<dots> = i mod 11" using neg by (simp add: mod_simps)
  finally show ?thesis .
qed

lemma gf_of_int_eq: "(of_int i :: gf11) = of_int j \<longleftrightarrow> i mod 11 = j mod 11"
  by (metis gf_rep_inject gf_rep_of_int)

lemma gf_numeral_eq [simp]:
  "(numeral m :: gf11) = numeral n \<longleftrightarrow> (numeral m :: int) mod 11 = numeral n mod 11"
  "(numeral m :: gf11) = 0 \<longleftrightarrow> (numeral m :: int) mod 11 = 0"
  "0 = (numeral m :: gf11) \<longleftrightarrow> (numeral m :: int) mod 11 = 0"
  using gf_of_int_eq[of "numeral m" "numeral n"] gf_of_int_eq[of "numeral m" 0] by auto

lemma gf_inj_on: "inj_on (of_int :: int \<Rightarrow> gf11) {0..10}"
  by (auto simp: inj_on_def gf_of_int_eq)

end
