(* ===== verification/Kyber.thy ===== *)
theory Kyber
  imports Field_Poly
begin

text \<open>
  The pairing library the node is built on (drand/kyber: \<open>pairing/bn254\<close> and \<open>share\<close>) is not
  part of the repository.  It enters the model as a record of operations, an argument of every
  definition that uses it, and what the code relies on is stated as named laws: the documented
  behaviour of a pairing, of the public polynomial, of Lagrange recovery in the exponent and of
  the point encodings.  The last section gives a concrete instance that satisfies all of them.
\<close>

section \<open>The operations used\<close>

text \<open>
  \<open>'s\<close> is the scalar field, \<open>'g1\<close>, \<open>'g2\<close>, \<open>'gt\<close> the groups.  An encoding that returns an error
  in Go returns \<open>None\<close>.  A \<open>share.PubShare\<close> is a pair of its index and its value, where the value
  is a Go interface and may be nil.
\<close>

record ('s, 'g1, 'g2, 'gt) kyber =
  hash_g1 :: "string \<Rightarrow> byte list \<Rightarrow> 'g1"
  mul_g1 :: "'s \<Rightarrow> 'g1 \<Rightarrow> 'g1"
  base_g2 :: "'g2"
  mul_g2 :: "'s \<Rightarrow> 'g2 \<Rightarrow> 'g2"
  pairing :: "'g1 \<Rightarrow> 'g2 \<Rightarrow> 'gt"
  marshal_g1 :: "'g1 \<Rightarrow> byte list option"
  unmarshal_g1 :: "byte list \<Rightarrow> 'g1 option"
  marshal_g2 :: "'g2 \<Rightarrow> byte list option"
  unmarshal_g2 :: "byte list \<Rightarrow> 'g2 option"
  marshal_scalar :: "'s \<Rightarrow> byte list option"
  unmarshal_scalar :: "byte list \<Rightarrow> 's option"
  scalar_of_bytes :: "byte list \<Rightarrow> 's"
  pubpoly_eval :: "'g2 \<Rightarrow> 'g2 list \<Rightarrow> int \<Rightarrow> 'g2"
  recover_commit :: "(int \<times> 'g1 option) list \<Rightarrow> int \<Rightarrow> int \<Rightarrow> string + 'g1"

section \<open>The laws relied on\<close>

text \<open>A scalar may be moved across the pairing, and pairing with the generator is injective.\<close>

definition pairing_bilinear :: "('s, 'g1, 'g2, 'gt) kyber \<Rightarrow> bool" where
  "pairing_bilinear K \<longleftrightarrow>
     (\<forall>k h. pairing K (mul_g1 K k h) (base_g2 K) = pairing K h (mul_g2 K k (base_g2 K)))"

definition pairing_nondegenerate :: "('s, 'g1, 'g2, 'gt) kyber \<Rightarrow> bool" where
  "pairing_nondegenerate K \<longleftrightarrow>
     (\<forall>a b. pairing K a (base_g2 K) = pairing K b (base_g2 K) \<longrightarrow> a = b)"

text \<open>
  The public commitments of the dealing polynomial \<open>a\<close>, and \<open>PubPoly.Eval\<close>: share \<open>i\<close> lives at
  the abscissa \<open>i + 1\<close>.
\<close>

definition commits_of :: "('s, 'g1, 'g2, 'gt) kyber \<Rightarrow> 's list \<Rightarrow> 'g2 list" where
  "commits_of K a = map (\<lambda>c. mul_g2 K c (base_g2 K)) a"

definition share_at :: "'s::field list \<Rightarrow> int \<Rightarrow> 's" where
  "share_at a i = peval a (of_int (i + 1))"

definition pubpoly_law :: "('s::field, 'g1, 'g2, 'gt) kyber \<Rightarrow> bool" where
  "pubpoly_law K \<longleftrightarrow>
     (\<forall>a i. 0 \<le> i \<longrightarrow>
        pubpoly_eval K (base_g2 K) (commits_of K a) i = mul_g2 K (share_at a i) (base_g2 K))"

text \<open>
  \<open>share.RecoverCommit\<close>: from at least \<open>t\<close> shares with distinct indices below \<open>n\<close>, all of them
  on one polynomial with \<open>t\<close> coefficients, it returns the value at zero.  The abscissae
  \<open>0 \<dots> n\<close> must be different scalars.
\<close>

definition small_group :: "('s::field, 'g1, 'g2, 'gt) kyber \<Rightarrow> int \<Rightarrow> bool" where
  "small_group K n \<longleftrightarrow> inj_on (of_int :: int \<Rightarrow> 's) {0..n}"

definition on_polynomial ::
  "('s::field, 'g1, 'g2, 'gt) kyber \<Rightarrow> 's list \<Rightarrow> 'g1 \<Rightarrow> int \<Rightarrow> int \<times> 'g1 option \<Rightarrow> bool" where
  "on_polynomial K a h n sh \<longleftrightarrow>
     0 \<le> fst sh \<and> fst sh < n \<and> snd sh = Some (mul_g1 K (share_at a (fst sh)) h)"

definition recover_law :: "('s::field, 'g1, 'g2, 'gt) kyber \<Rightarrow> bool" where
  "recover_law K \<longleftrightarrow>
     (\<forall>a h shares t n.
        a \<noteq> [] \<and> int (length a) = t \<and> small_group K n \<and>
        distinct (map fst shares) \<and> t \<le> int (length shares) \<and>
        (\<forall>sh \<in> set shares. on_polynomial K a h n sh) \<longrightarrow>
        recover_commit K shares t n = Inr (mul_g1 K (peval a 0) h))"

text \<open>A G1 point marshals to 64 bytes that parse back to it.\<close>

definition g1_codec :: "('s, 'g1, 'g2, 'gt) kyber \<Rightarrow> bool" where
  "g1_codec K \<longleftrightarrow>
     (\<forall>p. \<exists>raw. marshal_g1 K p = Some raw \<and> length raw = 64 \<and> unmarshal_g1 K raw = Some p)"

text \<open>All laws together, as the theorems about signing use them.\<close>

definition kyber_laws :: "('s::field, 'g1, 'g2, 'gt) kyber \<Rightarrow> bool" where
  "kyber_laws K \<longleftrightarrow> pairing_bilinear K \<and> pairing_nondegenerate K \<and> pubpoly_law K \<and>
     recover_law K \<and> g1_codec K"

lemma recover_lawD:
  "recover_law K \<Longrightarrow> a \<noteq> [] \<Longrightarrow> int (length a) = t \<Longrightarrow> small_group K n \<Longrightarrow>
   distinct (map fst shares) \<Longrightarrow> t \<le> int (length shares) \<Longrightarrow>
   (\<forall>sh \<in> set shares. on_polynomial K a h n sh) \<Longrightarrow>
   recover_commit K shares t n = Inr (mul_g1 K (peval a 0) h)"
  by (auto simp: recover_law_def)

section \<open>A concrete instance\<close>

text \<open>
  All groups are the field with eleven elements, written additively, and the pairing is the
  product.  Recovery interpolates at zero.  A point is encoded as one byte, padded to 64.
\<close>

definition encode64 :: "gf11 \<Rightarrow> byte list" where
  "encode64 p = word_of_int (gf_rep p) # replicate 63 0"

definition decode64 :: "byte list \<Rightarrow> gf11 option" where
  "decode64 raw =
     (if length raw = 64 \<and> tl raw = replicate 63 0 \<and> uint (hd raw) < 11
      then Some (gf_of_int (uint (hd raw))) else None)"

fun exponents :: "(int \<times> gf11 option) list \<Rightarrow> (gf11 \<times> gf11) list" where
  "exponents [] = []"
| "exponents ((i, None) # shares) = exponents shares"
| "exponents ((i, Some v) # shares) = (of_int (i + 1), v) # exponents shares"

definition small_kyber :: "(gf11, gf11, gf11, gf11) kyber" where
  "small_kyber =
     \<lparr> hash_g1 = (\<lambda>dst m. of_int (int (length m) mod 10 + 1)),
       mul_g1 = (*), base_g2 = 1, mul_g2 = (*), pairing = (*),
       marshal_g1 = (\<lambda>p. Some (encode64 p)), unmarshal_g1 = decode64,
       marshal_g2 = (\<lambda>p. Some (encode64 p @ encode64 p)),
       unmarshal_g2 = (\<lambda>raw. decode64 (take 64 raw)),
       marshal_scalar = (\<lambda>s. Some (encode64 s)), unmarshal_scalar = decode64,
       scalar_of_bytes = (\<lambda>bs. of_int (int (be_value bs))),
       pubpoly_eval = (\<lambda>b cs i. peval cs (of_int (i + 1)) * b),
       recover_commit = (\<lambda>shares t n.
         if int (length (exponents shares)) < t
         then Inl ''not enough shares'' else Inr (interp0 (exponents shares))) \<rparr>"

lemma small_kyber_sel:
  "hash_g1 small_kyber dst m = of_int (int (length m) mod 10 + 1)"
  "mul_g1 small_kyber k p = k * p" "mul_g2 small_kyber k p = k * p" "base_g2 small_kyber = 1"
  "pairing small_kyber p q = p * q" "marshal_g1 small_kyber p = Some (encode64 p)"
  "unmarshal_g1 small_kyber raw = decode64 raw"
  by (simp_all add: small_kyber_def)

lemma decode64_encode64 [simp]: "decode64 (encode64 p) = Some p"
proof -
  have r: "0 \<le> gf_rep p" "gf_rep p < 11" using gf_rep[of p] by auto
  then have u: "uint (word_of_int (gf_rep p) :: byte) = gf_rep p"
    by (simp add: uint_word_of_int_eq take_bit_int_eq_self)
  show ?thesis
    using r by (simp add: decode64_def encode64_def u gf_of_int_def gf_rep_inverse)
qed

lemma length_encode64 [simp]: "length (encode64 p) = 64"
  by (simp add: encode64_def)

lemma peval_scale: "peval (map (\<lambda>c. c * h) a) x = peval a x * (h :: gf11)"
  by (induction a) (simp_all add: algebra_simps)

lemma exponents_on_polynomial:
  "(\<forall>sh \<in> set shares. on_polynomial small_kyber a h n sh) \<Longrightarrow>
   exponents shares =
     map (\<lambda>x. (x, peval (map (\<lambda>c. c * h) a) x)) (map (\<lambda>sh. of_int (fst sh + 1)) shares)"
proof (induction shares rule: exponents.induct)
  case (2 i shares)
  then show ?case by (simp add: on_polynomial_def)
next
  case (3 i v shares)
  then show ?case
    by (simp add: on_polynomial_def small_kyber_def share_at_def peval_scale)
qed simp

lemma small_abscissae:
  assumes "small_group small_kyber n" and "distinct (map fst shares)"
    and "\<forall>sh \<in> set shares. 0 \<le> fst sh \<and> fst sh < n"
  shows "distinct (map (\<lambda>sh. of_int (fst sh + 1) :: gf11) shares)"
proof -
  have "inj_on (of_int :: int \<Rightarrow> gf11) ((\<lambda>i. i + 1) ` fst ` set shares)"
    using assms(1,3) unfolding small_group_def by (elim inj_on_subset) auto
  then have "inj_on (\<lambda>i. of_int (i + 1) :: gf11) (fst ` set shares)"
    by (auto simp: inj_on_def)
  then have "distinct (map (\<lambda>i. of_int (i + 1) :: gf11) (map fst shares))"
    using assms(2) by (subst distinct_map) simp
  then show ?thesis by (simp add: comp_def)
qed

lemma small_recover: "recover_law small_kyber"
  unfolding recover_law_def
proof (intro allI impI, elim conjE)
  fix a h and shares :: "(int \<times> gf11 option) list" and t n
  assume a: "a \<noteq> []" "int (length a) = t"
    and g: "small_group small_kyber n" "distinct (map fst shares)" "t \<le> int (length shares)"
    and on: "\<forall>sh \<in> set shares. on_polynomial small_kyber a h n sh"
  let ?xs = "map (\<lambda>sh. of_int (fst sh + 1) :: gf11) shares" and ?b = "map (\<lambda>c. c * h) a"
  have "distinct ?xs"
    using g(1,2) on by (intro small_abscissae) (auto simp: on_polynomial_def)
  moreover have "length ?b \<le> length ?xs" using a(2) g(3) by simp
  moreover have "?b \<noteq> []" using a(1) by simp
  ultimately have "interp0 (map (\<lambda>x. (x, peval ?b x)) ?xs) = peval ?b 0"
    by (rule interp0_correct)
  then show "recover_commit small_kyber shares t n = Inr (mul_g1 small_kyber (peval a 0) h)"
    using g(3) exponents_on_polynomial[OF on] by (simp add: small_kyber_def peval_scale)
qed

theorem small_kyber_laws: "kyber_laws small_kyber"
  unfolding kyber_laws_def
proof (intro conjI)
  show "pairing_bilinear small_kyber"
    by (simp add: pairing_bilinear_def small_kyber_def algebra_simps)
  show "pairing_nondegenerate small_kyber"
    by (simp add: pairing_nondegenerate_def small_kyber_def)
  show "pubpoly_law small_kyber"
    by (simp add: pubpoly_law_def small_kyber_def commits_of_def share_at_def)
  show "recover_law small_kyber" by (rule small_recover)
  show "g1_codec small_kyber"
    by (simp add: g1_codec_def small_kyber_def)
qed

lemma small_kyber_group: "n \<le> 10 \<Longrightarrow> small_group small_kyber n"
  unfolding small_group_def by (rule inj_on_subset[OF gf_inj_on]) auto

end
