(* ===== verification/Blsvrf.thy ===== *)
theory Blsvrf
  imports Kyber
begin

text \<open>
  The signature scheme: \<open>node/internal/blsvrf/blsvrf.go\<close>.  Definitions keep the Go names.  A
  32-byte seed is a byte list; where its length matters it is a hypothesis.
\<close>

section \<open>Definitions\<close>

definition DST :: string where
  "DST = ''RH-VRF-BN254G1_XMD:KECCAK-256_SVDW_RO_V1_''"

definition SignatureLength :: int where "SignatureLength = 64"

datatype bls_error =
    MarshalFailed
  | UnmarshalFailed
  | UnexpectedG1Length
  | UnexpectedG2Length
  | UnexpectedSignatureLength
  | SignatureNot64Bytes

text \<open>\<open>Suite()\<close> is the pairing suite with the protocol's tag as its hash domain.\<close>

definition HashSeedToPoint :: "('s, 'g1, 'g2, 'gt) kyber \<Rightarrow> byte list \<Rightarrow> 'g1" where
  "HashSeedToPoint K seed = hash_g1 K DST seed"

definition ScalarFromBytes :: "('s, 'g1, 'g2, 'gt) kyber \<Rightarrow> byte list \<Rightarrow> 's" where
  "ScalarFromBytes K b = scalar_of_bytes K b"

definition Sign :: "('s, 'g1, 'g2, 'gt) kyber \<Rightarrow> 's \<Rightarrow> byte list \<Rightarrow> 'g1" where
  "Sign K secret seed = (let h = HashSeedToPoint K seed in mul_g1 K secret h)"

definition PublicKey :: "('s, 'g1, 'g2, 'gt) kyber \<Rightarrow> 's \<Rightarrow> 'g2" where
  "PublicKey K secret = mul_g2 K secret (base_g2 K)"

definition Verify :: "('s, 'g1, 'g2, 'gt) kyber \<Rightarrow> 'g2 \<Rightarrow> byte list \<Rightarrow> 'g1 \<Rightarrow> bool" where
  "Verify K pub seed sig =
     (let left = pairing K sig (base_g2 K);
          right = pairing K (HashSeedToPoint K seed) pub
      in left = right)"

definition SerializeG1 :: "('s, 'g1, 'g2, 'gt) kyber \<Rightarrow> 'g1 \<Rightarrow> bls_error + nat list" where
  "SerializeG1 K p =
     (case marshal_g1 K p of
        None \<Rightarrow> Inl MarshalFailed
      | Some raw \<Rightarrow>
          if length raw \<noteq> 64 then Inl UnexpectedG1Length
          else Inr [be_value (take 32 raw), be_value (take 32 (drop 32 raw))])"

text \<open>\<open>raw[32:64]\<close>, \<open>raw[0:32]\<close>, \<open>raw[96:128]\<close>, \<open>raw[64:96]\<close>: the halves are swapped.\<close>

definition SerializeG2 :: "('s, 'g1, 'g2, 'gt) kyber \<Rightarrow> 'g2 \<Rightarrow> bls_error + nat list" where
  "SerializeG2 K p =
     (case marshal_g2 K p of
        None \<Rightarrow> Inl MarshalFailed
      | Some raw \<Rightarrow>
          if length raw \<noteq> 128 then Inl UnexpectedG2Length
          else Inr [be_value (take 32 (drop 32 raw)), be_value (take 32 raw),
                    be_value (take 32 (drop 96 raw)), be_value (take 32 (drop 64 raw))])"

definition SignatureBytes :: "('s, 'g1, 'g2, 'gt) kyber \<Rightarrow> 'g1 \<Rightarrow> bls_error + byte list" where
  "SignatureBytes K sig =
     (case marshal_g1 K sig of
        None \<Rightarrow> Inl MarshalFailed
      | Some raw \<Rightarrow>
          if int (length raw) \<noteq> SignatureLength then Inl UnexpectedSignatureLength else Inr raw)"

definition PointFromSignature :: "('s, 'g1, 'g2, 'gt) kyber \<Rightarrow> byte list \<Rightarrow> bls_error + 'g1" where
  "PointFromSignature K raw =
     (if int (length raw) \<noteq> SignatureLength then Inl SignatureNot64Bytes
      else case unmarshal_g1 K raw of None \<Rightarrow> Inl UnmarshalFailed | Some p \<Rightarrow> Inr p)"

definition SharePublicKey :: "('s, 'g1, 'g2, 'gt) kyber \<Rightarrow> 'g2 list \<Rightarrow> u32 \<Rightarrow> 'g2" where
  "SharePublicKey K commits index = pubpoly_eval K (base_g2 K) commits (uint index)"

definition VerifyPartial ::
  "('s, 'g1, 'g2, 'gt) kyber \<Rightarrow> 'g2 list \<Rightarrow> u32 \<Rightarrow> byte list \<Rightarrow> 'g1 \<Rightarrow> bool" where
  "VerifyPartial K commits index seed sig = Verify K (SharePublicKey K commits index) seed sig"

section \<open>Signing and verifying\<close>

lemma Verify_Sign: "pairing_bilinear K \<Longrightarrow> Verify K (PublicKey K sk) seed (Sign K sk seed)"
  by (simp add: Verify_def PublicKey_def Sign_def pairing_bilinear_def Let_def)

lemma Verify_unique:
  "pairing_nondegenerate K \<Longrightarrow> Verify K pub seed s1 \<Longrightarrow> Verify K pub seed s2 \<Longrightarrow> s1 = s2"
  by (metis Verify_def pairing_nondegenerate_def)

lemma Verify_iff:
  "pairing_bilinear K \<Longrightarrow> pairing_nondegenerate K \<Longrightarrow>
   Verify K (PublicKey K sk) seed sig \<longleftrightarrow> sig = Sign K sk seed"
  by (auto intro: Verify_Sign Verify_unique)

lemma SharePublicKey_commits:
  "pubpoly_law K \<Longrightarrow> SharePublicKey K (commits_of K a) i = PublicKey K (share_at a (uint i))"
  by (simp add: SharePublicKey_def PublicKey_def pubpoly_law_def)

text \<open>
  The partial signature of operator \<open>i\<close> is the one point that passes the check against the
  public commitments: the operator's own signature under its share.
\<close>

lemma VerifyPartial_iff:
  assumes "kyber_laws K"
  shows "VerifyPartial K (commits_of K a) i seed sig \<longleftrightarrow> sig = Sign K (share_at a (uint i)) seed"
  using assms
  by (simp add: kyber_laws_def VerifyPartial_def SharePublicKey_commits Verify_iff)

lemma commits_head: "a \<noteq> [] \<Longrightarrow> hd (commits_of K a) = PublicKey K (peval a 0)"
  by (cases a) (simp_all add: commits_of_def PublicKey_def)

lemma Sign_small: "Sign small_kyber k seed = k * of_int (int (length seed) mod 10 + 1)"
  by (simp add: Sign_def HashSeedToPoint_def small_kyber_sel)

section \<open>Encodings\<close>

lemma SignatureBytes_ok:
  assumes "g1_codec K"
  obtains raw where "SignatureBytes K p = Inr raw" "length raw = 64"
    "PointFromSignature K raw = Inr p"
proof -
  from assms obtain raw where
    "marshal_g1 K p = Some raw" "length raw = 64" "unmarshal_g1 K raw = Some p"
    unfolding g1_codec_def by blast
  then show ?thesis
    by (intro that[of raw]) (simp_all add: SignatureBytes_def PointFromSignature_def
        SignatureLength_def)
qed

lemma SignatureBytes_length: "SignatureBytes K p = Inr raw \<Longrightarrow> length raw = 64"
  by (auto simp: SignatureBytes_def SignatureLength_def split: option.splits if_splits)

lemma PointFromSignature_length: "PointFromSignature K raw = Inr p \<Longrightarrow> length raw = 64"
  by (auto simp: PointFromSignature_def SignatureLength_def split: if_splits)

lemma be_value_bound: "be_value bs < 256 ^ length bs"
proof (induction bs rule: rev_induct)
  case (snoc b bs)
  have "unat b < 256" using unsigned_less[of b] by simp
  moreover have "256 * be_value bs + 256 \<le> 256 * 256 ^ length bs"
    using snoc by (metis Suc_leI add.commute mult_Suc_right mult_le_mono2)
  ultimately show ?case by (simp add: be_value_snoc)
qed simp

end
