(* ===== verification/Threshold.thy ===== *)
theory Threshold
  imports Blsvrf
begin

text \<open>
  From partial signatures to the group signature: \<open>node/internal/threshold/threshold.go\<close>.
\<close>

section \<open>Definitions\<close>

text \<open>A \<open>kyber.Point\<close> is a Go interface and may be nil, hence the option.\<close>

record 'g1 partial =
  Index :: u32
  Sig :: "'g1 option"

datatype agg_error = NotEnoughPartials | DuplicateOperatorIndex | RecoverError string

text \<open>The loop of \<open>Aggregate\<close>: the indices seen so far, and the shares to hand to kyber.\<close>

fun pub_shares ::
  "(u32, bool) gomap \<Rightarrow> 'g1 partial list \<Rightarrow> agg_error + (int \<times> 'g1 option) list" where
  "pub_shares seen [] = Inr []"
| "pub_shares seen (p # ps) =
     (if mget seen (Index p) = Some True then Inl DuplicateOperatorIndex
      else case pub_shares (mput seen (Index p) True) ps of
             Inl e \<Rightarrow> Inl e
           | Inr shares \<Rightarrow> Inr ((uint (Index p), Sig p) # shares))"

definition Aggregate ::
  "('s, 'g1, 'g2, 'gt) kyber \<Rightarrow> 'g1 partial list \<Rightarrow> int \<Rightarrow> int \<Rightarrow> agg_error + 'g1" where
  "Aggregate K partials t n =
     (if int (length partials) < t then Inl NotEnoughPartials
      else case pub_shares mempty partials of
             Inl e \<Rightarrow> Inl e
           | Inr pubShares \<Rightarrow>
               (case recover_commit K pubShares t n of
                  Inl e \<Rightarrow> Inl (RecoverError e) | Inr sig \<Rightarrow> Inr sig))"

section \<open>The shares handed to the library\<close>

lemma pub_shares_distinct:
  "distinct (map Index ps) \<Longrightarrow> (\<forall>p \<in> set ps. mget seen (Index p) = None) \<Longrightarrow>
   pub_shares seen ps = Inr (map (\<lambda>p. (uint (Index p), Sig p)) ps)"
proof (induction ps arbitrary: seen)
  case (Cons p ps)
  then have "pub_shares (mput seen (Index p) True) ps = Inr (map (\<lambda>p. (uint (Index p), Sig p)) ps)"
    by (intro Cons.IH) (auto simp: image_iff)
  with Cons.prems show ?case by simp
qed simp

lemma pub_shares_seen:
  "p \<in> set ps \<Longrightarrow> mget seen (Index p) = Some True \<Longrightarrow>
   pub_shares seen ps = Inl DuplicateOperatorIndex"
proof (induction ps arbitrary: seen)
  case (Cons q ps)
  then show ?case by (cases "p = q") (auto split: sum.splits)
qed simp

lemma pub_shares_duplicate:
  "\<not> distinct (map Index ps) \<Longrightarrow> pub_shares seen ps = Inl DuplicateOperatorIndex"
proof (induction ps arbitrary: seen)
  case (Cons q ps)
  show ?case
  proof (cases "Index q \<in> Index ` set ps")
    case True
    then obtain p where "p \<in> set ps" "Index p = Index q" by auto
    then show ?thesis
      using pub_shares_seen[of p ps "mput seen (Index q) True"] by simp
  next
    case False
    with Cons show ?thesis by auto
  qed
qed simp

text \<open>
  A partial that has passed the check of \<open>blsvrf.VerifyPartial\<close> against the commitments of the
  dealing polynomial \<open>a\<close>, from an operator of a group of \<open>n\<close>.
\<close>

definition verified ::
  "('s::field, 'g1, 'g2, 'gt) kyber \<Rightarrow> 's list \<Rightarrow> byte list \<Rightarrow> int \<Rightarrow> 'g1 partial \<Rightarrow> bool" where
  "verified K a seed n p \<longleftrightarrow> uint (Index p) < n \<and>
     (\<exists>sig. Sig p = Some sig \<and> VerifyPartial K (commits_of K a) (Index p) seed sig)"

lemma verified_on_polynomial:
  "kyber_laws K \<Longrightarrow> verified K a seed n p \<Longrightarrow>
   on_polynomial K a (HashSeedToPoint K seed) n (uint (Index p), Sig p)"
  by (auto simp: verified_def on_polynomial_def VerifyPartial_iff Sign_def Let_def)

lemma Aggregate_verified:
  assumes "kyber_laws K" and "small_group K n" and "a \<noteq> []" and "int (length a) = t"
    and "distinct (map Index ps)" and "t \<le> int (length ps)"
    and "\<forall>p \<in> set ps. verified K a seed n p"
  shows "Aggregate K ps t n = Inr (Sign K (peval a 0) seed)"
proof -
  let ?sh = "map (\<lambda>p. (uint (Index p), Sig p)) ps" and ?h = "HashSeedToPoint K seed"
  have "distinct (map fst ?sh)"
    using assms(5) by (simp add: distinct_map comp_def inj_on_def flip: word_uint_eq_iff)
  moreover have "t \<le> int (length ?sh)" using assms(6) by simp
  moreover have "\<forall>sh \<in> set ?sh. on_polynomial K a ?h n sh"
    using assms(1,7) by (auto intro: verified_on_polynomial)
  ultimately have "recover_commit K ?sh t n = Inr (mul_g1 K (peval a 0) ?h)"
    using assms(1-4) by (intro recover_lawD) (auto simp: kyber_laws_def)
  then show ?thesis
    using assms(5,6) by (simp add: Aggregate_def pub_shares_distinct Sign_def)
qed

section \<open>Properties\<close>

text \<open>
  C8.  Any quorum yields the group signature.  Whatever list of partial signatures is handed to
  \<open>Aggregate\<close>, if each has passed \<open>VerifyPartial\<close>, the operator indices are different and below
  the group size, and there are at least as many as the dealing polynomial has coefficients,
  the result is the signature under the group secret \<open>a(0)\<close>, and it verifies under the group key,
  the first commitment.  Which operators signed, and in which order, does not show.
\<close>

theorem aggregate_group_signature:
  assumes "kyber_laws K" and "small_group K n" and "a \<noteq> []" and "int (length a) = t"
    and "distinct (map Index ps)" and "t \<le> int (length ps)"
    and "\<forall>p \<in> set ps. verified K a seed n p"
  shows "Aggregate K ps t n = Inr (Sign K (peval a 0) seed) \<and>
         Verify K (hd (commits_of K a)) seed (Sign K (peval a 0) seed)"
  using Aggregate_verified[OF assms] assms(1,3)
  by (simp add: commits_head Verify_Sign kyber_laws_def)

definition honest_partial ::
  "('s::field, 'g1, 'g2, 'gt) kyber \<Rightarrow> 's list \<Rightarrow> byte list \<Rightarrow> u32 \<Rightarrow> 'g1 partial" where
  "honest_partial K a seed i = \<lparr>Index = i, Sig = Some (Sign K (share_at a (uint i)) seed)\<rparr>"

lemma honest_partial_sel [simp]:
  "Index (honest_partial K a seed i) = i"
  "Sig (honest_partial K a seed i) = Some (Sign K (share_at a (uint i)) seed)"
  by (simp_all add: honest_partial_def)

lemma verified_honest:
  "kyber_laws K \<Longrightarrow> uint i < n \<Longrightarrow> verified K a seed n (honest_partial K a seed i)"
  by (simp add: verified_def VerifyPartial_iff)

lemma verified_is_honest:
  "kyber_laws K \<Longrightarrow> verified K a seed n p \<Longrightarrow> Sig p = Sig (honest_partial K a seed (Index p))"
  by (auto simp: verified_def VerifyPartial_iff)

theorem aggregate_group_signature_witness:
  "Aggregate small_kyber (map (honest_partial small_kyber [3, 5] []) [4, 0, 2]) 2 9 =
     Inr (Sign small_kyber (peval [3, 5] 0) []) \<and>
   Verify small_kyber (hd (commits_of small_kyber [3, 5])) [] (Sign small_kyber (peval [3, 5] 0) [])"
  by (rule aggregate_group_signature)
     (simp_all add: small_kyber_laws small_kyber_group verified_honest)

text \<open>
  Repeated indices are refused.  A list in which one operator index occurs twice is an
  error whatever the points are, so one operator cannot stand in for two; a list shorter than
  the threshold is an error as well.  Nothing reaches the library in either case.
\<close>

theorem aggregate_refuses:
  "Aggregate K ps t n =
     (if int (length ps) < t then Inl NotEnoughPartials
      else if \<not> distinct (map Index ps) then Inl DuplicateOperatorIndex
      else case recover_commit K (map (\<lambda>p. (uint (Index p), Sig p)) ps) t n of
             Inl e \<Rightarrow> Inl (RecoverError e) | Inr sig \<Rightarrow> Inr sig)"
  by (simp add: Aggregate_def pub_shares_duplicate pub_shares_distinct)

end
