(* ===== verification/Session.thy ===== *)
theory Session
  imports Threshold "HOL-Library.Multiset"
begin

text \<open>
  One request's collection of partial signatures: \<open>node/internal/session/session.go\<close>.  The
  mutex makes every method atomic, so a method is a function from state to result and state.
  The lemmas show what a stranger who may call \<open>Add\<close> with anything can and cannot do.
\<close>

section \<open>State\<close>

record 'g1 equivocation =
  eq_Index :: u32
  eq_Seed :: "byte list"
  First :: "'g1 option"
  Second :: "'g1 option"

record ('g1, 'g2) session =
  s_seed :: "byte list"
  s_commits :: "'g2 list"
  s_threshold :: int
  s_operators :: int
  s_partials :: "(u32, 'g1 partial) gomap"
  s_spent :: "(u32, bool) gomap"
  s_equivocation :: "'g1 equivocation option"
  s_verifications :: int

datatype session_error =
    OutsideGroup u32
  | NilSignature
  | ConflictingPartial u32
  | AttemptSpent u32
  | DoesNotVerify u32
  | TooFewPartials int int
  | AggregateFailed agg_error
  | EncodingFailed bls_error

section \<open>Operations\<close>

definition New :: "byte list \<Rightarrow> 'g2 list \<Rightarrow> int \<Rightarrow> int \<Rightarrow> ('g1, 'g2) session" where
  "New seed commits thresholdT operators =
     \<lparr> s_seed = seed, s_commits = commits, s_threshold = thresholdT, s_operators = operators,
       s_partials = mempty, s_spent = mempty, s_equivocation = None, s_verifications = 0 \<rparr>"

lemma New_sel [simp]:
  "s_seed (New seed commits t n) = seed" "s_commits (New seed commits t n) = commits"
  "s_threshold (New seed commits t n) = t" "s_operators (New seed commits t n) = n"
  "s_partials (New seed commits t n) = mempty" "s_spent (New seed commits t n) = mempty"
  "s_equivocation (New seed commits t n) = None" "s_verifications (New seed commits t n) = 0"
  by (simp_all add: New_def)

definition recordEquivocation ::
  "('g1, 'g2) session \<Rightarrow> u32 \<Rightarrow> 'g1 option \<Rightarrow> 'g1 option \<Rightarrow> ('g1, 'g2) session" where
  "recordEquivocation s index first second =
     (if s_equivocation s \<noteq> None then s
      else s\<lparr>s_equivocation := Some \<lparr>eq_Index = index, eq_Seed = s_seed s,
                                    First = first, Second = second\<rparr>\<rparr>)"

definition Add ::
  "('s, 'g1, 'g2, 'gt) kyber \<Rightarrow> ('g1, 'g2) session \<Rightarrow> 'g1 partial \<Rightarrow>
   (session_error + bool) \<times> ('g1, 'g2) session" where
  "Add K s p =
     (let i = Index p in
      if s_operators s \<le> uint i then (Inl (OutsideGroup i), s)
      else case Sig p of
        None \<Rightarrow> (Inl NilSignature, s)
      | Some sig \<Rightarrow>
         (case mget (s_partials s) i of
            Some existing \<Rightarrow>
              if Sig existing = Sig p then (Inr False, s)
              else (let s1 = recordEquivocation s i (Sig existing) (Sig p);
                        s2 = s1\<lparr>s_spent := mput (s_spent s1) i True\<rparr>
                    in (Inl (ConflictingPartial i), s2))
          | None \<Rightarrow>
              if mget (s_spent s) i = Some True then (Inl (AttemptSpent i), s)
              else (let s1 = s\<lparr>s_spent := mput (s_spent s) i True,
                               s_verifications := s_verifications s + 1\<rparr>
                    in if \<not> VerifyPartial K (s_commits s1) i (s_seed s1) sig
                       then (Inl (DoesNotVerify i), s1)
                       else (Inr True, s1\<lparr>s_partials := mput (s_partials s1) i p\<rparr>))))"

definition Verifications :: "('g1, 'g2) session \<Rightarrow> int" where
  "Verifications s = s_verifications s"

definition Collected :: "('g1, 'g2) session \<Rightarrow> int" where
  "Collected s = mlen (s_partials s)"

definition Ready :: "('g1, 'g2) session \<Rightarrow> bool" where
  "Ready s \<longleftrightarrow> s_threshold s \<le> Collected s"

definition Equivocation :: "('g1, 'g2) session \<Rightarrow> 'g1 equivocation option" where
  "Equivocation s = s_equivocation s"

definition Seed :: "('g1, 'g2) session \<Rightarrow> byte list" where
  "Seed s = s_seed s"

text \<open>
  Ranging over a Go map visits the entries in an unspecified order: \<open>order\<close> is the order this
  call happened to use.
\<close>

definition iteration_order :: "(('k, 'v) gomap \<Rightarrow> ('k, 'v) gomap) \<Rightarrow> bool" where
  "iteration_order order \<longleftrightarrow> (\<forall>m. mset (order m) = mset m)"

definition Signature ::
  "('s, 'g1, 'g2, 'gt) kyber \<Rightarrow> ((u32, 'g1 partial) gomap \<Rightarrow> (u32, 'g1 partial) gomap) \<Rightarrow>
   ('g1, 'g2) session \<Rightarrow> session_error + byte list" where
  "Signature K order s =
     (let partials = map snd (order (s_partials s)) in
      if int (length partials) < s_threshold s
      then Inl (TooFewPartials (int (length partials)) (s_threshold s))
      else case Aggregate K partials (s_threshold s) (s_operators s) of
             Inl e \<Rightarrow> Inl (AggregateFailed e)
           | Inr sig \<Rightarrow> (case SignatureBytes K sig of
                           Inl e \<Rightarrow> Inl (EncodingFailed e) | Inr raw \<Rightarrow> Inr raw))"

text \<open>A sequence of calls to \<open>Add\<close>, whoever makes them, in the order the mutex lets them in.\<close>

fun add_all ::
  "('s, 'g1, 'g2, 'gt) kyber \<Rightarrow> ('g1, 'g2) session \<Rightarrow> 'g1 partial list \<Rightarrow> ('g1, 'g2) session" where
  "add_all K s [] = s"
| "add_all K s (p # ps) = add_all K (snd (Add K s p)) ps"

lemma add_all_append: "add_all K s (ps @ qs) = add_all K (add_all K s ps) qs"
  by (induction ps arbitrary: s) simp_all

section \<open>The cases of Add\<close>

text \<open>
  The five ways a call can change the state; the proofs below go through this rule rather than
  unfold \<open>Add\<close>.
\<close>

lemma Add_cases:
  obtains
    (unchanged) e where "Add K s p = (e, s)" "e \<noteq> Inr True"
  | (conflict) existing sig where "uint (Index p) < s_operators s" "Sig p = Some sig"
      "mget (s_partials s) (Index p) = Some existing" "Sig existing \<noteq> Some sig"
      "Add K s p = (Inl (ConflictingPartial (Index p)),
         (recordEquivocation s (Index p) (Sig existing) (Some sig))
           \<lparr>s_spent := mput (s_spent s) (Index p) True\<rparr>)"
  | (forged) sig where "uint (Index p) < s_operators s" "Sig p = Some sig"
      "mget (s_partials s) (Index p) = None" "mget (s_spent s) (Index p) \<noteq> Some True"
      "\<not> VerifyPartial K (s_commits s) (Index p) (s_seed s) sig"
      "Add K s p = (Inl (DoesNotVerify (Index p)),
         s\<lparr>s_spent := mput (s_spent s) (Index p) True, s_verifications := s_verifications s + 1\<rparr>)"
  | (added) sig where "uint (Index p) < s_operators s" "Sig p = Some sig"
      "mget (s_partials s) (Index p) = None" "mget (s_spent s) (Index p) \<noteq> Some True"
      "VerifyPartial K (s_commits s) (Index p) (s_seed s) sig"
      "Add K s p = (Inr True,
         s\<lparr>s_spent := mput (s_spent s) (Index p) True, s_verifications := s_verifications s + 1,
           s_partials := mput (s_partials s) (Index p) p\<rparr>)"
proof -
  have spent: "s_spent (recordEquivocation s i f g) = s_spent s" for i f g
    by (simp add: recordEquivocation_def)
  show thesis
  proof (cases "s_operators s \<le> uint (Index p) \<or> Sig p = None")
    case True
    then show thesis
      using unchanged[of "Inl (OutsideGroup (Index p))"] unchanged[of "Inl NilSignature"]
      by (cases "s_operators s \<le> uint (Index p)") (auto simp: Add_def)
  next
    case False
    then obtain sig where lt: "uint (Index p) < s_operators s" and sig: "Sig p = Some sig" by auto
    note lts = lt sig not_le[THEN iffD2, OF lt]
    show thesis
    proof (cases "mget (s_partials s) (Index p)")
      case (Some existing)
      show thesis
      proof (cases "Sig existing = Some sig")
        case True
        with Some have "Add K s p = (Inr False, s)" by (simp add: Add_def lts)
        then show thesis by (rule unchanged) simp
      next
        case False
        with Some show thesis
          by (intro conflict[OF lt sig Some False]) (simp add: Add_def Let_def spent lts)
      qed
    next
      case None
      show thesis
      proof (cases "mget (s_spent s) (Index p) = Some True")
        case True
        with None have "Add K s p = (Inl (AttemptSpent (Index p)), s)" by (simp add: Add_def lts)
        then show thesis by (rule unchanged) simp
      next
        case fresh: False
        show thesis
        proof (cases "VerifyPartial K (s_commits s) (Index p) (s_seed s) sig")
          case True
          then show thesis
            by (intro added[OF lt sig None fresh]) (simp_all add: Add_def Let_def lts None fresh)
        next
          case False
          then show thesis
            by (intro forged[OF lt sig None fresh]) (simp_all add: Add_def Let_def lts None fresh)
        qed
      qed
    qed
  qed
qed

lemma Add_frame [simp]:
  "s_seed (snd (Add K s p)) = s_seed s" "s_commits (snd (Add K s p)) = s_commits s"
  "s_threshold (snd (Add K s p)) = s_threshold s" "s_operators (snd (Add K s p)) = s_operators s"
  by (cases rule: Add_cases[of K s p]; simp add: recordEquivocation_def)+

lemma add_all_frame [simp]:
  "s_seed (add_all K s ps) = s_seed s" "s_commits (add_all K s ps) = s_commits s"
  "s_threshold (add_all K s ps) = s_threshold s" "s_operators (add_all K s ps) = s_operators s"
  by (induction ps arbitrary: s) simp_all

section \<open>Invariant\<close>

text \<open>
  Every stored partial sits under its own index, belongs to the group and has been verified;
  whatever has been verified, successfully or not, has spent its operator's one attempt; and the
  pairings paid for are exactly the attempts spent.
\<close>

definition session_inv :: "('s, 'g1, 'g2, 'gt) kyber \<Rightarrow> ('g1, 'g2) session \<Rightarrow> bool" where
  "session_inv K s \<longleftrightarrow>
     mok (s_partials s) \<and> mok (s_spent s) \<and>
     (\<forall>i p. mget (s_partials s) i = Some p \<longrightarrow>
        Index p = i \<and> uint i < s_operators s \<and> mget (s_spent s) i = Some True \<and>
        (\<exists>sig. Sig p = Some sig \<and> VerifyPartial K (s_commits s) i (s_seed s) sig)) \<and>
     (\<forall>i v. mget (s_spent s) i = Some v \<longrightarrow> v \<and> uint i < s_operators s) \<and>
     s_verifications s = mlen (s_spent s) \<and>
     (\<forall>ev. s_equivocation s = Some ev \<longrightarrow>
        eq_Seed ev = s_seed s \<and> First ev \<noteq> Second ev \<and>
        (\<exists>f g. First ev = Some f \<and> Second ev = Some g \<and>
               VerifyPartial K (s_commits s) (eq_Index ev) (s_seed s) f))"

lemma session_inv_New: "session_inv K (New seed commits t n)"
  by (simp add: session_inv_def New_def)

lemma session_inv_Add:
  assumes "session_inv K s"
  shows "session_inv K (snd (Add K s p))"
proof (cases rule: Add_cases[of K s p])
  case (unchanged e)
  with assms show ?thesis by simp
next
  case (conflict existing sig)
  then obtain f where "mget (s_spent s) (Index p) = Some True" and "Sig existing = Some f"
    and "VerifyPartial K (s_commits s) (Index p) (s_seed s) f"
    using assms unfolding session_inv_def by blast
  with conflict assms show ?thesis
    by (auto simp: session_inv_def recordEquivocation_def gm.len_put)
next
  case (forged sig)
  then have "mget (s_spent s) (Index p) = None"
    using assms by (cases "mget (s_spent s) (Index p)") (auto simp: session_inv_def)
  with forged assms show ?thesis
    by (auto simp: session_inv_def gm.len_put)
next
  case (added sig)
  then have "mget (s_spent s) (Index p) = None"
    using assms by (cases "mget (s_spent s) (Index p)") (auto simp: session_inv_def)
  with added assms show ?thesis
    by (auto simp: session_inv_def gm.len_put)
qed

lemma session_inv_add_all: "session_inv K s \<Longrightarrow> session_inv K (add_all K s ps)"
  by (induction ps arbitrary: s) (simp_all add: session_inv_Add)

lemma session_inv_run: "session_inv K (add_all K (New seed commits t n) ps)"
  by (intro session_inv_add_all session_inv_New)

text \<open>A map from operator indices below \<open>n\<close> has at most \<open>n\<close> entries.\<close>

lemma mlen_below:
  assumes "mok m" and "\<forall>i v. mget m i = Some v \<longrightarrow> uint (i :: u32) < n"
  shows "mlen m \<le> max 0 n"
proof -
  have "uint ` dom (mget m) \<subseteq> {0 ..< n}" using assms(2) by auto
  then have "card (uint ` dom (mget m)) \<le> card {0 ..< n}" by (intro card_mono) auto
  then have "card (dom (mget m)) \<le> nat n"
    by (simp add: card_image inj_on_def flip: word_uint_eq_iff)
  then show ?thesis using gm.len_card[OF assms(1)] by simp
qed

lemma session_bounds:
  assumes "session_inv K s"
  shows "s_verifications s \<le> max 0 (s_operators s)" and "Collected s \<le> max 0 (s_operators s)"
    and "Collected s \<le> s_verifications s"
proof -
  have p: "mok (s_partials s)" "\<forall>i v. mget (s_partials s) i = Some v \<longrightarrow> uint i < s_operators s"
    and q: "mok (s_spent s)" "\<forall>i v. mget (s_spent s) i = Some v \<longrightarrow> uint i < s_operators s"
    using assms by (auto simp: session_inv_def)
  show "s_verifications s \<le> max 0 (s_operators s)"
    using mlen_below[OF q] assms by (simp add: session_inv_def)
  show "Collected s \<le> max 0 (s_operators s)"
    using mlen_below[OF p] by (simp add: Collected_def)
  have "dom (mget (s_partials s)) \<subseteq> dom (mget (s_spent s))"
    using assms by (auto simp: session_inv_def)
  then have "card (dom (mget (s_partials s))) \<le> card (dom (mget (s_spent s)))"
    by (intro card_mono gm.finite_get)
  then show "Collected s \<le> s_verifications s"
    using assms gm.len_card[OF p(1)] gm.len_card[OF q(1)]
    by (simp add: Collected_def session_inv_def)
qed

section \<open>The contract a node relies on\<close>

text \<open>
  What the node assumes of a session: an accepted share raises the count by one, anything else
  leaves it, and the count never passes the size of the group.  Consequences are proved once,
  for any collector.
\<close>

locale share_collector =
  fixes add :: "'s \<Rightarrow> 'p \<Rightarrow> ('e + bool) \<times> 's"
    and count :: "'s \<Rightarrow> int"
    and size_of :: "'s \<Rightarrow> int"
    and invar :: "'s \<Rightarrow> bool"
  assumes invar_add: "invar s \<Longrightarrow> invar (snd (add s p))"
    and count_accepted: "invar s \<Longrightarrow> fst (add s p) = Inr True \<Longrightarrow> count (snd (add s p)) = count s + 1"
    and count_other: "invar s \<Longrightarrow> fst (add s p) \<noteq> Inr True \<Longrightarrow> count (snd (add s p)) = count s"
    and count_bound: "invar s \<Longrightarrow> count s \<le> max 0 (size_of s)"
    and size_frame: "size_of (snd (add s p)) = size_of s"
begin

lemma count_mono: "invar s \<Longrightarrow> count s \<le> count (snd (add s p))"
  using count_accepted[of s p] count_other[of s p] by (cases "fst (add s p) = Inr True") auto

lemma invar_foldl: "invar s \<Longrightarrow> invar (foldl (\<lambda>s p. snd (add s p)) s ps)"
  by (induction ps arbitrary: s) (simp_all add: invar_add)

lemma count_foldl_mono: "invar s \<Longrightarrow> count s \<le> count (foldl (\<lambda>s p. snd (add s p)) s ps)"
proof (induction ps arbitrary: s)
  case (Cons p ps)
  then have "count (snd (add s p)) \<le> count (foldl (\<lambda>s p. snd (add s p)) (snd (add s p)) ps)"
    by (simp add: invar_add)
  with count_mono[OF Cons.prems, of p] show ?case by simp
qed simp

lemma size_foldl: "size_of (foldl (\<lambda>s p. snd (add s p)) s ps) = size_of s"
  by (induction ps arbitrary: s) (simp_all add: size_frame)

lemma count_foldl_bound:
  "invar s \<Longrightarrow> count (foldl (\<lambda>s p. snd (add s p)) s ps) \<le> max 0 (size_of s)"
  using count_bound[OF invar_foldl[of s ps]] by (simp add: size_foldl)

end

lemma Collected_Add:
  assumes "session_inv K s"
  shows "Collected (snd (Add K s p)) =
           (if fst (Add K s p) = Inr True then Collected s + 1 else Collected s)"
  using assms
  by (cases rule: Add_cases[of K s p])
     (auto simp: Collected_def recordEquivocation_def session_inv_def gm.len_put)

interpretation collector: share_collector "Add K" Collected s_operators "session_inv K"
  for K :: "('s, 'g1, 'g2, 'gt) kyber"
  by unfold_locales (auto simp: session_inv_Add Collected_Add session_bounds)

lemma add_all_foldl: "add_all K s ps = foldl (\<lambda>s p. snd (Add K s p)) s ps"
  by (induction ps arbitrary: s) simp_all

lemma Collected_add_all_mono: "session_inv K s \<Longrightarrow> Collected s \<le> Collected (add_all K s ps)"
  by (simp add: add_all_foldl collector.count_foldl_mono)

section \<open>What stays stored, what stays burned\<close>

lemma stored_stays:
  "mget (s_partials s) i = Some p \<Longrightarrow> mget (s_partials (add_all K s ps)) i = Some p"
proof (induction ps arbitrary: s)
  case (Cons q ps)
  from Cons.prems have "mget (s_partials (snd (Add K s q))) i = Some p"
    by (cases rule: Add_cases[of K s q]) (auto simp: recordEquivocation_def)
  then show ?case by (simp add: Cons.IH)
qed simp

definition burned :: "('g1, 'g2) session \<Rightarrow> u32 \<Rightarrow> bool" where
  "burned s i \<longleftrightarrow> mget (s_spent s) i = Some True \<and> mget (s_partials s) i = None"

lemma burned_Add: "burned s i \<Longrightarrow> burned (snd (Add K s p)) i"
  by (cases rule: Add_cases[of K s p]) (auto simp: burned_def recordEquivocation_def)

lemma burned_stays: "burned s i \<Longrightarrow> burned (add_all K s ps) i"
  by (induction ps arbitrary: s) (simp_all add: burned_Add)

definition forged ::
  "('s, 'g1, 'g2, 'gt) kyber \<Rightarrow> 'g2 list \<Rightarrow> byte list \<Rightarrow> int \<Rightarrow> 'g1 partial \<Rightarrow> bool" where
  "forged K commits seed n p \<longleftrightarrow> uint (Index p) < n \<and>
     (\<exists>sig. Sig p = Some sig \<and> \<not> VerifyPartial K commits (Index p) seed sig)"

lemma forged_burns:
  assumes "forged K (s_commits s) (s_seed s) (s_operators s) p"
    and "mget (s_partials s) (Index p) = None"
  shows "burned (snd (Add K s p)) (Index p)"
  using assms
  by (cases "mget (s_spent s) (Index p) = Some True")
     (auto simp: forged_def burned_def Add_def Let_def)

lemma forged_never_stored:
  "session_inv K s \<Longrightarrow> \<forall>p \<in> set ps. forged K (s_commits s) (s_seed s) (s_operators s) p \<Longrightarrow>
   mget (s_partials s) i = None \<Longrightarrow> mget (s_partials (add_all K s ps)) i = None"
proof (induction ps arbitrary: s)
  case (Cons p ps)
  then have "forged K (s_commits s) (s_seed s) (s_operators s) p" by simp
  then have "mget (s_partials (snd (Add K s p))) i = None"
    using Cons.prems(3)
    by (cases rule: Add_cases[of K s p]) (auto simp: forged_def recordEquivocation_def)
  with Cons show ?case by (simp add: session_inv_Add)
qed simp

lemma all_forged_burned:
  "session_inv K s \<Longrightarrow> \<forall>p \<in> set ps. forged K (s_commits s) (s_seed s) (s_operators s) p \<Longrightarrow>
   \<forall>i. mget (s_partials s) i = None \<Longrightarrow> p \<in> set ps \<Longrightarrow> burned (add_all K s ps) (Index p)"
proof (induction ps arbitrary: s)
  case (Cons q ps)
  let ?s = "snd (Add K s q)"
  have none: "\<forall>i. mget (s_partials ?s) i = None"
    using Cons.prems forged_never_stored[of K s "[q]"] by simp
  show ?case
  proof (cases "p = q")
    case True
    then have "burned ?s (Index p)" using Cons.prems forged_burns[of K s q] by simp
    then show ?thesis by (simp add: burned_stays)
  next
    case False
    then show ?thesis using Cons.prems none by (simp add: Cons.IH session_inv_Add)
  qed
qed simp

section \<open>Signing with what has been collected\<close>

lemma partials_verified:
  assumes "session_inv K s" and "s_commits s = commits_of K a" and "(i, p) \<in> set (s_partials s)"
  shows "verified K a (s_seed s) (s_operators s) p \<and> Index p = i"
  using assms by (auto simp: session_inv_def mget_iff_in verified_def)

lemma Signature_ready:
  assumes laws: "kyber_laws K" and "small_group K (s_operators s)" and a: "a \<noteq> []"
    and "int (length a) = s_threshold s" and c: "s_commits s = commits_of K a"
    and inv: "session_inv K s" and ready: "Ready s" and order: "iteration_order order"
  shows "Signature K order s =
     (case SignatureBytes K (Sign K (peval a 0) (s_seed s)) of
        Inl e \<Rightarrow> Inl (EncodingFailed e) | Inr raw \<Rightarrow> Inr raw)"
proof -
  let ?m = "s_partials s" and ?ps = "map snd (order (s_partials s))"
  have ms: "mset (order ?m) = mset ?m" using order by (simp add: iteration_order_def)
  then have mem: "set (order ?m) = set ?m" and len: "length (order ?m) = length ?m"
    by (metis set_mset_mset, metis size_mset)
  have ver: "\<forall>p \<in> set ?ps. verified K a (s_seed s) (s_operators s) p"
    using partials_verified[OF inv c] mem by auto
  have idx: "map Index ?ps = map fst (order ?m)"
    using partials_verified[OF inv c] mem by auto
  have "mset (map fst (order ?m)) = mset (map fst ?m)" using ms by simp
  then have "distinct (map fst (order ?m)) = distinct (map fst ?m)"
    by (rule mset_eq_imp_distinct_iff)
  then have dist: "distinct (map Index ?ps)"
    using inv unfolding idx by (simp add: session_inv_def mok_def)
  have long: "s_threshold s \<le> int (length ?ps)"
    using ready len by (simp add: Ready_def Collected_def mlen_def)
  have "Aggregate K ?ps (s_threshold s) (s_operators s) = Inr (Sign K (peval a 0) (s_seed s))"
    using Aggregate_verified[OF laws assms(2) a assms(4) dist long ver] .
  then show ?thesis using long by (simp add: Signature_def Let_def)
qed

end
