(* ===== verification/Mesh.thy ===== *)
theory Mesh
  imports Threshold Complex_Main
begin

text \<open>
  The exchange of shares between operators: \<open>node/internal/mesh/mesh.go\<close>.  The wire envelope and
  its decoding, the HTTP endpoint with its admission checks in their order, the per-source
  throttle table, and the fan-out of the client.

  The token bucket (golang.org/x/time/rate) is a library: a record of two operations.  Address
  and JSON parsing are arguments of the definitions that use them.
\<close>

section \<open>Envelopes\<close>

record envelope =
  env_RequestID :: string
  env_Seed :: string
  env_Index :: u32
  env_Partial :: string

datatype mesh_error =
    SeedHex hex_error
  | SeedNot32Bytes
  | PartialHex hex_error
  | PartialPoint bls_error

definition decodeHex :: "string \<Rightarrow> hex_error + byte list" where
  "decodeHex s = hex_decode (trim_prefix ''0x'' s)"

definition Decode ::
  "('s, 'g1, 'g2, 'gt) kyber \<Rightarrow> envelope \<Rightarrow> mesh_error + (byte list \<times> 'g1 partial)" where
  "Decode K e =
     (case decodeHex (env_Seed e) of
        Inl err \<Rightarrow> Inl (SeedHex err)
      | Inr seedBytes \<Rightarrow>
          if length seedBytes \<noteq> 32 then Inl SeedNot32Bytes
          else case decodeHex (env_Partial e) of
                 Inl err \<Rightarrow> Inl (PartialHex err)
               | Inr sigBytes \<Rightarrow>
                   (case PointFromSignature K sigBytes of
                      Inl err \<Rightarrow> Inl (PartialPoint err)
                    | Inr point \<Rightarrow> Inr (seedBytes, \<lparr>Index = env_Index e, Sig = Some point\<rparr>)))"

text \<open>The envelope a node builds around its own share (\<open>node.go\<close>, lines 231 to 238).\<close>

definition envelope_of :: "string \<Rightarrow> byte list \<Rightarrow> u32 \<Rightarrow> byte list \<Rightarrow> envelope" where
  "envelope_of key seed index raw =
     \<lparr> env_RequestID = key, env_Seed = ''0x'' @ hex_encode seed, env_Index = index,
       env_Partial = ''0x'' @ hex_encode raw \<rparr>"

lemma decodeHex_0x [simp]: "decodeHex (CHR ''0'' # CHR ''x'' # hex_encode bs) = Inr bs"
  by (simp add: decodeHex_def trim_prefix_def)

lemma Decode_length: "Decode K e = Inr (seed, p) \<Longrightarrow> length seed = 32"
  by (auto simp: Decode_def split: sum.splits if_splits)

lemma Decode_partial:
  "Decode K e = Inr (seed, p) \<Longrightarrow> Index p = env_Index e \<and> Sig p \<noteq> None"
  by (auto simp: Decode_def split: sum.splits if_splits)

lemma Decode_envelope_of:
  assumes "length seed = 32" and "SignatureBytes K sig = Inr raw" and "g1_codec K"
  shows "Decode K (envelope_of key seed i raw) = Inr (seed, \<lparr>Index = i, Sig = Some sig\<rparr>)"
proof -
  obtain raw' where "SignatureBytes K sig = Inr raw'" "PointFromSignature K raw' = Inr sig"
    using SignatureBytes_ok[OF assms(3)] by metis
  with assms(1,2) show ?thesis by (simp add: Decode_def envelope_of_def)
qed

section \<open>The throttle table\<close>

definition MaxTrackedSources :: int where "MaxTrackedSources = 1024"

record server_options =
  RatePerSecond :: rat
  Burst :: int
  AllowedSources :: "string list"

text \<open>The defaults \<open>NewServer\<close> fills in.\<close>

definition with_defaults :: "server_options \<Rightarrow> server_options" where
  "with_defaults opts =
     (let o1 = (if RatePerSecond opts \<le> 0 then opts\<lparr>RatePerSecond := 500\<rparr> else opts)
      in if Burst o1 \<le> 0 then o1\<lparr>Burst := 1000\<rparr> else o1)"

text \<open>\<open>rate.NewLimiter\<close>, and \<open>Limiter.Allow\<close> at a time: the answer and the bucket after it.\<close>

record 'l rate_library =
  new_limiter :: "rat \<Rightarrow> int \<Rightarrow> 'l"
  limiter_allow :: "int \<Rightarrow> 'l \<Rightarrow> bool \<times> 'l"

record 'l mesh_server =
  limiters :: "(string, 'l) gomap"
  overflow :: 'l

definition new_mesh_server :: "'l rate_library \<Rightarrow> server_options \<Rightarrow> 'l mesh_server" where
  "new_mesh_server L opts =
     \<lparr> limiters = mempty, overflow = new_limiter L (RatePerSecond opts) (Burst opts) \<rparr>"

definition TrackedSources :: "'l mesh_server \<Rightarrow> int" where
  "TrackedSources srv = mlen (limiters srv)"

definition allow ::
  "'l rate_library \<Rightarrow> server_options \<Rightarrow> int \<Rightarrow> 'l mesh_server \<Rightarrow> string \<Rightarrow> bool \<times> 'l mesh_server" where
  "allow L opts now srv source =
     (case mget (limiters srv) source of
        Some limiter \<Rightarrow>
          (let (ok, l') = limiter_allow L now limiter
           in (ok, srv\<lparr>limiters := mput (limiters srv) source l'\<rparr>))
      | None \<Rightarrow>
          if MaxTrackedSources \<le> mlen (limiters srv)
          then (let (ok, l') = limiter_allow L now (overflow srv)
                in (ok, srv\<lparr>overflow := l'\<rparr>))
          else (let (ok, l') = limiter_allow L now (new_limiter L (RatePerSecond opts) (Burst opts))
                in (ok, srv\<lparr>limiters := mput (limiters srv) source l'\<rparr>)))"

section \<open>The allow list\<close>

text \<open>
  \<open>net.ParseIP\<close>, \<open>net.ParseCIDR\<close> and \<open>IPNet.Contains\<close>; a bare address becomes the network of
  that one address (\<open>host_net\<close>).
\<close>

record ('ip, 'net) netlib =
  parse_ip :: "string \<Rightarrow> 'ip option"
  parse_cidr :: "string \<Rightarrow> 'net option"
  host_net :: "'ip \<Rightarrow> 'net"
  net_contains :: "'net \<Rightarrow> 'ip \<Rightarrow> bool"

fun parseCIDRs :: "('ip, 'net) netlib \<Rightarrow> string list \<Rightarrow> 'net list" where
  "parseCIDRs N [] = []"
| "parseCIDRs N (e # es) =
     (let entry = trim_space e in
      if entry = [] then parseCIDRs N es
      else if CHR ''/'' \<notin> set entry
      then (case parse_ip N entry of
              None \<Rightarrow> parseCIDRs N es
            | Some ip \<Rightarrow> host_net N ip # parseCIDRs N es)
      else (case parse_cidr N entry of
              None \<Rightarrow> parseCIDRs N es
            | Some network \<Rightarrow> network # parseCIDRs N es))"

definition permitted :: "('ip, 'net) netlib \<Rightarrow> 'net list \<Rightarrow> string \<Rightarrow> bool" where
  "permitted N allowed source =
     (case parse_ip N source of
        None \<Rightarrow> False | Some ip \<Rightarrow> list_ex (\<lambda>network. net_contains N network ip) allowed)"

section \<open>The endpoint\<close>

text \<open>
  \<open>r_source\<close> is what \<open>sourceOf\<close> extracts from the connection, \<open>parse\<close> the decoding of at most
  4096 bytes of JSON into an envelope, \<open>handle\<close> the callback, which works on a state of its own
  and answers whether it failed.
\<close>

record http_request =
  r_source :: string
  r_method :: string
  r_body :: string

definition serve_share ::
  "('s, 'g1, 'g2, 'gt) kyber \<Rightarrow> 'l rate_library \<Rightarrow> ('ip, 'net) netlib \<Rightarrow> server_options \<Rightarrow>
   (string \<Rightarrow> envelope option) \<Rightarrow> (envelope \<Rightarrow> 'n \<Rightarrow> bool \<times> 'n) \<Rightarrow> int \<Rightarrow> http_request \<Rightarrow>
   'l mesh_server \<times> 'n \<Rightarrow> int \<times> 'l mesh_server \<times> 'n" where
  "serve_share K L N opts parse handle now r st =
     (let (srv, n) = st;
          source = r_source r;
          allowed = parseCIDRs N (AllowedSources opts)
      in if allowed \<noteq> [] \<and> \<not> permitted N allowed source then (403, srv, n)
         else let (ok, srv1) = allow L opts now srv source in
              if \<not> ok then (429, srv1, n)
              else if r_method r \<noteq> ''POST'' then (405, srv1, n)
              else case parse (r_body r) of
                     None \<Rightarrow> (400, srv1, n)
                   | Some e \<Rightarrow>
                       if env_RequestID e = [] \<or> env_Seed e = [] \<or> env_Partial e = []
                       then (400, srv1, n)
                       else case Decode K e of
                              Inl _ \<Rightarrow> (400, srv1, n)
                            | Inr _ \<Rightarrow> (let (failed, n1) = handle e n
                                        in if failed then (422, srv1, n1) else (202, srv1, n1)))"

section \<open>The client\<close>

definition SharePath :: string where "SharePath = ''/v1/shares''"

definition post_url :: "string \<Rightarrow> string" where
  "post_url peer = trim_suffix ''/'' peer @ SharePath"

text \<open>
  \<open>post\<close> fails on a transport error (\<open>None\<close>) and on a status of 400 or more.  \<open>answer\<close> is what
  the network does with a request to a URL.
\<close>

definition post_fails :: "(string \<Rightarrow> int option) \<Rightarrow> string \<Rightarrow> bool" where
  "post_fails answer peer =
     (case answer (post_url peer) of None \<Rightarrow> True | Some status \<Rightarrow> 400 \<le> status)"

text \<open>
  \<open>Broadcast\<close>: one request to every peer, all of them before it returns; an error that counts
  the failures if there were any.
\<close>

definition Broadcast ::
  "(string \<Rightarrow> int option) \<Rightarrow> string list \<Rightarrow> string list \<times> (int \<times> int) option" where
  "Broadcast answer peers =
     (let failed = filter (post_fails answer) peers
      in (map post_url peers,
          if failed \<noteq> [] then Some (int (length failed), int (length peers)) else None))"

section \<open>Lemmas\<close>

lemma allow_tracked:
  assumes "mok (limiters srv)" and "TrackedSources srv \<le> MaxTrackedSources"
  shows "mok (limiters (snd (allow L opts now srv source))) \<and>
         TrackedSources (snd (allow L opts now srv source)) \<le> MaxTrackedSources"
  using assms
  by (auto simp: allow_def TrackedSources_def gm.len_put split: option.splits prod.splits)

lemma serve_share_server:
  "fst (snd (serve_share K L N opts parse handle now r (srv, n))) = srv \<or>
   fst (snd (serve_share K L N opts parse handle now r (srv, n))) =
     snd (allow L opts now srv (r_source r))"
  by (auto simp: serve_share_def Let_def split: prod.splits option.splits sum.splits)

lemma serve_share_tracked:
  assumes "mok (limiters srv)" and "TrackedSources srv \<le> MaxTrackedSources"
  shows "let srv' = fst (snd (serve_share K L N opts parse handle now r (srv, n)))
         in mok (limiters srv') \<and> TrackedSources srv' \<le> MaxTrackedSources"
  using assms allow_tracked[OF assms, of L opts now "r_source r"]
    serve_share_server[of K L N opts parse handle now r srv n]
  by (auto simp: Let_def)

text \<open>A server's life: requests one after another, with the times they arrive at.\<close>

fun serve_all ::
  "('s, 'g1, 'g2, 'gt) kyber \<Rightarrow> 'l rate_library \<Rightarrow> ('ip, 'net) netlib \<Rightarrow> server_options \<Rightarrow>
   (string \<Rightarrow> envelope option) \<Rightarrow> (envelope \<Rightarrow> 'n \<Rightarrow> bool \<times> 'n) \<Rightarrow> (int \<times> http_request) list \<Rightarrow>
   'l mesh_server \<times> 'n \<Rightarrow> 'l mesh_server \<times> 'n" where
  "serve_all K L N opts parse handle [] st = st"
| "serve_all K L N opts parse handle ((now, r) # rs) st =
     serve_all K L N opts parse handle rs (snd (serve_share K L N opts parse handle now r st))"

lemma serve_all_tracked:
  "mok (limiters srv) \<Longrightarrow> TrackedSources srv \<le> MaxTrackedSources \<Longrightarrow>
   mok (limiters (fst (serve_all K L N opts parse handle rs (srv, n)))) \<and>
   TrackedSources (fst (serve_all K L N opts parse handle rs (srv, n))) \<le> MaxTrackedSources"
proof (induction rs arbitrary: srv n)
  case (Cons x rs)
  obtain now r where x: "x = (now, r)" by (cases x)
  obtain srv' n' where eq: "snd (serve_share K L N opts parse handle now r (srv, n)) = (srv', n')"
    by (cases "snd (serve_share K L N opts parse handle now r (srv, n))")
  have "mok (limiters srv')" "TrackedSources srv' \<le> MaxTrackedSources"
    using serve_share_tracked[OF Cons.prems, of K L N opts parse handle now r n] eq
    by (simp_all add: Let_def)
  then show ?case using Cons.IH[of srv' n'] by (simp add: x eq)
qed simp

lemma parseCIDRs_unparseable:
  "\<forall>e \<in> set es. parse_ip N (trim_space e) = None \<and> parse_cidr N (trim_space e) = None \<Longrightarrow>
   parseCIDRs N es = []"
  by (induction es) (auto simp: Let_def)

section \<open>Properties\<close>

text \<open>
  What a node sends, its peers receive.  The envelope built around a share decodes, at any
  peer, to the same 32-byte seed, the sender's index and the same point.
\<close>

theorem envelope_roundtrip:
  assumes "g1_codec K" and "length seed = 32"
  shows "\<exists>raw. SignatureBytes K sig = Inr raw \<and>
           Decode K (envelope_of key seed i raw) = Inr (seed, \<lparr>Index = i, Sig = Some sig\<rparr>)"
proof -
  obtain raw where "SignatureBytes K sig = Inr raw" using SignatureBytes_ok[OF assms(1)] by metis
  with Decode_envelope_of[OF assms(2) _ assms(1)] show ?thesis by blast
qed

theorem envelope_roundtrip_witness:
  "\<exists>raw. SignatureBytes small_kyber 7 = Inr raw \<and>
     Decode small_kyber (envelope_of ''0x1f'' (replicate 32 9) 3 raw) =
       Inr (replicate 32 9, \<lparr>Index = 3, Sig = Some 7\<rparr>)"
  by (rule envelope_roundtrip)
     (use small_kyber_laws in \<open>simp_all add: kyber_laws_def\<close>)

text \<open>
  C37.  Nothing reaches the node past a failed check.  The callback runs, and the answer is 202 or
  422, exactly when the source is allowed, its bucket admits it, the method is POST, the body
  parses to a complete envelope and the envelope decodes; in every other case the node's state is
  untouched.  A source outside a non-empty list does not even use up a slot of the throttle.
\<close>

theorem serve_share_admission:
  "let allowed = parseCIDRs N (AllowedSources opts);
       admitted = (allowed = [] \<or> permitted N allowed (r_source r));
       ok = (admitted \<and> fst (allow L opts now srv (r_source r)) \<and> r_method r = ''POST'' \<and>
             (case parse (r_body r) of
                None \<Rightarrow> False
              | Some e \<Rightarrow> env_RequestID e \<noteq> [] \<and> env_Seed e \<noteq> [] \<and> env_Partial e \<noteq> [] \<and>
                          (\<exists>d. Decode K e = Inr d)));
       res = serve_share K L N opts parse handle now r (srv, n)
   in (if ok then snd (snd res) = snd (handle (the (parse (r_body r))) n) \<and>
                  fst res = (if fst (handle (the (parse (r_body r))) n) then 422 else 202)
       else snd (snd res) = n \<and> fst res \<in> {403, 429, 405, 400}) \<and>
      (if admitted then fst (snd res) = snd (allow L opts now srv (r_source r))
       else fst (snd res) = srv \<and> fst res = 403)"
  by (auto simp: serve_share_def Let_def split: prod.splits option.splits sum.splits)

text \<open>
  The throttle table is bounded: whatever requests arrive, from whatever sources, a server
  never tracks more than \<open>MaxTrackedSources\<close> of them.
\<close>

theorem tracked_sources_bounded:
  "TrackedSources (fst (serve_all K L N opts parse handle rs (new_mesh_server L opts, n)))
     \<le> MaxTrackedSources"
  using serve_all_tracked[of "new_mesh_server L opts" K L N opts parse handle rs n]
  by (simp add: new_mesh_server_def TrackedSources_def MaxTrackedSources_def)

text \<open>
  An allow list that does not parse allows everyone.  If no entry of \<open>AllowedSources\<close> is an
  address or a network, the endpoint behaves, for every request, as if no list had been given:
  the entries are dropped and the empty list admits any source.
\<close>

theorem unparseable_allow_list_is_open:
  assumes "\<forall>e \<in> set (AllowedSources opts).
             parse_ip N (trim_space e) = None \<and> parse_cidr N (trim_space e) = None"
  shows "serve_share K L N opts parse handle now r st =
         serve_share K L N (opts\<lparr>AllowedSources := []\<rparr>) parse handle now r st"
proof -
  have "allow L (opts\<lparr>AllowedSources := []\<rparr>) now srv s = allow L opts now srv s" for srv s
    by (simp add: allow_def split: option.split)
  then show ?thesis
    by (cases st) (simp add: serve_share_def parseCIDRs_unparseable[OF assms])
qed

theorem unparseable_allow_list_is_open_witness:
  "fst (serve_share small_kyber \<lparr>new_limiter = (\<lambda>_ _. ()), limiter_allow = (\<lambda>_ l. (True, l))\<rparr>
      \<lparr>parse_ip = (\<lambda>s. None :: nat option), parse_cidr = (\<lambda>s. None :: nat option),
       host_net = id, net_contains = (=)\<rparr>
      \<lparr>RatePerSecond = 500, Burst = 1000, AllowedSources = [''10.0.0.l'']\<rparr>
      (\<lambda>_. None) (\<lambda>e n. (False, n)) 0
      \<lparr>r_source = ''203.0.113.9'', r_method = ''POST'', r_body = []\<rparr>
      (\<lparr>limiters = mempty, overflow = ()\<rparr>, 0 :: nat)) = 400"
  by (subst unparseable_allow_list_is_open)
     (simp_all add: serve_share_def allow_def MaxTrackedSources_def)

end
