(* ===== verification/Metrics.thy ===== *)
theory Metrics
  imports Prelude
begin

text \<open>
  One operator's counters: \<open>node/internal/metrics/metrics.go\<close>.  The counters are unsigned 64-bit
  and wrap; the per-peer tables are Go maps whose missing entries read as zero.
\<close>

section \<open>State\<close>

record registry =
  operatorIndex :: u32
  m_threshold :: int
  m_operators :: int
  requestsSeen :: u64
  sharesSent :: u64
  published_total :: u64
  racesLost :: u64
  lastSeenBlock :: u64
  sharesReceived :: "(u32, u64) gomap"
  sharesRejected :: "(u32, u64) gomap"
  equivocations :: "(u32, u64) gomap"

definition new_registry :: "u32 \<Rightarrow> int \<Rightarrow> int \<Rightarrow> registry" where
  "new_registry index t n =
     \<lparr> operatorIndex = index, m_threshold = t, m_operators = n, requestsSeen = 0, sharesSent = 0,
       published_total = 0, racesLost = 0, lastSeenBlock = 0, sharesReceived = mempty,
       sharesRejected = mempty, equivocations = mempty \<rparr>"

section \<open>Operations\<close>

definition counter_of :: "(u32, u64) gomap \<Rightarrow> u32 \<Rightarrow> u64" where
  "counter_of m peer = (case mget m peer of None \<Rightarrow> 0 | Some v \<Rightarrow> v)"

definition bumpPeer :: "(u32, u64) gomap \<Rightarrow> u32 \<Rightarrow> (u32, u64) gomap" where
  "bumpPeer counters peer = mput counters peer (counter_of counters peer + 1)"

definition RequestSeen :: "registry \<Rightarrow> registry" where
  "RequestSeen r = r\<lparr>requestsSeen := requestsSeen r + 1\<rparr>"
definition ShareSent :: "registry \<Rightarrow> registry" where
  "ShareSent r = r\<lparr>sharesSent := sharesSent r + 1\<rparr>"
definition Published :: "registry \<Rightarrow> registry" where
  "Published r = r\<lparr>published_total := published_total r + 1\<rparr>"
definition RaceLost :: "registry \<Rightarrow> registry" where
  "RaceLost r = r\<lparr>racesLost := racesLost r + 1\<rparr>"
definition ShareReceived :: "u32 \<Rightarrow> registry \<Rightarrow> registry" where
  "ShareReceived peer r = r\<lparr>sharesReceived := bumpPeer (sharesReceived r) peer\<rparr>"
definition ShareRejected :: "u32 \<Rightarrow> registry \<Rightarrow> registry" where
  "ShareRejected peer r = r\<lparr>sharesRejected := bumpPeer (sharesRejected r) peer\<rparr>"
definition Equivocated :: "u32 \<Rightarrow> registry \<Rightarrow> registry" where
  "Equivocated peer r = r\<lparr>equivocations := bumpPeer (equivocations r) peer\<rparr>"

definition BlockSeen :: "u64 \<Rightarrow> registry \<Rightarrow> registry" where
  "BlockSeen block r = (if lastSeenBlock r < block then r\<lparr>lastSeenBlock := block\<rparr> else r)"

section \<open>Lemmas\<close>

lemma counter_of_bumpPeer [simp]:
  "counter_of (bumpPeer m p) q = (if q = p then counter_of m p + 1 else counter_of m q)"
  by (simp add: counter_of_def bumpPeer_def)

lemma counter_of_mempty [simp]: "counter_of mempty p = 0"
  by (simp add: counter_of_def)

lemma lastSeenBlock_mono: "lastSeenBlock r \<le> lastSeenBlock (BlockSeen b r)"
  by (simp add: BlockSeen_def order.strict_implies_order)

lemma lastSeenBlock_ge: "b \<le> lastSeenBlock (BlockSeen b r)"
  by (auto simp: BlockSeen_def not_less)

end
