(* ===== verification/Chain_Events.thy ===== *)
theory Chain_Events
  imports Prelude
begin

text \<open>
  Reading the coordinator's events: the data the node takes from the chain, the seed formula,
  the splitting of a block range and the combined scan for new and settled requests
  (\<open>node/internal/chain/chain.go\<close>, the reading half).

  The RPC endpoint, go-ethereum's ABI decoder and Keccak-256 are arguments.
\<close>

section \<open>Data\<close>

record request =
  ID :: int
  KeyHash :: "byte list"
  SubID :: u64
  Consumer :: "byte list"
  req_Seed :: "byte list"
  NumWords :: u32
  CallbackGasLimit :: u32
  Block :: u64
  TxHash :: "byte list"

text \<open>A \<open>types.Log\<close>, as far as the code reads it.  Topics are 32-byte hashes.\<close>

record chain_log =
  Topics :: "byte list list"
  Data :: "byte list"
  log_BlockNumber :: u64
  log_TxHash :: "byte list"

text \<open>The non-indexed fields of \<open>RandomWordsRequested\<close> the code keeps, as the decoder returns them.\<close>

record requested_body =
  b_RequestId :: nat
  b_Seed :: nat
  b_CallbackGasLimit :: u32
  b_NumWords :: u32

datatype chain_error =
    UnexpectedTopics
  | DecodeFailed string
  | FilterFailed string
  | ContextDone

section \<open>Deriving the seed\<close>

text \<open>
  \<open>requestID.Bytes()\<close> is the absolute value; \<open>common.LeftPadBytes\<close> returns a longer input as it
  is.  Addresses are 20-byte arrays.
\<close>

definition seed_preimage :: "int \<Rightarrow> byte list \<Rightarrow> byte list \<Rightarrow> int \<Rightarrow> byte list" where
  "seed_preimage requestID consumer coordinator chainID =
     left_pad (be_bytes (nat \<bar>requestID\<bar>)) 32 @ consumer @ coordinator @
     left_pad (be_bytes (nat \<bar>chainID\<bar>)) 32"

definition DeriveSeed ::
  "(byte list \<Rightarrow> byte list) \<Rightarrow> byte list \<Rightarrow> int \<Rightarrow> int \<Rightarrow> byte list \<Rightarrow> byte list" where
  "DeriveSeed keccak coordinator chainID requestID consumer =
     keccak (seed_preimage requestID consumer coordinator chainID)"

section \<open>Splitting a block range\<close>

text \<open>
  \<open>chunkRange\<close> on unsigned 64-bit block numbers.  The loop adds \<open>width\<close> to its counter, which can
  wrap; a loop that does not end is \<open>None\<close>.
\<close>

partial_function (option) chunk_loop ::
  "(u64 \<times> u64) list \<Rightarrow> u64 \<Rightarrow> u64 \<Rightarrow> u64 \<Rightarrow> (u64 \<times> u64) list option" where
  "chunk_loop out start to width =
     (if start \<le> to
      then (let end0 = start + width - 1;
                end1 = (if end0 > to then to else end0)
            in chunk_loop (out @ [(start, end1)]) (start + width) to width)
      else Some out)"

definition chunkRange :: "u64 \<Rightarrow> u64 \<Rightarrow> u64 \<Rightarrow> (u64 \<times> u64) list option" where
  "chunkRange from to width =
     (if width = 0 \<or> to < from \<or> to - from + 1 \<le> width then Some [(from, to)]
      else chunk_loop [] from to width)"

section \<open>Decoding\<close>

text \<open>
  \<open>unpack\<close> is \<open>abi.UnpackIntoInterface\<close> for the event's data.  \<open>Uint64()\<close> keeps the low 64 bits,
  \<open>BytesToAddress\<close> the last 20 bytes, \<open>FillBytes\<close> pads a 256-bit number to 32.
\<close>

definition decodeRequest ::
  "(byte list \<Rightarrow> string + requested_body) \<Rightarrow> chain_log \<Rightarrow> chain_error + request" where
  "decodeRequest unpack l =
     (case Topics l of
        [_, keyHash, subId, sender] \<Rightarrow>
          (case unpack (Data l) of
             Inl e \<Rightarrow> Inl (DecodeFailed e)
           | Inr body \<Rightarrow>
               Inr \<lparr> ID = int (b_RequestId body), KeyHash = keyHash,
                     SubID = word_of_nat (be_value subId),
                     Consumer = drop (length sender - 20) sender,
                     req_Seed = left_pad (be_bytes (b_Seed body)) 32,
                     NumWords = b_NumWords body, CallbackGasLimit = b_CallbackGasLimit body,
                     Block = log_BlockNumber l, TxHash = log_TxHash l \<rparr>)
      | _ \<Rightarrow> Inl UnexpectedTopics)"

text \<open>The two event identifiers the scan filters on.\<close>

record event_ids =
  requested_id :: "byte list"
  fulfilled_id :: "byte list"

fun split_logs ::
  "event_ids \<Rightarrow> (byte list \<Rightarrow> string + requested_body) \<Rightarrow> chain_log list \<Rightarrow>
   request list \<Rightarrow> int list \<Rightarrow> chain_error + (request list \<times> int list)" where
  "split_logs I unpack [] out settled = Inr (out, settled)"
| "split_logs I unpack (l # ls) out settled =
     (case Topics l of
        [] \<Rightarrow> split_logs I unpack ls out settled
      | topic # rest \<Rightarrow>
          if topic = requested_id I
          then (case decodeRequest unpack l of
                  Inl e \<Rightarrow> Inl e
                | Inr req \<Rightarrow> split_logs I unpack ls (out @ [req]) settled)
          else if topic = fulfilled_id I
          then (case rest of
                  [] \<Rightarrow> split_logs I unpack ls out settled
                | t1 # _ \<Rightarrow> split_logs I unpack ls out (settled @ [int (be_value t1)]))
          else split_logs I unpack ls out settled)"

text \<open>
  The chunks one after another: a pause before every chunk but the first (if configured), which
  \<open>done i\<close> may cut short, then one call of the endpoint.
\<close>

fun fetch_logs ::
  "(u64 \<Rightarrow> u64 \<Rightarrow> string + chain_log list) \<Rightarrow> (nat \<Rightarrow> bool) \<Rightarrow> duration \<Rightarrow> nat \<Rightarrow>
   (u64 \<times> u64) list \<Rightarrow> chain_log list \<Rightarrow> chain_error + chain_log list" where
  "fetch_logs filter_logs done pause i [] logs = Inr logs"
| "fetch_logs filter_logs done pause i ((a, b) # chunks) logs =
     (if 0 < i \<and> 0 < pause \<and> done i then Inl ContextDone
      else case filter_logs a b of
             Inl e \<Rightarrow> Inl (FilterFailed e)
           | Inr part \<Rightarrow> fetch_logs filter_logs done pause (Suc i) chunks (logs @ part))"

definition eventsBetween ::
  "event_ids \<Rightarrow> (byte list \<Rightarrow> string + requested_body) \<Rightarrow>
   (u64 \<Rightarrow> u64 \<Rightarrow> string + chain_log list) \<Rightarrow> (nat \<Rightarrow> bool) \<Rightarrow> duration \<Rightarrow> u64 \<Rightarrow> u64 \<Rightarrow> u64 \<Rightarrow>
   (chain_error + (request list \<times> int list)) option" where
  "eventsBetween I unpack filter_logs done pause maxLogRange from to =
     (case chunkRange from to maxLogRange of
        None \<Rightarrow> None
      | Some chunks \<Rightarrow>
          Some (case fetch_logs filter_logs done pause 0 chunks [] of
                  Inl e \<Rightarrow> Inl e
                | Inr logs \<Rightarrow> split_logs I unpack logs [] []))"

text \<open>
  \<open>IsOpen\<close>, after the call to \<open>requests(id)\<close> has been decoded to consumer, fulfilled and refunded.
\<close>

definition IsOpen_of :: "byte list \<times> bool \<times> bool \<Rightarrow> bool" where
  "IsOpen_of v =
     (case v of (consumer, fulfilled, refunded) \<Rightarrow>
        consumer \<noteq> replicate 20 0 \<and> \<not> fulfilled \<and> \<not> refunded)"

definition IsOpen :: "(int \<Rightarrow> string + (byte list \<times> bool \<times> bool)) \<Rightarrow> int \<Rightarrow> string + bool" where
  "IsOpen requests_call requestID =
     (case requests_call requestID of Inl e \<Rightarrow> Inl e | Inr v \<Rightarrow> Inr (IsOpen_of v))"

section \<open>Lemmas on the range\<close>

definition blocks :: "u64 \<times> u64 \<Rightarrow> int list" where
  "blocks c = [uint (fst c) .. uint (snd c)]"

text \<open>\<open>tiles a b m cs\<close>: the chunks follow each other from \<open>a\<close> to \<open>b\<close>, none wider than \<open>m\<close>.\<close>

fun tiles :: "int \<Rightarrow> int \<Rightarrow> int \<Rightarrow> (u64 \<times> u64) list \<Rightarrow> bool" where
  "tiles a b m [] \<longleftrightarrow> a = b + 1"
| "tiles a b m ((s, e) # cs) \<longleftrightarrow>
     uint s = a \<and> a \<le> uint e \<and> uint e \<le> b \<and> uint e - a < m \<and> tiles (uint e + 1) b m cs"

lemma tiles_blocks: "tiles a b m cs \<Longrightarrow> concat (map blocks cs) = [a .. b]"
proof (induction a b m cs rule: tiles.induct)
  case (2 a b m s e cs)
  then have "[a .. b] = [a .. uint e] @ [uint e + 1 .. b]"
    using upto_split2[of a "uint e" b] by simp
  with 2 show ?case by (simp add: blocks_def)
qed simp

lemma uint_add_small: "uint (x :: u64) + uint y < 2 ^ 64 \<Longrightarrow> uint (x + y) = uint x + uint y"
  by (simp add: uint_word_ariths)

lemma uint_sub_one: "0 < uint (x :: u64) \<Longrightarrow> uint (x - 1) = uint x - 1"
  using uint_lt2p[of x] by (simp add: uint_word_ariths)

lemma chunk_loop_tiles:
  assumes "uint to + uint width < 2 ^ 64" and "0 < uint width" and "uint start \<le> uint to + uint width"
  shows "\<exists>cs. chunk_loop out start to width = Some (out @ cs) \<and>
              (uint start \<le> uint to \<longrightarrow> tiles (uint start) (uint to) (uint width) cs) \<and>
              (uint to < uint start \<longrightarrow> cs = [])"
  using assms
proof (induction "nat (uint to + 1 - uint start)" arbitrary: out start rule: less_induct)
  case less
  show ?case
  proof (cases "start \<le> to")
    case False
    then have "uint to < uint start" by (simp add: word_le_def)
    with False show ?thesis by (simp add: chunk_loop.simps[of out start])
  next
    case True
    then have le: "uint start \<le> uint to" by (simp add: word_le_def)
    have next_start: "uint (start + width) = uint start + uint width"
      using less.prems le by (intro uint_add_small) simp
    have end0: "uint (start + width - 1) = uint start + uint width - 1"
      using less.prems(2) uint_ge_0[of start] by (subst uint_sub_one; unfold next_start; arith)
    let ?e = "if to < start + width - 1 then to else start + width - 1"
    have e: "uint ?e = min (uint to) (uint start + uint width - 1)"
      by (auto simp: word_less_def end0 min_def)
    have "nat (uint to + 1 - uint (start + width)) < nat (uint to + 1 - uint start)"
      using less.prems(2) le by (simp add: next_start)
    then obtain cs where cs:
      "chunk_loop (out @ [(start, ?e)]) (start + width) to width = Some ((out @ [(start, ?e)]) @ cs)"
      "uint (start + width) \<le> uint to \<longrightarrow> tiles (uint (start + width)) (uint to) (uint width) cs"
      "uint to < uint (start + width) \<longrightarrow> cs = []"
      using less.hyps[of "start + width" "out @ [(start, ?e)]"] less.prems le
      by (auto simp: next_start)
    have "chunk_loop out start to width = Some (out @ (start, ?e) # cs)"
      using cs(1) True by (simp add: chunk_loop.simps[of out start] Let_def)
    moreover have "tiles (uint start) (uint to) (uint width) ((start, ?e) # cs)"
      using cs(2,3) le less.prems(2) by (auto simp: e next_start min_def)
    ultimately show ?thesis using le by auto
  qed
qed

lemma chunkRange_tiles:
  assumes "from \<le> to" and "uint to + uint width < 2 ^ 64"
  shows "\<exists>cs. chunkRange from to width = Some cs \<and>
              tiles (uint from) (uint to) (if width = 0 then 2 ^ 64 else uint width) cs"
proof -
  have le: "uint from \<le> uint to" using assms(1) by (simp add: word_le_def)
  have sub: "uint (to - from) = uint to - uint from"
    using assms(1) by (simp add: uint_sub_lem[THEN iffD1] word_le_def)
  show ?thesis
  proof (cases "width = 0 \<or> to - from + 1 \<le> width")
    case True
    have one: "uint (to - from + 1) = uint to - uint from + 1" if "width \<noteq> 0"
    proof -
      have "0 < uint width" using that by (simp add: word_neq_0_conv word_less_def)
      then show ?thesis
        using assms(2) sub uint_ge_0[of "from"]
        by (subst uint_add_small; unfold sub uint_1; arith)
    qed
    have "uint to - uint from < (if width = 0 then 2 ^ 64 else uint width)"
    proof (cases "width = 0")
      case True
      have "uint to < 2 ^ 64" using uint_lt2p[of to] by simp
      moreover have "0 \<le> uint from" by simp
      ultimately have "uint to - uint from < 2 ^ 64" by linarith
      with True show ?thesis by simp
    next
      case False
      with True one[OF False] show ?thesis by (simp add: word_le_def)
    qed
    with True assms(1) le show ?thesis by (auto simp: chunkRange_def)
  next
    case False
    then have pos: "0 < uint width" by (simp add: word_neq_0_conv word_less_def)
    then obtain cs where "chunk_loop [] from to width = Some cs"
      "tiles (uint from) (uint to) (uint width) cs"
      using chunk_loop_tiles[OF assms(2), of "from" "[]"] le by auto
    with False assms(1) show ?thesis by (auto simp: chunkRange_def)
  qed
qed

lemma chunk_loop_top:
  assumes "chunk_loop out start to width = Some cs"
  shows "to \<noteq> - 1"
proof (rule chunk_loop.raw_induct[where P = "\<lambda>out start to width cs. to \<noteq> - 1", OF _ assms])
  fix f :: "(u64 \<times> u64) list \<Rightarrow> u64 \<Rightarrow> u64 \<Rightarrow> u64 \<Rightarrow> (u64 \<times> u64) list option"
    and out start to width r
  assume IH: "\<And>out start to width r. f out start to width = Some r \<Longrightarrow> to \<noteq> - 1"
    and eq: "(if start \<le> to
        then (let end0 = start + width - 1; end1 = (if end0 > to then to else end0)
              in f (out @ [(start, end1)]) (start + width) to width)
        else Some out) = Some r"
  show "to \<noteq> - 1"
  proof (cases "start \<le> to")
    case True
    with eq show ?thesis by (auto simp: Let_def dest: IH)
  next
    case False
    then show ?thesis by auto
  qed
qed

section \<open>Lemmas on the scan\<close>

text \<open>
  \<open>additive\<close>: the documented behaviour of \<open>eth_getLogs\<close> on a chain that does not move during the
  scan: it succeeds, and the logs of two adjoining ranges are the logs of both together.
\<close>

definition additive :: "(int \<Rightarrow> chain_log list) \<Rightarrow> (u64 \<Rightarrow> u64 \<Rightarrow> string + chain_log list) \<Rightarrow> bool" where
  "additive per_block filter_logs \<longleftrightarrow>
     (\<forall>a b. filter_logs a b = Inr (concat (map per_block [uint a .. uint b])))"

lemma fetch_logs_additive:
  assumes "additive per_block filter_logs" and "\<forall>i. \<not> done i"
  shows "fetch_logs filter_logs done pause i cs logs =
         Inr (logs @ concat (map per_block (concat (map blocks cs))))"
  using assms
proof (induction cs arbitrary: i logs)
  case (Cons c cs)
  then show ?case by (cases c) (simp add: additive_def blocks_def)
qed simp

section \<open>Properties\<close>

text \<open>
  A block range is covered exactly once.  For any range, and any width that does not carry
  the end of the range past the last 64-bit number, the split terminates, its chunks follow each
  other without gap or overlap, each is at most \<open>width\<close> blocks wide (one chunk, if the width is
  zero), and together they are the blocks from \<open>from\<close> to \<open>to\<close>, each once and in order.
\<close>

theorem chunkRange_covers_once:
  assumes "from \<le> to" and "uint to + uint width < 2 ^ 64"
  shows "\<exists>cs. chunkRange from to width = Some cs \<and>
              concat (map blocks cs) = [uint from .. uint to] \<and>
              (width \<noteq> 0 \<longrightarrow> (\<forall>c \<in> set cs. int (length (blocks c)) \<le> uint width)) \<and>
              (\<forall>c \<in> set cs. blocks c \<noteq> [])"
proof -
  obtain cs where cs: "chunkRange from to width = Some cs"
    and t: "tiles (uint from) (uint to) (if width = 0 then 2 ^ 64 else uint width) cs"
    using chunkRange_tiles[OF assms] by auto
  have "(\<forall>c \<in> set cs. int (length (blocks c)) \<le> m \<and> blocks c \<noteq> [])"
    if "tiles a b m cs" for a b m
    using that by (induction a b m cs rule: tiles.induct) (auto simp: blocks_def)
  from cs tiles_blocks[OF t] this[OF t] show ?thesis by auto
qed

theorem chunkRange_covers_once_witness:
  "\<exists>cs. chunkRange 100 125 10 = Some cs \<and> concat (map blocks cs) = [100 .. 125]"
  using chunkRange_covers_once[of 100 125 10] by (auto simp: word_le_def)

text \<open>
  The split never ends at the top of the number range.  If the last block asked for is
  \<open>2^64 - 1\<close> and the range is wider than one chunk, the counter wraps past zero, the guard
  \<open>start <= to\<close> holds for ever, and \<open>chunkRange\<close> does not return.
\<close>

theorem chunkRange_diverges_at_the_top:
  "width \<noteq> 0 \<Longrightarrow> \<not> - 1 - from + 1 \<le> width \<Longrightarrow> chunkRange from (- 1) width = None"
proof -
  assume w: "width \<noteq> 0" "\<not> - 1 - from + 1 \<le> width"
  have "chunk_loop [] from (- 1) width = None"
    using chunk_loop_top[of "[]" "from" "- 1" width]
    by (cases "chunk_loop [] from (- 1) width") auto
  with w show ?thesis by (simp add: chunkRange_def)
qed

theorem chunkRange_diverges_at_the_top_witness: "chunkRange 1 (- 1) 10 = None"
  by (rule chunkRange_diverges_at_the_top)
     (simp_all add: word_le_def unsigned_minus_1_eq_mask mask_eq_exp_minus_1)

text \<open>
  A range limit changes nothing but the number of calls.  Against an endpoint whose answers
  are additive, scanning with any limit finds the same new and settled requests, in the same
  order, as one unlimited call.
\<close>

theorem scan_independent_of_the_limit:
  assumes "additive per_block filter_logs" and "\<forall>i. \<not> done i"
    and "from \<le> to" and "uint to + uint limit < 2 ^ 64"
  shows "eventsBetween I unpack filter_logs done pause limit from to =
         eventsBetween I unpack filter_logs done pause 0 from to"
proof -
  have "eventsBetween I unpack filter_logs done pause w from to =
          Some (split_logs I unpack (concat (map per_block [uint from .. uint to])) [] [])"
    if "uint to + uint w < 2 ^ 64" for w
    using chunkRange_tiles[OF assms(3) that] fetch_logs_additive[OF assms(1,2)]
    by (auto simp: eventsBetween_def tiles_blocks)
  from this[OF assms(4)] this[of 0] show ?thesis using uint_lt2p[of to] by simp
qed

theorem scan_independent_of_the_limit_witness:
  "eventsBetween \<lparr>requested_id = [1], fulfilled_id = [2]\<rparr> (\<lambda>_. Inl [])
      (\<lambda>a b. Inr (concat (map (\<lambda>i. [\<lparr>Topics = [[2], [word_of_int i]], Data = [],
         log_BlockNumber = 0, log_TxHash = []\<rparr>]) [uint a .. uint b])))
      (\<lambda>_. False) 0 2 3 9 =
   eventsBetween \<lparr>requested_id = [1], fulfilled_id = [2]\<rparr> (\<lambda>_. Inl [])
      (\<lambda>a b. Inr (concat (map (\<lambda>i. [\<lparr>Topics = [[2], [word_of_int i]], Data = [],
         log_BlockNumber = 0, log_TxHash = []\<rparr>]) [uint a .. uint b])))
      (\<lambda>_. False) 0 0 3 9"
  by (rule scan_independent_of_the_limit[where per_block = "\<lambda>i. [\<lparr>Topics = [[2], [word_of_int i]],
        Data = [], log_BlockNumber = 0, log_TxHash = []\<rparr>]"])
     (simp_all add: additive_def word_le_def)

text \<open>
  Different requests sign different seeds.  The bytes that are hashed determine the request
  id, the consumer, the coordinator and the chain: no two requests of one coordinator, and no
  requests of different coordinators or chains, share a preimage.  The preimage is 104 bytes.
\<close>

theorem seed_preimage_injective:
  assumes "0 \<le> id1" "id1 < 2 ^ 256" "0 \<le> id2" "id2 < 2 ^ 256"
    and "0 \<le> c1" "c1 < 2 ^ 256" "0 \<le> c2" "c2 < 2 ^ 256"
    and "length u1 = 20" "length u2 = 20" "length v1 = 20" "length v2 = 20"
  shows "length (seed_preimage id1 u1 v1 c1) = 104 \<and>
         (seed_preimage id1 u1 v1 c1 = seed_preimage id2 u2 v2 c2 \<longleftrightarrow>
            id1 = id2 \<and> u1 = u2 \<and> v1 = v2 \<and> c1 = c2)"
proof -
  have l: "length (left_pad (be_bytes (nat x)) 32) = 32" if "0 \<le> x" "x < 2 ^ 256" for x
    using that length_left_pad_be_bytes[of "nat x" 32] by (simp add: nat_less_iff)
  have i: "left_pad (be_bytes (nat x)) 32 = left_pad (be_bytes (nat y)) 32 \<longleftrightarrow> x = y"
    if "0 \<le> x" "0 \<le> y" for x y
    using that left_pad_inject[of "nat x" 32 "nat y"] by auto
  show ?thesis
    using assms l i by (simp add: seed_preimage_def append_eq_append_conv)
qed

theorem seed_preimage_injective_witness:
  "seed_preimage 1 (replicate 20 7) (replicate 20 9) 4663 \<noteq>
   seed_preimage 1 (replicate 20 7) (replicate 20 9) 46630"
  using seed_preimage_injective[of 1 1 4663 46630 "replicate 20 7" "replicate 20 7"
      "replicate 20 9" "replicate 20 9"] by simp

end
