(* ===== verification/Dkg.thy ===== *)
theory Dkg
  imports Kyber
begin

text \<open>
  Ceremony identities and shares: the data of \<open>node/internal/dkg/dkg.go\<close> and the list helpers
  the rotation uses.  A \<open>kyber.Scalar\<close> or \<open>kyber.Point\<close> that may be nil is an option.
\<close>

section \<open>Data\<close>

record ('s, 'g2) member =
  member_Index :: u32
  Longterm :: "'s option"
  Public :: "'g2 option"

record ('s, 'g2) share =
  Member :: "('s, 'g2) member"
  Secret :: 's
  GroupPublic :: "'g2"
  Commits :: "'g2 list"

definition share_Index :: "('s, 'g2) share \<Rightarrow> u32" where
  "share_Index sh = member_Index (Member sh)"

section \<open>Helpers\<close>

definition Members :: "('s, 'g2) share list \<Rightarrow> ('s, 'g2) member list" where
  "Members shares = map Member shares"

fun containsMember :: "('s, 'g2) member list \<Rightarrow> u32 \<Rightarrow> bool" where
  "containsMember [] index = False"
| "containsMember (m # ms) index = (if member_Index m = index then True else containsMember ms index)"

text \<open>The loop of \<open>union\<close>: newcomers are appended to the growing result.\<close>

fun union_loop ::
  "('s, 'g2) member list \<Rightarrow> ('s, 'g2) member list \<Rightarrow> ('s, 'g2) member list" where
  "union_loop out [] = out"
| "union_loop out (m # ms) =
     (if \<not> containsMember out (member_Index m) then union_loop (out @ [m]) ms else union_loop out ms)"

definition union_members ::
  "('s, 'g2) share list \<Rightarrow> ('s, 'g2) member list \<Rightarrow> ('s, 'g2) member list" where
  "union_members old members = union_loop (Members old) members"

fun findShare :: "('s, 'g2) share list \<Rightarrow> u32 \<Rightarrow> ('s, 'g2) share option" where
  "findShare [] index = None"
| "findShare (s # ss) index = (if share_Index s = index then Some s else findShare ss index)"

section \<open>Lemmas\<close>

lemma containsMember_iff: "containsMember ms i \<longleftrightarrow> i \<in> member_Index ` set ms"
  by (induction ms) auto

lemma findShare_None: "findShare ss i = None \<longleftrightarrow> i \<notin> share_Index ` set ss"
  by (induction ss) auto

lemma findShare_Some: "findShare ss i = Some s \<Longrightarrow> s \<in> set ss \<and> share_Index s = i"
  by (induction ss) (auto split: if_splits)

lemma union_loop_prefix: "\<exists>new. union_loop out ms = out @ new \<and> set new \<subseteq> set ms"
proof (induction ms arbitrary: out)
  case (Cons m ms)
  show ?case
  proof (cases "containsMember out (member_Index m)")
    case True
    with Cons[of out] show ?thesis by auto
  next
    case False
    obtain new where "union_loop (out @ [m]) ms = (out @ [m]) @ new" "set new \<subseteq> set ms"
      using Cons by blast
    with False show ?thesis by (intro exI[of _ "m # new"]) auto
  qed
qed simp

lemma union_loop_distinct:
  "distinct (map member_Index out) \<Longrightarrow> distinct (map member_Index (union_loop out ms))"
  by (induction ms arbitrary: out) (auto simp: containsMember_iff)

lemma union_loop_indices:
  "member_Index ` set (union_loop out ms) = member_Index ` set out \<union> member_Index ` set ms"
  by (induction ms arbitrary: out) (auto simp: containsMember_iff)

section \<open>Properties\<close>

text \<open>
  Who takes part in a rotation.  The participants are the old share holders, in their order
  and with the identities of their shares, followed by members that were not among them; every
  operator index of either set takes part, and none twice.  An index that is in both sets keeps
  the old identity.
\<close>

theorem union_members_participants:
  assumes "distinct (map share_Index old)"
  shows "\<exists>new. union_members old members = Members old @ new \<and> set new \<subseteq> set members \<and>
           distinct (map member_Index (union_members old members)) \<and>
           member_Index ` set (union_members old members) =
             share_Index ` set old \<union> member_Index ` set members"
proof -
  have "map member_Index (Members old) = map share_Index old"
    by (simp add: Members_def share_Index_def)
  then have "distinct (map member_Index (union_members old members))"
    using assms by (simp add: union_members_def union_loop_distinct)
  moreover have "member_Index ` set (union_members old members) =
      share_Index ` set old \<union> member_Index ` set members"
    by (auto simp: union_members_def union_loop_indices Members_def share_Index_def)
  moreover obtain new where "union_loop (Members old) members = Members old @ new"
    "set new \<subseteq> set members"
    using union_loop_prefix by blast
  ultimately show ?thesis unfolding union_members_def by blast
qed

theorem union_members_participants_witness:
  "map member_Index (union_members
      [\<lparr>Member = \<lparr>member_Index = 0, Longterm = None, Public = Some (5 :: nat)\<rparr>, Secret = (1 :: nat),
        GroupPublic = 2, Commits = []\<rparr>]
      [\<lparr>member_Index = 0, Longterm = None, Public = None\<rparr>,
       \<lparr>member_Index = 9, Longterm = None, Public = None\<rparr>]) = [0, 9] \<and>
   distinct (map member_Index (union_members
      [\<lparr>Member = \<lparr>member_Index = 0, Longterm = None, Public = Some (5 :: nat)\<rparr>, Secret = (1 :: nat),
        GroupPublic = 2, Commits = []\<rparr>]
      [\<lparr>member_Index = 0, Longterm = None, Public = None\<rparr>,
       \<lparr>member_Index = 9, Longterm = None, Public = None\<rparr>]))"
  using union_members_participants[of
      "[\<lparr>Member = \<lparr>member_Index = 0, Longterm = None, Public = Some (5 :: nat)\<rparr>, Secret = (1 :: nat),
        GroupPublic = 2, Commits = []\<rparr>]"
      "[\<lparr>member_Index = 0, Longterm = None, Public = None\<rparr>,
       \<lparr>member_Index = 9, Longterm = None, Public = None\<rparr>]"]
  by (simp add: union_members_def Members_def)

end
