(* ===== verification/Node_State.thy ===== *)
theory Node_State
  imports Session Mesh Metrics Chain_Events Dkg
begin

text \<open>
  The state of one operator daemon (\<open>node/internal/node/node.go\<close>) and the operations on it that
  hold the node's mutex: request keys, the parked shares, the memory of settled requests, the
  table of sessions, and the publication order.

  A session is a Go pointer: it stays usable to whoever holds it after the table has dropped
  it.  So sessions live in a heap, a list that only grows, and the table maps keys to addresses.
\<close>

section \<open>Keys\<close>

definition hexID :: "int \<Rightarrow> string" where
  "hexID i = ''0x'' @ text16 i"

definition trim0x :: "string \<Rightarrow> string" where
  "trim0x s = (if 2 < length s \<and> (take 2 s = ''0x'' \<or> take 2 s = ''0X'') then drop 2 s else s)"

text \<open>How \<open>OnPeerShare\<close> reads a request id: \<open>new(big.Int).SetString(trim0x(s), 16)\<close>.\<close>

definition parse_id :: "string \<Rightarrow> int option" where
  "parse_id s = set_string16 (trim0x s)"

lemma parse_id_hexID [simp]: "parse_id (hexID i) = Some i"
proof -
  have "text16 i \<noteq> []" by (simp add: text16_def)
  then show ?thesis by (simp add: parse_id_def trim0x_def hexID_def)
qed

lemma hexID_inject [simp]: "hexID i = hexID j \<longleftrightarrow> i = j"
  by (metis option.inject parse_id_hexID)

section \<open>Publication order\<close>

definition PublishRank :: "int \<Rightarrow> u32 \<Rightarrow> int \<Rightarrow> u32" where
  "PublishRank i index operators =
     (if operators \<le> 0 then 0
      else let n = (word_of_int operators :: u64);
               offset = (word_of_int (i mod operators) :: u64)
           in ucast ((ucast index + n - offset) mod n))"

lemma uint_PublishRank:
  assumes "0 < n" and "n \<le> 2 ^ 32" and "uint index < n"
  shows "uint (PublishRank i index n) = (uint index - i) mod n"
proof -
  let ?w = "word_of_int n :: u64" and ?o = "word_of_int (i mod n) :: u64"
  have m: "0 \<le> i mod n" "i mod n < n" using assms(1) by simp_all
  have w: "uint ?w = n" using assms by (simp add: uint_word_of_int_eq take_bit_int_eq_self)
  have o: "uint ?o = i mod n" using assms m by (simp add: uint_word_of_int_eq take_bit_int_eq_self)
  have i: "uint (ucast index :: u64) = uint index"
    using uint_lt2p[of index] by (simp add: unsigned_ucast_eq take_bit_int_eq_self)
  have iw: "uint ((ucast index :: u64) + ?w) = uint index + n"
    using assms uint_add_small[of "ucast index" ?w] by (simp add: i w)
  moreover have "uint ?o \<le> uint index + n" using m uint_ge_0[of index] unfolding o by linarith
  ultimately have s: "uint ((ucast index :: u64) + ?w - ?o) = uint index + n - i mod n"
    using uint_sub_lem[of ?o "(ucast index :: u64) + ?w"] by (simp add: o)
  have "uint (((ucast index :: u64) + ?w - ?o) mod ?w) = (uint index + n - i mod n) mod n"
    by (simp add: uint_mod_distrib s w)
  also have "\<dots> = (uint index - i + n) mod n"
    by (simp only: mod_simps) (simp only: algebra_simps)
  also have "\<dots> = (uint index - i) mod n" by simp
  finally have r: "uint (((ucast index :: u64) + ?w - ?o) mod ?w) = (uint index - i) mod n" .
  have "(uint index - i) mod n < n" using assms(1) by simp
  then have "(uint index - i) mod n < 2 ^ 32" using assms(2) by (rule less_le_trans)
  moreover have "0 \<le> (uint index - i) mod n" using assms(1) by simp
  ultimately show ?thesis using assms(1) r
    by (simp add: PublishRank_def Let_def unsigned_ucast_eq take_bit_int_eq_self)
qed

section \<open>State\<close>

definition MaxParkedRequests :: int where "MaxParkedRequests = 256"
definition MaxSettledMemory :: int where "MaxSettledMemory = 10000"

record ('s, 'g2) config =
  Share :: "('s, 'g2) share"
  Threshold :: int
  Operators :: int
  AfterPublish :: bool
  SendRetryInterval :: duration
  SendRetries :: int
  RebroadcastInterval :: duration
  RebroadcastAttempts :: int
  PublishDelay :: duration

text \<open>
  \<open>trace\<close> records, in order, what the node's goroutines have asked of the outside world and what
  they have answered to it; it is the observable behaviour of the node.
\<close>

datatype share_error =
    Undecodable mesh_error
  | UnparseableID
  | WrongSeed
  | Refused session_error

datatype event =
    AskedIsOpen int
  | SentFulfill int "byte list" u32
  | SentShare envelope
  | Paused duration
  | RanAfterPublish
  | Answered "share_error option"

record ('g1, 'g2) node =
  peers :: "string list option"
  heap :: "('g1, 'g2) session list"
  sessions :: "(string, nat) gomap"
  published :: "(string, bool) gomap"
  callbackGas :: "(string, u32) gomap"
  parked :: "(string, envelope list) gomap"
  parkedOrder :: "string list"
  settled :: "(string, bool) gomap"
  settledOrder :: "string list"
  counters :: "registry option"
  trace :: "event list"

definition new_node :: "registry option \<Rightarrow> ('g1, 'g2) node" where
  "new_node m =
     \<lparr> peers = None, heap = [], sessions = mempty, published = mempty, callbackGas = mempty,
       parked = mempty, parkedOrder = [], settled = mempty, settledOrder = [], counters = m,
       trace = [] \<rparr>"

text \<open>The counters are optional; \<open>count\<close> is the nil check.\<close>

definition count :: "(registry \<Rightarrow> registry) \<Rightarrow> ('g1, 'g2) node \<Rightarrow> ('g1, 'g2) node" where
  "count f n = (case counters n of None \<Rightarrow> n | Some m \<Rightarrow> n\<lparr>counters := Some (f m)\<rparr>)"

definition emit :: "event \<Rightarrow> ('g1, 'g2) node \<Rightarrow> ('g1, 'g2) node" where
  "emit e n = n\<lparr>trace := trace n @ [e]\<rparr>"

definition SetPeers :: "string list \<Rightarrow> ('g1, 'g2) node \<Rightarrow> ('g1, 'g2) node" where
  "SetPeers ps n = n\<lparr>peers := Some ps\<rparr>"

definition Sessions :: "('g1, 'g2) node \<Rightarrow> int" where "Sessions n = mlen (sessions n)"
definition Parked :: "('g1, 'g2) node \<Rightarrow> int" where "Parked n = mlen (parked n)"

definition callbackGasOf :: "('g1, 'g2) node \<Rightarrow> string \<Rightarrow> u32" where
  "callbackGasOf n key = (case mget (callbackGas n) key of None \<Rightarrow> 0 | Some g \<Rightarrow> g)"

definition existingSession :: "('g1, 'g2) node \<Rightarrow> string \<Rightarrow> nat option" where
  "existingSession n key = mget (sessions n) key"

definition sessionFor ::
  "('s, 'g2) config \<Rightarrow> int \<Rightarrow> byte list \<Rightarrow> ('g1, 'g2) node \<Rightarrow> nat \<times> ('g1, 'g2) node" where
  "sessionFor cfg i seed n =
     (case mget (sessions n) (hexID i) of
        Some a \<Rightarrow> (a, n)
      | None \<Rightarrow>
          (let a = length (heap n);
               s = New seed (Commits (Share cfg)) (Threshold cfg) (Operators cfg)
           in (a, n\<lparr>heap := heap n @ [s], sessions := mput (sessions n) (hexID i) a\<rparr>)))"

definition forget :: "string \<Rightarrow> ('g1, 'g2) node \<Rightarrow> ('g1, 'g2) node" where
  "forget key n = n\<lparr>sessions := mdel (sessions n) key\<rparr>"

definition knownSettled :: "('g1, 'g2) node \<Rightarrow> string \<Rightarrow> bool" where
  "knownSettled n key \<longleftrightarrow> mget (settled n) key = Some True"

definition isPublished :: "('g1, 'g2) node \<Rightarrow> string \<Rightarrow> bool" where
  "isPublished n key \<longleftrightarrow> mget (published n) key = Some True"

section \<open>Parking\<close>

definition park ::
  "('s, 'g2) config \<Rightarrow> string \<Rightarrow> envelope \<Rightarrow> ('g1, 'g2) node \<Rightarrow> ('g1, 'g2) node" where
  "park cfg key e n =
     (let known = (mget (parked n) key \<noteq> None);
          held = (case mget (parked n) key of None \<Rightarrow> [] | Some h \<Rightarrow> h);
          n1 = (if known then n
                else let n0 = (if MaxParkedRequests \<le> int (length (parkedOrder n))
                               then (case parkedOrder n of
                                       [] \<Rightarrow> n
                                     | oldest # rest \<Rightarrow>
                                         n\<lparr>parkedOrder := rest, parked := mdel (parked n) oldest\<rparr>)
                               else n)
                     in n0\<lparr>parkedOrder := parkedOrder n0 @ [key]\<rparr>)
      in if Operators cfg \<le> int (length held) then n1
         else n1\<lparr>parked := mput (parked n1) key (held @ [e])\<rparr>)"

text \<open>The loop that takes a key out of \<open>parkedOrder\<close> removes its first occurrence.\<close>

definition takeParked :: "string \<Rightarrow> ('g1, 'g2) node \<Rightarrow> envelope list \<times> ('g1, 'g2) node" where
  "takeParked key n =
     (case mget (parked n) key of
        None \<Rightarrow> ([], n)
      | Some held \<Rightarrow>
          (held, n\<lparr>parked := mdel (parked n) key, parkedOrder := remove1 key (parkedOrder n)\<rparr>))"

section \<open>Settled requests\<close>

text \<open>The trimming loop of \<open>OnFulfilled\<close>.\<close>

fun trim_settled ::
  "(string, bool) gomap \<Rightarrow> string list \<Rightarrow> (string, bool) gomap \<times> string list" where
  "trim_settled m [] = (m, [])"
| "trim_settled m (k # ks) =
     (if MaxSettledMemory < int (length (k # ks)) then trim_settled (mdel m k) ks else (m, k # ks))"

definition OnFulfilled :: "int \<Rightarrow> ('g1, 'g2) node \<Rightarrow> ('g1, 'g2) node" where
  "OnFulfilled i n =
     (let key = hexID i in
      if mget (settled n) key = Some True then n
      else let (m, ks) = trim_settled (mput (settled n) key True) (settledOrder n @ [key])
           in n\<lparr>settled := m, settledOrder := ks\<rparr>)"

end
