(* ===== verification/Node_Memory.thy ===== *)
theory Node_Memory
  imports Node_State
begin

text \<open>
  The node's two bounded memories, parked shares and settled requests, are one thing: a set of
  keys with an arrival order and a capacity, where a new key past the capacity evicts the
  oldest.  The contract and its consequences are stated once and hold for both.
\<close>

section \<open>First-in first-out memory\<close>

locale fifo_memory =
  fixes order :: "'s \<Rightarrow> 'k list"
    and has :: "'s \<Rightarrow> 'k \<Rightarrow> bool"
    and cap :: nat
    and key_of :: "'x \<Rightarrow> 'k"
    and remember :: "'s \<Rightarrow> 'x \<Rightarrow> 's"
    and good :: "'s \<Rightarrow> bool"
  assumes order_known: "good s \<Longrightarrow> has s (key_of x) \<Longrightarrow> order (remember s x) = order s"
    and order_new: "good s \<Longrightarrow> \<not> has s (key_of x) \<Longrightarrow>
      order (remember s x) = (if length (order s) < cap then order s else tl (order s)) @ [key_of x]"
    and has_order: "good s \<Longrightarrow> has s k \<longleftrightarrow> k \<in> set (order s)"
    and good_remember: "good s \<Longrightarrow> good (remember s x)"
    and good_bound: "good s \<Longrightarrow> length (order s) \<le> cap"
    and cap_pos: "0 < cap"
begin

lemma remembered: "good s \<Longrightarrow> has (remember s x) (key_of x)"
  using has_order[OF good_remember, of s x "key_of x"] has_order[of s "key_of x"]
  by (cases "has s (key_of x)") (simp_all add: order_known order_new)

lemma good_foldl: "good s \<Longrightarrow> good (foldl remember s xs)"
  by (induction xs arbitrary: s) (simp_all add: good_remember)

lemma bound_foldl: "good s \<Longrightarrow> length (order (foldl remember s xs)) \<le> cap"
  by (simp add: good_bound good_foldl)

text \<open>A key with at most \<open>j\<close> younger ones has at most \<open>j + 1\<close> after one more arrival.\<close>

lemma younger_step:
  assumes "good s" and "order s = pre @ k # post" and "length post < cap - 1"
  shows "\<exists>pre' post'. order (remember s x) = pre' @ k # post' \<and> length post' \<le> Suc (length post)"
proof (cases "has s (key_of x)")
  case True
  then show ?thesis using assms(1,2)
    by (intro exI[of _ pre] exI[of _ post]) (simp add: order_known)
next
  case False
  show ?thesis
  proof (cases "length (order s) < cap")
    case True
    then have "order (remember s x) = pre @ k # (post @ [key_of x])"
      using False assms(1,2) by (simp add: order_new)
    then show ?thesis by fastforce
  next
    case full: False
    then have "pre \<noteq> []" using assms(2,3) cap_pos by auto
    then have "order (remember s x) = tl pre @ k # (post @ [key_of x])"
      using False full assms(1,2) by (simp add: order_new tl_append2)
    then show ?thesis by fastforce
  qed
qed

lemma younger_foldl:
  "good s \<Longrightarrow> order s = pre @ k # post \<Longrightarrow> length post + length xs < cap \<Longrightarrow>
   has (foldl remember s xs) k"
proof (induction xs arbitrary: s pre post)
  case Nil
  then show ?case by (simp add: has_order)
next
  case (Cons x xs)
  have "length post < cap - 1" using Cons.prems(3) by simp
  then obtain pre' post' where "order (remember s x) = pre' @ k # post'"
    "length post' \<le> Suc (length post)"
    using younger_step[OF Cons.prems(1,2), of x] by auto
  then show ?case
    using Cons.IH[OF good_remember[OF Cons.prems(1)], of x pre' post'] Cons.prems(3) by simp
qed

lemma retained:
  assumes "good s" and "\<not> has s (key_of x)" and "length xs < cap"
  shows "has (foldl remember (remember s x) xs) (key_of x)"
proof -
  obtain pre where "order (remember s x) = pre @ key_of x # []"
    using assms(1,2) by (simp add: order_new)
  then show ?thesis
    using younger_foldl[OF good_remember[OF assms(1)], of x pre "key_of x" "[]" xs] assms(3)
    by simp
qed

end

section \<open>Settled requests\<close>

definition settled_ok :: "('g1, 'g2) node \<Rightarrow> bool" where
  "settled_ok n \<longleftrightarrow> mok (settled n) \<and> distinct (settledOrder n) \<and>
     (\<forall>k. mget (settled n) k = (if k \<in> set (settledOrder n) then Some True else None)) \<and>
     length (settledOrder n) \<le> 10000"

lemma trim_settled_short: "length ks \<le> 10000 \<Longrightarrow> trim_settled m ks = (m, ks)"
  by (cases ks) (auto simp: MaxSettledMemory_def)

lemma trim_settled_long:
  "length ks = 10001 \<Longrightarrow> trim_settled m ks = (mdel m (hd ks), tl ks)"
  by (cases ks) (auto simp: MaxSettledMemory_def trim_settled_short)

lemma OnFulfilled_known:
  "knownSettled n (hexID i) \<Longrightarrow> OnFulfilled i n = n"
  by (simp add: OnFulfilled_def knownSettled_def)

lemma OnFulfilled_new:
  assumes "settled_ok n" and "\<not> knownSettled n (hexID i)"
  shows "OnFulfilled i n =
     (if length (settledOrder n) < 10000
      then n\<lparr>settled := mput (settled n) (hexID i) True, settledOrder := settledOrder n @ [hexID i]\<rparr>
      else n\<lparr>settled := mdel (mput (settled n) (hexID i) True) (hd (settledOrder n)),
             settledOrder := tl (settledOrder n) @ [hexID i]\<rparr>)"
proof (cases "length (settledOrder n) < 10000")
  case True
  with assms show ?thesis
    by (simp add: OnFulfilled_def knownSettled_def trim_settled_short Let_def)
next
  case False
  then have "length (settledOrder n) = 10000" using assms(1) by (simp add: settled_ok_def)
  moreover from this have "settledOrder n \<noteq> []" by auto
  ultimately show ?thesis
    using assms by (simp add: OnFulfilled_def knownSettled_def trim_settled_long Let_def)
qed

lemma settled_ok_OnFulfilled:
  assumes "settled_ok n"
  shows "settled_ok (OnFulfilled i n)"
proof (cases "knownSettled n (hexID i)")
  case True
  with assms show ?thesis by (simp add: OnFulfilled_known)
next
  case False
  then have new: "hexID i \<notin> set (settledOrder n)"
    using assms by (auto simp: settled_ok_def knownSettled_def)
  show ?thesis
  proof (cases "length (settledOrder n) < 10000")
    case True
    with assms new show ?thesis
      by (auto simp: OnFulfilled_new[OF assms False] settled_ok_def)
  next
    case full: False
    obtain k ks where "settledOrder n = k # ks"
      using full by (cases "settledOrder n") auto
    with full assms new show ?thesis
      by (auto simp: OnFulfilled_new[OF assms False] settled_ok_def)
  qed
qed

interpretation settling: fifo_memory settledOrder knownSettled 10000 hexID
    "\<lambda>n i. OnFulfilled i n" settled_ok
proof
  fix s :: "('g1, 'g2) node" and x k
  assume good: "settled_ok s"
  show "knownSettled s (hexID x) \<Longrightarrow> settledOrder (OnFulfilled x s) = settledOrder s"
    by (simp add: OnFulfilled_known)
  show "\<not> knownSettled s (hexID x) \<Longrightarrow> settledOrder (OnFulfilled x s) =
      (if length (settledOrder s) < 10000 then settledOrder s else tl (settledOrder s)) @ [hexID x]"
    using good by (simp add: OnFulfilled_new)
  show "knownSettled s k \<longleftrightarrow> k \<in> set (settledOrder s)"
    using good by (simp add: settled_ok_def knownSettled_def)
  show "settled_ok (OnFulfilled x s)" using good by (rule settled_ok_OnFulfilled)
  show "length (settledOrder s) \<le> 10000" using good by (simp add: settled_ok_def)
qed simp

section \<open>Parked shares\<close>

definition parked_ok :: "('s, 'g2) config \<Rightarrow> ('g1, 'g2) node \<Rightarrow> bool" where
  "parked_ok cfg n \<longleftrightarrow> 0 < Operators cfg \<and> mok (parked n) \<and> distinct (parkedOrder n) \<and>
     (\<forall>k. k \<in> set (parkedOrder n) \<longleftrightarrow> mget (parked n) k \<noteq> None) \<and>
     length (parkedOrder n) \<le> 256 \<and>
     (\<forall>k h. mget (parked n) k = Some h \<longrightarrow> h \<noteq> [] \<and> int (length h) \<le> Operators cfg)"

definition hasParked :: "('g1, 'g2) node \<Rightarrow> string \<Rightarrow> bool" where
  "hasParked n key \<longleftrightarrow> mget (parked n) key \<noteq> None"

lemma park_known:
  "mget (parked n) key = Some held \<Longrightarrow> park cfg key e n =
     (if Operators cfg \<le> int (length held) then n
      else n\<lparr>parked := mput (parked n) key (held @ [e])\<rparr>)"
  by (simp add: park_def)

lemma park_new:
  assumes "parked_ok cfg n" and "mget (parked n) key = None"
  shows "park cfg key e n =
     (if length (parkedOrder n) < 256
      then n\<lparr>parkedOrder := parkedOrder n @ [key], parked := mput (parked n) key [e]\<rparr>
      else n\<lparr>parkedOrder := tl (parkedOrder n) @ [key],
             parked := mput (mdel (parked n) (hd (parkedOrder n))) key [e]\<rparr>)"
  using assms
  by (cases "parkedOrder n") (auto simp: park_def parked_ok_def MaxParkedRequests_def Let_def)

lemma parked_ok_park:
  assumes "parked_ok cfg n"
  shows "parked_ok cfg (park cfg key e n)"
proof (cases "mget (parked n) key")
  case (Some held)
  then have "key \<in> set (parkedOrder n)" using assms by (simp add: parked_ok_def)
  with Some assms show ?thesis by (auto simp: park_known parked_ok_def)
next
  case None
  then have new: "key \<notin> set (parkedOrder n)" using assms by (simp add: parked_ok_def)
  show ?thesis
  proof (cases "length (parkedOrder n) < 256")
    case True
    with assms None new show ?thesis by (auto simp: park_new[OF assms None] parked_ok_def)
  next
    case full: False
    then obtain k ks where o: "parkedOrder n = k # ks" by (cases "parkedOrder n") auto
    with full assms None new show ?thesis
      by (auto simp: park_new[OF assms None] parked_ok_def)
  qed
qed

lemma parked_ok_takeParked:
  assumes "parked_ok cfg n"
  shows "parked_ok cfg (snd (takeParked key n))"
proof (cases "mget (parked n) key")
  case (Some held)
  then have "length (remove1 key (parkedOrder n)) \<le> 256"
    using assms by (auto simp: parked_ok_def length_remove1)
  with Some assms show ?thesis by (auto simp: takeParked_def parked_ok_def)
qed (use assms in \<open>simp add: takeParked_def\<close>)

interpretation parking: fifo_memory parkedOrder hasParked 256 fst
    "\<lambda>n ke. park cfg (fst ke) (snd ke) n" "parked_ok cfg"
  for cfg :: "('s, 'g2) config"
proof
  fix s :: "('g1, 'g2) node" and x :: "string \<times> envelope" and k
  assume good: "parked_ok cfg s"
  show "hasParked s (fst x) \<Longrightarrow> parkedOrder (park cfg (fst x) (snd x) s) = parkedOrder s"
    by (auto simp: hasParked_def park_known)
  show "\<not> hasParked s (fst x) \<Longrightarrow> parkedOrder (park cfg (fst x) (snd x) s) =
      (if length (parkedOrder s) < 256 then parkedOrder s else tl (parkedOrder s)) @ [fst x]"
    using good by (simp add: hasParked_def park_new)
  show "hasParked s k \<longleftrightarrow> k \<in> set (parkedOrder s)"
    using good by (simp add: parked_ok_def hasParked_def)
  show "parked_ok cfg (park cfg (fst x) (snd x) s)" using good by (rule parked_ok_park)
  show "length (parkedOrder s) \<le> 256" using good by (simp add: parked_ok_def)
qed simp

lemma parked_ok_new: "0 < Operators cfg \<Longrightarrow> parked_ok cfg (new_node m)"
  by (simp add: parked_ok_def new_node_def)

lemma settled_ok_new: "settled_ok (new_node m)"
  by (simp add: settled_ok_def new_node_def)

lemma Parked_length:
  assumes "parked_ok cfg n"
  shows "Parked n = int (length (parkedOrder n))"
proof -
  have "dom (mget (parked n)) = set (parkedOrder n)" using assms by (auto simp: parked_ok_def)
  then show ?thesis
    using assms by (simp add: Parked_def gm.len_card parked_ok_def distinct_card)
qed

section \<open>Properties\<close>

text \<open>
  Parking is bounded both ways.  Whatever envelopes strangers make a node park, for whatever
  request ids, it holds shares for at most 256 requests and at most as many shares per request as
  there are operators; a request is listed exactly once, and only while shares are held for it.
\<close>

theorem parked_memory_bounded:
  assumes "0 < Operators cfg"
    and "n = foldl (\<lambda>n ke. park cfg (fst ke) (snd ke) n) (new_node m) kes"
  shows "Parked n \<le> MaxParkedRequests \<and>
         (\<forall>k h. mget (parked n) k = Some h \<longrightarrow> int (length h) \<le> Operators cfg) \<and>
         distinct (parkedOrder n) \<and> set (parkedOrder n) = {k. mget (parked n) k \<noteq> None}"
proof -
  have "parked_ok cfg n"
    unfolding assms(2) using parking.good_foldl[OF parked_ok_new[OF assms(1)]] .
  then show ?thesis
    using Parked_length[of cfg n] by (auto simp: parked_ok_def MaxParkedRequests_def)
qed

definition cfg_demo :: "(gf11, gf11) config" where
  "cfg_demo =
     \<lparr> Share = \<lparr>Member = \<lparr>member_Index = 1, Longterm = None, Public = None\<rparr>,
                Secret = share_at [3, 5] 1, GroupPublic = 3,
                Commits = commits_of small_kyber [3, 5]\<rparr>,
       Threshold = 2, Operators = 3, AfterPublish = True, SendRetryInterval = seconds 2,
       SendRetries = 3, RebroadcastInterval = seconds 3, RebroadcastAttempts = 4,
       PublishDelay = seconds 3 \<rparr>"

theorem parked_memory_bounded_witness:
  "Parked (foldl (\<lambda>n ke. park cfg_demo (fst ke) (snd ke) n) (new_node None :: (gf11, gf11) node)
      [(''0x1'', envelope_of ''0x1'' [] 0 []), (''0x1'', envelope_of ''0x1'' [] 2 [])]) \<le> 256"
proof -
  have "0 < Operators cfg_demo" by (simp add: cfg_demo_def)
  then show ?thesis
    by (rule parked_memory_bounded[OF _ refl, THEN conjunct1, unfolded MaxParkedRequests_def])
qed

text \<open>
  A settled request is remembered for the next 9,999.  Once the log stream has reported a
  request, the node knows it as settled, through any further reports, until at least ten
  thousand other reports have come in; and it never remembers more than ten thousand.
\<close>

theorem settled_memory_retains:
  assumes "settled_ok n" and "\<not> knownSettled n (hexID i)" and "length js < 10000"
  shows "knownSettled (foldl (\<lambda>n j. OnFulfilled j n) (OnFulfilled i n) js) (hexID i) \<and>
         length (settledOrder (foldl (\<lambda>n j. OnFulfilled j n) (OnFulfilled i n) js)) \<le> 10000"
  using settling.retained[OF assms] settling.bound_foldl[OF settled_ok_OnFulfilled[OF assms(1)]]
  by simp

theorem settled_memory_retains_witness:
  "knownSettled (foldl (\<lambda>n j. OnFulfilled j n) (OnFulfilled 7 (new_node None)) [8, 7, 9]) (hexID 7)"
proof -
  show ?thesis
    by (rule settled_memory_retains[OF settled_ok_new, THEN conjunct1])
       (simp_all add: knownSettled_def new_node_def)
qed

text \<open>
  C38.  The publication order is a rota.  For every request, the ranks of the operators \<open>0\<close> to
  \<open>n - 1\<close> are the numbers \<open>0\<close> to \<open>n - 1\<close>, each once: exactly one operator publishes at once, the
  one whose index is the request id modulo \<open>n\<close>, and the next request id moves every rank by one.
\<close>

theorem publish_rank_is_a_rota:
  assumes "0 < n" and "n \<le> 2 ^ 32"
  shows "bij_betw (\<lambda>index. uint (PublishRank i (word_of_int index) n)) {0 ..< n} {0 ..< n} \<and>
         (\<forall>index \<in> {0 ..< n}. PublishRank i (word_of_int index) n = 0 \<longleftrightarrow> index = i mod n) \<and>
         (\<forall>index \<in> {0 ..< n}. uint (PublishRank (i + 1) (word_of_int index) n) =
            (uint (PublishRank i (word_of_int index) n) - 1) mod n)"
proof -
  have r: "uint (PublishRank j (word_of_int index) n) = (index - j) mod n"
    if "index \<in> {0 ..< n}" for index j
  proof -
    have "uint (word_of_int index :: u32) = index"
      using that assms by (simp add: uint_word_of_int_eq take_bit_int_eq_self)
    then show ?thesis using uint_PublishRank[OF assms, of "word_of_int index" j] that by simp
  qed
  have inj: "inj_on (\<lambda>index. (index - i) mod n) {0 ..< n}"
  proof (rule inj_onI)
    fix x y assume xy: "x \<in> {0 ..< n}" "y \<in> {0 ..< n}" "(x - i) mod n = (y - i) mod n"
    then have "(x - i + i) mod n = (y - i + i) mod n" by (metis mod_add_cong)
    with xy show "x = y" by simp
  qed
  have "(\<lambda>index. (index - i) mod n) ` {0 ..< n} = {0 ..< n}"
    using assms(1) inj by (intro endo_inj_surj) auto
  with inj have "bij_betw (\<lambda>index. (index - i) mod n) {0 ..< n} {0 ..< n}"
    by (simp add: bij_betw_def)
  then have "bij_betw (\<lambda>index. uint (PublishRank i (word_of_int index) n)) {0 ..< n} {0 ..< n}"
    using r by (subst bij_betw_cong) auto
  moreover have "PublishRank i (word_of_int index) n = 0 \<longleftrightarrow> index = i mod n"
    if "index \<in> {0 ..< n}" for index
  proof -
    have "(index - i) mod n = 0 \<longleftrightarrow> index mod n = i mod n"
      by (simp add: mod_eq_dvd_iff dvd_eq_mod_eq_0)
    with r[OF that, of i] that show ?thesis by (simp flip: uint_0_iff)
  qed
  moreover have "uint (PublishRank (i + 1) (word_of_int index) n) =
      (uint (PublishRank i (word_of_int index) n) - 1) mod n" if "index \<in> {0 ..< n}" for index
    using r[OF that] by (simp add: mod_simps algebra_simps)
  ultimately show ?thesis by blast
qed

theorem publish_rank_is_a_rota_witness:
  "bij_betw (\<lambda>index. uint (PublishRank 123 (word_of_int index) 9)) {0 ..< 9} {0 ..< 9}"
  using publish_rank_is_a_rota[of 9 123] by simp

text \<open>
  Request keys are canonical.  Reading a key back gives the id it was made from, and any two
  spellings that a peer may use for one id (upper case, a \<open>0X\<close> prefix, leading zeros, no prefix)
  lead to the same key; different ids have different keys.
\<close>

theorem request_keys_canonical:
  "parse_id (hexID i) = Some i \<and>
   (parse_id s = Some i \<and> parse_id s' = Some j \<longrightarrow> (hexID i = hexID j \<longleftrightarrow> parse_id s = parse_id s'))"
  by auto

theorem request_keys_canonical_witness:
  "parse_id ''0X001F'' = Some 31 \<and> parse_id ''1f'' = Some 31 \<and> hexID 31 = ''0x1f''"
proof -
  have "parse_id ''0X001F'' = Some 31" "parse_id ''1f'' = Some 31"
    by (simp_all add: parse_id_def trim0x_def set_string16_def hex_nat_def hexvalue_def)
  moreover have "hexID 31 = ''0x1f''"
    by (simp add: hexID_def text16_def hex_of_nat.simps hexdigit_def)
  ultimately show ?thesis using request_keys_canonical[of 31 "''0X001F''" "''1f''" 31] by simp
qed

end
