(* ===== verification/Node_Tasks.thy ===== *)
theory Node_Tasks
  imports Node_Memory
begin

text \<open>
  The handlers of \<open>node/internal/node/node.go\<close> as programs of atomic sections.  A task is a
  goroutine together with the point it has reached; one step runs one critical section (of the
  node's mutex or of a session's), one wait or one call to the chain.  Between two steps of a
  task any other task may run, so everything proved over \<open>node_step\<close> holds for every
  interleaving the Go scheduler can produce.

  What the outside world does in a step is an \<open>answer\<close>: whether the context is done, what the
  chain says, the random draw and the order in which a map is ranged over.
\<close>

section \<open>Tasks\<close>

datatype publish_pc =
    Pub_Start
  | Pub_Claim
  | Pub_Sign
  | Pub_Settled "byte list"
  | Pub_Turn "byte list"
  | Pub_Settled_Again "byte list"
  | Pub_Ask "byte list"
  | Pub_Send "byte list" nat
  | Pub_Backoff "byte list" nat
  | Pub_Recheck "byte list" nat
  | Pub_Forget

datatype chase_pc = Chase_Wait | Chase_Ready | Chase_Offer

datatype request_pc =
    Req_Start
  | Req_Derive
  | Req_Settled "byte list"
  | Req_Session "byte list"
  | Req_Own "byte list" nat
  | Req_Take "byte list" nat
  | Req_File "byte list" nat "envelope list"
  | Req_Offer "byte list" nat

datatype 'g1 share_pc =
    Share_Start
  | Share_Find int "byte list" "'g1 partial"
  | Share_Park int
  | Share_Add int nat "'g1 partial"
  | Share_Reject nat session_error

text \<open>
  \<open>maybePublish\<close> is called at the end of \<open>OnRequest\<close>, in a goroutine of its own by \<open>OnPeerShare\<close>,
  and from inside the loop of \<open>chaseQuorum\<close>; in the last case it returns to the next attempt.
\<close>

datatype 'g1 task =
    Requesting request request_pc
  | Chasing int nat envelope nat chase_pc
  | Publishing int nat publish_pc "(envelope \<times> nat) option"
  | Sharing envelope "'g1 share_pc"

record 'g1 answer =
  cancelled :: bool
  drawn :: "int \<Rightarrow> int option"
  is_open :: "string + bool"
  sent :: "string + byte list"
  ranged :: "(u32, 'g1 partial) gomap \<Rightarrow> (u32, 'g1 partial) gomap"

definition answer_ok :: "'g1 answer \<Rightarrow> bool" where
  "answer_ok w \<longleftrightarrow> iteration_order (ranged w) \<and>
     (\<forall>m r. drawn w m = Some r \<longrightarrow> 0 \<le> r \<and> r < m)"

section \<open>Waiting\<close>

text \<open>\<open>time.Duration\<close> is a 64-bit integer: \<open><<\<close> and \<open>+\<close> wrap, \<open>/\<close> truncates.\<close>

definition jitter :: "(int \<Rightarrow> int option) \<Rightarrow> duration \<Rightarrow> duration" where
  "jitter draw d =
     (if d \<le> 0 then d
      else let spread = quot d 5 in
           if spread \<le> 0 then d
           else case draw spread of None \<Rightarrow> d | Some r \<Rightarrow> wrap64 (d + r))"

definition backoff :: "('s, 'g2) config \<Rightarrow> nat \<Rightarrow> duration" where
  "backoff cfg attempt = wrap64 (SendRetryInterval cfg * 2 ^ attempt)"

definition turn_delay :: "('s, 'g2) config \<Rightarrow> int \<Rightarrow> duration" where
  "turn_delay cfg i =
     (let rank = PublishRank i (share_Index (Share cfg)) (Operators cfg) in
      if 0 < rank \<and> 0 < PublishDelay cfg then wrap64 (uint rank * PublishDelay cfg) else 0)"

definition waits_turn :: "('s, 'g2) config \<Rightarrow> int \<Rightarrow> bool" where
  "waits_turn cfg i \<longleftrightarrow>
     0 < PublishRank i (share_Index (Share cfg)) (Operators cfg) \<and> 0 < PublishDelay cfg"

section \<open>Sessions in the heap\<close>

definition set_session :: "nat \<Rightarrow> ('g1, 'g2) session \<Rightarrow> ('g1, 'g2) node \<Rightarrow> ('g1, 'g2) node" where
  "set_session a s n = n\<lparr>heap := (heap n)[a := s]\<rparr>"

definition add_at ::
  "('s, 'g1, 'g2, 'gt) kyber \<Rightarrow> nat \<Rightarrow> 'g1 partial \<Rightarrow> ('g1, 'g2) node \<Rightarrow>
   (session_error + bool) \<times> ('g1, 'g2) node" where
  "add_at K a p n = (case Add K (heap n ! a) p of (r, s) \<Rightarrow> (r, set_session a s n))"

section \<open>Publishing\<close>

definition exhausted :: "('s, 'g2) config \<Rightarrow> nat \<Rightarrow> bool" where
  "exhausted cfg attempt \<longleftrightarrow> SendRetries cfg \<le> int attempt \<or> SendRetryInterval cfg \<le> 0"

fun publish_step ::
  "('s, 'g1, 'g2, 'gt) kyber \<Rightarrow> ('s, 'g2) config \<Rightarrow> 'g1 answer \<Rightarrow> int \<Rightarrow> nat \<Rightarrow> publish_pc \<Rightarrow>
   ('g1, 'g2) node \<Rightarrow> publish_pc option \<times> ('g1, 'g2) node" where
  "publish_step K cfg w i a Pub_Start n =
     (if Ready (heap n ! a) then (Some Pub_Claim, n) else (None, n))"
| "publish_step K cfg w i a Pub_Claim n =
     (if isPublished n (hexID i) then (None, n)
      else (Some Pub_Sign, n\<lparr>published := mput (published n) (hexID i) True\<rparr>))"
| "publish_step K cfg w i a Pub_Sign n =
     (case Signature K (ranged w) (heap n ! a) of
        Inl e \<Rightarrow> (Some Pub_Forget, n)
      | Inr signature \<Rightarrow> (Some (Pub_Settled signature), n))"
| "publish_step K cfg w i a (Pub_Settled signature) n =
     (if knownSettled n (hexID i) then (Some Pub_Forget, count RaceLost n)
      else (Some (Pub_Turn signature), n))"
| "publish_step K cfg w i a (Pub_Turn signature) n =
     (if waits_turn cfg i
      then if cancelled w then (Some Pub_Forget, n)
           else (Some (Pub_Settled_Again signature), emit (Paused (turn_delay cfg i)) n)
      else (Some (Pub_Settled_Again signature), n))"
| "publish_step K cfg w i a (Pub_Settled_Again signature) n =
     (if knownSettled n (hexID i) then (Some Pub_Forget, count RaceLost n)
      else (Some (Pub_Ask signature), n))"
| "publish_step K cfg w i a (Pub_Ask signature) n =
     (if is_open w = Inr False then (Some Pub_Forget, count RaceLost (emit (AskedIsOpen i) n))
      else (Some (Pub_Send signature 0), emit (AskedIsOpen i) n))"
| "publish_step K cfg w i a (Pub_Send signature attempt) n =
     (let n1 = emit (SentFulfill i signature (callbackGasOf n (hexID i))) n in
      case sent w of
        Inr hash \<Rightarrow>
          (let n2 = forget (hexID i) (count Published n1)
           in (None, if AfterPublish cfg then emit RanAfterPublish n2 else n2))
      | Inl err \<Rightarrow>
          if exhausted cfg attempt then (Some Pub_Forget, count RaceLost n1)
          else (Some (Pub_Backoff signature attempt), n1))"
| "publish_step K cfg w i a (Pub_Backoff signature attempt) n =
     (if cancelled w then (Some Pub_Forget, n)
      else (Some (Pub_Recheck signature attempt), emit (Paused (jitter (drawn w) (backoff cfg attempt))) n))"
| "publish_step K cfg w i a (Pub_Recheck signature attempt) n =
     (if is_open w = Inr False then (Some Pub_Forget, count RaceLost (emit (AskedIsOpen i) n))
      else (Some (Pub_Send signature (Suc attempt)), emit (AskedIsOpen i) n))"
| "publish_step K cfg w i a Pub_Forget n = (None, forget (hexID i) n)"

section \<open>Chasing the quorum\<close>

datatype chase_next = Chase_At chase_pc | Chase_Publish | Chase_Done

fun chase_step ::
  "('s, 'g2) config \<Rightarrow> 'g1 answer \<Rightarrow> int \<Rightarrow> nat \<Rightarrow> envelope \<Rightarrow> nat \<Rightarrow> chase_pc \<Rightarrow>
   ('g1, 'g2) node \<Rightarrow> chase_next \<times> ('g1, 'g2) node" where
  "chase_step cfg w i a e attempt Chase_Wait n =
     (if RebroadcastInterval cfg \<le> 0 \<or> RebroadcastAttempts cfg \<le> int attempt then (Chase_Done, n)
      else if cancelled w then (Chase_Done, n)
      else (Chase_At Chase_Ready, emit (Paused (RebroadcastInterval cfg)) n))"
| "chase_step cfg w i a e attempt Chase_Ready n =
     (if Ready (heap n ! a) then (Chase_Done, n) else (Chase_At Chase_Offer, n))"
| "chase_step cfg w i a e attempt Chase_Offer n =
     (if isPublished n (hexID i) then (Chase_Done, n) else (Chase_Publish, emit (SentShare e) n))"

section \<open>A request is announced\<close>

definition own_partial :: "('s, 'g1, 'g2, 'gt) kyber \<Rightarrow> ('s, 'g2) config \<Rightarrow> byte list \<Rightarrow> 'g1 partial" where
  "own_partial K cfg seed =
     \<lparr>Index = share_Index (Share cfg), Sig = Some (Sign K (Secret (Share cfg)) seed)\<rparr>"

text \<open>One round of the loop over the shares that had been held.\<close>

definition file_held ::
  "('s, 'g1, 'g2, 'gt) kyber \<Rightarrow> byte list \<Rightarrow> nat \<Rightarrow> envelope \<Rightarrow> ('g1, 'g2) node \<Rightarrow> ('g1, 'g2) node" where
  "file_held K seed a e n =
     (case Decode K e of
        Inl err \<Rightarrow> n
      | Inr (heldSeed, p) \<Rightarrow>
          if heldSeed \<noteq> seed then n
          else (case add_at K a p n of
                  (Inl err, n1) \<Rightarrow> count (ShareRejected (Index p)) n1
                | (Inr True, n1) \<Rightarrow> count (ShareReceived (Index p)) n1
                | (Inr False, n1) \<Rightarrow> n1))"

definition offer_share ::
  "('s, 'g1, 'g2, 'gt) kyber \<Rightarrow> ('s, 'g2) config \<Rightarrow> int \<Rightarrow> byte list \<Rightarrow> nat \<Rightarrow>
   ('g1, 'g2) node \<Rightarrow> 'g1 task \<times> ('g1, 'g2) node" where
  "offer_share K cfg i seed a n =
     (case peers n of
        None \<Rightarrow> (Publishing i a Pub_Start None, n)
      | Some ps \<Rightarrow>
          (case SignatureBytes K (Sign K (Secret (Share cfg)) seed) of
             Inl err \<Rightarrow> (Publishing i a Pub_Start None, n)
           | Inr raw \<Rightarrow>
               (let e = envelope_of (hexID i) seed (share_Index (Share cfg)) raw
                in (Chasing i a e 0 Chase_Wait, emit (SentShare e) (count ShareSent n)))))"

fun request_step ::
  "('s, 'g1, 'g2, 'gt) kyber \<Rightarrow> ('s, 'g2) config \<Rightarrow> (int \<Rightarrow> byte list \<Rightarrow> byte list) \<Rightarrow> request \<Rightarrow>
   request_pc \<Rightarrow> ('g1, 'g2) node \<Rightarrow> 'g1 task option \<times> ('g1, 'g2) node" where
  "request_step K cfg derive req Req_Start n =
     (Some (Requesting req Req_Derive),
      n\<lparr>callbackGas := mput (callbackGas n) (hexID (ID req)) (CallbackGasLimit req)\<rparr>)"
| "request_step K cfg derive req Req_Derive n =
     (let n1 = count (\<lambda>m. BlockSeen (Block req) (RequestSeen m)) n;
          seed = derive (ID req) (Consumer req)
      in if seed \<noteq> req_Seed req then (None, n1) else (Some (Requesting req (Req_Settled seed)), n1))"
| "request_step K cfg derive req (Req_Settled seed) n =
     (if knownSettled n (hexID (ID req)) then (None, n)
      else (Some (Requesting req (Req_Session seed)), n))"
| "request_step K cfg derive req (Req_Session seed) n =
     (case sessionFor cfg (ID req) seed n of (a, n1) \<Rightarrow> (Some (Requesting req (Req_Own seed a)), n1))"
| "request_step K cfg derive req (Req_Own seed a) n =
     (case add_at K a (own_partial K cfg seed) n of
        (Inl err, n1) \<Rightarrow> (None, n1)
      | (Inr _, n1) \<Rightarrow> (Some (Requesting req (Req_Take seed a)), n1))"
| "request_step K cfg derive req (Req_Take seed a) n =
     (case takeParked (hexID (ID req)) n of
        (held, n1) \<Rightarrow> (Some (Requesting req (Req_File seed a held)), n1))"
| "request_step K cfg derive req (Req_File seed a (e # held)) n =
     (Some (Requesting req (Req_File seed a held)), file_held K seed a e n)"
| "request_step K cfg derive req (Req_File seed a []) n =
     (Some (Requesting req (Req_Offer seed a)), n)"
| "request_step K cfg derive req (Req_Offer seed a) n =
     (case offer_share K cfg (ID req) seed a n of (t, n1) \<Rightarrow> (Some t, n1))"

section \<open>A peer's share arrives\<close>

definition refuse :: "share_error \<Rightarrow> ('g1, 'g2) node \<Rightarrow> 'g1 task list \<times> ('g1, 'g2) node" where
  "refuse err n = ([], emit (Answered (Some err)) n)"

fun share_step ::
  "('s, 'g1, 'g2, 'gt) kyber \<Rightarrow> ('s, 'g2) config \<Rightarrow> envelope \<Rightarrow> 'g1 share_pc \<Rightarrow>
   ('g1, 'g2) node \<Rightarrow> 'g1 task list \<times> ('g1, 'g2) node" where
  "share_step K cfg e Share_Start n =
     (case Decode K e of
        Inl err \<Rightarrow> refuse (Undecodable err) n
      | Inr (claimedSeed, p) \<Rightarrow>
          (case parse_id (env_RequestID e) of
             None \<Rightarrow> refuse UnparseableID n
           | Some i \<Rightarrow> ([Sharing e (Share_Find i claimedSeed p)], n)))"
| "share_step K cfg e (Share_Find i claimedSeed p) n =
     (case existingSession n (hexID i) of
        None \<Rightarrow> ([Sharing e (Share_Park i)], n)
      | Some a \<Rightarrow> if Seed (heap n ! a) \<noteq> claimedSeed then refuse WrongSeed n
                  else ([Sharing e (Share_Add i a p)], n))"
| "share_step K cfg e (Share_Park i) n =
     ([], emit (Answered None) (park cfg (hexID i) e n))"
| "share_step K cfg e (Share_Add i a p) n =
     (case add_at K a p n of
        (Inl err, n1) \<Rightarrow> ([Sharing e (Share_Reject a err)], count (ShareRejected (Index p)) n1)
      | (Inr added, n1) \<Rightarrow>
          ([Publishing i a Pub_Start None],
           emit (Answered None) (if added then count (ShareReceived (Index p)) n1 else n1)))"
| "share_step K cfg e (Share_Reject a err) n =
     (case Equivocation (heap n ! a) of
        None \<Rightarrow> refuse (Refused err) n
      | Some ev \<Rightarrow> refuse (Refused err) (count (Equivocated (eq_Index ev)) n))"

section \<open>The node\<close>

definition resume :: "int \<Rightarrow> nat \<Rightarrow> (envelope \<times> nat) option \<Rightarrow> 'g1 task list" where
  "resume i a cont = (case cont of None \<Rightarrow> [] | Some (e, attempt) \<Rightarrow> [Chasing i a e attempt Chase_Wait])"

fun task_step ::
  "('s, 'g1, 'g2, 'gt) kyber \<Rightarrow> ('s, 'g2) config \<Rightarrow> (int \<Rightarrow> byte list \<Rightarrow> byte list) \<Rightarrow> 'g1 answer \<Rightarrow>
   'g1 task \<Rightarrow> ('g1, 'g2) node \<Rightarrow> 'g1 task list \<times> ('g1, 'g2) node" where
  "task_step K cfg derive w (Requesting req pc) n =
     (case request_step K cfg derive req pc n of
        (None, n1) \<Rightarrow> ([], n1) | (Some t, n1) \<Rightarrow> ([t], n1))"
| "task_step K cfg derive w (Chasing i a e attempt pc) n =
     (case chase_step cfg w i a e attempt pc n of
        (Chase_At pc1, n1) \<Rightarrow> ([Chasing i a e attempt pc1], n1)
      | (Chase_Publish, n1) \<Rightarrow> ([Publishing i a Pub_Start (Some (e, Suc attempt))], n1)
      | (Chase_Done, n1) \<Rightarrow> ([Publishing i a Pub_Start None], n1))"
| "task_step K cfg derive w (Publishing i a pc cont) n =
     (case publish_step K cfg w i a pc n of
        (None, n1) \<Rightarrow> (resume i a cont, n1) | (Some pc1, n1) \<Rightarrow> ([Publishing i a pc1 cont], n1))"
| "task_step K cfg derive w (Sharing e pc) n = share_step K cfg e pc n"

text \<open>
  The environment may announce any request, deliver any envelope, report any request as settled or any block
  as scanned, and let any task run its next section.
\<close>

inductive node_step ::
  "('s, 'g1, 'g2, 'gt) kyber \<Rightarrow> ('s, 'g2) config \<Rightarrow> (int \<Rightarrow> byte list \<Rightarrow> byte list) \<Rightarrow>
   ('g1, 'g2) node \<times> 'g1 task list \<Rightarrow> ('g1, 'g2) node \<times> 'g1 task list \<Rightarrow> bool"
  for K cfg derive where
  announce: "node_step K cfg derive (n, ts) (n, ts @ [Requesting req Req_Start])"
| deliver: "node_step K cfg derive (n, ts) (n, ts @ [Sharing e Share_Start])"
| settle: "node_step K cfg derive (n, ts) (OnFulfilled i n, ts)"
| scanned: "node_step K cfg derive (n, ts) (count (BlockSeen b) n, ts)"
| attach: "node_step K cfg derive (n, ts) (SetPeers ps n, ts)"
| run: "answer_ok w \<Longrightarrow> task_step K cfg derive w t n = (new, n1) \<Longrightarrow>
        node_step K cfg derive (n, pre @ t # post) (n1, pre @ new @ post)"

inductive reachable ::
  "('s, 'g1, 'g2, 'gt) kyber \<Rightarrow> ('s, 'g2) config \<Rightarrow> (int \<Rightarrow> byte list \<Rightarrow> byte list) \<Rightarrow>
   ('g1, 'g2) node \<times> 'g1 task list \<Rightarrow> bool"
  for K cfg derive where
  start: "reachable K cfg derive (new_node m, [])"
| more: "reachable K cfg derive x \<Longrightarrow> node_step K cfg derive x y \<Longrightarrow> reachable K cfg derive y"

inductive_cases node_stepE: "node_step K cfg derive (n, ts) y"

text \<open>The tasks one after another without interference, one answer per step.\<close>

fun run_tasks ::
  "('s, 'g1, 'g2, 'gt) kyber \<Rightarrow> ('s, 'g2) config \<Rightarrow> (int \<Rightarrow> byte list \<Rightarrow> byte list) \<Rightarrow>
   'g1 answer list \<Rightarrow> 'g1 task list \<Rightarrow> ('g1, 'g2) node \<Rightarrow> 'g1 task list \<times> ('g1, 'g2) node" where
  "run_tasks K cfg derive [] ts n = (ts, n)"
| "run_tasks K cfg derive (w # ws) [] n = ([], n)"
| "run_tasks K cfg derive (w # ws) (t # ts) n =
     (case task_step K cfg derive w t n of
        (new, n1) \<Rightarrow> run_tasks K cfg derive ws (new @ ts) n1)"

end
