(* ===== verification/Session_Props.thy ===== *)
theory Session_Props
  imports Session
begin

text \<open>
  The properties of a session: what it guarantees against any sequence of calls to \<open>Add\<close>, and
  the two places where it gives less than its comments say.
\<close>

section \<open>Shares under honest indices\<close>

text \<open>
  \<open>loyal\<close>: whatever arrives under an index of \<open>H\<close> is that operator's own signature.
\<close>

definition loyal ::
  "('s::field, 'g1, 'g2, 'gt) kyber \<Rightarrow> 's list \<Rightarrow> byte list \<Rightarrow> u32 set \<Rightarrow> 'g1 partial list \<Rightarrow> bool" where
  "loyal K a seed H ps \<longleftrightarrow>
     (\<forall>p \<in> set ps. Index p \<in> H \<longrightarrow> Sig p = Sig (honest_partial K a seed (Index p)))"

lemma honest_Add_stores:
  assumes "kyber_laws K" and "s_commits s = commits_of K a"
    and "Sig p = Sig (honest_partial K a (s_seed s) (Index p))"
    and "uint (Index p) < s_operators s" and "\<not> burned s (Index p)"
  shows "mget (s_partials (snd (Add K s p))) (Index p) \<noteq> None"
  using assms
  by (cases rule: Add_cases[of K s p])
     (auto simp: burned_def Add_def Let_def VerifyPartial_iff recordEquivocation_def
           split: option.splits if_splits)

lemma loyal_stored:
  assumes "kyber_laws K" and "s_commits s = commits_of K a"
    and "loyal K a (s_seed s) H ps" and "\<forall>i \<in> H. uint i < s_operators s \<and> \<not> burned s i"
    and "i \<in> H" and "i \<in> Index ` set ps \<or> mget (s_partials s) i \<noteq> None"
  shows "mget (s_partials (add_all K s ps)) i \<noteq> None"
  using assms
proof (induction ps arbitrary: s)
  case (Cons q ps)
  let ?s = "snd (Add K s q)"
  have stored: "Index q \<in> H \<Longrightarrow> mget (s_partials ?s) (Index q) \<noteq> None"
    using Cons.prems by (intro honest_Add_stores) (auto simp: loyal_def)
  have keep: "mget (s_partials s) j \<noteq> None \<Longrightarrow> mget (s_partials ?s) j \<noteq> None" for j
    using stored_stays[of s j _ K "[q]"] by auto
  have "\<not> burned ?s j" if "j \<in> H" for j
  proof (cases "j = Index q")
    case True
    with stored that show ?thesis by (simp add: burned_def)
  next
    case False
    have "\<not> burned s j" using Cons.prems(4) that by blast
    with False show ?thesis
      by (cases rule: Add_cases[of K s q]) (auto simp: burned_def recordEquivocation_def)
  qed
  moreover have "i \<in> Index ` set ps \<or> mget (s_partials ?s) i \<noteq> None"
    using Cons.prems(5,6) stored keep by auto
  ultimately show ?case
    using Cons.prems Cons.IH[of ?s] by (simp add: loyal_def)
qed simp

lemma Ready_of_stored:
  assumes "session_inv K s" and "\<forall>i \<in> H. mget (s_partials s) i \<noteq> None"
    and "s_threshold s \<le> int (card H)"
  shows "Ready s"
proof -
  have "H \<subseteq> dom (mget (s_partials s))" using assms(2) by auto
  then have "card H \<le> card (dom (mget (s_partials s)))" by (intro card_mono gm.finite_get)
  moreover have "Collected s = int (card (dom (mget (s_partials s))))"
    using assms(1) by (simp add: Collected_def gm.len_card session_inv_def)
  ultimately show ?thesis using assms(3) by (simp add: Ready_def)
qed

lemma loyal_ready:
  assumes "kyber_laws K" and "\<forall>i \<in> H. uint i < n" and "t \<le> int (card H)"
    and "H \<subseteq> Index ` set ps" and "loyal K a seed H ps"
  shows "Ready (add_all K (New seed (commits_of K a) t n) ps)"
proof -
  let ?s = "New seed (commits_of K a) t n"
  have "mget (s_partials (add_all K ?s ps)) i \<noteq> None" if "i \<in> H" for i
    using assms that by (intro loyal_stored[where H = H]) (auto simp: burned_def)
  then show ?thesis
    using assms(3) Ready_of_stored[OF session_inv_run[of K seed "commits_of K a" t n ps], of H]
    by simp
qed

lemma honest_ready:
  "kyber_laws K \<Longrightarrow> \<forall>i \<in> set is. uint i < n \<Longrightarrow> distinct is \<Longrightarrow> t \<le> int (length is) \<Longrightarrow>
   Ready (add_all K (New seed (commits_of K a) t n) (map (honest_partial K a seed) is))"
  by (intro loyal_ready[of K "set is"]) (auto simp: distinct_card loyal_def image_comp)

section \<open>Properties\<close>

text \<open>
  C6.  What a session signs cannot be steered.  Take any sequence of calls to \<open>Add\<close>, with any
  points under any indices, on a session created with the commitments of the dealing polynomial
  \<open>a\<close>, and any order in which Go ranges over the map.  If the session is ready, \<open>Signature\<close>
  returns the 64 bytes that encode the group's signature on the seed, the same bytes in every
  such run; if it is not ready, it returns the error that partials are missing, and never
  anything else.
\<close>

theorem session_signature_is_the_groups:
  assumes "kyber_laws K" and "small_group K n" and "a \<noteq> []" and "int (length a) = t"
    and "iteration_order order"
  shows "let s = add_all K (New seed (commits_of K a) t n) ps in
         if Ready s
         then \<exists>raw. Signature K order s = Inr raw \<and> length raw = 64 \<and>
                    PointFromSignature K raw = Inr (Sign K (peval a 0) seed) \<and>
                    SignatureBytes K (Sign K (peval a 0) seed) = Inr raw
         else Signature K order s = Inl (TooFewPartials (Collected s) t)"
proof -
  let ?s = "add_all K (New seed (commits_of K a) t n) ps"
  have f: "s_seed ?s = seed" "s_commits ?s = commits_of K a" "s_threshold ?s = t"
    "s_operators ?s = n" by simp_all
  obtain raw where raw: "SignatureBytes K (Sign K (peval a 0) seed) = Inr raw" "length raw = 64"
    "PointFromSignature K raw = Inr (Sign K (peval a 0) seed)"
    using assms(1) SignatureBytes_ok unfolding kyber_laws_def by metis
  have ready: "Ready ?s \<Longrightarrow> Signature K order ?s = Inr raw"
    using Signature_ready[of K ?s a order] assms session_inv_run[of K seed _ t n ps]
    by (simp add: f raw)
  have "length (order (s_partials ?s)) = length (s_partials ?s)"
    using assms(5) by (metis iteration_order_def size_mset)
  then have "\<not> Ready ?s \<Longrightarrow> Signature K order ?s = Inl (TooFewPartials (Collected ?s) t)"
    by (simp add: Signature_def Let_def Ready_def Collected_def mlen_def f)
  with ready raw show ?thesis by (simp add: Let_def)
qed

theorem session_signature_is_the_groups_witness:
  "\<exists>raw. Signature small_kyber rev (add_all small_kyber
            (New [1, 2] (commits_of small_kyber [3, 5]) 2 9)
            (map (honest_partial small_kyber [3, 5] [1, 2]) [7, 0])) = Inr raw \<and>
         PointFromSignature small_kyber raw = Inr (Sign small_kyber (peval [3, 5] 0) [1, 2])"
proof -
  have "Ready (add_all small_kyber (New [1, 2] (commits_of small_kyber [3, 5]) 2 9)
            (map (honest_partial small_kyber [3, 5] [1, 2]) [7, 0]))"
    by (rule honest_ready) (simp_all add: small_kyber_laws)
  with session_signature_is_the_groups[of small_kyber 9 "[3, 5]" 2 rev "[1, 2]"
      "map (honest_partial small_kyber [3, 5] [1, 2]) [7, 0]"]
  show ?thesis
    by (auto simp: Let_def small_kyber_laws small_kyber_group iteration_order_def)
qed

text \<open>
  A quorum of undisturbed operators is enough.  If what arrives under the indices of some
  set \<open>H\<close> of at least \<open>t\<close> operators is always those operators' own signature, and each of them
  arrives at least once, the session is ready, whatever else is posted under other indices,
  before, between or after.
\<close>

theorem honest_quorum_ready:
  assumes "kyber_laws K" and "\<forall>i \<in> H. uint i < n" and "t \<le> int (card H)"
    and "H \<subseteq> Index ` set ps" and "loyal K a seed H ps"
  shows "Ready (add_all K (New seed (commits_of K a) t n) ps)"
  by (rule loyal_ready[OF assms])

theorem honest_quorum_ready_witness:
  "Ready (add_all small_kyber (New [1] (commits_of small_kyber [3, 5]) 2 9)
     [\<lparr>Index = 4, Sig = Some 0\<rparr>, honest_partial small_kyber [3, 5] [1] 6,
      \<lparr>Index = 40, Sig = None\<rparr>, honest_partial small_kyber [3, 5] [1] 1])"
  by (rule honest_quorum_ready[where H = "{1, 6}"])
     (simp_all add: small_kyber_laws loyal_def)

text \<open>
  A flood buys at most one pairing per operator.  Whatever is posted, the number of
  verifications a session has paid for is at most the size of the group, and at least the
  number of partials it holds.
\<close>

theorem flood_costs_one_verification_each:
  "Verifications (add_all K (New seed commits t n) ps) \<le> max 0 n \<and>
   Collected (add_all K (New seed commits t n) ps) \<le> Verifications (add_all K (New seed commits t n) ps)"
  using session_bounds[OF session_inv_run[of K seed commits t n ps]]
  by (simp add: Verifications_def)

text \<open>
  A share is counted however late it comes.  In any reachable session, a partial that
  verifies, from an operator of the group whose attempt is unspent, is accepted and raises the
  count by one, also when the threshold has long been met; posting it again changes nothing and
  is not an error.
\<close>

theorem valid_share_is_counted:
  assumes "s = add_all K (New seed commits t n) ps"
    and "uint i < n" and "VerifyPartial K commits i seed sig" and "mget (s_spent s) i = None"
  shows "fst (Add K s \<lparr>Index = i, Sig = Some sig\<rparr>) = Inr True \<and>
         Collected (snd (Add K s \<lparr>Index = i, Sig = Some sig\<rparr>)) = Collected s + 1 \<and>
         Add K (snd (Add K s \<lparr>Index = i, Sig = Some sig\<rparr>)) \<lparr>Index = i, Sig = Some sig\<rparr> =
           (Inr False, snd (Add K s \<lparr>Index = i, Sig = Some sig\<rparr>))"
proof -
  let ?p = "\<lparr>Index = i, Sig = Some sig\<rparr>"
  have inv: "session_inv K s" unfolding assms(1) by (rule session_inv_run)
  have f: "s_seed s = seed" "s_commits s = commits" "s_operators s = n"
    unfolding assms(1) by simp_all
  have "mget (s_partials s) i = None"
    using inv assms(4) by (cases "mget (s_partials s) i") (auto simp: session_inv_def)
  then have add: "Add K s ?p = (Inr True,
      s\<lparr>s_spent := mput (s_spent s) i True, s_verifications := s_verifications s + 1,
        s_partials := mput (s_partials s) i ?p\<rparr>)"
    using assms(2-4) by (simp add: Add_def Let_def f)
  have "Collected (snd (Add K s ?p)) = Collected s + 1"
    using Collected_Add[OF inv, of ?p] add by simp
  then show ?thesis using assms(2) by (simp add: add) (simp add: Add_def f)
qed

theorem valid_share_is_counted_witness:
  "fst (Add small_kyber (New [1] (commits_of small_kyber [3, 5]) 0 9)
          \<lparr>Index = 2, Sig = Some (Sign small_kyber (share_at [3, 5] (uint (2 :: u32))) [1])\<rparr>) = Inr True"
  using valid_share_is_counted[of _ small_kyber "[1]" "commits_of small_kyber [3, 5]" 0 9 "[]" 2
      "Sign small_kyber (share_at [3, 5] (uint (2 :: u32))) [1]"]
  by (simp add: VerifyPartial_iff small_kyber_laws)

text \<open>
  C40.  One wrong point per operator silences the quorum.  The attempt an index may spend is not
  bound to the operator it names: whoever posts first spends it.  If points that do not verify
  are posted under more than \<open>n - t\<close> different indices before the operators' own shares arrive,
  no sequence of later calls, with the honest shares of every operator in it, ever makes the
  session ready.
\<close>

theorem wrong_points_block_the_quorum:
  assumes "0 \<le> n" and "distinct (map Index fs)" and "\<forall>p \<in> set fs. forged K commits seed n p"
    and "n - t < int (length fs)"
  shows "\<not> Ready (add_all K (New seed commits t n) (fs @ ps))"
proof -
  let ?init = "New seed commits t n"
  let ?s = "add_all K ?init (fs @ ps)"
  have burned: "burned ?s i" if "i \<in> Index ` set fs" for i
  proof -
    from that obtain p where "p \<in> set fs" "i = Index p" by auto
    then have "burned (add_all K ?init fs) i"
      using all_forged_burned[of K ?init fs p] assms(3) by (simp add: session_inv_New)
    then show ?thesis by (simp add: add_all_append burned_stays)
  qed
  have inv: "session_inv K ?s" by (rule session_inv_run)
  let ?D = "dom (mget (s_partials ?s))"
  have "uint ` (?D \<union> Index ` set fs) \<subseteq> {0 ..< n}"
    using inv assms(3) by (auto simp: session_inv_def forged_def)
  then have "card (uint ` (?D \<union> Index ` set fs)) \<le> card {0 ..< n}" by (intro card_mono) auto
  then have "int (card (?D \<union> Index ` set fs)) \<le> n"
    using assms(1) by (simp add: card_image inj_on_def flip: word_uint_eq_iff)
  moreover have "?D \<inter> Index ` set fs = {}" using burned by (auto simp: burned_def)
  then have "card (?D \<union> Index ` set fs) = card ?D + length fs"
    using assms(2) distinct_card[of "map Index fs"]
    by (simp add: card_Un_disjoint gm.finite_get)
  moreover have "Collected ?s = int (card ?D)"
    using inv by (simp add: Collected_def gm.len_card session_inv_def)
  ultimately show ?thesis using assms(4) by (simp add: Ready_def New_def)
qed

theorem wrong_points_block_the_quorum_witness:
  "\<not> Ready (add_all small_kyber (New [1] (commits_of small_kyber [3, 5]) 2 3)
      ([\<lparr>Index = 0, Sig = Some 0\<rparr>, \<lparr>Index = 1, Sig = Some 0\<rparr>] @
       map (honest_partial small_kyber [3, 5] [1]) [0, 1, 2]))"
proof (rule wrong_points_block_the_quorum)
  show "\<forall>p \<in> set [\<lparr>Index = 0, Sig = Some 0\<rparr>, \<lparr>Index = 1, Sig = Some (0 :: gf11)\<rparr>].
      forged small_kyber (commits_of small_kyber [3, 5]) [1] 3 p"
    by (simp add: forged_def VerifyPartial_iff small_kyber_laws Sign_small share_at_def)
qed simp_all

text \<open>
  Recorded equivocation is evidence of nothing.  In every reachable session the first point
  of a recorded equivocation verifies for the named operator and the second does not: no
  operator can have signed it.  And the record is there for the asking: once an operator's
  share is stored, any other point posted under its index, by anyone, produces the record
  against that operator.
\<close>

theorem equivocation_second_point_never_verifies:
  assumes "kyber_laws K" and "s = add_all K (New seed (commits_of K a) t n) ps"
  shows "(\<forall>ev. Equivocation s = Some ev \<longrightarrow>
            (\<exists>f g. First ev = Some f \<and> Second ev = Some g \<and>
                   VerifyPartial K (commits_of K a) (eq_Index ev) seed f \<and>
                   \<not> VerifyPartial K (commits_of K a) (eq_Index ev) seed g)) \<and>
         (\<forall>i p g. Equivocation s = None \<and> mget (s_partials s) i = Some p \<and> Sig p \<noteq> Some g \<longrightarrow>
            Equivocation (snd (Add K s \<lparr>Index = i, Sig = Some g\<rparr>)) =
              Some \<lparr>eq_Index = i, eq_Seed = seed, First = Sig p, Second = Some g\<rparr>)"
proof -
  have inv: "session_inv K s" unfolding assms(2) by (rule session_inv_run)
  have f: "s_seed s = seed" "s_commits s = commits_of K a" "s_operators s = n"
    unfolding assms(2) by simp_all
  have "\<exists>f g. First ev = Some f \<and> Second ev = Some g \<and>
          VerifyPartial K (commits_of K a) (eq_Index ev) seed f \<and>
          \<not> VerifyPartial K (commits_of K a) (eq_Index ev) seed g"
    if "Equivocation s = Some ev" for ev
    using inv that assms(1) by (auto simp: session_inv_def Equivocation_def f VerifyPartial_iff)
  moreover have "Equivocation (snd (Add K s \<lparr>Index = i, Sig = Some g\<rparr>)) =
      Some \<lparr>eq_Index = i, eq_Seed = seed, First = Sig p, Second = Some g\<rparr>"
    if "Equivocation s = None" "mget (s_partials s) i = Some p" "Sig p \<noteq> Some g" for i p g
  proof -
    have "uint i < n" using inv that(2) by (simp add: session_inv_def f)
    with that show ?thesis
      by (simp add: Add_def Equivocation_def recordEquivocation_def Let_def f)
  qed
  ultimately show ?thesis by blast
qed

theorem equivocation_second_point_never_verifies_witness:
  "Equivocation (snd (Add small_kyber
      (add_all small_kyber (New [1] (commits_of small_kyber [3, 5]) 2 3)
         [honest_partial small_kyber [3, 5] [1] 0]) \<lparr>Index = 0, Sig = Some 0\<rparr>)) =
   Some \<lparr>eq_Index = 0, eq_Seed = [1], First = Sig (honest_partial small_kyber [3, 5] [1] 0),
          Second = Some 0\<rparr>"
proof -
  let ?K = small_kyber and ?h = "honest_partial small_kyber [3, 5] [1] (0 :: u32)"
  let ?s = "add_all ?K (New [1] (commits_of ?K [3, 5]) 2 3) [?h]"
  have st: "Equivocation ?s = None \<and> mget (s_partials ?s) 0 = Some ?h"
    by (simp add: Add_def Let_def VerifyPartial_iff small_kyber_laws Equivocation_def)
  moreover have "Sig ?h \<noteq> Some 0"
    by (simp add: Sign_small share_at_def)
  ultimately show ?thesis
    using equivocation_second_point_never_verifies[OF small_kyber_laws refl,
        of "[1]" "[3, 5]" 2 3 "[?h]"] by blast
qed

end
