(* ===== verification/Node_Safety.thy ===== *)
theory Node_Safety
  imports Node_Tasks Session_Props
begin

text \<open>
  Invariants of the running node, for every interleaving of its goroutines: what its sessions
  are for, what it sends to its peers, and what it publishes and how often.
\<close>

section \<open>What a session, a task and an event may be\<close>

text \<open>
  \<open>dealt\<close>: the share was dealt by the polynomial \<open>poly\<close>, whose coefficients are as many as the
  threshold, in a group the library can interpolate in.
\<close>

definition dealt :: "('s::field, 'g1, 'g2, 'gt) kyber \<Rightarrow> ('s, 'g2) config \<Rightarrow> 's list \<Rightarrow> bool" where
  "dealt K cfg poly \<longleftrightarrow> kyber_laws K \<and> small_group K (Operators cfg) \<and> poly \<noteq> [] \<and>
     int (length poly) = Threshold cfg \<and> Commits (Share cfg) = commits_of K poly"

definition session_ok ::
  "('s, 'g1, 'g2, 'gt) kyber \<Rightarrow> ('s, 'g2) config \<Rightarrow> ('g1, 'g2) session \<Rightarrow> bool" where
  "session_ok K cfg s \<longleftrightarrow> session_inv K s \<and> s_commits s = Commits (Share cfg) \<and>
     s_threshold s = Threshold cfg \<and> s_operators s = Operators cfg"

definition derived :: "(int \<Rightarrow> byte list \<Rightarrow> byte list) \<Rightarrow> int \<Rightarrow> byte list \<Rightarrow> bool" where
  "derived derive i seed \<longleftrightarrow> (\<exists>consumer. seed = derive i consumer)"

definition at_session ::
  "(int \<Rightarrow> byte list \<Rightarrow> byte list) \<Rightarrow> ('g1, 'g2) session list \<Rightarrow> int \<Rightarrow> nat \<Rightarrow> bool" where
  "at_session derive h i a \<longleftrightarrow> a < length h \<and> derived derive i (s_seed (h ! a))"

definition group_signature ::
  "('s::field, 'g1, 'g2, 'gt) kyber \<Rightarrow> 's list \<Rightarrow> (int \<Rightarrow> byte list \<Rightarrow> byte list) \<Rightarrow> int \<Rightarrow>
   byte list \<Rightarrow> bool" where
  "group_signature K poly derive i raw \<longleftrightarrow>
     (\<exists>seed. derived derive i seed \<and> SignatureBytes K (Sign K (peval poly 0) seed) = Inr raw)"

definition own_envelope ::
  "('s, 'g1, 'g2, 'gt) kyber \<Rightarrow> ('s, 'g2) config \<Rightarrow> (int \<Rightarrow> byte list \<Rightarrow> byte list) \<Rightarrow> int \<Rightarrow>
   envelope \<Rightarrow> bool" where
  "own_envelope K cfg derive i e \<longleftrightarrow>
     (\<exists>seed raw. derived derive i seed \<and>
        SignatureBytes K (Sign K (Secret (Share cfg)) seed) = Inr raw \<and>
        e = envelope_of (hexID i) seed (share_Index (Share cfg)) raw)"

fun pub_signature :: "publish_pc \<Rightarrow> byte list option" where
  "pub_signature (Pub_Settled s) = Some s"
| "pub_signature (Pub_Turn s) = Some s"
| "pub_signature (Pub_Settled_Again s) = Some s"
| "pub_signature (Pub_Ask s) = Some s"
| "pub_signature (Pub_Send s k) = Some s"
| "pub_signature (Pub_Backoff s k) = Some s"
| "pub_signature (Pub_Recheck s k) = Some s"
| "pub_signature _ = None"

fun request_ok ::
  "(int \<Rightarrow> byte list \<Rightarrow> byte list) \<Rightarrow> ('g1, 'g2) session list \<Rightarrow> request \<Rightarrow> request_pc \<Rightarrow> bool" where
  "request_ok derive h req Req_Start = True"
| "request_ok derive h req Req_Derive = True"
| "request_ok derive h req (Req_Settled seed) = derived derive (ID req) seed"
| "request_ok derive h req (Req_Session seed) = derived derive (ID req) seed"
| "request_ok derive h req (Req_Own seed a) = (derived derive (ID req) seed \<and> at_session derive h (ID req) a)"
| "request_ok derive h req (Req_Take seed a) = (derived derive (ID req) seed \<and> at_session derive h (ID req) a)"
| "request_ok derive h req (Req_File seed a es) = (derived derive (ID req) seed \<and> at_session derive h (ID req) a)"
| "request_ok derive h req (Req_Offer seed a) = (derived derive (ID req) seed \<and> at_session derive h (ID req) a)"

fun share_ok ::
  "(int \<Rightarrow> byte list \<Rightarrow> byte list) \<Rightarrow> ('g1, 'g2) session list \<Rightarrow> 'g1 share_pc \<Rightarrow> bool" where
  "share_ok derive h (Share_Add i a p) = at_session derive h i a"
| "share_ok derive h (Share_Reject a err) = (a < length h)"
| "share_ok derive h _ = True"

fun task_ok ::
  "('s::field, 'g1, 'g2, 'gt) kyber \<Rightarrow> ('s, 'g2) config \<Rightarrow> 's list \<Rightarrow>
   (int \<Rightarrow> byte list \<Rightarrow> byte list) \<Rightarrow> ('g1, 'g2) session list \<Rightarrow> 'g1 task \<Rightarrow> bool" where
  "task_ok K cfg poly derive h (Requesting req pc) = request_ok derive h req pc"
| "task_ok K cfg poly derive h (Chasing i a e k pc) =
     (at_session derive h i a \<and> own_envelope K cfg derive i e)"
| "task_ok K cfg poly derive h (Publishing i a pc cont) =
     (at_session derive h i a \<and>
      (\<forall>raw. pub_signature pc = Some raw \<longrightarrow> group_signature K poly derive i raw) \<and>
      (\<forall>e k. cont = Some (e, k) \<longrightarrow> own_envelope K cfg derive i e))"
| "task_ok K cfg poly derive h (Sharing e pc) = share_ok derive h pc"

fun event_ok ::
  "('s::field, 'g1, 'g2, 'gt) kyber \<Rightarrow> ('s, 'g2) config \<Rightarrow> 's list \<Rightarrow>
   (int \<Rightarrow> byte list \<Rightarrow> byte list) \<Rightarrow> event \<Rightarrow> bool" where
  "event_ok K cfg poly derive (SentFulfill i raw gas) = group_signature K poly derive i raw"
| "event_ok K cfg poly derive (SentShare e) = (\<exists>i. own_envelope K cfg derive i e)"
| "event_ok K cfg poly derive _ = True"

definition node_ok ::
  "('s::field, 'g1, 'g2, 'gt) kyber \<Rightarrow> ('s, 'g2) config \<Rightarrow> 's list \<Rightarrow>
   (int \<Rightarrow> byte list \<Rightarrow> byte list) \<Rightarrow> ('g1, 'g2) node \<Rightarrow> bool" where
  "node_ok K cfg poly derive n \<longleftrightarrow>
     (\<forall>s \<in> set (heap n). session_ok K cfg s) \<and>
     (\<forall>i a. mget (sessions n) (hexID i) = Some a \<longrightarrow> at_session derive (heap n) i a) \<and>
     (\<forall>ev \<in> set (trace n). event_ok K cfg poly derive ev)"

section \<open>Frames\<close>

text \<open>Sessions are only ever appended, and keep their seed.\<close>

definition heap_le :: "('g1, 'g2) session list \<Rightarrow> ('g1, 'g2) session list \<Rightarrow> bool" where
  "heap_le h h' \<longleftrightarrow> length h \<le> length h' \<and> (\<forall>a < length h. s_seed (h' ! a) = s_seed (h ! a))"

lemma heap_le_refl [simp]: "heap_le h h"
  by (simp add: heap_le_def)

lemma heap_le_append [simp]: "heap_le h (h @ xs)"
  by (simp add: heap_le_def nth_append)

lemma heap_le_update [simp]: "s_seed s = s_seed (h ! a) \<Longrightarrow> heap_le h (h[a := s])"
  by (cases "a < length h") (auto simp: heap_le_def nth_list_update)

lemma at_session_mono: "heap_le h h' \<Longrightarrow> at_session derive h i a \<Longrightarrow> at_session derive h' i a"
  by (auto simp: heap_le_def at_session_def)

lemma task_ok_mono:
  assumes "heap_le h h'" and "task_ok K cfg poly derive h t"
  shows "task_ok K cfg poly derive h' t"
proof (cases t)
  case (Requesting req pc)
  with assms show ?thesis by (cases pc) (auto intro: at_session_mono)
next
  case (Sharing e pc)
  with assms show ?thesis by (cases pc) (auto intro: at_session_mono simp: heap_le_def)
qed (use assms in \<open>auto intro: at_session_mono\<close>)

named_theorems frame

lemma count_frame [frame]:
  "heap (count f n) = heap n" "sessions (count f n) = sessions n" "trace (count f n) = trace n"
  "published (count f n) = published n" "settled (count f n) = settled n"
  "callbackGas (count f n) = callbackGas n" "peers (count f n) = peers n"
  "parked (count f n) = parked n" "parkedOrder (count f n) = parkedOrder n"
  "settledOrder (count f n) = settledOrder n"
  by (simp_all add: count_def split: option.splits)

lemma emit_frame [frame]:
  "heap (emit e n) = heap n" "sessions (emit e n) = sessions n" "trace (emit e n) = trace n @ [e]"
  "published (emit e n) = published n" "settled (emit e n) = settled n"
  "callbackGas (emit e n) = callbackGas n" "peers (emit e n) = peers n"
  "parked (emit e n) = parked n" "parkedOrder (emit e n) = parkedOrder n"
  "counters (emit e n) = counters n" "settledOrder (emit e n) = settledOrder n"
  by (simp_all add: emit_def)

lemma forget_frame [frame]:
  "heap (forget k n) = heap n" "sessions (forget k n) = mdel (sessions n) k"
  "trace (forget k n) = trace n" "published (forget k n) = published n"
  "settled (forget k n) = settled n" "parked (forget k n) = parked n"
  "parkedOrder (forget k n) = parkedOrder n" "counters (forget k n) = counters n"
  "settledOrder (forget k n) = settledOrder n"
  by (simp_all add: forget_def)

lemma park_frame [frame]:
  "heap (park cfg k e n) = heap n" "sessions (park cfg k e n) = sessions n"
  "trace (park cfg k e n) = trace n" "published (park cfg k e n) = published n"
  "settled (park cfg k e n) = settled n" "settledOrder (park cfg k e n) = settledOrder n"
  by (simp_all add: park_def Let_def split: list.splits)

lemma takeParked_frame [frame]:
  "heap (snd (takeParked k n)) = heap n" "sessions (snd (takeParked k n)) = sessions n"
  "trace (snd (takeParked k n)) = trace n" "published (snd (takeParked k n)) = published n"
  "settled (snd (takeParked k n)) = settled n" "settledOrder (snd (takeParked k n)) = settledOrder n"
  by (simp_all add: takeParked_def split: option.splits)

lemma OnFulfilled_frame [frame]:
  "heap (OnFulfilled i n) = heap n" "sessions (OnFulfilled i n) = sessions n"
  "trace (OnFulfilled i n) = trace n" "published (OnFulfilled i n) = published n"
  "parked (OnFulfilled i n) = parked n" "parkedOrder (OnFulfilled i n) = parkedOrder n"
  by (simp_all add: OnFulfilled_def Let_def split: prod.splits)

lemma SetPeers_frame [frame]:
  "heap (SetPeers ps n) = heap n" "sessions (SetPeers ps n) = sessions n"
  "trace (SetPeers ps n) = trace n" "published (SetPeers ps n) = published n"
  "parked (SetPeers ps n) = parked n" "parkedOrder (SetPeers ps n) = parkedOrder n"
  "settled (SetPeers ps n) = settled n" "settledOrder (SetPeers ps n) = settledOrder n"
  by (simp_all add: SetPeers_def)

lemma add_at_frame [frame]:
  "sessions (snd (add_at K a p n)) = sessions n" "trace (snd (add_at K a p n)) = trace n"
  "published (snd (add_at K a p n)) = published n" "settled (snd (add_at K a p n)) = settled n"
  "heap (snd (add_at K a p n)) = (heap n)[a := snd (Add K (heap n ! a) p)]"
  "parked (snd (add_at K a p n)) = parked n" "parkedOrder (snd (add_at K a p n)) = parkedOrder n"
  "settledOrder (snd (add_at K a p n)) = settledOrder n"
  by (simp_all add: add_at_def set_session_def split: prod.splits)

section \<open>Every step keeps the invariant\<close>

lemma session_ok_Add: "session_ok K cfg s \<Longrightarrow> session_ok K cfg (snd (Add K s p))"
  by (simp add: session_ok_def session_inv_Add)

lemma heap_le_add_at [simp]: "heap_le (heap n) (heap (snd (add_at K a p n)))"
  by (simp add: frame)

lemma node_ok_cong:
  "heap n' = heap n \<Longrightarrow> sessions n' = sessions n \<Longrightarrow> trace n' = trace n \<Longrightarrow>
   node_ok K cfg poly derive n' = node_ok K cfg poly derive n"
  by (simp add: node_ok_def)

lemma node_ok_count [simp]: "node_ok K cfg poly derive (count f n) = node_ok K cfg poly derive n"
  by (intro node_ok_cong) (simp_all add: frame)

lemma node_ok_park [simp]: "node_ok K cfg poly derive (park cfg' k e n) = node_ok K cfg poly derive n"
  by (intro node_ok_cong) (simp_all add: frame)

lemma node_ok_OnFulfilled [simp]:
  "node_ok K cfg poly derive (OnFulfilled i n) = node_ok K cfg poly derive n"
  by (intro node_ok_cong) (simp_all add: frame)

lemma node_ok_SetPeers [simp]:
  "node_ok K cfg poly derive (SetPeers ps n) = node_ok K cfg poly derive n"
  by (intro node_ok_cong) (simp_all add: frame)

lemma node_ok_takeParked:
  "takeParked k n = (held, n1) \<Longrightarrow> heap n1 = heap n \<and> (node_ok K cfg poly derive n1 = node_ok K cfg poly derive n)"
  using takeParked_frame[of k n] by (simp add: node_ok_def)

lemma node_ok_emit [simp]:
  "node_ok K cfg poly derive (emit ev n) \<longleftrightarrow>
     node_ok K cfg poly derive n \<and> event_ok K cfg poly derive ev"
  by (auto simp: node_ok_def frame)

lemma node_ok_forget:
  "node_ok K cfg poly derive n \<Longrightarrow> node_ok K cfg poly derive (forget k n)"
  by (auto simp: node_ok_def frame split: if_splits)

lemma node_ok_publish [simp]:
  "node_ok K cfg poly derive (n\<lparr>published := p\<rparr>) = node_ok K cfg poly derive n"
  "node_ok K cfg poly derive (n\<lparr>callbackGas := g\<rparr>) = node_ok K cfg poly derive n"
  by (simp_all add: node_ok_def)

lemma node_ok_add_at:
  assumes "node_ok K cfg poly derive n" and "a < length (heap n)"
  shows "node_ok K cfg poly derive (snd (add_at K a p n))"
proof -
  have "heap_le (heap n) (heap (snd (add_at K a p n)))" by simp
  moreover have "session_ok K cfg s" if "s \<in> set (heap (snd (add_at K a p n)))" for s
  proof -
    have "s \<in> insert (snd (Add K (heap n ! a) p)) (set (heap n))"
      using that set_update_subset_insert by (fastforce simp: frame)
    then show ?thesis using assms by (auto simp: node_ok_def session_ok_Add)
  qed
  moreover have "at_session derive (heap (snd (add_at K a p n))) i b"
    if "mget (sessions n) (hexID i) = Some b" for i b
    using that assms(1) calculation(1) at_session_mono unfolding node_ok_def by blast
  ultimately show ?thesis
    using assms(1) unfolding node_ok_def by (simp only: add_at_frame(1,2) simp_thms) blast
qed

lemma Signature_group:
  assumes "dealt K cfg poly" and "node_ok K cfg poly derive n" and "at_session derive (heap n) i a"
    and "answer_ok w" and "Signature K (ranged w) (heap n ! a) = Inr raw"
  shows "group_signature K poly derive i raw"
proof -
  let ?s = "heap n ! a"
  have s: "session_ok K cfg ?s" and d: "derived derive i (s_seed ?s)"
    using assms(2,3) by (auto simp: node_ok_def at_session_def)
  have "Ready ?s"
  proof (rule ccontr)
    have "length (ranged w (s_partials ?s)) = length (s_partials ?s)"
      using assms(4) by (metis answer_ok_def iteration_order_def size_mset)
    moreover assume "\<not> Ready ?s"
    ultimately show False
      using assms(5) by (simp add: Signature_def Let_def Ready_def Collected_def mlen_def)
  qed
  then have "Signature K (ranged w) ?s =
     (case SignatureBytes K (Sign K (peval poly 0) (s_seed ?s)) of
        Inl e \<Rightarrow> Inl (EncodingFailed e) | Inr raw \<Rightarrow> Inr raw)"
    using assms(1,4) s by (intro Signature_ready) (auto simp: dealt_def session_ok_def answer_ok_def)
  then show ?thesis
    using assms(5) d by (auto simp: group_signature_def split: sum.splits)
qed

text \<open>The outcome of one step of a task, for any kind of task.\<close>

definition step_ok ::
  "('s::field, 'g1, 'g2, 'gt) kyber \<Rightarrow> ('s, 'g2) config \<Rightarrow> 's list \<Rightarrow>
   (int \<Rightarrow> byte list \<Rightarrow> byte list) \<Rightarrow> ('g1, 'g2) node \<Rightarrow> 'g1 task list \<Rightarrow> ('g1, 'g2) node \<Rightarrow> bool" where
  "step_ok K cfg poly derive n new n1 \<longleftrightarrow> node_ok K cfg poly derive n1 \<and>
     heap_le (heap n) (heap n1) \<and> (\<forall>t \<in> set new. task_ok K cfg poly derive (heap n1) t)"

lemma publish_ok:
  assumes "dealt K cfg poly" and "node_ok K cfg poly derive n" and "answer_ok w"
    and "task_ok K cfg poly derive (heap n) (Publishing i a pc cont)"
  shows "step_ok K cfg poly derive n
           (fst (task_step K cfg derive w (Publishing i a pc cont) n))
           (snd (task_step K cfg derive w (Publishing i a pc cont) n))"
proof (cases pc)
  case Pub_Sign
  then show ?thesis
    using assms Signature_group[OF assms(1,2) _ assms(3), of i a]
    by (auto simp: step_ok_def node_ok_forget split: sum.splits)
qed (use assms in \<open>auto simp: step_ok_def resume_def node_ok_forget frame Let_def
       split: option.splits sum.splits\<close>)

lemma chase_ok:
  assumes "node_ok K cfg poly derive n"
    and "task_ok K cfg poly derive (heap n) (Chasing i a e k pc)"
  shows "step_ok K cfg poly derive n
           (fst (task_step K cfg derive w (Chasing i a e k pc) n))
           (snd (task_step K cfg derive w (Chasing i a e k pc) n))"
  using assms by (cases pc) (auto simp: step_ok_def frame)


lemma own_envelopeI:
  "derived derive i seed \<Longrightarrow> SignatureBytes K (Sign K (Secret (Share cfg)) seed) = Inr raw \<Longrightarrow>
   own_envelope K cfg derive i (envelope_of (hexID i) seed (share_Index (Share cfg)) raw)"
  by (auto simp: own_envelope_def)

lemma offer_share_ok:
  "node_ok K cfg poly derive n \<Longrightarrow> at_session derive (heap n) i a \<Longrightarrow> derived derive i seed \<Longrightarrow>
   offer_share K cfg i seed a n = (t, n1) \<Longrightarrow> step_ok K cfg poly derive n [t] n1"
  unfolding offer_share_def step_ok_def Let_def
  by (auto simp: frame intro!: exI own_envelopeI split: option.splits sum.splits)

lemma sessionFor_ok:
  assumes "node_ok K cfg poly derive n" and "derived derive i seed"
    and "sessionFor cfg i seed n = (a, n1)"
  shows "node_ok K cfg poly derive n1 \<and> heap_le (heap n) (heap n1) \<and> at_session derive (heap n1) i a"
proof (cases "mget (sessions n) (hexID i)")
  case (Some b)
  then show ?thesis using assms by (auto simp: sessionFor_def node_ok_def)
next
  case None
  let ?s = "New seed (Commits (Share cfg)) (Threshold cfg) (Operators cfg)"
  have a: "a = length (heap n)"
    and n1: "n1 = n\<lparr>heap := heap n @ [?s], sessions := mput (sessions n) (hexID i) a\<rparr>"
    using assms(3) None by (auto simp: sessionFor_def Let_def)
  have at: "at_session derive (heap n1) i a" using assms(2) by (simp add: at_session_def a n1)
  have le: "heap_le (heap n) (heap n1)" by (simp add: n1)
  have "session_ok K cfg ?s" by (simp add: session_ok_def session_inv_New)
  then have "node_ok K cfg poly derive n1"
    using at at_session_mono[OF le] assms(1) unfolding node_ok_def by (auto simp: n1)
  with at le show ?thesis by blast
qed

lemma add_at_ok:
  assumes "node_ok K cfg poly derive n" and "a < length (heap n)" and "add_at K a p n = (r, n1)"
  shows "node_ok K cfg poly derive n1 \<and> heap_le (heap n) (heap n1)"
  using node_ok_add_at[OF assms(1,2), of p] heap_le_add_at[of n K a p] assms(3) by simp

lemma file_held_ok:
  assumes "node_ok K cfg poly derive n" and "a < length (heap n)"
  shows "node_ok K cfg poly derive (file_held K seed a e n) \<and>
         heap_le (heap n) (heap (file_held K seed a e n))"
proof (cases "Decode K e")
  case (Inr d)
  obtain hs p where d: "d = (hs, p)" by (cases d)
  obtain r n1 where add: "add_at K a p n = (r, n1)" by (cases "add_at K a p n")
  have "node_ok K cfg poly derive n1 \<and> heap_le (heap n) (heap n1)"
    using add_at_ok[OF assms add] .
  then show ?thesis
    using assms(1) by (auto simp: file_held_def Inr d add frame split: sum.splits bool.splits)
qed (use assms in \<open>simp add: file_held_def\<close>)

lemma request_step_ok:
  assumes "node_ok K cfg poly derive n"
    and "task_ok K cfg poly derive (heap n) (Requesting req pc)"
  shows "step_ok K cfg poly derive n
           (fst (task_step K cfg derive w (Requesting req pc) n))
           (snd (task_step K cfg derive w (Requesting req pc) n))"
proof (cases pc)
  case Req_Derive
  have "derived derive (ID req) (derive (ID req) (Consumer req))" by (auto simp: derived_def)
  with Req_Derive show ?thesis using assms by (auto simp: step_ok_def frame Let_def)
next
  case (Req_Session seed)
  then show ?thesis
    using assms sessionFor_ok[OF assms(1), of "ID req" seed]
    by (auto simp: step_ok_def split: prod.splits)
next
  case (Req_Own seed a)
  then show ?thesis
    using assms add_at_ok[OF assms(1), of a] at_session_mono
    by (fastforce simp: step_ok_def at_session_def split: prod.splits sum.splits)
next
  case (Req_Take seed a)
  obtain held n1 where take: "takeParked (hexID (ID req)) n = (held, n1)" by fastforce
  then show ?thesis
    using assms node_ok_takeParked[OF take, of K cfg poly derive] by (simp add: step_ok_def Req_Take)
next
  case (Req_File seed a es)
  then have at: "at_session derive (heap n) (ID req) a" using assms(2) by simp
  then have "a < length (heap n)" by (simp add: at_session_def)
  note held = file_held_ok[OF assms(1) this, of seed]
  show ?thesis
    using assms held at_session_mono[OF conjunct2[OF held] at]
    by (cases es) (auto simp: step_ok_def Req_File)
next
  case (Req_Offer seed a)
  then show ?thesis
    using assms offer_share_ok[OF assms(1), of "ID req" a seed]
    by (auto simp: step_ok_def split: prod.splits)
qed (use assms in \<open>auto simp: step_ok_def\<close>)

lemma share_step_ok:
  assumes "node_ok K cfg poly derive n"
    and "task_ok K cfg poly derive (heap n) (Sharing e pc)"
  shows "step_ok K cfg poly derive n
           (fst (task_step K cfg derive w (Sharing e pc) n))
           (snd (task_step K cfg derive w (Sharing e pc) n))"
proof (cases pc)
  case (Share_Add i a p)
  then show ?thesis
    using assms add_at_ok[OF assms(1), of a p] at_session_mono
    by (fastforce simp: step_ok_def at_session_def frame split: prod.splits sum.splits)
qed (use assms in \<open>auto simp: step_ok_def frame refuse_def existingSession_def node_ok_def
       split: sum.splits option.splits\<close>)

lemma task_step_ok:
  assumes "dealt K cfg poly" and "node_ok K cfg poly derive n" and "answer_ok w"
    and "task_ok K cfg poly derive (heap n) t" and "task_step K cfg derive w t n = (new, n1)"
  shows "step_ok K cfg poly derive n new n1"
proof (cases t)
  case (Requesting req pc)
  then show ?thesis using request_step_ok[OF assms(2), of req pc w] assms(4,5) by simp
next
  case (Chasing i a e k pc)
  then show ?thesis using chase_ok[OF assms(2), of i a e k pc w] assms(4,5) by simp
next
  case (Publishing i a pc cont)
  then show ?thesis using publish_ok[OF assms(1,2,3), of i a pc cont] assms(4,5) by simp
next
  case (Sharing e pc)
  then show ?thesis using share_step_ok[OF assms(2), of e pc w] assms(4,5) by simp
qed

definition all_ok ::
  "('s::field, 'g1, 'g2, 'gt) kyber \<Rightarrow> ('s, 'g2) config \<Rightarrow> 's list \<Rightarrow>
   (int \<Rightarrow> byte list \<Rightarrow> byte list) \<Rightarrow> ('g1, 'g2) node \<times> 'g1 task list \<Rightarrow> bool" where
  "all_ok K cfg poly derive x \<longleftrightarrow> node_ok K cfg poly derive (fst x) \<and>
     (\<forall>t \<in> set (snd x). task_ok K cfg poly derive (heap (fst x)) t)"

lemma node_step_ok:
  assumes "dealt K cfg poly" and "all_ok K cfg poly derive x" and "node_step K cfg derive x y"
  shows "all_ok K cfg poly derive y"
  using assms(3)
proof cases
  case (run w t n new n1 pre post)
  have "step_ok K cfg poly derive n new n1"
    using run assms(1,2) by (intro task_step_ok[of K cfg poly derive n w t]) (auto simp: all_ok_def)
  then show ?thesis
    using run assms(2) task_ok_mono by (fastforce simp: all_ok_def step_ok_def)
qed (use assms(2) in \<open>auto simp: all_ok_def frame\<close>)

lemma reachable_ok:
  assumes "dealt K cfg poly" and "reachable K cfg derive x"
  shows "all_ok K cfg poly derive x"
  using assms(2)
proof induction
  case (start m)
  show ?case by (simp add: all_ok_def node_ok_def new_node_def)
next
  case (more x y)
  then show ?case using node_step_ok[OF assms(1)] by blast
qed

end
