(* ===== verification/Node_Publish.thy ===== *)
theory Node_Publish
  imports Node_Safety
begin

text \<open>
  How often a node asks the chain to fulfil one request, over any interleaving of the goroutines
  that want to, and that every goroutine comes to an end.
\<close>

section \<open>Counting the calls\<close>

definition fulfills :: "int \<Rightarrow> event list \<Rightarrow> nat" where
  "fulfills i tr = length (filter (\<lambda>ev. case ev of SentFulfill j _ _ \<Rightarrow> j = i | _ \<Rightarrow> False) tr)"

lemma fulfills_append [simp]: "fulfills i (xs @ ys) = fulfills i xs + fulfills i ys"
  by (simp add: fulfills_def)

lemma fulfills_simps [simp]:
  "fulfills i [] = 0"
  "fulfills i (SentFulfill j raw g # tr) = (if j = i then Suc (fulfills i tr) else fulfills i tr)"
  "fulfills i (AskedIsOpen j # tr) = fulfills i tr" "fulfills i (SentShare e # tr) = fulfills i tr"
  "fulfills i (Paused d # tr) = fulfills i tr" "fulfills i (RanAfterPublish # tr) = fulfills i tr"
  "fulfills i (Answered r # tr) = fulfills i tr"
  by (simp_all add: fulfills_def)

text \<open>
  \<open>retries\<close> bounds the attempts.  \<open>allowed R pc k\<close>: a publication at \<open>pc\<close> may have made \<open>k\<close>
  calls; a publication that has not yet set the flag owns nothing.
\<close>

definition retries :: "('s, 'g2) config \<Rightarrow> nat" where
  "retries cfg = nat (SendRetries cfg)"

fun allowed :: "nat \<Rightarrow> publish_pc \<Rightarrow> nat \<Rightarrow> bool" where
  "allowed R (Pub_Send s k) c = (c \<le> k \<and> k \<le> R)"
| "allowed R (Pub_Backoff s k) c = (c \<le> Suc k \<and> k < R)"
| "allowed R (Pub_Recheck s k) c = (c \<le> Suc k \<and> k < R)"
| "allowed R Pub_Forget c = (c \<le> Suc R)"
| "allowed R pc c = (c = 0)"

fun owns :: "int \<Rightarrow> 'g1 task \<Rightarrow> bool" where
  "owns i (Publishing j a pc cont) = (j = i \<and> pc \<noteq> Pub_Start \<and> pc \<noteq> Pub_Claim)"
| "owns i _ = False"

definition owners :: "int \<Rightarrow> 'g1 task list \<Rightarrow> nat" where
  "owners i ts = length (filter (owns i) ts)"

lemma owners_simps [simp]:
  "owners i [] = 0" "owners i (t # ts) = (if owns i t then Suc (owners i ts) else owners i ts)"
  "owners i (xs @ ys) = owners i xs + owners i ys"
  by (simp_all add: owners_def)

lemma owners_0: "owners i ts = 0 \<longleftrightarrow> (\<forall>t \<in> set ts. \<not> owns i t)"
  by (simp add: owners_def filter_empty_conv)

fun task_allowed :: "nat \<Rightarrow> 'g1 task \<Rightarrow> nat \<Rightarrow> bool" where
  "task_allowed R (Publishing i a pc cont) c = allowed R pc c"
| "task_allowed R _ c = True"

definition publications_ok ::
  "('s, 'g2) config \<Rightarrow> int \<Rightarrow> ('g1, 'g2) node \<times> 'g1 task list \<Rightarrow> bool" where
  "publications_ok cfg i x \<longleftrightarrow>
     owners i (snd x) \<le> 1 \<and> fulfills i (trace (fst x)) \<le> Suc (retries cfg) \<and>
     (\<not> isPublished (fst x) (hexID i) \<longrightarrow> owners i (snd x) = 0 \<and> fulfills i (trace (fst x)) = 0) \<and>
     (\<forall>t \<in> set (snd x). owns i t \<longrightarrow> task_allowed (retries cfg) t (fulfills i (trace (fst x))))"

section \<open>One step\<close>

text \<open>
  The calls for \<open>i\<close> and its ownership change only by a step of the owner, or by the step that
  sets the flag.
\<close>

lemma isPublished_frame [frame]:
  "isPublished (count f n) k = isPublished n k" "isPublished (emit e n) k = isPublished n k"
  "isPublished (forget j n) k = isPublished n k"
  by (simp_all add: isPublished_def frame)

lemma resume_not_owns [simp]: "t \<in> set (resume j a cont) \<Longrightarrow> \<not> owns i t"
  by (cases t) (auto simp: resume_def split: option.splits)

lemma resume_owners [simp]: "owners i (resume j a cont) = 0"
  by (simp add: owners_0)

definition same_account :: "int \<Rightarrow> ('g1, 'g2) node \<Rightarrow> ('g1, 'g2) node \<Rightarrow> bool" where
  "same_account i n n1 \<longleftrightarrow> fulfills i (trace n1) = fulfills i (trace n) \<and>
     isPublished n1 (hexID i) = isPublished n (hexID i)"

lemma same_account_trace_published:
  "trace n1 = trace n \<Longrightarrow> published n1 = published n \<Longrightarrow> same_account i n n1"
  by (simp add: same_account_def isPublished_def)

lemma same_account_add_at:
  "add_at K a p n = (r, n1) \<Longrightarrow> trace n1 = trace n \<and> published n1 = published n"
  using add_at_frame[of K a p n] by simp

lemma same_account_takeParked:
  "takeParked k n = (r, n1) \<Longrightarrow> trace n1 = trace n \<and> published n1 = published n"
  using takeParked_frame[of k n] by simp

lemma same_account_sessionFor:
  "sessionFor cfg j seed n = (a, n1) \<Longrightarrow> trace n1 = trace n \<and> published n1 = published n"
  by (auto simp: sessionFor_def Let_def split: option.splits)

lemma same_account_file_held:
  "trace (file_held K seed a e n) = trace n \<and> published (file_held K seed a e n) = published n"
  by (auto simp: file_held_def frame dest: same_account_add_at
           split: sum.splits prod.splits bool.splits)

lemma request_step_account:
  assumes "task_step K cfg derive w (Requesting req pc) n = (new, n1)"
  shows "same_account i n n1 \<and> owners i new = 0"
proof (cases pc)
  case (Req_Offer seed a)
  with assms show ?thesis
    by (auto simp: offer_share_def Let_def same_account_def frame split: prod.splits option.splits sum.splits)
next
  case (Req_File seed a es)
  with assms show ?thesis
    using same_account_file_held[of K seed a]
    by (cases es) (auto simp: same_account_def isPublished_def)
qed (use assms in \<open>auto simp: same_account_def isPublished_def frame Let_def
       dest: same_account_add_at same_account_takeParked same_account_sessionFor
       split: prod.splits sum.splits if_splits\<close>)

lemma chase_step_account:
  "task_step K cfg derive w (Chasing j a e k pc) n = (new, n1) \<Longrightarrow>
   same_account i n n1 \<and> owners i new = 0"
  by (cases pc) (auto simp: same_account_def frame split: if_splits)

lemma share_step_account:
  assumes "task_step K cfg derive w (Sharing e pc) n = (new, n1)"
  shows "same_account i n n1 \<and> owners i new = 0"
proof (cases pc)
  case (Share_Add j a p)
  obtain r n2 where add: "add_at K a p n = (r, n2)" by fastforce
  from same_account_add_at[OF add] assms show ?thesis
    by (auto simp: Share_Add add same_account_def isPublished_def frame split: sum.splits if_splits)
qed (use assms in \<open>auto simp: same_account_def isPublished_def frame refuse_def
       split: sum.splits prod.splits option.splits if_splits\<close>)

lemma publish_step_other:
  assumes "task_step K cfg derive w (Publishing j a pc cont) n = (new, n1)" and "j \<noteq> i"
  shows "same_account i n n1 \<and> owners i new = 0"
  using assms
  by (cases pc) (auto simp: same_account_def isPublished_def frame Let_def
                      split: sum.splits if_splits)

lemma publish_step_start:
  "task_step K cfg derive w (Publishing i a Pub_Start cont) n = (new, n1) \<Longrightarrow>
   same_account i n n1 \<and> owners i new = 0"
  by (auto simp: same_account_def split: if_splits)

lemma publish_step_claim:
  assumes "task_step K cfg derive w (Publishing i a Pub_Claim cont) n = (new, n1)"
  shows "if isPublished n (hexID i) then n1 = n \<and> owners i new = 0
         else new = [Publishing i a Pub_Sign cont] \<and> trace n1 = trace n \<and> isPublished n1 (hexID i)"
  using assms by (auto simp: isPublished_def split: if_splits)

lemma publish_step_owner:
  assumes "task_step K cfg derive w (Publishing i a pc cont) n = (new, n1)"
    and "owns i (Publishing i a pc cont :: 'g1 task)"
    and "allowed (retries cfg) pc (fulfills i (trace n))"
  shows "owners i new \<le> 1 \<and> isPublished n1 (hexID i) = isPublished n (hexID i) \<and>
         fulfills i (trace n1) \<le> Suc (retries cfg) \<and>
         (\<forall>t \<in> set new. owns i t \<longrightarrow> task_allowed (retries cfg) t (fulfills i (trace n1)))"
proof (cases pc)
  case (Pub_Send s k)
  have "k < retries cfg" if "\<not> exhausted cfg k"
    using that by (simp add: exhausted_def retries_def) linarith
  with assms Pub_Send show ?thesis
    by (auto simp: frame Let_def split: sum.splits if_splits)
qed (use assms in \<open>auto simp: frame split: sum.splits if_splits\<close>)

lemma task_step_account:
  assumes "task_step K cfg derive w t n = (new, n1)" and "\<not> owns i t"
  shows "same_account i n n1 \<and> owners i new = 0 \<or>
     (\<not> isPublished n (hexID i) \<and> isPublished n1 (hexID i) \<and> trace n1 = trace n \<and>
      (\<exists>a cont. new = [Publishing i a Pub_Sign cont]))"
proof (cases t)
  case (Publishing j a pc cont)
  show ?thesis
  proof (cases "j = i")
    case True
    then consider (st) "pc = Pub_Start" | (cl) "pc = Pub_Claim"
      using assms(2) Publishing by auto
    then show ?thesis
    proof cases
      case st
      then show ?thesis using publish_step_start assms(1) Publishing True by blast
    next
      case cl
      then have "task_step K cfg derive w (Publishing i a Pub_Claim cont) n = (new, n1)"
        using assms(1) Publishing True by simp
      from publish_step_claim[OF this] show ?thesis
        by (auto simp: same_account_def split: if_splits)
    qed
  next
    case False
    then show ?thesis using publish_step_other assms(1) Publishing by blast
  qed
next
  case Requesting
  then show ?thesis using request_step_account assms(1) by blast
next
  case Chasing
  then show ?thesis using chase_step_account assms(1) by blast
next
  case Sharing
  then show ?thesis using share_step_account assms(1) by blast
qed

section \<open>Every interleaving\<close>

lemma publications_frame:
  assumes "publications_ok cfg i (n, pre @ t # post)" and "\<not> owns i t"
    and "same_account i n n1" and "owners i new = 0"
  shows "publications_ok cfg i (n1, pre @ new @ post)"
proof -
  have "\<forall>t \<in> set new. \<not> owns i t" using assms(4) by (simp add: owners_0)
  with assms show ?thesis by (auto simp: publications_ok_def same_account_def)
qed

lemma publications_claim:
  assumes "publications_ok cfg i (n, pre @ t # post)" and "\<not> isPublished n (hexID i)"
    and "trace n1 = trace n" and "isPublished n1 (hexID i)"
  shows "publications_ok cfg i (n1, pre @ Publishing i a Pub_Sign cont # post)"
proof -
  have "owners i pre = 0" "owners i post = 0" "fulfills i (trace n) = 0"
    using assms(1,2) by (auto simp: publications_ok_def split: if_splits)
  moreover from this have "\<forall>t \<in> set pre \<union> set post. \<not> owns i t" by (auto simp: owners_0)
  ultimately show ?thesis using assms(3,4) by (auto simp: publications_ok_def)
qed

lemma publications_owner:
  assumes inv: "publications_ok cfg i (n, pre @ t # post)" and own: "owns i t"
    and step: "task_step K cfg derive w t n = (new, n1)"
  shows "publications_ok cfg i (n1, pre @ new @ post)"
proof -
  obtain a pc cont where t: "t = Publishing i a pc cont" using own by (cases t) auto
  have z: "owners i pre = 0" "owners i post = 0" and p: "isPublished n (hexID i)"
    using inv own by (auto simp: publications_ok_def split: if_splits)
  then have none: "\<forall>t \<in> set pre \<union> set post. \<not> owns i t" by (auto simp: owners_0)
  have "allowed (retries cfg) pc (fulfills i (trace n))"
    using inv own t by (auto simp: publications_ok_def)
  from publish_step_owner[OF step[unfolded t] own[unfolded t] this]
  show ?thesis using z none p by (auto simp: publications_ok_def)
qed

lemma publications_step:
  assumes "publications_ok cfg i x" and "node_step K cfg derive x y"
  shows "publications_ok cfg i y"
  using assms(2)
proof cases
  case (run w t n new n1 pre post)
  have inv: "publications_ok cfg i (n, pre @ t # post)" using run assms(1) by simp
  show ?thesis
  proof (cases "owns i t")
    case False
    from task_step_account[OF run(4) this] show ?thesis
      using publications_frame[OF inv False] publications_claim[OF inv] run(2) by auto
  next
    case True
    then show ?thesis using publications_owner[OF inv True run(4)] run(2) by simp
  qed
qed (use assms(1) in \<open>auto simp: publications_ok_def isPublished_def frame owners_0\<close>)

lemma reachable_publications:
  "reachable K cfg derive x \<Longrightarrow> publications_ok cfg i x"
proof (induction rule: reachable.induct)
  case (start m)
  show ?case by (simp add: publications_ok_def new_node_def)
next
  case (more x y)
  then show ?case using publications_step by blast
qed

section \<open>Every goroutine ends\<close>

text \<open>
  The number of sections a task still has to run, at most.  \<open>p_weight\<close> counts a publication,
  \<open>c_weight\<close> what is left of the chase after \<open>k\<close> attempts with the publication each ends in.
\<close>

definition send_weight :: "('s, 'g2) config \<Rightarrow> nat \<Rightarrow> nat" where
  "send_weight cfg k = 3 * (retries cfg - k) + 2"

fun p_weight :: "('s, 'g2) config \<Rightarrow> publish_pc \<Rightarrow> nat" where
  "p_weight cfg Pub_Start = send_weight cfg 0 + 7"
| "p_weight cfg Pub_Claim = send_weight cfg 0 + 6"
| "p_weight cfg Pub_Sign = send_weight cfg 0 + 5"
| "p_weight cfg (Pub_Settled s) = send_weight cfg 0 + 4"
| "p_weight cfg (Pub_Turn s) = send_weight cfg 0 + 3"
| "p_weight cfg (Pub_Settled_Again s) = send_weight cfg 0 + 2"
| "p_weight cfg (Pub_Ask s) = send_weight cfg 0 + 1"
| "p_weight cfg (Pub_Send s k) = send_weight cfg k"
| "p_weight cfg (Pub_Backoff s k) = send_weight cfg (Suc k) + 2"
| "p_weight cfg (Pub_Recheck s k) = send_weight cfg (Suc k) + 1"
| "p_weight cfg Pub_Forget = 1"

definition c_weight :: "('s, 'g2) config \<Rightarrow> nat \<Rightarrow> nat" where
  "c_weight cfg k =
     (nat (RebroadcastAttempts cfg) - k) * (p_weight cfg Pub_Start + 3) + p_weight cfg Pub_Start + 1"

fun task_weight :: "('s, 'g2) config \<Rightarrow> 'g1 task \<Rightarrow> nat" where
  "task_weight cfg (Publishing i a pc cont) =
     p_weight cfg pc + (case cont of None \<Rightarrow> 0 | Some (e, k) \<Rightarrow> c_weight cfg k)"
| "task_weight cfg (Chasing i a e k pc) =
     (case pc of Chase_Wait \<Rightarrow> c_weight cfg k
               | Chase_Ready \<Rightarrow> c_weight cfg (Suc k) + p_weight cfg Pub_Start + 2
               | Chase_Offer \<Rightarrow> c_weight cfg (Suc k) + p_weight cfg Pub_Start + 1)"
| "task_weight cfg (Requesting req pc) =
     c_weight cfg 0 +
     (case pc of Req_Offer s a \<Rightarrow> 1 | Req_File s a es \<Rightarrow> 2 + length es
               | Req_Take s a \<Rightarrow> 3 + nat (Operators cfg) | Req_Own s a \<Rightarrow> 4 + nat (Operators cfg)
               | Req_Session s \<Rightarrow> 5 + nat (Operators cfg) | Req_Settled s \<Rightarrow> 6 + nat (Operators cfg)
               | Req_Derive \<Rightarrow> 7 + nat (Operators cfg) | Req_Start \<Rightarrow> 8 + nat (Operators cfg))"
| "task_weight cfg (Sharing e pc) =
     (case pc of Share_Start \<Rightarrow> p_weight cfg Pub_Start + 3
               | Share_Find i s p \<Rightarrow> p_weight cfg Pub_Start + 2
               | Share_Park i \<Rightarrow> 1 | Share_Add i a p \<Rightarrow> p_weight cfg Pub_Start + 1
               | Share_Reject a err \<Rightarrow> 1)"

definition total_weight :: "('s, 'g2) config \<Rightarrow> 'g1 task list \<Rightarrow> nat" where
  "total_weight cfg ts = sum_list (map (task_weight cfg) ts)"

lemma send_weight_retry:
  assumes "\<not> exhausted cfg k"
  shows "send_weight cfg (Suc k) + 3 = send_weight cfg k"
proof -
  have "k < retries cfg" using assms by (simp add: exhausted_def retries_def) linarith
  then have "retries cfg - k = Suc (retries cfg - Suc k)" by simp
  then show ?thesis unfolding send_weight_def by simp
qed

lemma c_weight_attempt:
  "\<not> RebroadcastAttempts cfg \<le> int k \<Longrightarrow> c_weight cfg k = c_weight cfg (Suc k) + p_weight cfg Pub_Start + 3"
proof -
  assume "\<not> RebroadcastAttempts cfg \<le> int k"
  then have "nat (RebroadcastAttempts cfg) - k = Suc (nat (RebroadcastAttempts cfg) - Suc k)" by simp
  then show ?thesis unfolding c_weight_def by simp
qed

lemma c_weight_pos: "p_weight cfg Pub_Start < c_weight cfg k"
  by (simp add: c_weight_def)

lemma takeParked_length:
  assumes "parked_ok cfg n" and "takeParked key n = (held, n1)"
  shows "length held \<le> nat (Operators cfg)"
proof (cases "mget (parked n) key")
  case (Some h)
  then have "int (length h) \<le> Operators cfg" using assms(1) by (auto simp: parked_ok_def)
  then show ?thesis using assms(2) Some by (auto simp: takeParked_def)
qed (use assms(2) in \<open>auto simp: takeParked_def\<close>)

lemma publish_weight:
  "task_step K cfg derive w (Publishing i a pc cont) n = (new, n1) \<Longrightarrow>
   total_weight cfg new < task_weight cfg (Publishing i a pc cont)"
proof (cases pc)
  case (Pub_Send s k)
  assume "task_step K cfg derive w (Publishing i a pc cont) n = (new, n1)"
  with Pub_Send send_weight_retry[of cfg k] show ?thesis
    by (auto simp: total_weight_def resume_def Let_def send_weight_def
             split: sum.splits option.splits if_splits)
qed (auto simp: total_weight_def resume_def send_weight_def split: sum.splits option.splits if_splits)

lemma task_weight_decreases:
  assumes "parked_ok cfg n" and "task_step K cfg derive w t n = (new, n1)"
  shows "total_weight cfg new < task_weight cfg t"
proof (cases t)
  case (Publishing i a pc cont)
  then show ?thesis using publish_weight assms(2) by blast
next
  case (Chasing i a e k pc)
  then show ?thesis
    using assms(2) c_weight_attempt[of cfg k] c_weight_pos[of cfg k] c_weight_pos[of cfg "Suc k"]
    by (cases pc) (auto simp: total_weight_def split: if_splits)
next
  case (Requesting req pc)
  show ?thesis
  proof (cases pc)
    case (Req_Take seed a)
    obtain held n2 where take: "takeParked (hexID (ID req)) n = (held, n2)" by fastforce
    from takeParked_length[OF assms(1) this] show ?thesis
      using assms(2) by (auto simp: Requesting Req_Take take total_weight_def)
  next
    case (Req_File seed a es)
    then show ?thesis
      using assms(2) Requesting by (cases es) (auto simp: total_weight_def)
  next
    case (Req_Offer seed a)
    then show ?thesis
      using assms(2) Requesting c_weight_pos[of cfg 0]
      by (auto simp: total_weight_def offer_share_def Let_def
               split: option.splits sum.splits prod.splits)
  qed (use assms(2) Requesting in
       \<open>auto simp: total_weight_def Let_def split: prod.splits sum.splits if_splits\<close>)
next
  case (Sharing e pc)
  then show ?thesis
    using assms(2)
    by (cases pc) (auto simp: total_weight_def refuse_def
                        split: sum.splits option.splits prod.splits if_splits)
qed

lemma parked_ok_frame [simp]:
  "parked_ok cfg (count f n) = parked_ok cfg n" "parked_ok cfg (emit ev n) = parked_ok cfg n"
  "parked_ok cfg (forget k n) = parked_ok cfg n"
  "parked_ok cfg (OnFulfilled i n) = parked_ok cfg n"
  "parked_ok cfg (SetPeers ps n) = parked_ok cfg n"
  "parked_ok cfg (n\<lparr>published := pb\<rparr>) = parked_ok cfg n"
  "parked_ok cfg (n\<lparr>callbackGas := g\<rparr>) = parked_ok cfg n"
  "parked_ok cfg (n\<lparr>heap := h, sessions := t\<rparr>) = parked_ok cfg n"
  "parked_ok cfg (snd (add_at K a p n)) = parked_ok cfg n"
  by (simp_all add: parked_ok_def frame)

lemma parked_ok_add_at: "add_at K a p n = (r, n1) \<Longrightarrow> parked_ok cfg n1 = parked_ok cfg n"
  using parked_ok_frame(9)[of cfg K a p n] by simp

lemma parked_ok_take: "parked_ok cfg n \<Longrightarrow> takeParked k n = (held, n1) \<Longrightarrow> parked_ok cfg n1"
  using parked_ok_takeParked[of cfg n k] by simp

lemma parked_ok_file_held [simp]: "parked_ok cfg (file_held K seed a e n) = parked_ok cfg n"
  by (auto simp: file_held_def parked_ok_add_at split: sum.splits prod.splits bool.splits)

lemma parked_ok_sessionFor:
  "sessionFor cfg' i seed n = (a, n1) \<Longrightarrow> parked_ok cfg n1 = parked_ok cfg n"
  by (auto simp: sessionFor_def Let_def split: option.splits)

lemma parked_ok_step:
  assumes "parked_ok cfg n" and "task_step K cfg derive w t n = (new, n1)"
  shows "parked_ok cfg n1"
proof (cases t)
  case (Publishing i a pc cont)
  then show ?thesis
    using assms by (cases pc) (auto simp: Let_def split: sum.splits if_splits)
next
  case (Chasing i a e k pc)
  then show ?thesis using assms by (cases pc) (auto split: if_splits)
next
  case (Requesting req pc)
  show ?thesis
  proof (cases pc)
    case (Req_File seed a es)
    then show ?thesis using assms Requesting by (cases es) auto
  qed (use assms Requesting in \<open>auto simp: Let_def parked_ok_add_at parked_ok_sessionFor offer_share_def
         intro: parked_ok_take split: prod.splits sum.splits option.splits if_splits\<close>)
next
  case (Sharing e pc)
  then show ?thesis
    using assms by (cases pc) (auto simp: refuse_def parked_ok_add_at parked_ok_park
                      split: sum.splits option.splits prod.splits if_splits)
qed

lemma reachable_parked:
  "reachable K cfg derive x \<Longrightarrow> 0 < Operators cfg \<Longrightarrow> parked_ok cfg (fst x)"
proof (induction rule: reachable.induct)
  case (start m)
  then show ?case by (simp add: parked_ok_new)
next
  case (more x y)
  from more.hyps(2) more.IH[OF more.prems] show ?case
    by cases (auto intro: parked_ok_step)
qed

lemma total_weight_simps [simp]:
  "total_weight cfg [] = 0" "total_weight cfg (t # ts) = task_weight cfg t + total_weight cfg ts"
  "total_weight cfg (xs @ ys) = total_weight cfg xs + total_weight cfg ys"
  by (simp_all add: total_weight_def)

lemma task_weight_pos: "0 < task_weight cfg t"
proof (cases t)
  case (Publishing i a pc cont)
  then show ?thesis by (cases pc) (simp_all add: send_weight_def)
qed (use c_weight_pos in \<open>auto simp: c_weight_def split: chase_pc.splits share_pc.splits\<close>)

lemma run_tasks_ends:
  "parked_ok cfg n \<Longrightarrow> total_weight cfg ts \<le> length ws \<Longrightarrow> fst (run_tasks K cfg derive ws ts n) = []"
proof (induction ws arbitrary: ts n)
  case Nil
  then show ?case
  proof (cases ts)
    case (Cons t us)
    with Nil(2) task_weight_pos[of cfg t] show ?thesis by simp
  qed simp
next
  case (Cons w ws)
  show ?case
  proof (cases ts)
    case (Cons t us)
    obtain new n1 where step: "task_step K cfg derive w t n = (new, n1)" by fastforce
    from task_weight_decreases[OF Cons.prems(1) this] Cons.prems(2) Cons
    have "total_weight cfg (new @ us) \<le> length ws" by simp
    with Cons.IH[OF parked_ok_step[OF Cons.prems(1) step]] show ?thesis
      by (simp add: Cons step)
  qed simp
qed

end
