(* ===== verification/Node_Props.thy ===== *)
theory Node_Props
  imports Node_Publish
begin

text \<open>
  The properties of the running node: what it signs and publishes, how often, when it stops, and
  what it does with the shares of strangers.
\<close>

section \<open>Running without interference\<close>

lemma run_append:
  "run_tasks K cfg derive (ws @ vs) ts n =
     (case run_tasks K cfg derive ws ts n of (ts1, n1) \<Rightarrow> run_tasks K cfg derive vs ts1 n1)"
proof (induction ws arbitrary: ts n)
  case (Cons w ws)
  have "run_tasks K cfg derive vs [] m = ([], m)" for m by (cases vs) simp_all
  with Cons show ?case by (cases ts) (auto split: prod.splits)
qed simp

text \<open>Running some of the tasks in place is a sequence of steps of the node.\<close>

lemma reachable_run_in:
  "reachable K cfg derive (n, pre @ ts @ post) \<Longrightarrow> \<forall>w \<in> set ws. answer_ok w \<Longrightarrow>
   run_tasks K cfg derive ws ts n = (ts1, n1) \<Longrightarrow> reachable K cfg derive (n1, pre @ ts1 @ post)"
proof (induction ws arbitrary: ts n)
  case (Cons w ws)
  show ?case
  proof (cases ts)
    case (Cons t us)
    obtain new n2 where step: "task_step K cfg derive w t n = (new, n2)" by fastforce
    have "node_step K cfg derive (n, pre @ t # us @ post) (n2, pre @ new @ us @ post)"
      using Cons.prems(2) step by (intro run) simp_all
    then have "reachable K cfg derive (n2, pre @ (new @ us) @ post)"
      using Cons.prems(1) \<open>ts = t # us\<close> more by fastforce
    from Cons.IH[OF this] show ?thesis using Cons.prems(2,3) \<open>ts = t # us\<close> step by simp
  qed (use Cons.prems in simp)
qed simp

lemma reachable_run:
  "reachable K cfg derive (n, ts) \<Longrightarrow> \<forall>w \<in> set ws. answer_ok w \<Longrightarrow>
   run_tasks K cfg derive ws ts n = (ts1, n1) \<Longrightarrow> reachable K cfg derive (n1, ts1)"
  using reachable_run_in[of K cfg derive n "[]" ts "[]" ws ts1 n1] by simp

lemma replicate_numeral_Cons [simp]:
  "replicate (numeral k) w = w # replicate (pred_numeral k) w"
  by (simp add: numeral_eq_Suc)

section \<open>A request is announced\<close>

text \<open>The shares in a list of held envelopes that decode and are for this seed.\<close>

fun held_partials ::
  "('s, 'g1, 'g2, 'gt) kyber \<Rightarrow> byte list \<Rightarrow> envelope list \<Rightarrow> 'g1 partial list" where
  "held_partials K seed [] = []"
| "held_partials K seed (e # es) =
     (case Decode K e of
        Inl err \<Rightarrow> held_partials K seed es
      | Inr (s, p) \<Rightarrow> if s = seed then p # held_partials K seed es else held_partials K seed es)"

lemma file_held_effect:
  assumes "a < length (heap n)"
  shows "heap (file_held K seed a e n) = (heap n)[a := add_all K (heap n ! a) (held_partials K seed [e])] \<and>
     sessions (file_held K seed a e n) = sessions n \<and> trace (file_held K seed a e n) = trace n \<and>
     parked (file_held K seed a e n) = parked n \<and> peers (file_held K seed a e n) = peers n"
proof (cases "Decode K e")
  case (Inr d)
  obtain s p where d: "d = (s, p)" by (cases d)
  obtain r s1 where "Add K (heap n ! a) p = (r, s1)" by fastforce
  then show ?thesis using assms
    by (auto simp: file_held_def Inr d add_at_def set_session_def frame
             split: sum.splits bool.splits)
qed (use assms in \<open>simp add: file_held_def\<close>)

lemma file_held_all:
  assumes "a < length (heap n)"
  shows "let n1 = foldl (\<lambda>n e. file_held K seed a e n) n es in
     heap n1 = (heap n)[a := add_all K (heap n ! a) (held_partials K seed es)] \<and>
     sessions n1 = sessions n \<and> trace n1 = trace n \<and> parked n1 = parked n \<and> peers n1 = peers n"
  using assms
proof (induction es arbitrary: n)
  case (Cons e es)
  let ?n = "file_held K seed a e n"
  note one = file_held_effect[OF Cons.prems, of K seed e]
  then have "a < length (heap ?n)" using Cons.prems by simp
  from Cons.IH[OF this] one Cons.prems show ?case
    by (simp add: Let_def add_all_append[symmetric] split: sum.splits prod.splits)
qed simp

lemma run_file:
  "run_tasks K cfg derive (replicate (length es) w @ ws) (Requesting req (Req_File seed a es) # ts) n =
   run_tasks K cfg derive ws (Requesting req (Req_File seed a []) # ts)
     (foldl (\<lambda>n e. file_held K seed a e n) n es)"
  by (induction es arbitrary: n) simp_all

text \<open>
  \<open>operator_of\<close>: the loaded share is one of those the polynomial deals, with an index inside the
  group.
\<close>

definition operator_of ::
  "('s::field, 'g1, 'g2, 'gt) kyber \<Rightarrow> ('s, 'g2) config \<Rightarrow> 's list \<Rightarrow> bool" where
  "operator_of K cfg poly \<longleftrightarrow> dealt K cfg poly \<and>
     Secret (Share cfg) = share_at poly (uint (share_Index (Share cfg))) \<and>
     uint (share_Index (Share cfg)) < Operators cfg"

lemma own_partial_honest:
  "operator_of K cfg poly \<Longrightarrow> own_partial K cfg seed = honest_partial K poly seed (share_Index (Share cfg))"
  by (simp add: own_partial_def honest_partial_def operator_of_def)

text \<open>The first share filed in a new session is always the node's own, and it is accepted.\<close>

lemma Add_own:
  assumes "operator_of K cfg poly"
  shows "fst (Add K (New seed (Commits (Share cfg)) (Threshold cfg) (Operators cfg)) (own_partial K cfg seed)) = Inr True"
proof -
  note own = own_partial_honest[OF assms, of seed]
  from assms show ?thesis
    by (simp add: own Add_def Let_def VerifyPartial_iff operator_of_def dealt_def)
qed

definition new_session :: "('s, 'g2) config \<Rightarrow> byte list \<Rightarrow> ('g1, 'g2) session" where
  "new_session cfg seed = New seed (Commits (Share cfg)) (Threshold cfg) (Operators cfg)"

definition held_for :: "('g1, 'g2) node \<Rightarrow> string \<Rightarrow> envelope list" where
  "held_for n key = (case mget (parked n) key of None \<Rightarrow> [] | Some es \<Rightarrow> es)"

lemma run_request:
  assumes op: "operator_of K cfg poly" and seed: "derive (ID req) (Consumer req) = req_Seed req"
    and "\<not> knownSettled n (hexID (ID req))" and "existingSession n (hexID (ID req)) = None"
  shows "\<exists>n1. run_tasks K cfg derive (replicate 6 w) [Requesting req Req_Start] n =
       ([Requesting req (Req_File (req_Seed req) (length (heap n)) (held_for n (hexID (ID req))))], n1) \<and>
     heap n1 = heap n @ [add_all K (new_session cfg (req_Seed req)) [own_partial K cfg (req_Seed req)]] \<and>
     sessions n1 = mput (sessions n) (hexID (ID req)) (length (heap n)) \<and> trace n1 = trace n \<and>
     parked n1 = mdel (parked n) (hexID (ID req)) \<and> peers n1 = peers n \<and>
     published n1 = published n \<and> settled n1 = settled n \<and>
     callbackGas n1 = mput (callbackGas n) (hexID (ID req)) (CallbackGasLimit req)"
proof -
  obtain s1 where "Add K (new_session cfg (req_Seed req)) (own_partial K cfg (req_Seed req)) = (Inr True, s1)"
    using Add_own[OF op, of "req_Seed req"] by (metis new_session_def prod.collapse)
  moreover have "mdel (parked n) k = parked n" if "mget (parked n) k = None" for k
    using that by (force simp: mdel_def mget_def map_of_eq_None_iff filter_id_conv)
  ultimately show ?thesis
    using assms(3,4) seed
    by (auto simp: Let_def sessionFor_def existingSession_def knownSettled_def frame add_at_def
          set_session_def takeParked_def held_for_def new_session_def[symmetric] nth_append
          split: option.splits)
qed

text \<open>
  A request that is announced is signed, filed with everything that was held for it, and
  offered.  Take an operator with a dealt share, and an announcement whose seed is the one the
  formula gives, of a request that is not known as settled and has no session.  Then \<open>OnRequest\<close>
  opens a session that holds the operator's own share and the result of adding every held share
  for that seed, in order; nothing stays parked for the request; and if peers are attached,
  they are sent the envelope that decodes to the operator's own partial on the derived seed.
\<close>

theorem request_is_signed_and_offered:
  assumes "operator_of K cfg poly" and "derive (ID req) (Consumer req) = req_Seed req"
    and "length (req_Seed req) = 32"
    and "\<not> knownSettled n (hexID (ID req))" and "existingSession n (hexID (ID req)) = None"
    and "held = held_for n (hexID (ID req))"
  shows "\<exists>t n1 a. run_tasks K cfg derive (replicate (8 + length held) w) [Requesting req Req_Start] n = ([t], n1) \<and>
     existingSession n1 (hexID (ID req)) = Some a \<and>
     heap n1 ! a = add_all K (New (req_Seed req) (Commits (Share cfg)) (Threshold cfg) (Operators cfg))
        (own_partial K cfg (req_Seed req) # held_partials K (req_Seed req) held) \<and>
     \<not> hasParked n1 (hexID (ID req)) \<and>
     (if peers n = None then trace n1 = trace n \<and> t = Publishing (ID req) a Pub_Start None
      else \<exists>e. trace n1 = trace n @ [SentShare e] \<and> t = Chasing (ID req) a e 0 Chase_Wait \<and>
               Decode K e = Inr (req_Seed req, own_partial K cfg (req_Seed req)))"
proof -
  let ?key = "hexID (ID req)" and ?seed = "req_Seed req" and ?a = "length (heap n)"
  let ?own = "own_partial K cfg ?seed"
  obtain n1 where run: "run_tasks K cfg derive (replicate 6 w) [Requesting req Req_Start] n =
       ([Requesting req (Req_File ?seed ?a held)], n1)"
    and h1: "heap n1 = heap n @ [add_all K (new_session cfg ?seed) [?own]]"
    and s1: "sessions n1 = mput (sessions n) ?key ?a" and t1: "trace n1 = trace n"
    and p1: "parked n1 = mdel (parked n) ?key" "peers n1 = peers n"
    using run_request[of K cfg poly derive req n w] assms by auto
  define n2 where "n2 = foldl (\<lambda>n e. file_held K ?seed ?a e n) n1 held"
  have n2: "heap n2 = (heap n1)[?a := add_all K (heap n1 ! ?a) (held_partials K ?seed held)]"
    "sessions n2 = sessions n1" "trace n2 = trace n1" "parked n2 = parked n1" "peers n2 = peers n1"
    using file_held_all[of ?a n1 K ?seed held] h1 by (simp_all add: n2_def Let_def)
  have split: "replicate (8 + length held) w = replicate 6 w @ replicate (length held) w @ [w, w]"
  proof -
    have "8 + length held = 6 + (length held + 2)" by simp
    then show ?thesis by (simp only: replicate_add) simp
  qed
  have tail: "run_tasks K cfg derive (replicate (8 + length held) w) [Requesting req Req_Start] n =
      (case offer_share K cfg (ID req) ?seed ?a n2 of (t, n3) \<Rightarrow> ([t], n3))"
    unfolding split run_append[of _ _ _ "replicate 6 w"] run
    by (simp add: run_file n2_def split: prod.splits)
  obtain raw where raw: "SignatureBytes K (Sign K (Secret (Share cfg)) ?seed) = Inr raw"
    "Decode K (envelope_of ?key ?seed (share_Index (Share cfg)) raw) = Inr (?seed, ?own)"
    using assms(1,3) Decode_envelope_of[of ?seed K] SignatureBytes_ok
    unfolding operator_of_def dealt_def kyber_laws_def own_partial_def by metis
  show ?thesis
    unfolding tail
    by (cases "peers n")
       (auto simp: offer_share_def Let_def n2 h1 s1 t1 p1 raw frame existingSession_def hasParked_def
          new_session_def[symmetric])
qed


section \<open>Publishing\<close>

lemma run_publish:
  assumes "dealt K cfg poly" and "session_ok K cfg (heap n ! a)" and "Ready (heap n ! a)"
    and "\<not> isPublished n (hexID i)" and "\<not> knownSettled n (hexID i)"
    and "answer_ok w" and "\<not> cancelled w" and "is_open w \<noteq> Inr False"
    and raw: "SignatureBytes K (Sign K (peval poly 0) (s_seed (heap n ! a))) = Inr raw"
  shows "run_tasks K cfg derive (replicate 7 w) [Publishing i a Pub_Start cont] n =
     ([Publishing i a (Pub_Send raw 0) cont],
      n\<lparr>published := mput (published n) (hexID i) True,
        trace := trace n @ (if waits_turn cfg i then [Paused (turn_delay cfg i)] else []) @ [AskedIsOpen i]\<rparr>)"
proof -
  have sig: "Signature K (ranged w) (heap n ! a) = Inr raw"
    using assms by (subst Signature_ready[where a = poly])
      (auto simp: dealt_def session_ok_def answer_ok_def)
  show ?thesis using assms(3-8)
    by (simp add: sig knownSettled_def emit_def isPublished_def)
qed

text \<open>
  A request whose turn has come is published.  A session that has its quorum, for a request
  that this node has not tried to publish and has not seen settled: when the chain answers that
  the request is open (or does not answer) and accepts the transaction, the node waits for its
  rank's share of the publish delay and only then asks the chain, sends the group signature
  exactly once with the callback budget the request was announced with, and drops the session;
  \<open>AfterPublish\<close> runs after the send, not before.
\<close>

theorem ready_session_is_published:
  assumes "dealt K cfg poly" and "session_ok K cfg (heap n ! a)" and "Ready (heap n ! a)"
    and "\<not> isPublished n (hexID i)" and "\<not> knownSettled n (hexID i)"
    and "answer_ok w" and "\<not> cancelled w" and "is_open w \<noteq> Inr False" and "sent w = Inr hash"
  shows "\<exists>raw n1. SignatureBytes K (Sign K (peval poly 0) (s_seed (heap n ! a))) = Inr raw \<and>
     run_tasks K cfg derive (replicate 8 w) [Publishing i a Pub_Start None] n = ([], n1) \<and>
     trace n1 = trace n @ (if waits_turn cfg i then [Paused (turn_delay cfg i)] else []) @
       [AskedIsOpen i, SentFulfill i raw (callbackGasOf n (hexID i))] @
       (if AfterPublish cfg then [RanAfterPublish] else []) \<and>
     isPublished n1 (hexID i) \<and> existingSession n1 (hexID i) = None"
proof -
  obtain raw where raw: "SignatureBytes K (Sign K (peval poly 0) (s_seed (heap n ! a))) = Inr raw"
    using assms(1) SignatureBytes_ok unfolding dealt_def kyber_laws_def by metis
  have split: "replicate 8 w = replicate 7 w @ [w]" by simp
  show ?thesis
    unfolding split run_append run_publish[OF assms(1-8) raw]
    using assms(9) by (simp add: raw Let_def resume_def frame isPublished_def existingSession_def callbackGasOf_def)
qed

lemma refused_run:
  assumes "\<not> cancelled w" and "is_open w \<noteq> Inr False" and "sent w = Inl err"
    and "0 < SendRetryInterval cfg"
  shows "k + m = retries cfg \<Longrightarrow> \<exists>n1. run_tasks K cfg derive (replicate (3 * m + 2) w)
       [Publishing i a (Pub_Send raw k) None] n = ([], n1) \<and>
     trace n1 = trace n @
       concat (map (\<lambda>j. [SentFulfill i raw (callbackGasOf n (hexID i)),
                         Paused (jitter (drawn w) (backoff cfg j)), AskedIsOpen i]) [k ..< k + m]) @
       [SentFulfill i raw (callbackGasOf n (hexID i))] \<and>
     existingSession n1 (hexID i) = None \<and>
     counters n1 = map_option RaceLost (counters n)"
proof (induction m arbitrary: k n)
  case 0
  then have "exhausted cfg k" by (simp add: exhausted_def retries_def)
  moreover have two: "replicate (3 * 0 + 2) w = [w, w]" by simp
  ultimately show ?case
    using assms
    by (simp add: two Let_def resume_def frame existingSession_def count_def split: option.splits)
next
  case (Suc m)
  then have "\<not> exhausted cfg k" using assms(4) by (simp add: exhausted_def retries_def)
  have "3 * Suc m + 2 = Suc (Suc (Suc (3 * m + 2)))" by simp
  then have split: "replicate (3 * Suc m + 2) w = w # w # w # replicate (3 * m + 2) w"
    by (simp only: replicate_Suc)
  define n2 where "n2 = emit (AskedIsOpen i) (emit (Paused (jitter (drawn w) (backoff cfg k)))
     (emit (SentFulfill i raw (callbackGasOf n (hexID i))) n))"
  have three: "run_tasks K cfg derive (replicate (3 * Suc m + 2) w) [Publishing i a (Pub_Send raw k) None] n =
     run_tasks K cfg derive (replicate (3 * m + 2) w) [Publishing i a (Pub_Send raw (Suc k)) None] n2"
    unfolding split using assms \<open>\<not> exhausted cfg k\<close> by (simp add: Let_def n2_def)
  have "callbackGasOf n2 (hexID i) = callbackGasOf n (hexID i)"
    "trace n2 = trace n @ [SentFulfill i raw (callbackGasOf n (hexID i)),
       Paused (jitter (drawn w) (backoff cfg k)), AskedIsOpen i]" "counters n2 = counters n"
    by (simp_all add: n2_def frame callbackGasOf_def)
  moreover have "[k ..< k + Suc m] = k # [Suc k ..< Suc k + m]" by (simp add: upt_conv_Cons)
  moreover have "Suc k + m = retries cfg" using Suc.prems by simp
  ultimately show ?case
    unfolding three using Suc.IH[of "Suc k" n2] by (simp only: append_assoc) simp
qed

text \<open>
  A refused transaction is sent again exactly \<open>SendRetries\<close> times.  From the first send on,
  when the endpoint refuses every time and never says the request is closed, the node makes
  \<open>SendRetries + 1\<close> calls, each with the same signature, waits between them, then counts a lost
  race and drops the session.
\<close>

theorem refused_send_is_retried:
  assumes "\<not> cancelled w" and "is_open w \<noteq> Inr False" and "sent w = Inl err"
    and "0 < SendRetryInterval cfg"
  shows "\<exists>n1. run_tasks K cfg derive (replicate (3 * nat (SendRetries cfg) + 2) w)
       [Publishing i a (Pub_Send raw 0) None] n = ([], n1) \<and>
     trace n1 = trace n @
       concat (map (\<lambda>attempt. [SentFulfill i raw (callbackGasOf n (hexID i)),
                 Paused (jitter (drawn w) (backoff cfg attempt)), AskedIsOpen i]) [0 ..< nat (SendRetries cfg)]) @
       [SentFulfill i raw (callbackGasOf n (hexID i))] \<and>
     existingSession n1 (hexID i) = None \<and> counters n1 = map_option RaceLost (counters n)"
  using refused_run[OF assms, of 0 "retries cfg"] by (simp add: retries_def)

text \<open>Answers for the concrete runs below.\<close>

definition quiet :: "string + byte list \<Rightarrow> 'g1 answer" where
  "quiet r = \<lparr>cancelled = False, drawn = (\<lambda>_. None), is_open = Inr True, sent = r, ranged = id\<rparr>"

lemma quiet_sel [simp]:
  "\<not> cancelled (quiet r)" "drawn (quiet r) = (\<lambda>_. None)" "is_open (quiet r) = Inr True"
  "sent (quiet r) = r" "ranged (quiet r) = id" "answer_ok (quiet r)"
  by (simp_all add: quiet_def answer_ok_def iteration_order_def)

theorem refused_send_is_retried_witness:
  "\<exists>n1. run_tasks small_kyber cfg_demo (\<lambda>_ c. c) (replicate (3 * 3 + 2) (quiet (Inl ''busy'')))
       [Publishing 4 0 (Pub_Send [7] 0) None] (new_node None) = ([], n1) \<and>
     length (trace n1) = 10"
proof -
  have c: "SendRetries cfg_demo = 3" "0 < SendRetryInterval cfg_demo" by (simp_all add: cfg_demo_def)
  have t: "trace (new_node None) = []" by (simp add: new_node_def)
  from refused_send_is_retried[of "quiet (Inl ''busy'')" "''busy''" cfg_demo small_kyber
      "\<lambda>_ c. c" 4 0 "[7]" "new_node None :: (gf11, gf11) node"]
  show ?thesis using c(2) by (auto simp: c(1) t upt_conv_Cons)
qed

lemma demo_dealt: "dealt small_kyber cfg_demo [3, 5]"
  by (simp add: dealt_def small_kyber_laws small_kyber_group cfg_demo_def)

lemma demo_operator: "operator_of small_kyber cfg_demo [3, 5]"
  using demo_dealt by (simp add: operator_of_def) (simp add: cfg_demo_def share_Index_def)

text \<open>A stand-in for Keccak-256 that returns 32 bytes, and a request announced under it.\<close>

definition demo_derive :: "int \<Rightarrow> byte list \<Rightarrow> byte list" where
  "demo_derive = DeriveSeed (take 32) (replicate 20 2) 1"

definition demo_request :: request where
  "demo_request = \<lparr>ID = 31, KeyHash = replicate 32 0, SubID = 1, Consumer = replicate 20 6,
     req_Seed = demo_derive 31 (replicate 20 6), NumWords = 1, CallbackGasLimit = 100000,
     Block = 12, TxHash = replicate 32 0\<rparr>"

lemma demo_seed_length: "length (demo_derive i c) = 32"
  by (simp add: demo_derive_def DeriveSeed_def seed_preimage_def left_pad_def)

theorem request_is_signed_and_offered_witness:
  "\<exists>t n1. run_tasks small_kyber cfg_demo demo_derive (replicate (8 + 0) (quiet (Inr [])))
       [Requesting demo_request Req_Start] (SetPeers [''peer''] (new_node None)) = ([t], n1) \<and>
     (\<exists>e. trace n1 = [SentShare e] \<and>
       Decode small_kyber e = Inr (req_Seed demo_request,
          own_partial small_kyber cfg_demo (req_Seed demo_request)))"
proof -
  let ?n = "SetPeers [''peer''] (new_node None) :: (gf11, gf11) node"
  have n: "peers ?n = Some [''peer'']" "trace ?n = []" "mget (parked ?n) k = None"
    "\<not> knownSettled ?n k" "existingSession ?n k = None" for k
    by (simp_all add: SetPeers_def new_node_def knownSettled_def existingSession_def)
  have seed: "demo_derive (ID demo_request) (Consumer demo_request) = req_Seed demo_request"
    by (simp add: demo_request_def)
  have len: "length (req_Seed demo_request) = 32"
    by (simp add: demo_request_def demo_seed_length)
  have held: "[] = held_for ?n (hexID (ID demo_request))" by (simp add: held_for_def n)
  from request_is_signed_and_offered[where derive = demo_derive and n = ?n and req = demo_request and
      w = "quiet (Inr [])", OF demo_operator seed len n(4,5) held] n(1,2)
  show ?thesis by (auto split: if_splits)
qed

theorem ready_session_is_published_witness:
  "\<exists>raw n1. run_tasks small_kyber cfg_demo demo_derive (replicate 8 (quiet (Inr [])))
       [Publishing 31 0 Pub_Start None]
       ((new_node None)\<lparr>heap := [add_all small_kyber (new_session cfg_demo [1])
          (map (honest_partial small_kyber [3, 5] [1]) [0, 1])]\<rparr>) = ([], n1) \<and>
     SentFulfill 31 raw 0 \<in> set (trace n1)"
proof -
  let ?s = "add_all small_kyber (new_session cfg_demo [1])
          (map (honest_partial small_kyber [3, 5] [1]) [0, 1])"
  let ?n = "(new_node None)\<lparr>heap := [?s]\<rparr>"
  have c: "Commits (Share cfg_demo) = commits_of small_kyber [3, 5]" "Threshold cfg_demo = 2"
    "Operators cfg_demo = 3" by (simp_all add: cfg_demo_def)
  have "session_ok small_kyber cfg_demo (heap ?n ! 0)"
    by (simp add: session_ok_def new_session_def c session_inv_Add session_inv_New)
  moreover have "Ready (heap ?n ! 0)"
    using honest_ready[of small_kyber "[0, 1]" 3 2 "[1]" "[3, 5]"]
    by (simp add: new_session_def c small_kyber_laws)
  moreover have "\<not> isPublished ?n (hexID 31)" "\<not> knownSettled ?n (hexID 31)"
    "callbackGasOf ?n (hexID 31) = 0"
    by (simp_all add: new_node_def isPublished_def knownSettled_def callbackGasOf_def)
  ultimately show ?thesis
    using ready_session_is_published[OF demo_dealt, of ?n 0 31 "quiet (Inr [])" "[]" demo_derive]
    by auto
qed

section \<open>Every interleaving\<close>

text \<open>
  A group of one, whose only operator publishes its own share: the smallest run that reaches the
  chain.
\<close>

definition cfg_solo :: "(gf11, gf11) config" where
  "cfg_solo = cfg_demo\<lparr>Share := \<lparr>Member = \<lparr>member_Index = 0, Longterm = None, Public = None\<rparr>,
      Secret = 3, GroupPublic = 3, Commits = commits_of small_kyber [3]\<rparr>,
      Threshold := 1, Operators := 1\<rparr>"

lemma solo_operator: "operator_of small_kyber cfg_solo [3]"
  by (simp add: operator_of_def dealt_def small_kyber_laws small_kyber_group cfg_solo_def
        share_Index_def share_at_def)

lemma solo_sending:
  "\<exists>n2 raw. reachable small_kyber cfg_solo demo_derive (n2, [Publishing 31 0 (Pub_Send raw 0) None]) \<and>
     fulfills 31 (trace n2) = 0 \<and> callbackGasOf n2 (hexID 31) = 100000 \<and>
     existingSession n2 (hexID 31) = Some 0"
proof -
  let ?w = "quiet (Inr []) :: gf11 answer" and ?K = small_kyber and ?d = demo_derive
  let ?n = "new_node None :: (gf11, gf11) node" and ?seed = "req_Seed demo_request"
  have r: "ID demo_request = 31" "CallbackGasLimit demo_request = 100000"
    "?d (ID demo_request) (Consumer demo_request) = ?seed" by (simp_all add: demo_request_def)
  have n: "\<not> knownSettled ?n k" "existingSession ?n k = None" "heap ?n = []" "peers ?n = None"
    "held_for ?n k = []" "trace ?n = []" "parked ?n = []" for k
    by (simp_all add: new_node_def knownSettled_def existingSession_def held_for_def mempty_def mget_def)
  obtain n1 where n1: "run_tasks ?K cfg_solo ?d (replicate 6 ?w) [Requesting demo_request Req_Start] ?n =
       ([Requesting demo_request (Req_File ?seed 0 [])], n1)"
    "heap n1 = [add_all ?K (new_session cfg_solo ?seed) [own_partial ?K cfg_solo ?seed]]"
    "trace n1 = []" "peers n1 = None" "published n1 = []" "settled n1 = []"
    "callbackGas n1 = mput [] (hexID 31) 100000" "existingSession n1 (hexID 31) = Some 0"
    using run_request[where derive = ?d and n = ?n and req = demo_request and w = ?w,
        OF solo_operator r(3) n(1,2)]
    by (auto simp: n r existingSession_def) (auto simp: new_node_def mempty_def)
  have two: "run_tasks ?K cfg_solo ?d [?w, ?w] [Requesting demo_request (Req_File ?seed 0 [])] n1 =
      ([Publishing 31 0 Pub_Start None], n1)"
    by (simp add: offer_share_def n1 r)
  have own: "own_partial ?K cfg_solo ?seed = honest_partial ?K [3] ?seed 0"
    using own_partial_honest[OF solo_operator] by (simp add: cfg_solo_def share_Index_def)
  have c: "Commits (Share cfg_solo) = commits_of ?K [3]" "Threshold cfg_solo = 1" "Operators cfg_solo = 1"
    by (simp_all add: cfg_solo_def)
  have s: "heap n1 ! 0 = add_all ?K (New ?seed (commits_of ?K [3]) 1 1) (map (honest_partial ?K [3] ?seed) [0])"
    by (simp add: n1 own new_session_def c)
  have ready: "Ready (heap n1 ! 0)"
    unfolding s by (rule honest_ready) (simp_all add: small_kyber_laws)
  have ok: "session_ok ?K cfg_solo (heap n1 ! 0)"
    unfolding s by (simp add: session_ok_def c session_inv_Add session_inv_New)
  have d: "dealt ?K cfg_solo [3]" using solo_operator by (simp add: operator_of_def)
  obtain raw where raw: "SignatureBytes ?K (Sign ?K (peval [3] 0) (s_seed (heap n1 ! 0))) = Inr raw"
    using SignatureBytes_ok[of ?K] small_kyber_laws unfolding kyber_laws_def by metis
  have not: "\<not> isPublished n1 (hexID 31)" "\<not> knownSettled n1 (hexID 31)"
    by (simp_all add: n1 isPublished_def knownSettled_def mget_def)
  have w: "\<not> cancelled ?w" "is_open ?w \<noteq> Inr False" "answer_ok ?w" by simp_all
  obtain n2 where pub: "run_tasks ?K cfg_solo ?d (replicate 7 ?w) [Publishing 31 0 Pub_Start None] n1 =
      ([Publishing 31 0 (Pub_Send raw 0) None], n2)" "fulfills 31 (trace n2) = 0"
      "callbackGas n2 = mput [] (hexID 31) 100000" "existingSession n2 (hexID 31) = Some 0"
    using run_publish[OF d ok ready not w(3,1,2) raw, of ?d None] n1(3,7,8)
    by (auto simp: existingSession_def)
  have all: "run_tasks ?K cfg_solo ?d (replicate 6 ?w @ [?w, ?w] @ replicate 7 ?w)
      [Requesting demo_request Req_Start] ?n = ([Publishing 31 0 (Pub_Send raw 0) None], n2)"
    by (simp only: run_append n1(1) two pub(1) prod.case)
  have "reachable ?K cfg_solo ?d (?n, [] @ [Requesting demo_request Req_Start])"
    by (rule more[OF start announce])
  then have "reachable ?K cfg_solo ?d (n2, [Publishing 31 0 (Pub_Send raw 0) None])"
    by (intro reachable_run[OF _ _ all]) auto
  with pub show ?thesis by (auto simp: callbackGasOf_def)
qed

lemma solo_send_step:
  assumes "reachable small_kyber cfg_solo demo_derive (n2, [Publishing 31 0 (Pub_Send raw 0) None])"
  defines "n3 \<equiv> snd (task_step small_kyber cfg_solo demo_derive (quiet (Inr []))
                     (Publishing 31 0 (Pub_Send raw 0) None) n2)"
  shows "node_step small_kyber cfg_solo demo_derive (n2, [] @ [Publishing 31 0 (Pub_Send raw 0) None])
           (n3, [] @ [] @ []) \<and>
         trace n3 = trace n2 @ [SentFulfill 31 raw (callbackGasOf n2 (hexID 31)), RanAfterPublish] \<and>
         existingSession n3 (hexID 31) = None"
proof -
  have "AfterPublish cfg_solo" by (simp add: cfg_solo_def cfg_demo_def)
  then show ?thesis
    by (intro conjI run[where w = "quiet (Inr [])"])
       (simp_all add: n3_def Let_def resume_def frame existingSession_def)
qed

lemma solo_run:
  "\<exists>n1 raw. reachable small_kyber cfg_solo demo_derive (n1, []) \<and>
     SentFulfill 31 raw 100000 \<in> set (trace n1) \<and> fulfills 31 (trace n1) = 1"
proof -
  obtain n2 raw where n2:
    "reachable small_kyber cfg_solo demo_derive (n2, [Publishing 31 0 (Pub_Send raw 0) None])"
    "fulfills 31 (trace n2) = 0" "callbackGasOf n2 (hexID 31) = 100000"
    using solo_sending by blast
  note step = solo_send_step[OF n2(1)]
  have "reachable small_kyber cfg_solo demo_derive
     (snd (task_step small_kyber cfg_solo demo_derive (quiet (Inr []))
        (Publishing 31 0 (Pub_Send raw 0) None) n2), [])"
    using more[of small_kyber cfg_solo demo_derive "(n2, [] @ [Publishing 31 0 (Pub_Send raw 0) None])"]
      n2(1) step by simp
  then show ?thesis using step n2(2,3)
    by (intro exI[of _ raw] exI[of _ "snd (task_step small_kyber cfg_solo demo_derive (quiet (Inr []))
        (Publishing 31 0 (Pub_Send raw 0) None) n2)"]) simp
qed

text \<open>
  C1.  The node publishes nothing but the group's signature on a derived seed.  In every state
  the node can reach, with any requests announced, any envelopes delivered by anyone, and the
  goroutines interleaved in any way, whatever it has sent to the chain for a request is the
  encoding of the signature under the group secret on a seed that the formula gives for that
  request id, and it verifies under the group key.
\<close>

theorem only_group_signatures_are_published:
  assumes "dealt K cfg poly" and "reachable K cfg derive (n, ts)"
    and "SentFulfill i raw gas \<in> set (trace n)"
  shows "\<exists>consumer. PointFromSignature K raw = Inr (Sign K (peval poly 0) (derive i consumer)) \<and>
     Verify K (hd (Commits (Share cfg))) (derive i consumer) (Sign K (peval poly 0) (derive i consumer))"
proof -
  have "event_ok K cfg poly derive (SentFulfill i raw gas)"
    using reachable_ok[OF assms(1,2)] assms(3) by (auto simp: all_ok_def node_ok_def)
  then obtain c where c: "SignatureBytes K (Sign K (peval poly 0) (derive i c)) = Inr raw"
    by (auto simp: group_signature_def derived_def)
  have K: "kyber_laws K" "poly \<noteq> []" "Commits (Share cfg) = commits_of K poly"
    using assms(1) by (auto simp: dealt_def)
  have "PointFromSignature K raw = Inr (Sign K (peval poly 0) (derive i c))"
    using c SignatureBytes_ok[of K] K(1) unfolding kyber_laws_def by (metis sum.inject(2))
  then show ?thesis
    using K by (auto simp: commits_head Verify_Sign kyber_laws_def)
qed

theorem only_group_signatures_are_published_witness:
  "\<exists>n raw consumer. reachable small_kyber cfg_solo demo_derive (n, []) \<and>
     SentFulfill 31 raw 100000 \<in> set (trace n) \<and>
     PointFromSignature small_kyber raw = Inr (Sign small_kyber (peval [3] 0) (demo_derive 31 consumer))"
proof -
  obtain n raw where run: "reachable small_kyber cfg_solo demo_derive (n, [])"
    "SentFulfill 31 raw 100000 \<in> set (trace n)" using solo_run by blast
  have "dealt small_kyber cfg_solo [3]" using solo_operator by (simp add: operator_of_def)
  from only_group_signatures_are_published[OF this run] run show ?thesis by blast
qed

text \<open>
  C7.  A request is sent to the chain in one bounded campaign.  Over any interleaving of the
  goroutines that may want to publish a request (the announcement, every accepted or repeated
  share of a peer, every round of the chase), the node makes at most \<open>SendRetries + 1\<close> calls for
  it in its whole life, and at any moment at most one goroutine is past the test of the flag.
\<close>

theorem one_campaign_per_request:
  assumes "reachable K cfg derive (n, ts)"
  shows "fulfills i (trace n) \<le> nat (SendRetries cfg) + 1 \<and> owners i ts \<le> 1 \<and>
     (0 < fulfills i (trace n) \<longrightarrow> isPublished n (hexID i))"
  using reachable_publications[OF assms, of i] by (auto simp: publications_ok_def retries_def)

theorem one_campaign_per_request_witness:
  "\<exists>n. reachable small_kyber cfg_solo demo_derive (n, []) \<and> fulfills 31 (trace n) = 1 \<and>
     isPublished n (hexID 31)"
proof -
  obtain n where run: "reachable small_kyber cfg_solo demo_derive (n, [])"
    "fulfills 31 (trace n) = 1" using solo_run by blast
  from one_campaign_per_request[OF run(1), of 31] run show ?thesis by auto
qed

text \<open>
  C15.  The node shows its share only on derived seeds.  Every envelope the node ever broadcasts
  carries its own index, a seed the formula gives for the request id it names, and its own
  signature on that seed; nothing a peer or a stranger posts can make it sign anything.
\<close>

theorem only_own_shares_are_sent:
  assumes "dealt K cfg poly" and "reachable K cfg derive (n, ts)" and "SentShare e \<in> set (trace n)"
  shows "\<exists>i consumer raw.
     SignatureBytes K (Sign K (Secret (Share cfg)) (derive i consumer)) = Inr raw \<and>
     e = envelope_of (hexID i) (derive i consumer) (share_Index (Share cfg)) raw"
proof -
  have "event_ok K cfg poly derive (SentShare e)"
    using reachable_ok[OF assms(1,2)] assms(3) by (auto simp: all_ok_def node_ok_def)
  then show ?thesis by (auto simp: own_envelope_def derived_def)
qed

lemma offered_run:
  "\<exists>n1 ts e. reachable small_kyber cfg_demo demo_derive (n1, ts) \<and> SentShare e \<in> set (trace n1)"
proof -
  let ?n = "SetPeers [''peer''] (new_node None) :: (gf11, gf11) node" and ?w = "quiet (Inr []) :: gf11 answer"
  let ?seed = "req_Seed demo_request"
  have n: "peers ?n = Some [''peer'']" "\<not> knownSettled ?n k" "existingSession ?n k = None"
    "held_for ?n k = []" "heap ?n = []" for k
    by (simp_all add: SetPeers_def new_node_def knownSettled_def existingSession_def held_for_def)
  have seed: "demo_derive (ID demo_request) (Consumer demo_request) = ?seed"
    by (simp add: demo_request_def)
  obtain n1 where n1: "run_tasks small_kyber cfg_demo demo_derive (replicate 6 ?w)
       [Requesting demo_request Req_Start] ?n = ([Requesting demo_request (Req_File ?seed 0 [])], n1)"
    "peers n1 = Some [''peer'']"
    using run_request[where derive = demo_derive and n = ?n and req = demo_request and w = ?w,
        OF demo_operator seed n(2,3)] by (auto simp: n)
  obtain raw where raw: "SignatureBytes small_kyber (Sign small_kyber (Secret (Share cfg_demo)) ?seed) = Inr raw"
    using SignatureBytes_ok[of small_kyber] small_kyber_laws unfolding kyber_laws_def by metis
  obtain n2 t e where n2: "run_tasks small_kyber cfg_demo demo_derive [?w, ?w]
       [Requesting demo_request (Req_File ?seed 0 [])] n1 = ([t], n2)" "SentShare e \<in> set (trace n2)"
    by (simp add: offer_share_def n1 raw Let_def frame) blast
  have all: "run_tasks small_kyber cfg_demo demo_derive (replicate 6 ?w @ [?w, ?w])
      [Requesting demo_request Req_Start] ?n = ([t], n2)"
    by (simp only: run_append n1(1) n2(1) prod.case)
  have "reachable small_kyber cfg_demo demo_derive (?n, [] @ [Requesting demo_request Req_Start])"
    by (rule more[OF more[OF start attach] announce])
  then have "reachable small_kyber cfg_demo demo_derive (n2, [t])"
    by (intro reachable_run[OF _ _ all]) auto
  with n2(2) show ?thesis by blast
qed

theorem only_own_shares_are_sent_witness:
  "\<exists>n ts e i consumer raw. reachable small_kyber cfg_demo demo_derive (n, ts) \<and>
     SentShare e \<in> set (trace n) \<and>
     SignatureBytes small_kyber (Sign small_kyber (Secret (Share cfg_demo)) (demo_derive i consumer)) = Inr raw \<and>
     e = envelope_of (hexID i) (demo_derive i consumer) (share_Index (Share cfg_demo)) raw"
proof -
  obtain n ts e where run: "reachable small_kyber cfg_demo demo_derive (n, ts)"
    "SentShare e \<in> set (trace n)" using offered_run by blast
  from only_own_shares_are_sent[OF demo_dealt this] run show ?thesis by blast
qed

text \<open>
  C23.  Every goroutine ends.  In any reachable state every section that any goroutine runs
  brings the total of the remaining sections down, counting those of the goroutines it starts;
  so with no new announcements or envelopes the node falls silent, and running the tasks one
  after another, with any answers at all, finishes within that total.
\<close>

theorem goroutines_end:
  assumes "0 < Operators cfg" and "reachable K cfg derive (n, ts)"
  shows "(total_weight cfg ts \<le> length ws \<longrightarrow> fst (run_tasks K cfg derive ws ts n) = []) \<and>
     (ts = pre @ t # post \<and> task_step K cfg derive w t n = (new, n1) \<longrightarrow>
      total_weight cfg (pre @ new @ post) < total_weight cfg ts)"
proof -
  have "parked_ok cfg n" using reachable_parked[OF assms(2,1)] by simp
  then show ?thesis using run_tasks_ends task_weight_decreases by fastforce
qed

theorem goroutines_end_witness:
  "fst (run_tasks small_kyber cfg_demo demo_derive (replicate 30 (quiet (Inr [])))
          [Sharing (envelope_of ''0x1'' [] 0 []) Share_Start] (new_node None)) = []"
proof -
  have c: "0 < Operators cfg_demo" "total_weight cfg_demo [Sharing e Share_Start :: gf11 task] \<le> 30" for e
    by (simp_all add: cfg_demo_def send_weight_def retries_def)
  have "reachable small_kyber cfg_demo demo_derive
     (new_node None, [] @ [Sharing (envelope_of ''0x1'' [] 0 []) Share_Start])"
    by (rule more[OF start deliver])
  then show ?thesis
    by (intro goroutines_end[OF c(1), THEN conjunct1, THEN mp]) (simp_all only: append_Nil length_replicate c(2))
qed

lemma sessions_step:
  assumes "task_step K cfg derive w t n = (new, n1)"
    and "existingSession n key \<noteq> None" and "existingSession n1 key = None"
  shows "\<exists>i. key = hexID i \<and> owns i t"
proof (cases t)
  case (Publishing i a pc cont)
  with assms show ?thesis
    by (cases pc) (auto simp: existingSession_def frame Let_def split: sum.splits if_splits)
next
  case (Chasing i a e k pc)
  with assms show ?thesis
    by (cases pc) (auto simp: existingSession_def frame split: if_splits)
next
  case (Sharing e pc)
  show ?thesis
  proof (cases pc)
    case (Share_Add i a p)
    obtain r n2 where add: "add_at K a p n = (r, n2)" by fastforce
    then have "sessions n2 = sessions n" using add_at_frame(1)[of K a p n] by simp
    with assms Sharing Share_Add add show ?thesis
      by (auto simp: existingSession_def frame split: sum.splits if_splits)
  qed (use assms Sharing in \<open>auto simp: existingSession_def frame refuse_def
         split: sum.splits prod.splits option.splits if_splits\<close>)
next
  case (Requesting req pc)
  show ?thesis
  proof (cases pc)
    case (Req_Own seed a)
    obtain r n2 where add: "add_at K a (own_partial K cfg seed) n = (r, n2)" by fastforce
    then have "sessions n2 = sessions n" using add_at_frame(1)[of K a _ n] by (metis snd_conv)
    with assms Requesting Req_Own add show ?thesis
      by (auto simp: existingSession_def split: sum.splits)
  next
    case (Req_Take seed a)
    with assms Requesting show ?thesis
      using takeParked_frame(2)[of "hexID (ID req)" n]
      by (auto simp: existingSession_def split: prod.splits)
  next
    case (Req_File seed a es)
    have "sessions (file_held K seed a e n) = sessions n" for e
    proof (cases "Decode K e")
      case (Inr d)
      obtain s p where "d = (s, p)" by (cases d)
      moreover obtain r n2 where add: "add_at K a p n = (r, n2)" by fastforce
      moreover have "sessions n2 = sessions n" using add add_at_frame(1)[of K a p n] by simp
      ultimately show ?thesis
        by (auto simp: file_held_def Inr frame split: sum.splits bool.splits)
    qed (simp add: file_held_def)
    with assms Requesting Req_File show ?thesis by (cases es) (auto simp: existingSession_def)
  next
    case (Req_Offer seed a)
    with assms Requesting show ?thesis
      by (auto simp: existingSession_def offer_share_def Let_def frame
               split: prod.splits option.splits sum.splits)
  qed (use assms Requesting in \<open>auto simp: existingSession_def sessionFor_def frame Let_def
         split: prod.splits option.splits if_splits\<close>)
qed

text \<open>
  A session is dropped only once its request has been claimed.  A step that takes a request
  out of the table of sessions happens only when the published flag of that request is set.  So a
  request that other operators settle before this node has a quorum is never dropped.
\<close>

theorem session_dropped_only_after_claim:
  assumes "reachable K cfg derive (n, ts)" and "node_step K cfg derive (n, ts) (n1, ts1)"
    and "existingSession n key \<noteq> None" and "existingSession n1 key = None"
  shows "\<exists>i. key = hexID i \<and> isPublished n key"
  using assms(2)
proof cases
  case (run w t new pre post)
  obtain i where i: "key = hexID i" "owns i t" using sessions_step[OF run(4) assms(3,4)] by blast
  then have "owners i ts \<noteq> 0" using run by (auto simp: owners_0)
  with reachable_publications[OF assms(1), of i] i show ?thesis by (auto simp: publications_ok_def)
qed (use assms(3,4) in \<open>auto simp: existingSession_def frame\<close>)

theorem session_dropped_only_after_claim_witness:
  "\<exists>n ts x. reachable small_kyber cfg_solo demo_derive (n, ts) \<and>
     node_step small_kyber cfg_solo demo_derive (n, ts) x \<and> isPublished n (hexID 31)"
proof -
  obtain n2 raw where n2:
    "reachable small_kyber cfg_solo demo_derive (n2, [Publishing 31 0 (Pub_Send raw 0) None])"
    "existingSession n2 (hexID 31) = Some 0" using solo_sending by blast
  from solo_send_step[OF n2(1)] session_dropped_only_after_claim[OF n2(1)] n2
  show ?thesis by fastforce
qed

end
