(* ===== verification/Node_Peers.thy ===== *)
theory Node_Peers
  imports Node_Props
begin

text \<open>
  What strangers can and cannot do to a running node through the share endpoint, announcements
  that do not fit, what becomes of early, repeated and late shares, and the waits of the publication loop.
\<close>

section \<open>Properties\<close>

text \<open>
  A peer's share never makes the handler talk to the chain.  Whatever is posted, and
  wherever the handler stands, a section of \<open>OnPeerShare\<close> asks the outside world for nothing: it
  leaves the table of sessions, the published flags, the callback budgets and the settled requests
  as they are, and what it starts is at most one publication, of a session that already exists.
\<close>

theorem peer_share_stays_off_the_chain:
  "case task_step K cfg derive w (Sharing e pc) n of (new, n1) \<Rightarrow>
     (trace n1 = trace n \<or> (\<exists>r. trace n1 = trace n @ [Answered r])) \<and>
     sessions n1 = sessions n \<and> published n1 = published n \<and> settled n1 = settled n \<and>
     callbackGas n1 = callbackGas n \<and> length new \<le> 1"
proof -
  have cb: "callbackGas (park cfg k e n) = callbackGas n" for k
    by (simp add: park_def Let_def split: list.splits)
  have ad: "callbackGas (snd (add_at K a p n)) = callbackGas n" for a p
    by (simp add: add_at_def set_session_def split: prod.splits)
  show ?thesis
  proof (cases pc)
    case (Share_Add i a p)
    obtain r n2 where add: "add_at K a p n = (r, n2)" by fastforce
    show ?thesis
      using add_at_frame[of K a p n] ad[of a p] by (auto simp: Share_Add add frame split: sum.splits)
  qed (auto simp: refuse_def frame cb split: sum.splits option.splits prod.splits)
qed

text \<open>
  An announcement with another seed is ignored.  If the seed in the event is not the one the
  formula gives, nothing is signed and nobody is told: no session, no share, no call; only the
  callback budget under that key and the counters have changed.
\<close>

theorem mismatched_announcement_is_ignored:
  assumes "derive (ID req) (Consumer req) \<noteq> req_Seed req"
  shows "\<exists>n1. run_tasks K cfg derive [w, v] [Requesting req Req_Start] n = ([], n1) \<and>
     heap n1 = heap n \<and> sessions n1 = sessions n \<and> trace n1 = trace n \<and> parked n1 = parked n \<and>
     published n1 = published n \<and>
     counters n1 = map_option (\<lambda>m. BlockSeen (Block req) (RequestSeen m)) (counters n)"
  using assms by (simp add: Let_def frame count_def split: option.splits)

theorem mismatched_announcement_is_ignored_witness:
  "\<exists>n1. run_tasks small_kyber cfg_demo demo_derive [quiet (Inr []), quiet (Inr [])]
       [Requesting (demo_request\<lparr>req_Seed := map (\<lambda>b. b + 1) (req_Seed demo_request)\<rparr>) Req_Start]
       (new_node None) = ([], n1) \<and> sessions n1 = mempty"
proof -
  let ?r = "demo_request\<lparr>req_Seed := map (\<lambda>b. b + 1) (req_Seed demo_request)\<rparr>"
  have "map (\<lambda>b. b + 1) bs \<noteq> bs" if "length bs = 32" for bs :: "byte list"
    using that by (cases bs) auto
  then have ne: "demo_derive (ID ?r) (Consumer ?r) \<noteq> req_Seed ?r"
    using demo_seed_length by (metis (no_types, lifting) demo_request_def request.select_convs(1,4,5)
        request.update_convs(5))
  have "sessions (new_node None) = mempty" by (simp add: new_node_def)
  with mismatched_announcement_is_ignored[where derive = demo_derive and req = ?r, OF ne,
      of small_kyber cfg_demo "quiet (Inr [])" "quiet (Inr [])" "new_node None"]
  show ?thesis by metis
qed

lemma own_session_accepts:
  assumes "operator_of K cfg poly" and "verified K poly seed (Operators cfg) p"
    and "Index p \<noteq> share_Index (Share cfg)"
  shows "Collected (add_all K (new_session cfg seed) [own_partial K cfg seed]) = 1 \<and>
     fst (Add K (add_all K (new_session cfg seed) [own_partial K cfg seed]) p) = Inr True"
proof -
  let ?own = "own_partial K cfg seed"
  obtain s1 where s1: "Add K (new_session cfg seed) ?own = (Inr True, s1)"
    using Add_own[OF assms(1), of seed] by (metis new_session_def prod.collapse)
  have "session_inv K (new_session cfg seed)" by (simp add: new_session_def session_inv_New)
  moreover have "Collected (new_session cfg seed) = 0" by (simp add: new_session_def Collected_def)
  ultimately have "Collected s1 = 1" using Collected_Add[of K "new_session cfg seed" ?own] by (simp add: s1)
  moreover have "s_partials s1 = mput mempty (Index ?own) ?own \<and> s_spent s1 = mput mempty (Index ?own) True \<and>
      s_commits s1 = Commits (Share cfg) \<and> s_seed s1 = seed \<and> s_operators s1 = Operators cfg"
    using s1 by (auto simp: Add_def Let_def new_session_def split: if_splits option.splits)
  moreover have "Index ?own = share_Index (Share cfg)" by (simp add: own_partial_def)
  moreover obtain sig where "Sig p = Some sig" "uint (Index p) < Operators cfg"
    "VerifyPartial K (Commits (Share cfg)) (Index p) seed sig"
    using assms(1,2) by (auto simp: verified_def operator_of_def dealt_def)
  moreover have "add_all K (new_session cfg seed) [?own] = s1" by (simp add: s1)
  ultimately show ?thesis using assms(3) by (simp only:) (simp add: Add_def Let_def)
qed

text \<open>
  A share can be stranded between two lookups.  A valid share of another operator arrives
  just before its request is announced: its handler finds no session; the announcement then opens
  the session and takes what is parked, which is nothing yet; only then is the share parked.  The
  node ends up holding, beside the open session, a share that the session would accept and that
  nothing takes out of the parking lot any more.
\<close>

theorem race_strands_a_share:
  assumes op: "operator_of K cfg poly" and seed: "derive (ID req) (Consumer req) = req_Seed req"
    and dec: "Decode K e = Inr (req_Seed req, p)" and id: "parse_id (env_RequestID e) = Some (ID req)"
    and valid: "verified K poly (req_Seed req) (Operators cfg) p"
    and other: "Index p \<noteq> share_Index (Share cfg)"
  shows "\<exists>n a. reachable K cfg derive (n, [Requesting req (Req_File (req_Seed req) a [])]) \<and>
     existingSession n (hexID (ID req)) = Some a \<and>
     mget (parked n) (hexID (ID req)) = Some [e] \<and> Collected (heap n ! a) = 1 \<and>
     fst (Add K (heap n ! a) p) = Inr True"
proof -
  let ?key = "hexID (ID req)" and ?w = "quiet (Inr []) :: 'b answer"
  let ?n = "new_node None :: ('b, 'c) node"
  let ?req = "Requesting req Req_Start"
  have n: "\<not> knownSettled ?n ?key" "existingSession ?n ?key = None" "heap ?n = []"
    "held_for ?n ?key = []" "parked ?n = []"
    by (simp_all add: new_node_def knownSettled_def existingSession_def held_for_def mempty_def mget_def)
  have r0: "reachable K cfg derive (?n, [] @ [Sharing e Share_Start] @ [?req])"
    using more[OF more[OF start deliver] announce, of K cfg derive None] by simp
  have run0: "run_tasks K cfg derive [?w, ?w] [Sharing e Share_Start] ?n =
      ([Sharing e (Share_Park (ID req))], ?n)" by (simp add: dec id n)
  have r1: "reachable K cfg derive (?n, [Sharing e (Share_Park (ID req))] @ [?req] @ [])"
    using reachable_run_in[OF r0 _ run0] by simp
  obtain n1 where n1: "run_tasks K cfg derive (replicate 6 ?w) [?req] ?n =
       ([Requesting req (Req_File (req_Seed req) 0 [])], n1)"
    "heap n1 = [add_all K (new_session cfg (req_Seed req)) [own_partial K cfg (req_Seed req)]]"
    "existingSession n1 ?key = Some 0" "mget (parked n1) ?key = None"
    using run_request[where derive = derive and req = req and n = ?n and w = ?w, OF op seed n(1,2)]
    by (auto simp: n existingSession_def)
  have r2: "reachable K cfg derive (n1, [] @ [Sharing e (Share_Park (ID req))] @
       [Requesting req (Req_File (req_Seed req) 0 [])])"
    using reachable_run_in[OF r1 _ n1(1)] by simp
  define n2 where "n2 = emit (Answered None) (park cfg ?key e n1)"
  have run2: "run_tasks K cfg derive [?w] [Sharing e (Share_Park (ID req))] n1 = ([], n2)"
    by (simp add: n2_def)
  have "reachable K cfg derive (n2, [Requesting req (Req_File (req_Seed req) 0 [])])"
    using reachable_run_in[OF r2 _ run2] by simp
  moreover have "existingSession n2 ?key = Some 0"
    using n1(3) by (simp add: n2_def existingSession_def frame)
  moreover have "0 < Operators cfg"
    using op uint_ge_0[of "share_Index (Share cfg)"] unfolding operator_of_def by linarith
  then have "mget (parked n2) ?key = Some [e]"
    using n1(4) by (simp add: n2_def frame park_def Let_def split: list.splits)
  moreover have "heap n2 ! 0 = add_all K (new_session cfg (req_Seed req)) [own_partial K cfg (req_Seed req)]"
    using n1(2) by (simp add: n2_def frame)
  ultimately show ?thesis
    using own_session_accepts[OF op valid other] by metis
qed

theorem race_strands_a_share_witness:
  "\<exists>n a e. reachable small_kyber cfg_demo demo_derive
       (n, [Requesting demo_request (Req_File (req_Seed demo_request) a [])]) \<and>
     existingSession n (hexID 31) = Some a \<and> mget (parked n) (hexID 31) = Some [e]"
proof -
  let ?s = "req_Seed demo_request" and ?p = "honest_partial small_kyber [3, 5] (req_Seed demo_request) 2"
  have r: "ID demo_request = 31" "demo_derive (ID demo_request) (Consumer demo_request) = ?s"
    "length ?s = 32" by (simp_all add: demo_request_def demo_seed_length)
  obtain raw where raw: "SignatureBytes small_kyber (Sign small_kyber (share_at [3, 5] 2) ?s) = Inr raw"
    using SignatureBytes_ok[of small_kyber] small_kyber_laws unfolding kyber_laws_def by metis
  let ?e = "envelope_of (hexID 31) ?s 2 raw"
  have dec: "Decode small_kyber ?e = Inr (?s, ?p)"
    using Decode_envelope_of[OF r(3) raw] small_kyber_laws
    by (simp add: kyber_laws_def honest_partial_def)
  have id: "parse_id (env_RequestID ?e) = Some (ID demo_request)" by (simp add: envelope_of_def r)
  have "uint (2 :: u32) < Operators cfg_demo" by (simp add: cfg_demo_def)
  then have ver: "verified small_kyber [3, 5] ?s (Operators cfg_demo) ?p"
    by (simp add: verified_honest small_kyber_laws)
  have "Index ?p \<noteq> share_Index (Share cfg_demo)" by (simp add: cfg_demo_def share_Index_def)
  from race_strands_a_share[where derive = demo_derive, OF demo_operator r(2) dec id ver this]
  show ?thesis unfolding r by blast
qed

definition post_shares ::
  "('s, 'g1, 'g2, 'gt) kyber \<Rightarrow> ('s, 'g2) config \<Rightarrow> (int \<Rightarrow> byte list \<Rightarrow> byte list) \<Rightarrow> 'g1 answer \<Rightarrow>
   envelope list \<Rightarrow> ('g1, 'g2) node \<Rightarrow> ('g1, 'g2) node" where
  "post_shares K cfg derive w es n =
     foldl (\<lambda>n e. snd (run_tasks K cfg derive [w, w, w, w] [Sharing e Share_Start] n)) n es"

definition names_nobody ::
  "('s, 'g1, 'g2, 'gt) kyber \<Rightarrow> ('g1, 'g2) session \<Rightarrow> int \<Rightarrow> envelope \<Rightarrow> bool" where
  "names_nobody K s i e \<longleftrightarrow> parse_id (env_RequestID e) = Some i \<and>
     (\<exists>p. Decode K e = Inr (s_seed s, p) \<and> s_operators s \<le> uint (Index p))"

lemma refused_share_run:
  assumes "existingSession n (hexID i) = Some a" and "names_nobody K (heap n ! a) i e"
    and "Equivocation (heap n ! a) = Some ev" and "counters n = Some m"
    and "n1 = snd (run_tasks K cfg derive [w, w, w, w] [Sharing e Share_Start] n)"
  shows "heap n1 = heap n \<and> existingSession n1 (hexID i) = Some a \<and>
     (\<exists>p. counters n1 = Some (Equivocated (eq_Index ev) (ShareRejected p m)))"
proof -
  obtain p where p: "Decode K e = Inr (Seed (heap n ! a), p)" "s_operators (heap n ! a) \<le> uint (Index p)"
    "parse_id (env_RequestID e) = Some i"
    using assms(2) by (auto simp: names_nobody_def Seed_def)
  have add: "add_at K a p n = (Inl (OutsideGroup (Index p)), n)"
    using p(2) by (simp add: add_at_def Add_def Let_def set_session_def)
  show ?thesis
    unfolding assms(5) using assms(1,3,4)
    by (simp add: p add frame refuse_def existingSession_def) (auto simp: count_def)
qed

text \<open>
  One recorded conflict counts again with every refused share.  Once a session has recorded a
  conflict, every later envelope that the session refuses, from whoever and for whatever reason,
  adds one to the equivocation counter of the operator recorded first.  Here the refused
  envelopes name operators that do not exist.
\<close>

theorem refused_shares_inflate_equivocations:
  assumes "existingSession n (hexID i) = Some a" and "Equivocation (heap n ! a) = Some ev"
    and "counters n = Some m" and "\<forall>e \<in> set es. names_nobody K (heap n ! a) i e"
  shows "\<exists>m1. counters (post_shares K cfg derive w es n) = Some m1 \<and>
     counter_of (equivocations m1) (eq_Index ev) =
       counter_of (equivocations m) (eq_Index ev) + word_of_nat (length es)"
  using assms
proof (induction es arbitrary: n m)
  case (Cons e es)
  let ?n = "snd (run_tasks K cfg derive [w, w, w, w] [Sharing e Share_Start] n)"
  obtain p where "heap ?n = heap n" "existingSession ?n (hexID i) = Some a"
    "counters ?n = Some (Equivocated (eq_Index ev) (ShareRejected p m))"
    using refused_share_run[OF Cons.prems(1) _ Cons.prems(2,3) refl, of K e cfg derive w] Cons.prems(4) by auto
  with Cons.IH[of ?n "Equivocated (eq_Index ev) (ShareRejected p m)"] Cons.prems show ?case
    by (simp add: post_shares_def Equivocated_def ShareRejected_def add.assoc)
qed (simp add: post_shares_def)

theorem refused_shares_inflate_equivocations_witness:
  "\<exists>m1 raw. counters (post_shares small_kyber cfg_demo demo_derive (quiet (Inr []))
       (replicate 5 (envelope_of (hexID 31) (replicate 32 1) 77 raw))
       ((new_node (Some (new_registry 1 2 3)))\<lparr>sessions := [(hexID 31, 0)], heap :=
          [(new_session cfg_demo (replicate 32 1))\<lparr>s_equivocation :=
              Some \<lparr>eq_Index = 2, eq_Seed = replicate 32 1, First = Some 4, Second = Some 5\<rparr>\<rparr>]\<rparr>)) = Some m1 \<and>
     counter_of (equivocations m1) 2 = 5"
proof -
  let ?s = "(new_session cfg_demo (replicate 32 1))\<lparr>s_equivocation :=
              Some \<lparr>eq_Index = 2, eq_Seed = replicate 32 1, First = Some 4, Second = Some 5\<rparr>\<rparr>"
  let ?n = "(new_node (Some (new_registry 1 2 3)))\<lparr>sessions := [(hexID 31, 0)], heap := [?s]\<rparr>"
  obtain raw where raw: "SignatureBytes small_kyber (9 :: gf11) = Inr raw"
    using SignatureBytes_ok[of small_kyber] small_kyber_laws unfolding kyber_laws_def by metis
  let ?e = "envelope_of (hexID 31) (replicate 32 1) 77 raw"
  have "Decode small_kyber ?e = Inr (replicate 32 1, \<lparr>Index = 77, Sig = Some 9\<rparr>)"
    using Decode_envelope_of[OF _ raw] small_kyber_laws
    by (metis kyber_laws_def length_replicate)
  moreover have "Operators cfg_demo = 3" by (simp add: cfg_demo_def)
  ultimately have nobody: "names_nobody small_kyber (heap ?n ! 0) 31 ?e"
    by (simp add: names_nobody_def envelope_of_def new_session_def del: replicate_numeral_Cons)
  have at: "existingSession ?n (hexID 31) = Some 0" by (simp add: existingSession_def mget_def)
  have eq: "Equivocation (heap ?n ! 0) =
      Some \<lparr>eq_Index = 2, eq_Seed = replicate 32 1, First = Some 4, Second = Some 5\<rparr>"
    by (simp add: Equivocation_def del: replicate_numeral_Cons)
  have reg: "counters ?n = Some (new_registry 1 2 3)" by (simp add: new_node_def)
  have all: "\<forall>e \<in> set (replicate 5 ?e). names_nobody small_kyber (heap ?n ! 0) 31 e"
    using nobody by (metis in_set_replicate)
  have zero: "counter_of (equivocations (new_registry 1 2 3)) 2 = 0" by (simp add: new_registry_def)
  from refused_shares_inflate_equivocations[OF at eq reg all, of cfg_demo demo_derive "quiet (Inr [])"]
  show ?thesis
    by (simp only: zero length_replicate equivocation.select_convs of_nat_numeral add_0) blast
qed

section \<open>Early shares\<close>

definition early :: "('s, 'g1, 'g2, 'gt) kyber \<Rightarrow> int \<Rightarrow> envelope \<Rightarrow> bool" where
  "early K i e \<longleftrightarrow> parse_id (env_RequestID e) = Some i \<and> (\<exists>x. Decode K e = Inr x)"

lemma post_early:
  assumes "early K i e" and "existingSession n (hexID i) = None"
  shows "post_shares K cfg derive w (e # es) n =
     post_shares K cfg derive w es (emit (Answered None) (park cfg (hexID i) e n))"
proof -
  obtain s p where "Decode K e = Inr (s, p)" "parse_id (env_RequestID e) = Some i"
    using assms(1) by (auto simp: early_def)
  with assms(2) show ?thesis by (simp add: post_shares_def)
qed

lemma held_for_park_same:
  "0 < Operators cfg \<Longrightarrow> held_for (park cfg key e n) key =
     (if Operators cfg \<le> int (length (held_for n key)) then held_for n key else held_for n key @ [e])"
  by (cases "mget (parked n) key")
     (auto simp: held_for_def park_def Let_def split: list.splits)

text \<open>Whatever has been parked, the first \<open>Operators\<close> arrivals are kept and the rest dropped.\<close>

lemma post_early_all:
  assumes "0 < Operators cfg" and "existingSession n (hexID i) = None" and "\<forall>e \<in> set es. early K i e"
    and "int (length (held_for n (hexID i))) \<le> Operators cfg"
  shows "let n1 = post_shares K cfg derive w es n in
     held_for n1 (hexID i) = take (nat (Operators cfg)) (held_for n (hexID i) @ es) \<and>
     trace n1 = trace n @ replicate (length es) (Answered None) \<and> existingSession n1 (hexID i) = None"
  using assms
proof (induction es arbitrary: n)
  case Nil
  then show ?case by (simp add: post_shares_def Let_def)
next
  case (Cons e es)
  let ?n = "emit (Answered None) (park cfg (hexID i) e n)"
  have e: "early K i e" using Cons.prems(3) by simp
  have held: "held_for ?n (hexID i) = (if Operators cfg \<le> int (length (held_for n (hexID i)))
      then held_for n (hexID i) else held_for n (hexID i) @ [e])"
    using held_for_park_same[OF Cons.prems(1), of "hexID i" e n] by (simp add: held_for_def frame)
  have "existingSession ?n (hexID i) = None" using Cons.prems(2) by (simp add: existingSession_def frame)
  from Cons.IH[OF Cons.prems(1) this] Cons.prems held show ?case
    unfolding post_early[OF e Cons.prems(2)]
    by (auto simp: Let_def frame take_Cons')
qed

text \<open>
  One sender's repetitions take everyone's places.  Shares held for a request that has not
  been announced are counted by arrival, not by operator: after one valid envelope has been posted
  \<open>Operators\<close> times, every further share for that request, genuine ones included, is answered
  with success and dropped.
\<close>

theorem duplicates_fill_the_parking:
  assumes "0 < Operators cfg" and "existingSession n (hexID i) = None" and "held_for n (hexID i) = []"
    and "early K i e" and "\<forall>e' \<in> set es. early K i e'"
  shows "let n1 = post_shares K cfg derive w (replicate (nat (Operators cfg)) e @ es) n in
     held_for n1 (hexID i) = replicate (nat (Operators cfg)) e \<and>
     trace n1 = trace n @ replicate (nat (Operators cfg) + length es) (Answered None)"
proof -
  have "\<forall>e' \<in> set (replicate (nat (Operators cfg)) e @ es). early K i e'" using assms(4,5) by auto
  from post_early_all[OF assms(1,2) this] assms(1,3) show ?thesis by (simp add: Let_def)
qed

theorem duplicates_fill_the_parking_witness:
  "\<exists>e e'. Decode small_kyber e' = Inr (req_Seed demo_request, honest_partial small_kyber [3, 5] (req_Seed demo_request) 0) \<and>
     held_for (post_shares small_kyber cfg_demo demo_derive (quiet (Inr [])) [e, e, e, e']
       (new_node None :: (gf11, gf11) node)) (hexID 31) = [e, e, e]"
proof -
  let ?s = "req_Seed demo_request" and ?n = "new_node None :: (gf11, gf11) node"
  have len: "length ?s = 32" by (simp add: demo_request_def demo_seed_length)
  have "\<exists>e. Decode small_kyber e = Inr (?s, honest_partial small_kyber [3, 5] ?s j) \<and> early small_kyber 31 e" for j
  proof -
    obtain raw where raw: "SignatureBytes small_kyber (Sign small_kyber (share_at [3, 5] (uint j)) ?s) = Inr raw"
      using SignatureBytes_ok[of small_kyber] small_kyber_laws unfolding kyber_laws_def by metis
    have "Decode small_kyber (envelope_of (hexID 31) ?s j raw) = Inr (?s, honest_partial small_kyber [3, 5] ?s j)"
      using Decode_envelope_of[OF len raw] small_kyber_laws by (simp add: kyber_laws_def honest_partial_def)
    moreover from this have "early small_kyber 31 (envelope_of (hexID 31) ?s j raw)"
      by (simp add: early_def envelope_of_def)
    ultimately show ?thesis by blast
  qed
  then obtain e e' where e: "early small_kyber 31 e" "early small_kyber 31 e'"
    "Decode small_kyber e' = Inr (?s, honest_partial small_kyber [3, 5] ?s 0)" by metis
  have c: "Operators cfg_demo = 3" "existingSession ?n (hexID 31) = None" "held_for ?n (hexID 31) = []"
    by (simp_all add: cfg_demo_def new_node_def existingSession_def held_for_def)
  have "0 < Operators cfg_demo" by (simp add: c)
  from duplicates_fill_the_parking[OF this c(2,3) e(1), of "[e']" demo_derive "quiet (Inr [])"] e
  show ?thesis by (intro exI[of _ e] exI[of _ e']) (simp add: c Let_def)
qed

text \<open>
  A share that comes after its request is over is held like an early one: nothing on this path
  asks whether the request has been published or settled, so late shares (a peer's rounds of
  rebroadcast among them) occupy the memory of early ones until they are evicted from it.
\<close>

theorem late_shares_are_parked:
  assumes "0 < Operators cfg" and "early K i e"
    and "isPublished n (hexID i)" and "knownSettled n (hexID i)" and "existingSession n (hexID i) = None"
    and "held_for n (hexID i) = []"
  shows "held_for (post_shares K cfg derive w [e] n) (hexID i) = [e]"
  using post_early_all[OF assms(1,5), of "[e]" K derive w] assms(1,2,6) by (simp add: Let_def take_Cons')

theorem late_shares_are_parked_witness:
  "\<exists>e. held_for (post_shares small_kyber cfg_demo demo_derive (quiet (Inr [])) [e]
     ((new_node None)\<lparr>published := [(hexID 31, True)], settled := [(hexID 31, True)]\<rparr> :: (gf11, gf11) node))
     (hexID 31) = [e]"
proof -
  let ?n = "(new_node None)\<lparr>published := [(hexID 31, True)], settled := [(hexID 31, True)]\<rparr> :: (gf11, gf11) node"
  have len: "length (req_Seed demo_request) = 32" by (simp add: demo_request_def demo_seed_length)
  obtain raw where raw: "SignatureBytes small_kyber (9 :: gf11) = Inr raw"
    using SignatureBytes_ok[of small_kyber] small_kyber_laws unfolding kyber_laws_def by metis
  have "early small_kyber 31 (envelope_of (hexID 31) (req_Seed demo_request) 2 raw)"
    using Decode_envelope_of[OF len raw, of "hexID 31" 2] small_kyber_laws
    by (simp add: early_def kyber_laws_def) (simp add: envelope_of_def)
  moreover have "0 < Operators cfg_demo" by (simp add: cfg_demo_def)
  moreover have "isPublished ?n (hexID 31)" "knownSettled ?n (hexID 31)" "existingSession ?n (hexID 31) = None"
    "held_for ?n (hexID 31) = []"
    by (simp_all add: isPublished_def knownSettled_def existingSession_def held_for_def new_node_def mget_def mempty_def)
  ultimately show ?thesis using late_shares_are_parked by blast
qed

section \<open>Waits\<close>

text \<open>
  The jitter comes on top of the wait.  With a random source that returns numbers in range,
  and a wait that leaves room in 64 bits, the jittered wait is never shorter than the wait and
  longer by less than a fifth of it; a draw of a non-zero number makes it longer.
\<close>

theorem jitter_comes_on_top:
  assumes "\<forall>b r. draw b = Some r \<longrightarrow> 0 \<le> r \<and> r < b" and "0 < d" and "d + d div 5 < 2 ^ 63"
  shows "d \<le> jitter draw d \<and> jitter draw d \<le> d + d div 5 \<and>
     (\<forall>r. draw (d div 5) = Some r \<and> 0 < d div 5 \<longrightarrow> jitter draw d = d + r)"
proof -
  have q: "quot d 5 = d div 5" using assms(2) by (simp add: quot_pos)
  have b: "0 \<le> r \<and> r < d div 5 \<and> wrap64 (d + r) = d + r" if "draw (d div 5) = Some r" for r
  proof -
    have "0 \<le> r" "r < d div 5" using assms(1) that by blast+
    then show ?thesis using assms(2,3) by (intro conjI wrap64_id) linarith+
  qed
  show ?thesis
  proof (cases "draw (d div 5)")
    case None
    then show ?thesis using assms(2) by (simp add: jitter_def q Let_def)
  next
    case (Some r)
    with b[OF Some] assms(2) show ?thesis by (simp add: jitter_def q Let_def)
  qed
qed

theorem jitter_comes_on_top_witness:
  "jitter (\<lambda>b. if b = 400000000 then Some 399999999 else None) (seconds 2) = seconds 2 + 399999999"
proof -
  let ?draw = "\<lambda>b. if b = 400000000 then Some 399999999 else None :: int option"
  have "\<forall>b r. ?draw b = Some r \<longrightarrow> 0 \<le> r \<and> r < b" by simp
  from jitter_comes_on_top[OF this, of "seconds 2"] show ?thesis by simp
qed

end
