(* ===== verification/Node_Types.thy ===== *)
theory Node_Types
  imports Node_Peers
begin

text \<open>
  Well-formedness of the node's state (\<open>node/internal/node/node.go\<close>) in everything it can reach: the
  table of sessions, the sessions, the shares held for requests not announced yet and the memory of
  settled requests, under every interleaving of goroutines, announcements and postings.
\<close>

section \<open>The two memories\<close>

definition memory_ok :: "('s, 'g2) config \<Rightarrow> ('g1, 'g2) node \<Rightarrow> bool" where
  "memory_ok cfg n \<longleftrightarrow> parked_ok cfg n \<and> settled_ok n"

lemma memory_ok_cong:
  "parked n1 = parked n \<Longrightarrow> parkedOrder n1 = parkedOrder n \<Longrightarrow> settled n1 = settled n \<Longrightarrow>
   settledOrder n1 = settledOrder n \<Longrightarrow> memory_ok cfg n1 = memory_ok cfg n"
  by (simp add: memory_ok_def parked_ok_def settled_ok_def)

lemma memory_ok_frame [simp]:
  "memory_ok cfg (count f n) = memory_ok cfg n" "memory_ok cfg (emit e n) = memory_ok cfg n"
  "memory_ok cfg (forget k n) = memory_ok cfg n" "memory_ok cfg (SetPeers ps n) = memory_ok cfg n"
  "memory_ok cfg (n\<lparr>published := p\<rparr>) = memory_ok cfg n" "memory_ok cfg (n\<lparr>callbackGas := g\<rparr>) = memory_ok cfg n"
  by (rule memory_ok_cong; simp add: frame)+

lemma memory_ok_park: "memory_ok cfg n \<Longrightarrow> memory_ok cfg (park cfg k e n)"
  by (simp add: memory_ok_def parked_ok_park settled_ok_def frame)

lemma memory_ok_takeParked: "takeParked k n = (es, n1) \<Longrightarrow> memory_ok cfg n \<Longrightarrow> memory_ok cfg n1"
  using parked_ok_takeParked[of cfg n k] takeParked_frame[of k n] by (simp add: memory_ok_def settled_ok_def)

lemma memory_ok_OnFulfilled: "memory_ok cfg n \<Longrightarrow> memory_ok cfg (OnFulfilled i n)"
  by (simp add: memory_ok_def settled_ok_OnFulfilled parked_ok_def frame)

lemma memory_ok_sessionFor: "sessionFor cfg' i seed n = (a, n1) \<Longrightarrow> memory_ok cfg n1 = memory_ok cfg n"
  by (rule memory_ok_cong) (auto simp: sessionFor_def Let_def split: option.splits)

lemma memory_ok_add_at: "add_at K a p n = (r, n1) \<Longrightarrow> memory_ok cfg n1 = memory_ok cfg n"
  using add_at_frame[of K a p n] by (intro memory_ok_cong) simp_all

lemma memory_ok_file_held [simp]: "memory_ok cfg (file_held K seed a e n) = memory_ok cfg n"
proof (cases "Decode K e")
  case (Inr x)
  obtain s p where x: "x = (s, p)" by (cases x)
  obtain r n1 where add: "add_at K a p n = (r, n1)" by (cases "add_at K a p n")
  show ?thesis
    using memory_ok_add_at[OF add, of cfg] by (auto simp: file_held_def Inr x add split: sum.splits bool.splits)
qed (simp add: file_held_def)

lemma memory_ok_request:
  assumes "request_step K cfg derive req pc n = (r, n1)" and "memory_ok cfg n"
  shows "memory_ok cfg n1"
proof (cases pc)
  case (Req_File seed a es)
  then show ?thesis using assms by (cases es) auto
qed (use assms in \<open>auto simp: Let_def offer_share_def memory_ok_sessionFor memory_ok_add_at
      dest: memory_ok_takeParked split: if_splits prod.splits sum.splits option.splits\<close>)

lemma memory_ok_share:
  assumes "share_step K cfg e pc n = (new, n1)" and "memory_ok cfg n"
  shows "memory_ok cfg n1"
  using assms
  by (cases pc) (auto simp: refuse_def memory_ok_park memory_ok_add_at
      split: sum.splits option.splits prod.splits if_splits)

lemma memory_ok_task:
  assumes "task_step K cfg derive w t n = (new, n1)" and "memory_ok cfg n"
  shows "memory_ok cfg n1"
proof (cases t)
  case (Requesting req pc)
  then show ?thesis using assms memory_ok_request[of K cfg derive req pc n] by (auto split: prod.splits option.splits)
next
  case (Chasing i a e attempt pc)
  then show ?thesis using assms by (cases pc) (auto split: if_splits)
next
  case (Publishing i a pc cont)
  then show ?thesis using assms
    by (cases pc) (auto simp: Let_def split: if_splits sum.splits)
next
  case (Sharing e pc)
  then show ?thesis using assms memory_ok_share[of K cfg e pc n] by simp
qed

lemma reachable_memory_ok:
  assumes "0 < Operators cfg" and "reachable K cfg derive x"
  shows "memory_ok cfg (fst x)"
  using assms(2)
proof induction
  case (start m)
  then show ?case using assms(1) by (simp add: memory_ok_def parked_ok_new settled_ok_new)
next
  case (more x y)
  from more.hyps(2) more.IH show ?case
    by cases (auto dest: memory_ok_task simp: memory_ok_OnFulfilled)
qed

section \<open>Properties\<close>

text \<open>
  C14.  Every state the node can reach is well formed.  Under any interleaving, an entry of the table of
  sessions points to a session; every session has the group's commitments, threshold and size, and files each
  partial under its own index, which is an operator's, with a point that verifies; shares are held for at most
  256 requests, at most one per operator and request; and at most ten thousand requests are remembered
  as settled, each once.
\<close>

theorem reachable_state_is_well_formed:
  assumes "dealt K cfg poly" and "0 < Operators cfg" and "reachable K cfg derive (n, ts)"
  shows "(\<forall>i a. existingSession n (hexID i) = Some a \<longrightarrow> a < length (heap n)) \<and>
     (\<forall>s \<in> set (heap n). s_commits s = Commits (Share cfg) \<and> s_threshold s = Threshold cfg \<and>
        s_operators s = Operators cfg \<and>
        (\<forall>i p. mget (s_partials s) i = Some p \<longrightarrow> Index p = i \<and> uint i < Operators cfg \<and>
           (\<exists>sig. Sig p = Some sig \<and> VerifyPartial K (Commits (Share cfg)) i (s_seed s) sig))) \<and>
     Parked n \<le> MaxParkedRequests \<and>
     (\<forall>key held. mget (parked n) key = Some held \<longrightarrow> int (length held) \<le> Operators cfg) \<and>
     length (settledOrder n) \<le> 10000 \<and> distinct (settledOrder n)"
proof -
  have ok: "node_ok K cfg poly derive n"
    using reachable_ok[OF assms(1,3)] by (simp add: all_ok_def)
  have m: "parked_ok cfg n" "settled_ok n"
    using reachable_memory_ok[OF assms(2,3)] by (simp_all add: memory_ok_def)
  have "Parked n \<le> MaxParkedRequests"
    using m(1) Parked_length[OF m(1)] by (simp add: parked_ok_def MaxParkedRequests_def)
  moreover have "\<forall>key held. mget (parked n) key = Some held \<longrightarrow> int (length held) \<le> Operators cfg"
    using m(1) by (simp add: parked_ok_def)
  moreover have "length (settledOrder n) \<le> 10000" "distinct (settledOrder n)"
    using m(2) by (simp_all add: settled_ok_def)
  moreover have "\<forall>i a. existingSession n (hexID i) = Some a \<longrightarrow> a < length (heap n)"
    using ok by (simp add: node_ok_def existingSession_def at_session_def)
  moreover have "\<forall>s \<in> set (heap n). session_ok K cfg s" using ok by (simp add: node_ok_def)
  ultimately show ?thesis by (auto simp: session_ok_def session_inv_def)
qed

theorem reachable_state_is_well_formed_witness:
  "\<exists>n raw. reachable small_kyber cfg_solo demo_derive (n, []) \<and> SentFulfill 31 raw 100000 \<in> set (trace n) \<and>
     (\<forall>s \<in> set (heap n). s_operators s = 1) \<and> Parked n \<le> MaxParkedRequests"
proof -
  obtain n raw where run: "reachable small_kyber cfg_solo demo_derive (n, [])"
    "SentFulfill 31 raw 100000 \<in> set (trace n)" using solo_run by blast
  have d: "dealt small_kyber cfg_solo [3]" using solo_operator by (simp add: operator_of_def)
  have o: "Operators cfg_solo = 1" by (simp add: cfg_solo_def)
  have "0 < Operators cfg_solo" by (simp add: o)
  from reachable_state_is_well_formed[OF d this run(1)] run show ?thesis by (auto simp: o)
qed

end
