(* ===== verification/Dkg_Wire.thy ===== *)
theory Dkg_Wire
  imports Dkg
begin

text \<open>
  The wire format of the networked ceremony: \<open>node/internal/dkgnet/wire.go\<close>.  Bundles of the
  ceremony library (kyber's \<open>share/dkg\<close>) become JSON texts with hexadecimal group elements and
  back.  \<open>encoding/json\<close> on these struct types is an argument, a record of its operations with
  the law that a text of ASCII strings parses to what was printed.
\<close>

section \<open>Bundles of the ceremony library\<close>

record deal =
  d_ShareIndex :: u32
  d_EncryptedShare :: "byte list"

record 'g2 deal_bundle =
  db_DealerIndex :: u32
  db_Deals :: "deal list"
  db_Public :: "'g2 list"
  db_SessionID :: "byte list"
  db_Signature :: "byte list"

record response =
  r_DealerIndex :: u32
  r_Status :: bool

record response_bundle =
  rb_ShareIndex :: u32
  rb_Responses :: "response list"
  rb_SessionID :: "byte list"
  rb_Signature :: "byte list"

record 's justification =
  j_ShareIndex :: u32
  j_Share :: 's

record 's justification_bundle =
  jb_DealerIndex :: u32
  jb_Justifications :: "'s justification list"
  jb_SessionID :: "byte list"
  jb_Signature :: "byte list"

section \<open>Wire structs\<close>

record wireDeal =
  wd_ShareIndex :: u32
  wd_EncryptedShare :: string

record wireDealBundle =
  wdb_Kind :: string
  wdb_DealerIndex :: u32
  wdb_Deals :: "wireDeal list"
  wdb_Public :: "string list"
  wdb_SessionID :: string
  wdb_Signature :: string

record wireResponse =
  wr_DealerIndex :: u32
  wr_Status :: bool

record wireResponseBundle =
  wrb_Kind :: string
  wrb_ShareIndex :: u32
  wrb_Responses :: "wireResponse list"
  wrb_SessionID :: string
  wrb_Signature :: string

record wireJustification =
  wj_ShareIndex :: u32
  wj_Share :: string

record wireJustificationBundle =
  wjb_Kind :: string
  wjb_DealerIndex :: u32
  wjb_Justifications :: "wireJustification list"
  wjb_SessionID :: string
  wjb_Signature :: string

text \<open>
  \<open>json.Marshal\<close> and \<open>json.Unmarshal\<close> at the struct types; \<open>None\<close> is an error.  \<open>probe_kind\<close> is
  \<open>Unmarshal\<close> into the struct with the single field \<open>kind\<close>.
\<close>

record json_library =
  print_deals :: "wireDealBundle \<Rightarrow> byte list option"
  parse_deals :: "byte list \<Rightarrow> wireDealBundle option"
  print_responses :: "wireResponseBundle \<Rightarrow> byte list option"
  parse_responses :: "byte list \<Rightarrow> wireResponseBundle option"
  print_justifications :: "wireJustificationBundle \<Rightarrow> byte list option"
  parse_justifications :: "byte list \<Rightarrow> wireJustificationBundle option"
  probe_kind :: "byte list \<Rightarrow> string option"

datatype wire_error =
    JsonError
  | WireHex hex_error
  | MarshalError
  | UnmarshalError
  | UnknownKind string

section \<open>Encoding and decoding\<close>

definition toHex :: "byte list \<Rightarrow> string" where
  "toHex b = (if length b = 0 then '''' else ''0x'' @ hex_encode b)"

definition fromHex :: "string \<Rightarrow> wire_error + byte list" where
  "fromHex s =
     (if s = '''' then Inr []
      else case hex_decode (trim_prefix ''0x'' s) of Inl e \<Rightarrow> Inl (WireHex e) | Inr b \<Rightarrow> Inr b)"

definition decodePoint :: "('s, 'g1, 'g2, 'gt) kyber \<Rightarrow> string \<Rightarrow> wire_error + 'g2" where
  "decodePoint K s =
     (case fromHex s of
        Inl e \<Rightarrow> Inl e
      | Inr raw \<Rightarrow> (case unmarshal_g2 K raw of None \<Rightarrow> Inl UnmarshalError | Some p \<Rightarrow> Inr p))"

definition printed :: "byte list option \<Rightarrow> wire_error + byte list" where
  "printed r = (case r of None \<Rightarrow> Inl JsonError | Some raw \<Rightarrow> Inr raw)"

text \<open>A loop that appends one converted element per round and returns at the first error.\<close>

fun collect_all :: "('a \<Rightarrow> 'e + 'b) \<Rightarrow> 'a list \<Rightarrow> 'e + 'b list" where
  "collect_all f [] = Inr []"
| "collect_all f (x # xs) =
     (case f x of
        Inl e \<Rightarrow> Inl e
      | Inr y \<Rightarrow> (case collect_all f xs of Inl e \<Rightarrow> Inl e | Inr ys \<Rightarrow> Inr (y # ys)))"

definition marshal_point :: "('s, 'g1, 'g2, 'gt) kyber \<Rightarrow> 'g2 \<Rightarrow> wire_error + string" where
  "marshal_point K p = (case marshal_g2 K p of None \<Rightarrow> Inl MarshalError | Some raw \<Rightarrow> Inr (toHex raw))"

definition EncodeDeals ::
  "('s, 'g1, 'g2, 'gt) kyber \<Rightarrow> json_library \<Rightarrow> 'g2 deal_bundle \<Rightarrow> wire_error + byte list" where
  "EncodeDeals K J b =
     (case collect_all (marshal_point K) (db_Public b) of
        Inl e \<Rightarrow> Inl e
      | Inr public \<Rightarrow> printed (print_deals J
          \<lparr> wdb_Kind = ''deals'', wdb_DealerIndex = db_DealerIndex b,
            wdb_Deals = map (\<lambda>d. \<lparr>wd_ShareIndex = d_ShareIndex d,
                                  wd_EncryptedShare = toHex (d_EncryptedShare d)\<rparr>) (db_Deals b),
            wdb_Public = public, wdb_SessionID = toHex (db_SessionID b),
            wdb_Signature = toHex (db_Signature b) \<rparr>))"

definition DecodeDeals ::
  "('s, 'g1, 'g2, 'gt) kyber \<Rightarrow> json_library \<Rightarrow> byte list \<Rightarrow> wire_error + 'g2 deal_bundle" where
  "DecodeDeals K J raw =
     (case parse_deals J raw of
        None \<Rightarrow> Inl JsonError
      | Some w \<Rightarrow> (case fromHex (wdb_SessionID w) of
          Inl e \<Rightarrow> Inl e
        | Inr session \<Rightarrow> (case fromHex (wdb_Signature w) of
            Inl e \<Rightarrow> Inl e
          | Inr signature \<Rightarrow>
              (case collect_all (\<lambda>d. case fromHex (wd_EncryptedShare d) of
                   Inl e \<Rightarrow> Inl e
                 | Inr share \<Rightarrow> Inr \<lparr>d_ShareIndex = wd_ShareIndex d, d_EncryptedShare = share\<rparr>)
                 (wdb_Deals w) of
                Inl e \<Rightarrow> Inl e
              | Inr deals \<Rightarrow> (case collect_all (decodePoint K) (wdb_Public w) of
                  Inl e \<Rightarrow> Inl e
                | Inr public \<Rightarrow> Inr
                    \<lparr> db_DealerIndex = wdb_DealerIndex w, db_Deals = deals, db_Public = public,
                      db_SessionID = session, db_Signature = signature \<rparr>)))))"

definition EncodeResponses :: "json_library \<Rightarrow> response_bundle \<Rightarrow> wire_error + byte list" where
  "EncodeResponses J b =
     printed (print_responses J
       \<lparr> wrb_Kind = ''responses'', wrb_ShareIndex = rb_ShareIndex b,
         wrb_Responses = map (\<lambda>r. \<lparr>wr_DealerIndex = r_DealerIndex r, wr_Status = r_Status r\<rparr>)
                             (rb_Responses b),
         wrb_SessionID = toHex (rb_SessionID b), wrb_Signature = toHex (rb_Signature b) \<rparr>)"

definition DecodeResponses :: "json_library \<Rightarrow> byte list \<Rightarrow> wire_error + response_bundle" where
  "DecodeResponses J raw =
     (case parse_responses J raw of
        None \<Rightarrow> Inl JsonError
      | Some w \<Rightarrow> (case fromHex (wrb_SessionID w) of
          Inl e \<Rightarrow> Inl e
        | Inr session \<Rightarrow> (case fromHex (wrb_Signature w) of
            Inl e \<Rightarrow> Inl e
          | Inr signature \<Rightarrow> Inr
              \<lparr> rb_ShareIndex = wrb_ShareIndex w,
                rb_Responses = map (\<lambda>r. \<lparr>r_DealerIndex = wr_DealerIndex r, r_Status = wr_Status r\<rparr>)
                                   (wrb_Responses w),
                rb_SessionID = session, rb_Signature = signature \<rparr>)))"

definition EncodeJustifications ::
  "('s, 'g1, 'g2, 'gt) kyber \<Rightarrow> json_library \<Rightarrow> 's justification_bundle \<Rightarrow> wire_error + byte list" where
  "EncodeJustifications K J b =
     (case collect_all (\<lambda>j. case marshal_scalar K (j_Share j) of
          None \<Rightarrow> Inl MarshalError
        | Some raw \<Rightarrow> Inr \<lparr>wj_ShareIndex = j_ShareIndex j, wj_Share = toHex raw\<rparr>)
        (jb_Justifications b) of
        Inl e \<Rightarrow> Inl e
      | Inr js \<Rightarrow> printed (print_justifications J
          \<lparr> wjb_Kind = ''justifications'', wjb_DealerIndex = jb_DealerIndex b, wjb_Justifications = js,
            wjb_SessionID = toHex (jb_SessionID b), wjb_Signature = toHex (jb_Signature b) \<rparr>))"

definition DecodeJustifications ::
  "('s, 'g1, 'g2, 'gt) kyber \<Rightarrow> json_library \<Rightarrow> byte list \<Rightarrow> wire_error + 's justification_bundle" where
  "DecodeJustifications K J raw =
     (case parse_justifications J raw of
        None \<Rightarrow> Inl JsonError
      | Some w \<Rightarrow> (case fromHex (wjb_SessionID w) of
          Inl e \<Rightarrow> Inl e
        | Inr session \<Rightarrow> (case fromHex (wjb_Signature w) of
            Inl e \<Rightarrow> Inl e
          | Inr signature \<Rightarrow>
              (case collect_all (\<lambda>j. case fromHex (wj_Share j) of
                   Inl e \<Rightarrow> Inl e
                 | Inr b \<Rightarrow> (case unmarshal_scalar K b of
                     None \<Rightarrow> Inl UnmarshalError
                   | Some s \<Rightarrow> Inr \<lparr>j_ShareIndex = wj_ShareIndex j, j_Share = s\<rparr>))
                 (wjb_Justifications w) of
                Inl e \<Rightarrow> Inl e
              | Inr js \<Rightarrow> Inr
                  \<lparr> jb_DealerIndex = wjb_DealerIndex w, jb_Justifications = js,
                    jb_SessionID = session, jb_Signature = signature \<rparr>))))"

definition KindOf :: "json_library \<Rightarrow> byte list \<Rightarrow> wire_error + string" where
  "KindOf J raw =
     (case probe_kind J raw of
        None \<Rightarrow> Inl JsonError
      | Some kind \<Rightarrow> if kind = ''deals'' \<or> kind = ''responses'' \<or> kind = ''justifications''
                     then Inr kind else Inl (UnknownKind kind))"

section \<open>What is relied on\<close>

definition ascii :: "string \<Rightarrow> bool" where
  "ascii s \<longleftrightarrow> (\<forall>c \<in> set s. of_char c < (128 :: nat))"

definition ascii_deals :: "wireDealBundle \<Rightarrow> bool" where
  "ascii_deals w \<longleftrightarrow> ascii (wdb_Kind w) \<and> ascii (wdb_SessionID w) \<and> ascii (wdb_Signature w) \<and>
     (\<forall>d \<in> set (wdb_Deals w). ascii (wd_EncryptedShare d)) \<and> (\<forall>p \<in> set (wdb_Public w). ascii p)"

definition ascii_responses :: "wireResponseBundle \<Rightarrow> bool" where
  "ascii_responses w \<longleftrightarrow> ascii (wrb_Kind w) \<and> ascii (wrb_SessionID w) \<and> ascii (wrb_Signature w)"

definition ascii_justifications :: "wireJustificationBundle \<Rightarrow> bool" where
  "ascii_justifications w \<longleftrightarrow> ascii (wjb_Kind w) \<and> ascii (wjb_SessionID w) \<and> ascii (wjb_Signature w) \<and>
     (\<forall>j \<in> set (wjb_Justifications w). ascii (wj_Share j))"

text \<open>Printing never fails on these types, and a printed text parses to what was printed.\<close>

definition json_laws :: "json_library \<Rightarrow> bool" where
  "json_laws J \<longleftrightarrow>
     (\<forall>w. ascii_deals w \<longrightarrow> (\<exists>raw. print_deals J w = Some raw \<and> parse_deals J raw = Some w \<and>
        probe_kind J raw = Some (wdb_Kind w))) \<and>
     (\<forall>w. ascii_responses w \<longrightarrow> (\<exists>raw. print_responses J w = Some raw \<and>
        parse_responses J raw = Some w \<and> probe_kind J raw = Some (wrb_Kind w))) \<and>
     (\<forall>w. ascii_justifications w \<longrightarrow> (\<exists>raw. print_justifications J w = Some raw \<and>
        parse_justifications J raw = Some w \<and> probe_kind J raw = Some (wjb_Kind w)))"

text \<open>The encodings of points and scalars parse back; a point takes 128 bytes.\<close>

definition g2_codec :: "('s, 'g1, 'g2, 'gt) kyber \<Rightarrow> bool" where
  "g2_codec K \<longleftrightarrow>
     (\<forall>p. \<exists>raw. marshal_g2 K p = Some raw \<and> length raw = 128 \<and> unmarshal_g2 K raw = Some p)"

definition scalar_codec :: "('s, 'g1, 'g2, 'gt) kyber \<Rightarrow> bool" where
  "scalar_codec K \<longleftrightarrow> (\<forall>x. \<exists>raw. marshal_scalar K x = Some raw \<and> raw \<noteq> [] \<and> unmarshal_scalar K raw = Some x)"

section \<open>Lemmas\<close>

lemma ascii_hexdigit: "n < 16 \<Longrightarrow> of_char (hexdigit n) < (128 :: nat)"
  unfolding all_lt_16 by (elim insertE emptyE) (simp_all add: hexdigit_def)

lemma ascii_hex_encode: "ascii (hex_encode bs)"
  by (induction bs) (simp_all add: ascii_def ascii_hexdigit)

lemma ascii_toHex [simp]: "ascii (toHex bs)"
  using ascii_hex_encode[of bs] by (simp add: toHex_def ascii_def)

lemma fromHex_toHex [simp]: "fromHex (toHex bs) = Inr bs"
  by (cases bs) (simp_all add: fromHex_def toHex_def trim_prefix_def)

lemma collect_all_map:
  "(\<And>x. x \<in> set xs \<Longrightarrow> f (g x) = Inr (h x)) \<Longrightarrow> collect_all f (map g xs) = Inr (map h xs)"
  by (induction xs) simp_all

lemmas collect_all_id = collect_all_map[where g = "\<lambda>x. x", simplified]

lemma collect_all_all:
  "(\<And>x. x \<in> set xs \<Longrightarrow> \<exists>y. f x = Inr y \<and> P x y) \<Longrightarrow>
   \<exists>ys. collect_all f xs = Inr ys \<and> list_all2 P xs ys"
  by (induction xs) fastforce+

lemma collect_all_inverse:
  "list_all2 (\<lambda>x y. g y = Inr x) xs ys \<Longrightarrow> collect_all g ys = Inr xs"
  by (induction xs ys rule: list_all2_induct) simp_all

lemma list_all2_right: "list_all2 P xs ys \<Longrightarrow> y \<in> set ys \<Longrightarrow> \<exists>x. P x y"
  by (induction xs ys rule: list_all2_induct) auto

lemma marshal_point_ok:
  assumes "g2_codec K"
  shows "\<exists>s. marshal_point K p = Inr s \<and> decodePoint K s = Inr p \<and> ascii s"
proof -
  obtain raw where "marshal_g2 K p = Some raw" "unmarshal_g2 K raw = Some p"
    using assms unfolding g2_codec_def by blast
  then show ?thesis by (simp add: marshal_point_def decodePoint_def)
qed

lemma json_lawsD:
  assumes "json_laws J"
  shows "ascii_deals wd \<Longrightarrow> \<exists>raw. print_deals J wd = Some raw \<and> parse_deals J raw = Some wd \<and>
      probe_kind J raw = Some (wdb_Kind wd)"
    and "ascii_responses wr \<Longrightarrow> \<exists>raw. print_responses J wr = Some raw \<and>
      parse_responses J raw = Some wr \<and> probe_kind J raw = Some (wrb_Kind wr)"
    and "ascii_justifications wj \<Longrightarrow> \<exists>raw. print_justifications J wj = Some raw \<and>
      parse_justifications J raw = Some wj \<and> probe_kind J raw = Some (wjb_Kind wj)"
  using assms by (simp_all add: json_laws_def)

lemma deals_roundtrip:
  assumes "json_laws J" and "g2_codec K"
  shows "\<exists>raw. EncodeDeals K J b = Inr raw \<and> DecodeDeals K J raw = Inr b \<and> KindOf J raw = Inr ''deals''"
proof -
  obtain ss where ss: "collect_all (marshal_point K) (db_Public b) = Inr ss"
    "list_all2 (\<lambda>p s. decodePoint K s = Inr p \<and> ascii s) (db_Public b) ss"
    using collect_all_all[of "db_Public b" "marshal_point K"
        "\<lambda>p s. decodePoint K s = Inr p \<and> ascii s", OF marshal_point_ok[OF assms(2)]] by blast
  have parsed: "collect_all (decodePoint K) ss = Inr (db_Public b)"
    using ss(2) by (intro collect_all_inverse) (auto elim: list_all2_mono)
  have plain: "\<forall>s \<in> set ss. ascii s"
    using list_all2_right[OF ss(2)] by blast
  let ?w = "\<lparr> wdb_Kind = ''deals'', wdb_DealerIndex = db_DealerIndex b,
      wdb_Deals = map (\<lambda>d. \<lparr>wd_ShareIndex = d_ShareIndex d,
                            wd_EncryptedShare = toHex (d_EncryptedShare d)\<rparr>) (db_Deals b),
      wdb_Public = ss, wdb_SessionID = toHex (db_SessionID b),
      wdb_Signature = toHex (db_Signature b) \<rparr>"
  have "ascii_deals ?w" using plain by (auto simp: ascii_deals_def ascii_def[of "_ # _"] ascii_def[of "[]"])
  then obtain raw where raw: "print_deals J ?w = Some raw" "parse_deals J raw = Some ?w"
    "probe_kind J raw = Some ''deals''"
    using json_lawsD(1)[OF assms(1), of ?w] by auto
  have deals: "collect_all (\<lambda>d. case fromHex (wd_EncryptedShare d) of Inl e \<Rightarrow> Inl e
        | Inr share \<Rightarrow> Inr \<lparr>d_ShareIndex = wd_ShareIndex d, d_EncryptedShare = share\<rparr>)
      (map (\<lambda>d. \<lparr>wd_ShareIndex = d_ShareIndex d, wd_EncryptedShare = toHex (d_EncryptedShare d)\<rparr>)
        (db_Deals b)) = Inr (db_Deals b)"
    by (subst collect_all_map[where h = "\<lambda>d. d"]) simp_all
  show ?thesis
    using ss(1) raw parsed deals by (simp add: EncodeDeals_def DecodeDeals_def printed_def KindOf_def)
qed

lemma responses_roundtrip:
  assumes "json_laws J"
  shows "\<exists>raw. EncodeResponses J b = Inr raw \<and> DecodeResponses J raw = Inr b \<and>
           KindOf J raw = Inr ''responses''"
proof -
  let ?w = "\<lparr> wrb_Kind = ''responses'', wrb_ShareIndex = rb_ShareIndex b,
      wrb_Responses = map (\<lambda>r. \<lparr>wr_DealerIndex = r_DealerIndex r, wr_Status = r_Status r\<rparr>)
                          (rb_Responses b),
      wrb_SessionID = toHex (rb_SessionID b), wrb_Signature = toHex (rb_Signature b) \<rparr>"
  have "ascii_responses ?w" by (simp add: ascii_responses_def ascii_def[of "_ # _"] ascii_def[of "[]"])
  then obtain raw where raw: "print_responses J ?w = Some raw" "parse_responses J raw = Some ?w"
    "probe_kind J raw = Some ''responses''"
    using json_lawsD(2)[OF assms(1), of ?w] by auto
  have "map (\<lambda>r. \<lparr>r_DealerIndex = wr_DealerIndex r, r_Status = wr_Status r\<rparr>)
      (map (\<lambda>r. \<lparr>wr_DealerIndex = r_DealerIndex r, wr_Status = r_Status r\<rparr>) (rb_Responses b)) =
      rb_Responses b"
    by (simp add: map_idI)
  then show ?thesis
    using raw by (simp add: EncodeResponses_def DecodeResponses_def printed_def KindOf_def)
qed

lemma justifications_roundtrip:
  assumes "json_laws J" and "scalar_codec K"
  shows "\<exists>raw. EncodeJustifications K J b = Inr raw \<and> DecodeJustifications K J raw = Inr b \<and>
           KindOf J raw = Inr ''justifications''"
proof -
  let ?enc = "\<lambda>j. case marshal_scalar K (j_Share j) of None \<Rightarrow> Inl MarshalError
        | Some raw \<Rightarrow> Inr \<lparr>wj_ShareIndex = j_ShareIndex j, wj_Share = toHex raw\<rparr>"
  let ?dec = "\<lambda>j. case fromHex (wj_Share j) of Inl e \<Rightarrow> Inl e
      | Inr b \<Rightarrow> (case unmarshal_scalar K b of None \<Rightarrow> Inl UnmarshalError
        | Some s \<Rightarrow> Inr \<lparr>j_ShareIndex = wj_ShareIndex j, j_Share = s\<rparr>)"
  have "\<exists>w. ?enc j = Inr w \<and> (?dec w = Inr j \<and> ascii (wj_Share w))" for j
  proof -
    obtain raw where "marshal_scalar K (j_Share j) = Some raw" "unmarshal_scalar K raw = Some (j_Share j)"
      using assms(2) unfolding scalar_codec_def by blast
    then show ?thesis by simp
  qed
  then obtain ws where ws: "collect_all ?enc (jb_Justifications b) = Inr ws"
    "list_all2 (\<lambda>j w. ?dec w = Inr j \<and> ascii (wj_Share w)) (jb_Justifications b) ws"
    using collect_all_all[of "jb_Justifications b" ?enc "\<lambda>j w. ?dec w = Inr j \<and> ascii (wj_Share w)"]
    by blast
  have parsed: "collect_all ?dec ws = Inr (jb_Justifications b)"
    using ws(2) by (intro collect_all_inverse) (auto elim: list_all2_mono)
  let ?w = "\<lparr> wjb_Kind = ''justifications'', wjb_DealerIndex = jb_DealerIndex b,
      wjb_Justifications = ws, wjb_SessionID = toHex (jb_SessionID b),
      wjb_Signature = toHex (jb_Signature b) \<rparr>"
  have "ascii_justifications ?w"
    using list_all2_right[OF ws(2)]
    by (auto simp: ascii_justifications_def ascii_def[of "_ # _"] ascii_def[of "[]"])
  then obtain raw where raw: "print_justifications J ?w = Some raw"
    "parse_justifications J raw = Some ?w" "probe_kind J raw = Some ''justifications''"
    using json_lawsD(3)[OF assms(1), of ?w] by auto
  show ?thesis
    using ws(1) raw parsed
    by (simp add: EncodeJustifications_def DecodeJustifications_def printed_def KindOf_def)
qed

section \<open>A concrete JSON library\<close>

text \<open>
  For the witnesses: every value is written as its length in unary, or its parts one after
  another.  A reader returns the value and what follows it.
\<close>

definition put_bytes :: "byte list \<Rightarrow> byte list" where
  "put_bytes bs = replicate (length bs) 1 @ [0] @ bs"

fun get_count :: "byte list \<Rightarrow> (nat \<times> byte list) option" where
  "get_count [] = None"
| "get_count (b # bs) =
     (if b = 0 then Some (0, bs) else map_option (\<lambda>(n, r). (Suc n, r)) (get_count bs))"

definition get_bytes :: "byte list \<Rightarrow> (byte list \<times> byte list) option" where
  "get_bytes bs = (case get_count bs of None \<Rightarrow> None | Some (n, r) \<Rightarrow> Some (take n r, drop n r))"

definition put_string :: "string \<Rightarrow> byte list" where
  "put_string s = put_bytes (map (\<lambda>c. word_of_nat (of_char c)) s)"
definition get_string :: "byte list \<Rightarrow> (string \<times> byte list) option" where
  "get_string bs = map_option (\<lambda>(v, r). (map (\<lambda>b. char_of (unat b)) v, r)) (get_bytes bs)"
definition put_word :: "u32 \<Rightarrow> byte list" where
  "put_word w = put_bytes (be_bytes (unat w))"
definition get_word :: "byte list \<Rightarrow> (u32 \<times> byte list) option" where
  "get_word bs = map_option (\<lambda>(v, r). (word_of_nat (be_value v), r)) (get_bytes bs)"

fun put_list :: "('a \<Rightarrow> byte list) \<Rightarrow> 'a list \<Rightarrow> byte list" where
  "put_list f [] = [0]"
| "put_list f (x # xs) = 1 # f x @ put_list f xs"

fun get_list :: "nat \<Rightarrow> (byte list \<Rightarrow> ('a \<times> byte list) option) \<Rightarrow> byte list \<Rightarrow>
    ('a list \<times> byte list) option" where
  "get_list 0 g bs = None"
| "get_list (Suc k) g bs =
     (case bs of [] \<Rightarrow> None
      | b # r \<Rightarrow> if b = 0 then Some ([], r)
         else (case g r of None \<Rightarrow> None
          | Some (x, r1) \<Rightarrow> map_option (\<lambda>(xs, r2). (x # xs, r2)) (get_list k g r1)))"

lemma get_bytes_put [simp]: "get_bytes (put_bytes bs @ r) = Some (bs, r)"
proof -
  have "get_count (replicate n 1 @ 0 # r) = Some (n, r)" for n r
    by (induction n) simp_all
  then show ?thesis by (simp add: get_bytes_def put_bytes_def)
qed

lemma get_string_put [simp]: "get_string (put_string s @ r) = Some (s, r)"
proof -
  have "(of_char c :: nat) < 256" for c :: char by (rule nat_of_char_less_256)
  then have "char_of (unat (word_of_nat (of_char c) :: byte)) = c" for c :: char
    by (simp add: unat_of_nat take_bit_nat_eq_self del: of_nat_of_char)
  then show ?thesis by (simp add: get_string_def put_string_def comp_def)
qed

lemma get_word_put [simp]: "get_word (put_word w @ r) = Some (w, r)"
  by (simp add: get_word_def put_word_def)

lemma get_list_put:
  "(\<And>x r. g (f x @ r) = Some (x, r)) \<Longrightarrow> length xs < k \<Longrightarrow>
   get_list k g (put_list f xs @ r) = Some (xs, r)"
  by (induction xs arbitrary: k) (auto simp: less_Suc_eq_0_disj gr0_conv_Suc Suc_less_eq2)

lemma length_put_list: "length xs < length (put_list f xs)"
  by (induction xs) auto

lemma get_list_put_rest [simp]:
  "(\<And>x r. g (f x @ r) = Some (x, r)) \<Longrightarrow>
   get_list (length (put_list f xs @ r)) g (put_list f xs @ r) = Some (xs, r)"
  using length_put_list[of xs f] by (intro get_list_put) (auto intro: trans_less_add1)

text \<open>The fields of a bundle after its kind, index, session and signature.\<close>

definition put_head :: "string \<Rightarrow> u32 \<Rightarrow> string \<Rightarrow> string \<Rightarrow> byte list" where
  "put_head kind i session sig = put_string kind @ put_word i @ put_string session @ put_string sig"

definition get_head :: "byte list \<Rightarrow> ((string \<times> u32 \<times> string \<times> string) \<times> byte list) option" where
  "get_head bs = (case get_string bs of None \<Rightarrow> None | Some (kind, r1) \<Rightarrow>
     (case get_word r1 of None \<Rightarrow> None | Some (i, r2) \<Rightarrow>
     (case get_string r2 of None \<Rightarrow> None | Some (session, r3) \<Rightarrow>
     (case get_string r3 of None \<Rightarrow> None | Some (sig, r4) \<Rightarrow> Some ((kind, i, session, sig), r4)))))"

lemma get_head_put [simp]:
  "get_head (put_head kind i session sig @ r) = Some ((kind, i, session, sig), r)"
  by (simp add: get_head_def put_head_def)

definition put_pair :: "u32 \<times> string \<Rightarrow> byte list" where
  "put_pair p = put_word (fst p) @ put_string (snd p)"
definition get_pair :: "byte list \<Rightarrow> ((u32 \<times> string) \<times> byte list) option" where
  "get_pair bs = (case get_word bs of None \<Rightarrow> None | Some (i, r) \<Rightarrow>
     map_option (\<lambda>(s, r1). ((i, s), r1)) (get_string r))"

lemma get_pair_put [simp]: "get_pair (put_pair p @ r) = Some (p, r)"
  by (simp add: get_pair_def put_pair_def)

definition tagged_json :: json_library where
  "tagged_json =
     \<lparr> print_deals = (\<lambda>w. Some (put_head (wdb_Kind w) (wdb_DealerIndex w) (wdb_SessionID w)
           (wdb_Signature w) @
         put_list put_pair (map (\<lambda>d. (wd_ShareIndex d, wd_EncryptedShare d)) (wdb_Deals w)) @
         put_list put_string (wdb_Public w))),
       parse_deals = (\<lambda>bs. case get_head bs of None \<Rightarrow> None | Some ((kind, i, session, sig), r) \<Rightarrow>
         (case get_list (length r) get_pair r of None \<Rightarrow> None | Some (ds, r1) \<Rightarrow>
         (case get_list (length r1) get_string r1 of None \<Rightarrow> None | Some (ps, r2) \<Rightarrow> Some
            \<lparr> wdb_Kind = kind, wdb_DealerIndex = i,
              wdb_Deals = map (\<lambda>(i, s). \<lparr>wd_ShareIndex = i, wd_EncryptedShare = s\<rparr>) ds,
              wdb_Public = ps, wdb_SessionID = session, wdb_Signature = sig \<rparr>))),
       print_responses = (\<lambda>w. Some (put_head (wrb_Kind w) (wrb_ShareIndex w) (wrb_SessionID w)
           (wrb_Signature w) @
         put_list put_pair (map (\<lambda>r. (wr_DealerIndex r, if wr_Status r then ''t'' else ''f''))
           (wrb_Responses w)))),
       parse_responses = (\<lambda>bs. case get_head bs of None \<Rightarrow> None | Some ((kind, i, session, sig), r) \<Rightarrow>
         (case get_list (length r) get_pair r of None \<Rightarrow> None | Some (rs, r1) \<Rightarrow> Some
            \<lparr> wrb_Kind = kind, wrb_ShareIndex = i,
              wrb_Responses = map (\<lambda>(i, s). \<lparr>wr_DealerIndex = i, wr_Status = (s = ''t'')\<rparr>) rs,
              wrb_SessionID = session, wrb_Signature = sig \<rparr>)),
       print_justifications = (\<lambda>w. Some (put_head (wjb_Kind w) (wjb_DealerIndex w) (wjb_SessionID w)
           (wjb_Signature w) @
         put_list put_pair (map (\<lambda>j. (wj_ShareIndex j, wj_Share j)) (wjb_Justifications w)))),
       parse_justifications = (\<lambda>bs. case get_head bs of None \<Rightarrow> None | Some ((kind, i, session, sig), r) \<Rightarrow>
         (case get_list (length r) get_pair r of None \<Rightarrow> None | Some (js, r1) \<Rightarrow> Some
            \<lparr> wjb_Kind = kind, wjb_DealerIndex = i,
              wjb_Justifications = map (\<lambda>(i, s). \<lparr>wj_ShareIndex = i, wj_Share = s\<rparr>) js,
              wjb_SessionID = session, wjb_Signature = sig \<rparr>)),
       probe_kind = (\<lambda>bs. map_option fst (get_string bs)) \<rparr>"

lemma get_string_put_head [simp]:
  "get_string (put_head kind i session sig @ r) = Some (kind, put_word i @ put_string session @ put_string sig @ r)"
  by (simp add: put_head_def)

lemma get_list_put_end [simp]:
  "(\<And>x r. g (f x @ r) = Some (x, r)) \<Longrightarrow>
   get_list (length (put_list f xs)) g (put_list f xs) = Some (xs, [])"
  using get_list_put_rest[of g f xs "[]"] by simp

lemma tagged_json_laws: "json_laws tagged_json"
  unfolding json_laws_def
proof (intro conjI allI impI)
  fix w :: wireDealBundle
  have "map (\<lambda>x. \<lparr>wd_ShareIndex = wd_ShareIndex x, wd_EncryptedShare = wd_EncryptedShare x\<rparr>)
      (wdb_Deals w) = wdb_Deals w" by (simp add: map_idI)
  then show "\<exists>raw. print_deals tagged_json w = Some raw \<and> parse_deals tagged_json raw = Some w \<and>
      probe_kind tagged_json raw = Some (wdb_Kind w)"
    by (simp add: tagged_json_def comp_def flip: length_append)
next
  fix w :: wireResponseBundle
  have "map (\<lambda>x. \<lparr>wr_DealerIndex = wr_DealerIndex x,
        wr_Status = ((if wr_Status x then ''t'' else ''f'') = ''t'')\<rparr>)
      (wrb_Responses w) = wrb_Responses w" by (simp add: map_idI)
  then show "\<exists>raw. print_responses tagged_json w = Some raw \<and> parse_responses tagged_json raw = Some w \<and>
      probe_kind tagged_json raw = Some (wrb_Kind w)"
    by (simp add: tagged_json_def comp_def)
next
  fix w :: wireJustificationBundle
  have "map (\<lambda>x. \<lparr>wj_ShareIndex = wj_ShareIndex x, wj_Share = wj_Share x\<rparr>)
      (wjb_Justifications w) = wjb_Justifications w" by (simp add: map_idI)
  then show "\<exists>raw. print_justifications tagged_json w = Some raw \<and>
      parse_justifications tagged_json raw = Some w \<and> probe_kind tagged_json raw = Some (wjb_Kind w)"
    by (simp add: tagged_json_def comp_def)
qed

lemma small_codecs: "g2_codec small_kyber" "scalar_codec small_kyber"
  by (simp_all add: g2_codec_def scalar_codec_def small_kyber_def)
     (simp add: encode64_def)

section \<open>Properties\<close>

text \<open>
  C25.  Nothing is lost on the wire.  Every bundle of the three kinds is encoded without error,
  decodes to exactly itself, dealer, shares, commitments, session and signature included, and is
  recognised as its own kind.
\<close>

theorem bundles_roundtrip:
  assumes "json_laws J" and "g2_codec K" and "scalar_codec K"
  shows "(\<exists>raw. EncodeDeals K J d = Inr raw \<and> DecodeDeals K J raw = Inr d \<and>
            KindOf J raw = Inr ''deals'') \<and>
         (\<exists>raw. EncodeResponses J r = Inr raw \<and> DecodeResponses J raw = Inr r \<and>
            KindOf J raw = Inr ''responses'') \<and>
         (\<exists>raw. EncodeJustifications K J j = Inr raw \<and> DecodeJustifications K J raw = Inr j \<and>
            KindOf J raw = Inr ''justifications'')"
  using deals_roundtrip[OF assms(1,2)] responses_roundtrip[OF assms(1)]
    justifications_roundtrip[OF assms(1,3)] by simp

theorem bundles_roundtrip_witness:
  "\<exists>raw. EncodeDeals small_kyber tagged_json
       \<lparr>db_DealerIndex = 3, db_Deals = [\<lparr>d_ShareIndex = 4, d_EncryptedShare = [0, 255]\<rparr>],
        db_Public = [2, 7], db_SessionID = [1, 2, 3], db_Signature = []\<rparr> = Inr raw \<and>
     DecodeDeals small_kyber tagged_json raw = Inr
       \<lparr>db_DealerIndex = 3, db_Deals = [\<lparr>d_ShareIndex = 4, d_EncryptedShare = [0, 255]\<rparr>],
        db_Public = [2, 7], db_SessionID = [1, 2, 3], db_Signature = []\<rparr>"
  using bundles_roundtrip[OF tagged_json_laws small_codecs] by meson

end
