(* ===== verification/Dkg_Run.thy ===== *)
theory Dkg_Run
  imports Dkg_Wire "HOL-Library.List_Lexorder" "HOL-Library.Multiset"
begin

text \<open>
  Running a ceremony: the session nonce (\<open>node/internal/dkg/nonce.go\<close>), the ceremonies of one
  process (\<open>RunLocal\<close>, \<open>ResharLocal\<close>, \<open>collect\<close> of \<open>dkg/dkg.go\<close>) and the networked one (\<open>Run\<close> of
  \<open>dkgnet/run.go\<close>).  The protocol itself is kyber's \<open>share/dkg\<close>: a record of the operations of one
  participant's handler, each with the handler's state before and after.
\<close>

section \<open>Session nonce\<close>

datatype ceremony_error =
    BadThreshold int nat
  | NothingToReshare
  | NilPublic
  | PointMarshal
  | HandlerFailed nat string
  | DealsFailed nat string
  | ProcessingDeals nat string
  | ProcessingResponses nat string
  | UnresolvedComplaints nat bool
  | ProtocolSetup string
  | ContextDone string
  | CeremonyFailed string

definition be4 :: "u32 \<Rightarrow> byte list" where
  "be4 w = left_pad (be_bytes (unat w)) 4"

definition be8 :: "u64 \<Rightarrow> byte list" where
  "be8 w = left_pad (be_bytes (unat w)) 8"

text \<open>A member without a public key is a nil interface; calling it panics, here \<open>NilPublic\<close>.\<close>

definition member_encoding ::
  "('s, 'g1, 'g2, 'gt) kyber \<Rightarrow> ('s, 'g2) member \<Rightarrow> ceremony_error + byte list" where
  "member_encoding K m =
     (case Public m of
        None \<Rightarrow> Inl NilPublic
      | Some p \<Rightarrow> (case marshal_g2 K p of
          None \<Rightarrow> Inl PointMarshal
        | Some raw \<Rightarrow> Inr (be4 (member_Index m) @ raw)))"

definition nonce_tag :: "byte list" where
  "nonce_tag = map of_char ''RH-VRF-DKG-V1''"

definition session_preimage ::
  "('s, 'g1, 'g2, 'gt) kyber \<Rightarrow> u64 \<Rightarrow> ('s, 'g2) member list \<Rightarrow> ceremony_error + byte list" where
  "session_preimage K epoch members =
     (case collect_all (member_encoding K) members of
        Inl e \<Rightarrow> Inl e
      | Inr encoded \<Rightarrow> Inr (nonce_tag @ be8 epoch @ concat (sort encoded)))"

definition SessionNonce ::
  "('s, 'g1, 'g2, 'gt) kyber \<Rightarrow> (byte list \<Rightarrow> byte list) \<Rightarrow> u64 \<Rightarrow> ('s, 'g2) member list \<Rightarrow>
    ceremony_error + byte list" where
  "SessionNonce K keccak epoch members =
     (case session_preimage K epoch members of Inl e \<Rightarrow> Inl e | Inr b \<Rightarrow> Inr (keccak b))"

section \<open>The ceremony library\<close>

record 'g2 dkg_node =
  n_Index :: u32
  n_Public :: "'g2 option"

text \<open>\<open>kdkg.Config\<close> without the suite and the signature scheme, which are constants.\<close>

record ('s, 'g2) dkg_config =
  cfg_Longterm :: "'s option"
  cfg_OldNodes :: "'g2 dkg_node list"
  cfg_NewNodes :: "'g2 dkg_node list"
  cfg_Threshold :: int
  cfg_OldThreshold :: int
  cfg_Nonce :: "byte list"
  cfg_PublicCoeffs :: "'g2 list option"
  cfg_Share :: "('g2 list option \<times> int \<times> 's) option"

record ('s, 'g2) dkg_key =
  key_V :: 's
  key_Public :: 'g2
  key_Commits :: "'g2 list"

text \<open>
  A handler's operations.  \<open>ProcessDeals\<close> may return no bundle, \<open>ProcessResponses\<close> a result, or
  none and whether justifications are pending.
\<close>

record ('h, 's, 'g2) dkg_library =
  NewDistKeyHandler :: "('s, 'g2) dkg_config \<Rightarrow> string + 'h"
  Deals :: "'h \<Rightarrow> (string + 'g2 deal_bundle) \<times> 'h"
  ProcessDeals :: "'g2 deal_bundle list \<Rightarrow> 'h \<Rightarrow> (string + response_bundle option) \<times> 'h"
  ProcessResponses ::
    "response_bundle list \<Rightarrow> 'h \<Rightarrow> (string + (('s, 'g2) dkg_key option \<times> bool)) \<times> 'h"

section \<open>Ceremonies in one process\<close>

definition toNodes :: "('s, 'g2) member list \<Rightarrow> 'g2 dkg_node list" where
  "toNodes members = map (\<lambda>m. \<lparr>n_Index = member_Index m, n_Public = Public m\<rparr>) members"

definition thresholdOf :: "('s, 'g2) share list \<Rightarrow> int" where
  "thresholdOf shares = int (length (Commits (hd shares)))"

definition alwaysTrue :: "nat \<Rightarrow> bool list" where
  "alwaysTrue n = replicate n True"

definition priShare :: "('s, 'g2) share \<Rightarrow> int \<times> 's" where
  "priShare sh = (uint (share_Index sh), Secret sh)"

text \<open>A fresh identity around a scalar drawn from the system's randomness.\<close>

definition NewMember :: "('s, 'g1, 'g2, 'gt) kyber \<Rightarrow> 's \<Rightarrow> u32 \<Rightarrow> ('s, 'g2) member" where
  "NewMember K longterm index =
     \<lparr>member_Index = index, Longterm = Some longterm, Public = Some (mul_g2 K longterm (base_g2 K))\<rparr>"

text \<open>The four loops of \<open>collect\<close>; \<open>i\<close> is the position the loop is at.\<close>

fun make_handlers ::
  "('h, 's, 'g2) dkg_library \<Rightarrow> nat \<Rightarrow> ('s, 'g2) dkg_config list \<Rightarrow> ceremony_error + 'h list" where
  "make_handlers D i [] = Inr []"
| "make_handlers D i (c # cs) =
     (case NewDistKeyHandler D c of
        Inl e \<Rightarrow> Inl (HandlerFailed i e)
      | Inr h \<Rightarrow> (case make_handlers D (i + 1) cs of Inl e \<Rightarrow> Inl e | Inr hs \<Rightarrow> Inr (h # hs)))"

fun gather_deals ::
  "('h, 's, 'g2) dkg_library \<Rightarrow> nat \<Rightarrow> (bool \<times> 'h) list \<Rightarrow> ceremony_error + ('g2 deal_bundle list \<times> 'h list)" where
  "gather_deals D i [] = Inr ([], [])"
| "gather_deals D i ((issues, h) # hs) =
     (if \<not> issues
      then (case gather_deals D (i + 1) hs of Inl e \<Rightarrow> Inl e | Inr (ds, hs1) \<Rightarrow> Inr (ds, h # hs1))
      else case Deals D h of
        (Inl e, h1) \<Rightarrow> Inl (DealsFailed i e)
      | (Inr d, h1) \<Rightarrow> (case gather_deals D (i + 1) hs of
            Inl e \<Rightarrow> Inl e | Inr (ds, hs1) \<Rightarrow> Inr (d # ds, h1 # hs1)))"

fun gather_responses ::
  "('h, 's, 'g2) dkg_library \<Rightarrow> 'g2 deal_bundle list \<Rightarrow> nat \<Rightarrow> (bool \<times> 'h) list \<Rightarrow>
    ceremony_error + (response_bundle list \<times> 'h list)" where
  "gather_responses D deals i [] = Inr ([], [])"
| "gather_responses D deals i ((receives, h) # hs) =
     (if \<not> receives
      then (case gather_responses D deals (i + 1) hs of
              Inl e \<Rightarrow> Inl e | Inr (rs, hs1) \<Rightarrow> Inr (rs, h # hs1))
      else case ProcessDeals D deals h of
        (Inl e, h1) \<Rightarrow> Inl (ProcessingDeals i e)
      | (Inr r, h1) \<Rightarrow> (case gather_responses D deals (i + 1) hs of
            Inl e \<Rightarrow> Inl e
          | Inr (rs, hs1) \<Rightarrow> Inr ((case r of None \<Rightarrow> rs | Some b \<Rightarrow> b # rs), h1 # hs1)))"

fun gather_shares ::
  "('h, 's, 'g2) dkg_library \<Rightarrow> response_bundle list \<Rightarrow> nat \<Rightarrow> (bool \<times> 'h \<times> ('s, 'g2) member) list \<Rightarrow>
    ceremony_error + ('s, 'g2) share list" where
  "gather_shares D responses i [] = Inr []"
| "gather_shares D responses i ((receives, h, m) # hs) =
     (if \<not> receives then gather_shares D responses (i + 1) hs
      else case fst (ProcessResponses D responses h) of
        Inl e \<Rightarrow> Inl (ProcessingResponses i e)
      | Inr (None, pending) \<Rightarrow> Inl (UnresolvedComplaints i pending)
      | Inr (Some key, _) \<Rightarrow> (case gather_shares D responses (i + 1) hs of
            Inl e \<Rightarrow> Inl e
          | Inr shares \<Rightarrow> Inr (\<lparr>Member = m, Secret = key_V key, GroupPublic = key_Public key,
                               Commits = key_Commits key\<rparr> # shares)))"

definition collect ::
  "('h, 's, 'g2) dkg_library \<Rightarrow> ('s, 'g2) dkg_config list \<Rightarrow> ('s, 'g2) member list \<Rightarrow> bool list \<Rightarrow>
    bool list \<Rightarrow> ceremony_error + ('s, 'g2) share list" where
  "collect D configs members issues receives =
     (case make_handlers D 0 configs of
        Inl e \<Rightarrow> Inl e
      | Inr handlers \<Rightarrow> (case gather_deals D 0 (zip issues handlers) of
          Inl e \<Rightarrow> Inl e
        | Inr (deals, handlers1) \<Rightarrow>
            (case gather_responses D deals 0 (zip receives handlers1) of
               Inl e \<Rightarrow> Inl e
             | Inr (responses, handlers2) \<Rightarrow>
                 gather_shares D responses 0 (zip receives (zip handlers2 members)))))"

definition RunLocal ::
  "('s, 'g1, 'g2, 'gt) kyber \<Rightarrow> (byte list \<Rightarrow> byte list) \<Rightarrow> ('h, 's, 'g2) dkg_library \<Rightarrow>
    (nat \<Rightarrow> 's) \<Rightarrow> nat \<Rightarrow> int \<Rightarrow> u64 \<Rightarrow> ceremony_error + ('s, 'g2) share list" where
  "RunLocal K keccak D random n t epoch =
     (if t < 1 \<or> int n < t then Inl (BadThreshold t n)
      else let members = map (\<lambda>i. NewMember K (random i) (word_of_nat i)) [0..<n] in
        (case SessionNonce K keccak epoch members of
           Inl e \<Rightarrow> Inl e
         | Inr nonce \<Rightarrow> collect D
             (map (\<lambda>m. \<lparr>cfg_Longterm = Longterm m, cfg_OldNodes = [], cfg_NewNodes = toNodes members,
                cfg_Threshold = t, cfg_OldThreshold = 0, cfg_Nonce = nonce, cfg_PublicCoeffs = None,
                cfg_Share = None\<rparr>) members)
             members (alwaysTrue n) (alwaysTrue n)))"

definition reshare_config ::
  "('s, 'g2) share list \<Rightarrow> ('s, 'g2) member list \<Rightarrow> int \<Rightarrow> byte list \<Rightarrow> ('s, 'g2) member \<Rightarrow>
    ('s, 'g2) dkg_config" where
  "reshare_config old members t nonce p =
     \<lparr> cfg_Longterm = Longterm p, cfg_OldNodes = toNodes (Members old), cfg_NewNodes = toNodes members,
       cfg_Threshold = t, cfg_OldThreshold = thresholdOf old, cfg_Nonce = nonce,
       cfg_PublicCoeffs = Some (Commits (hd old)),
       cfg_Share = (case findShare old (member_Index p) of
          None \<Rightarrow> None | Some sh \<Rightarrow> Some (Some (Commits sh), priShare sh)) \<rparr>"

definition ResharLocal ::
  "('s, 'g1, 'g2, 'gt) kyber \<Rightarrow> (byte list \<Rightarrow> byte list) \<Rightarrow> ('h, 's, 'g2) dkg_library \<Rightarrow>
    ('s, 'g2) share list \<Rightarrow> ('s, 'g2) member list \<Rightarrow> int \<Rightarrow> u64 \<Rightarrow>
    ceremony_error + ('s, 'g2) share list" where
  "ResharLocal K keccak D old members t epoch =
     (if length old = 0 then Inl NothingToReshare
      else if t < 1 \<or> int (length members) < t then Inl (BadThreshold t (length members))
      else let participants = union_members old members in
        (case SessionNonce K keccak epoch participants of
           Inl e \<Rightarrow> Inl e
         | Inr nonce \<Rightarrow> collect D (map (reshare_config old members t nonce) participants) participants
             (map (\<lambda>p. findShare old (member_Index p) \<noteq> None) participants)
             (map (\<lambda>p. containsMember members (member_Index p)) participants)))"

section \<open>The networked ceremony\<close>

text \<open>A nil slice of commitments is \<open>None\<close>, a nil share \<open>None\<close>; \<open>PhasePeriod\<close> is a duration.\<close>

record ('s, 'g2) params =
  Self :: "('s, 'g2) member"
  p_Members :: "('s, 'g2) member list"
  p_Threshold :: int
  Epoch :: u64
  PhasePeriod :: duration
  Old :: "('s, 'g2) share option"
  OldMembers :: "('s, 'g2) member list"
  OldThreshold :: int
  OldCommits :: "'g2 list option"

text \<open>How \<open>kdkg.NewProtocol\<close> and the wait for its end can come out.\<close>

datatype ('s, 'g2) protocol_outcome =
    SetupError string
  | Cancelled string
  | FailedWith string
  | Finished "('s, 'g2) dkg_key"

definition union_net :: "('s, 'g2) member list \<Rightarrow> ('s, 'g2) member list \<Rightarrow> ('s, 'g2) member list" where
  "union_net old next = union_loop old next"

definition nonce_members :: "('s, 'g2) params \<Rightarrow> ('s, 'g2) member list" where
  "nonce_members p = (if 0 < length (OldMembers p) then union_net (OldMembers p) (p_Members p) else p_Members p)"

definition old_commits :: "('s, 'g2) params \<Rightarrow> 'g2 list option" where
  "old_commits p = (case OldCommits p of
     Some cs \<Rightarrow> Some cs
   | None \<Rightarrow> (case Old p of None \<Rightarrow> None | Some sh \<Rightarrow> Some (Commits sh)))"

definition run_config :: "('s, 'g2) params \<Rightarrow> byte list \<Rightarrow> ('s, 'g2) dkg_config" where
  "run_config p nonce =
     (let first = \<lparr> cfg_Longterm = Longterm (Self p), cfg_OldNodes = [], cfg_NewNodes = toNodes (p_Members p),
            cfg_Threshold = p_Threshold p, cfg_OldThreshold = 0, cfg_Nonce = nonce,
            cfg_PublicCoeffs = None, cfg_Share = None \<rparr> in
      if 0 < length (OldMembers p)
      then first\<lparr> cfg_OldNodes := toNodes (OldMembers p), cfg_OldThreshold := OldThreshold p,
             cfg_PublicCoeffs := old_commits p,
             cfg_Share := (case Old p of None \<Rightarrow> None | Some sh \<Rightarrow> Some (old_commits p, priShare sh)) \<rparr>
      else first)"

definition phase_period :: "('s, 'g2) params \<Rightarrow> duration" where
  "phase_period p = (if PhasePeriod p \<le> 0 then seconds 10 else PhasePeriod p)"

definition Run ::
  "('s, 'g1, 'g2, 'gt) kyber \<Rightarrow> (byte list \<Rightarrow> byte list) \<Rightarrow>
    (('s, 'g2) dkg_config \<Rightarrow> duration \<Rightarrow> ('s, 'g2) protocol_outcome) \<Rightarrow> ('s, 'g2) params \<Rightarrow>
    ceremony_error + ('s, 'g2) share" where
  "Run K keccak protocol p =
     (if p_Threshold p < 1 \<or> int (length (p_Members p)) < p_Threshold p
      then Inl (BadThreshold (p_Threshold p) (length (p_Members p)))
      else case SessionNonce K keccak (Epoch p) (nonce_members p) of
        Inl e \<Rightarrow> Inl e
      | Inr nonce \<Rightarrow> (case protocol (run_config p nonce) (phase_period p) of
          SetupError e \<Rightarrow> Inl (ProtocolSetup e)
        | Cancelled e \<Rightarrow> Inl (ContextDone e)
        | FailedWith e \<Rightarrow> Inl (CeremonyFailed e)
        | Finished key \<Rightarrow> Inr \<lparr>Member = Self p, Secret = key_V key, GroupPublic = key_Public key,
                               Commits = key_Commits key\<rparr>))"

section \<open>Lemmas on the nonce\<close>

lemma length_be4 [simp]: "length (be4 w) = 4"
proof -
  have "unat w < 256 ^ 4" using unsigned_less[of w] by simp
  then show ?thesis unfolding be4_def by (rule length_left_pad_be_bytes)
qed

lemma length_be8 [simp]: "length (be8 w) = 8"
proof -
  have "unat w < 256 ^ 8" using unsigned_less[of w] by simp
  then show ?thesis unfolding be8_def by (rule length_left_pad_be_bytes)
qed

lemma be4_inject [simp]: "be4 v = be4 w \<longleftrightarrow> v = w"
  by (metis be4_def be_value_be_bytes be_value_left_pad unsigned_word_eqI)

lemma be8_inject [simp]: "be8 v = be8 w \<longleftrightarrow> v = w"
  by (metis be8_def be_value_be_bytes be_value_left_pad unsigned_word_eqI)

text \<open>Blocks of one positive length can be told apart after concatenation.\<close>

lemma concat_blocks_inject:
  "0 < k \<Longrightarrow> \<forall>x \<in> set xs. length x = k \<Longrightarrow> \<forall>y \<in> set ys. length y = k \<Longrightarrow>
   concat xs = concat ys \<longleftrightarrow> xs = ys"
proof (induction xs arbitrary: ys)
  case Nil
  then show ?case by (cases ys) auto
next
  case (Cons x xs)
  show ?case
  proof (cases ys)
    case Nil
    with Cons.prems show ?thesis by auto
  next
    case (Cons y ys')
    with Cons.prems Cons.IH[of ys'] show ?thesis by simp
  qed
qed

lemma sort_eq_iff_mset: "sort xs = sort ys \<longleftrightarrow> mset xs = mset (ys :: byte list list)"
  by (metis mset_sort properties_for_sort sorted_sort)

text \<open>The identity of a member that has a public key, and its encoding.\<close>

definition member_id :: "('s, 'g2) member \<Rightarrow> u32 \<times> 'g2" where
  "member_id m = (member_Index m, the (Public m))"

definition id_encoding :: "('s, 'g1, 'g2, 'gt) kyber \<Rightarrow> u32 \<times> 'g2 \<Rightarrow> byte list" where
  "id_encoding K = (\<lambda>(i, p). be4 i @ the (marshal_g2 K p))"

lemma id_encoding_inject:
  assumes "g2_codec K" shows "inj (id_encoding K)"
proof (rule injI)
  fix a b assume eq: "id_encoding K a = id_encoding K b"
  obtain ra where "marshal_g2 K (snd a) = Some ra" "unmarshal_g2 K ra = Some (snd a)"
    using assms unfolding g2_codec_def by blast
  moreover obtain rb where "marshal_g2 K (snd b) = Some rb" "unmarshal_g2 K rb = Some (snd b)"
    using assms unfolding g2_codec_def by blast
  ultimately show "a = b"
    using eq by (cases a; cases b) (auto simp: id_encoding_def)
qed

lemma length_id_encoding: "g2_codec K \<Longrightarrow> length (id_encoding K x) = 132"
  unfolding g2_codec_def id_encoding_def by (cases x) (auto, metis option.sel)

lemma member_encodings:
  assumes "g2_codec K" and "\<forall>m \<in> set ms. Public m \<noteq> None"
  shows "collect_all (member_encoding K) ms = Inr (map (\<lambda>m. id_encoding K (member_id m)) ms)"
proof (rule collect_all_id)
  fix m assume "m \<in> set ms"
  with assms(2) obtain p where p: "Public m = Some p" by auto
  obtain raw where "marshal_g2 K p = Some raw" using assms(1) unfolding g2_codec_def by blast
  with p show "member_encoding K m = Inr (id_encoding K (member_id m))"
    by (simp add: member_encoding_def id_encoding_def member_id_def)
qed

lemma session_preimage_eq:
  assumes "g2_codec K" and "\<forall>m \<in> set ms. Public m \<noteq> None"
  shows "session_preimage K epoch ms =
    Inr (nonce_tag @ be8 epoch @ concat (sort (map (\<lambda>m. id_encoding K (member_id m)) ms)))"
  by (simp add: session_preimage_def member_encodings[OF assms])

lemma encodings_eq_iff:
  fixes K :: "('s, 'g1, 'g2, 'gt) kyber" and ms ms' :: "('s, 'g2) member list"
  assumes "g2_codec K"
  shows "sort (map (\<lambda>m. id_encoding K (member_id m)) ms) =
      sort (map (\<lambda>m. id_encoding K (member_id m)) ms') \<longleftrightarrow>
    mset (map member_id ms) = mset (map member_id ms')"
proof -
  have "inv (id_encoding K) (id_encoding K x) = x" for x
    using id_encoding_inject[OF assms] by (rule inv_f_f)
  then have "image_mset (inv (id_encoding K)) (image_mset (id_encoding K) M) = M" for M
    by (simp add: multiset.map_comp comp_def)
  moreover have "mset (map (\<lambda>m. id_encoding K (member_id m)) ms) =
      image_mset (id_encoding K) (mset (map member_id ms))" for ms :: "('s, 'g2) member list"
    by (simp add: multiset.map_comp comp_def)
  ultimately show ?thesis unfolding sort_eq_iff_mset by metis
qed

lemma session_preimage_iff:
  fixes K :: "('s, 'g1, 'g2, 'gt) kyber" and ms ms' :: "('s, 'g2) member list"
  assumes "g2_codec K" and "\<forall>m \<in> set ms. Public m \<noteq> None" and "\<forall>m \<in> set ms'. Public m \<noteq> None"
  shows "session_preimage K e ms = session_preimage K e' ms' \<longleftrightarrow>
    e = e' \<and> mset (map member_id ms) = mset (map member_id ms')"
proof -
  let ?f = "\<lambda>ms. sort (map (\<lambda>m. id_encoding K (member_id m)) ms)"
  have "concat (?f ms) = concat (?f ms') \<longleftrightarrow> ?f ms = ?f ms'"
    by (rule concat_blocks_inject[of 132]) (simp_all add: length_id_encoding[OF assms(1)])
  then show ?thesis
    using encodings_eq_iff[OF assms(1), of ms ms'] by (simp add: session_preimage_eq assms)
qed

section \<open>Lemmas on the ceremonies\<close>

lemma make_handlers_length: "make_handlers D i cs = Inr hs \<Longrightarrow> length hs = length cs"
  by (induction cs arbitrary: i hs) (auto split: sum.splits)

lemma gather_deals_length: "gather_deals D i xs = Inr (ds, hs) \<Longrightarrow> length hs = length xs"
  by (induction D i xs arbitrary: ds hs rule: gather_deals.induct)
     (auto split: sum.splits if_splits prod.splits)

lemma gather_responses_length: "gather_responses D ds i xs = Inr (rs, hs) \<Longrightarrow> length hs = length xs"
  by (induction D ds i xs arbitrary: rs hs rule: gather_responses.induct)
     (auto split: sum.splits if_splits prod.splits)

lemma gather_shares_members:
  "gather_shares D rs i xs = Inr shares \<Longrightarrow>
   map Member shares = map (\<lambda>x. snd (snd x)) (filter fst xs)"
  by (induction D rs i xs arbitrary: shares rule: gather_shares.induct)
     (auto split: sum.splits if_splits prod.splits option.splits)

lemma filter_zip_receives:
  "length hs = length ps \<Longrightarrow>
   map (\<lambda>x. snd (snd x)) (filter fst (zip (map P ps) (zip hs ps))) = filter P ps"
  by (induction hs ps rule: list_induct2) auto

lemma collect_members:
  assumes "collect D configs ps issues receives = Inr shares" and "receives = map P ps"
    and "length configs = length ps" and "length issues = length ps"
  shows "map Member shares = filter P ps"
proof -
  obtain hs ds hs1 rs hs2 where "make_handlers D 0 configs = Inr hs"
    and "gather_deals D 0 (zip issues hs) = Inr (ds, hs1)"
    and "gather_responses D ds 0 (zip (map P ps) hs1) = Inr (rs, hs2)"
    and shares: "gather_shares D rs 0 (zip (map P ps) (zip hs2 ps)) = Inr shares"
    using assms(1,2) by (auto simp: collect_def split: sum.splits)
  then have "length hs2 = length ps"
    using assms(3,4) by (auto dest!: make_handlers_length gather_deals_length gather_responses_length)
  then show ?thesis
    using gather_shares_members[OF shares] filter_zip_receives by metis
qed

text \<open>A newcomer under an index that is already listed changes nothing.\<close>

lemma union_loop_skips:
  "(\<And>i. containsMember old i \<Longrightarrow> containsMember out i) \<Longrightarrow>
   union_loop out ms = union_loop out (filter (\<lambda>m. \<not> containsMember old (member_Index m)) ms)"
  by (induction ms arbitrary: out) (auto simp: containsMember_iff)

lemma image_restrict: "M \<subseteq> f ` U \<Longrightarrow> f ` {p \<in> U. f p \<in> M} = M"
  by blast

section \<open>A small ceremony\<close>

text \<open>
  For the witnesses: a handler is its configuration.  It deals nothing, answers nothing and
  ends with its own long-term scalar as its share of a group with the commitments \<open>cs\<close>.
\<close>

definition dealing_library :: "'g2 list \<Rightarrow> (('s, 'g2) dkg_config, 's, 'g2) dkg_library" where
  "dealing_library cs =
     \<lparr> NewDistKeyHandler = Inr,
       Deals = (\<lambda>h. (Inr \<lparr>db_DealerIndex = 0, db_Deals = [], db_Public = [], db_SessionID = cfg_Nonce h,
                          db_Signature = []\<rparr>, h)),
       ProcessDeals = (\<lambda>ds h. (Inr None, h)),
       ProcessResponses = (\<lambda>rs h. (Inr (Some
          \<lparr>key_V = the (cfg_Longterm h),
           key_Public = (case cs of [] \<Rightarrow> the (n_Public (hd (cfg_NewNodes h))) | c # _ \<Rightarrow> c),
           key_Commits = cs\<rparr>, False), h)) \<rparr>"

definition dealing_result :: "'g2 list \<Rightarrow> ('s, 'g2) dkg_config \<Rightarrow> ('s, 'g2) member \<Rightarrow> ('s, 'g2) share" where
  "dealing_result cs c m = \<lparr>Member = m, Secret = the (cfg_Longterm c),
     GroupPublic = (case cs of [] \<Rightarrow> the (n_Public (hd (cfg_NewNodes c))) | c # _ \<Rightarrow> c), Commits = cs\<rparr>"

definition demo_library :: "(('s, 'g2) dkg_config, 's, 'g2) dkg_library" where
  "demo_library = dealing_library []"

lemma dealing_collect_eq:
  fixes configs :: "('s, 'g2) dkg_config list" and ps :: "('s, 'g2) member list"
  assumes "length issues = length configs" and "length receives = length configs"
  shows "collect (dealing_library cs) configs ps issues receives =
    Inr (map (\<lambda>(_, c, m). dealing_result cs c m) (filter fst (zip receives (zip configs ps))))"
proof -
  let ?D = "dealing_library cs"
  have h: "make_handlers ?D i xs = Inr xs" for i and xs :: "('s, 'g2) dkg_config list"
    by (induction xs arbitrary: i) (simp_all add: dealing_library_def)
  have d: "\<exists>ds. gather_deals ?D i xs = Inr (ds, map snd xs)"
    for i and xs :: "(bool \<times> ('s, 'g2) dkg_config) list"
  proof (induction xs arbitrary: i)
    case (Cons x xs)
    from Cons[of "i + 1"] show ?case by (cases x) (auto simp: dealing_library_def)
  qed simp
  have r: "gather_responses ?D ds i xs = Inr ([], map snd xs)"
    for ds i and xs :: "(bool \<times> ('s, 'g2) dkg_config) list"
    by (induction xs arbitrary: i) (auto simp: dealing_library_def)
  have s: "gather_shares ?D rs i xs = Inr (map (\<lambda>(_, c, m). dealing_result cs c m) (filter fst xs))"
    for rs i and xs :: "(bool \<times> ('s, 'g2) dkg_config \<times> ('s, 'g2) member) list"
    by (induction xs arbitrary: i) (auto simp: dealing_library_def dealing_result_def)
  obtain ds where "gather_deals ?D 0 (zip issues configs) = Inr (ds, configs)"
    using d[of 0 "zip issues configs"] assms(1) by auto
  with h r s assms(2) show ?thesis by (simp add: collect_def)
qed

lemmas demo_collect_eq = dealing_collect_eq[of _ _ _ "[]", folded demo_library_def]

definition demo_members :: "nat list \<Rightarrow> (gf11, gf11) member list" where
  "demo_members is = map (\<lambda>i. NewMember small_kyber (of_nat i + 1) (word_of_nat i)) is"

definition demo_shares :: "(gf11, gf11) share list" where
  "demo_shares = map (\<lambda>m. \<lparr>Member = m, Secret = 1, GroupPublic = 1, Commits = [1, 1]\<rparr>)
     (demo_members [0, 1, 2])"

lemma demo_members_public: "\<forall>m \<in> set (demo_members is). Public m \<noteq> None"
  by (auto simp: demo_members_def NewMember_def)

section \<open>Properties\<close>

text \<open>
  C29.  The session nonce identifies the epoch and the group.  When Keccak does not collide on the two
  texts that are hashed, two participants compute the same nonce exactly when they name the same
  epoch and the same members, an index and a public key each, counted with repetition and
  in whatever order they list them.
\<close>

theorem session_nonce_identifies:
  assumes "g2_codec K" and "\<forall>m \<in> set ms. Public m \<noteq> None" and "\<forall>m \<in> set ms'. Public m \<noteq> None"
    and "\<forall>a b. session_preimage K e ms = Inr a \<longrightarrow> session_preimage K e' ms' = Inr b \<longrightarrow>
           keccak a = keccak b \<longrightarrow> a = b"
  shows "SessionNonce K keccak e ms = SessionNonce K keccak e' ms' \<longleftrightarrow>
    e = e' \<and> mset (map member_id ms) = mset (map member_id ms')"
proof -
  obtain a b where ab: "session_preimage K e ms = Inr a" "session_preimage K e' ms' = Inr b"
    using session_preimage_eq[OF assms(1,2)] session_preimage_eq[OF assms(1,3)] by blast
  then have "keccak a = keccak b \<longleftrightarrow> a = b" using assms(4) by auto
  with ab session_preimage_iff[OF assms(1-3), of e e'] show ?thesis
    by (auto simp: SessionNonce_def)
qed

theorem session_nonce_identifies_witness:
  "SessionNonce small_kyber id 7 (demo_members [0, 1, 2]) =
     SessionNonce small_kyber id 7 (demo_members [2, 0, 1]) \<and>
   SessionNonce small_kyber id 7 (demo_members [0, 1, 2]) \<noteq>
     SessionNonce small_kyber id 8 (demo_members [0, 1, 2])"
  using session_nonce_identifies[OF small_codecs(1) demo_members_public demo_members_public, of 7 "[0, 1, 2]" 7
      "[2, 0, 1]" id]
    session_nonce_identifies[OF small_codecs(1) demo_members_public demo_members_public, of 7 "[0, 1, 2]" 8
      "[0, 1, 2]" id]
  by (simp add: demo_members_def)

text \<open>
  What the nonce does not see.  In a rotation, two participants that disagree about the threshold,
  or about which of the old operators stay in the group, still compute the same nonce, although
  the parameters are meant to be identical for everyone: only the list of newcomers and
  the epoch enter it, beside the old group.
\<close>

theorem nonce_ignores_threshold_and_leavers:
  assumes "OldMembers p \<noteq> []"
    and "filter (\<lambda>m. \<not> containsMember (OldMembers p) (member_Index m)) members' =
         filter (\<lambda>m. \<not> containsMember (OldMembers p) (member_Index m)) (p_Members p)"
  shows "SessionNonce K keccak (Epoch p) (nonce_members (p\<lparr>p_Members := members', p_Threshold := t\<rparr>)) =
         SessionNonce K keccak (Epoch p) (nonce_members p)"
proof -
  have "union_loop (OldMembers p) members' = union_loop (OldMembers p) (p_Members p)"
    using union_loop_skips[of "OldMembers p" "OldMembers p"] assms(2) by metis
  with assms(1) show ?thesis by (simp add: nonce_members_def union_net_def)
qed

definition demo_params :: "(gf11, gf11) params" where
  "demo_params = \<lparr>Self = hd (demo_members [0]), p_Members = demo_members [0, 1, 3], p_Threshold = 2, Epoch = 2,
     PhasePeriod = 0, Old = Some (hd demo_shares), OldMembers = demo_members [0, 1, 2], OldThreshold = 2,
     OldCommits = None\<rparr>"

theorem nonce_ignores_threshold_and_leavers_witness:
  "SessionNonce small_kyber keccak 2 (nonce_members (demo_params\<lparr>p_Members := demo_members [2, 3],
       p_Threshold := 1\<rparr>)) =
   SessionNonce small_kyber keccak 2 (nonce_members demo_params)"
  using nonce_ignores_threshold_and_leavers[of demo_params "demo_members [2, 3]" small_kyber keccak 1]
  by (simp add: demo_params_def demo_members_def NewMember_def)

text \<open>
  C30.  Who receives a share in a rotation.  When the rotation succeeds, its shares belong to exactly the
  participants that are in the new group, in the order of participants and under the identity
  each takes part with: an operator that leaves deals but ends without a share, every member of
  the new group has one, and none has two.
\<close>

theorem reshare_recipients:
  assumes "ResharLocal K keccak D old members t epoch = Inr shares" and "distinct (map share_Index old)"
  shows "map Member shares = filter (\<lambda>p. containsMember members (member_Index p)) (union_members old members) \<and>
         share_Index ` set shares = member_Index ` set members \<and> distinct (map share_Index shares)"
proof -
  have m: "map Member shares = filter (\<lambda>p. containsMember members (member_Index p)) (union_members old members)"
    using assms(1) collect_members[OF _ refl] unfolding ResharLocal_def Let_def
    by (fastforce split: if_splits sum.splits)
  have d: "distinct (map member_Index (union_members old members))"
    and i: "member_Index ` set (union_members old members) = share_Index ` set old \<union> member_Index ` set members"
    using union_members_participants[OF assms(2), of members] by auto
  have ids: "map share_Index shares = map member_Index (map Member shares)"
    by (simp add: share_Index_def comp_def)
  have "member_Index ` {p \<in> set (union_members old members). member_Index p \<in> member_Index ` set members} =
      member_Index ` set members"
    by (rule image_restrict) (simp add: i)
  then have "share_Index ` set shares = member_Index ` set members"
    unfolding set_map[symmetric] ids m by (simp add: containsMember_iff)
  moreover have "distinct (map share_Index shares)"
    unfolding ids m using d by (metis distinct_map_filter)
  ultimately show ?thesis using m by blast
qed

theorem reshare_recipients_witness:
  "\<exists>shares. ResharLocal small_kyber id demo_library demo_shares (demo_members [0, 2, 5]) 2 1 = Inr shares \<and>
     map Member shares = demo_members [0, 2, 5]"
proof -
  let ?ms = "demo_members [0, 2, 5]"
  have u: "union_members demo_shares ?ms = demo_members [0, 1, 2, 5]"
    by (simp add: union_members_def Members_def demo_shares_def demo_members_def NewMember_def)
  obtain nonce where n: "SessionNonce small_kyber id 1 (demo_members [0, 1, 2, 5]) = Inr nonce"
    using session_preimage_eq[OF small_codecs(1) demo_members_public, of 1 "[0, 1, 2, 5]"]
    by (simp add: SessionNonce_def)
  have "\<exists>shares. ResharLocal small_kyber id demo_library demo_shares ?ms 2 1 = Inr shares"
    unfolding ResharLocal_def u Let_def n
    by (simp del: One_nat_def add: demo_collect_eq demo_shares_def[THEN arg_cong[where f = length], simplified]
        demo_members_def[THEN arg_cong[where f = length], simplified])
  then obtain shares where s: "ResharLocal small_kyber id demo_library demo_shares ?ms 2 1 = Inr shares" by blast
  moreover have "distinct (map share_Index demo_shares)"
    by (simp add: demo_shares_def demo_members_def share_Index_def NewMember_def)
  ultimately show ?thesis
    using reshare_recipients[OF s] unfolding u by (simp add: demo_members_def NewMember_def)
qed

text \<open>
  The ceremony of one process hands every operator exactly one share, in order of index and under
  a fresh identity of its own, and refuses thresholds outside \<open>1 \<dots> n\<close>.
\<close>

theorem run_local_hands_out:
  "(t < 1 \<or> int n < t \<longrightarrow> RunLocal K keccak D random n t epoch = Inl (BadThreshold t n)) \<and>
   (\<forall>shares. RunLocal K keccak D random n t epoch = Inr shares \<longrightarrow>
      map Member shares = map (\<lambda>i. NewMember K (random i) (word_of_nat i)) [0..<n])"
proof (intro conjI allI impI)
  fix shares
  assume s: "RunLocal K keccak D random n t epoch = Inr shares"
  define ms where "ms = map (\<lambda>i. NewMember K (random i) (word_of_nat i)) [0..<n]"
  obtain configs where c: "collect D configs ms (alwaysTrue n) (alwaysTrue n) = Inr shares"
    "length configs = length ms"
    using s unfolding RunLocal_def Let_def ms_def[symmetric] by (auto split: if_splits sum.splits)
  have "length ms = n" by (simp add: ms_def)
  then have "alwaysTrue n = map (\<lambda>_. True) ms" "length (alwaysTrue n) = length ms"
    by (simp_all add: alwaysTrue_def map_replicate_const)
  from collect_members[OF c(1) this(1) c(2) this(2)]
  show "map Member shares = map (\<lambda>i. NewMember K (random i) (word_of_nat i)) [0..<n]"
    by (simp add: ms_def)
qed (simp add: RunLocal_def)

theorem run_local_hands_out_witness:
  "RunLocal small_kyber id demo_library of_nat 2 3 1 = Inl (BadThreshold 3 2) \<and>
   (\<exists>shares. RunLocal small_kyber id demo_library of_nat 3 2 1 = Inr shares \<and>
      map share_Index shares = [0, 1, 2])"
proof -
  let ?ms = "map (\<lambda>i. NewMember small_kyber (of_nat i) (word_of_nat i)) [0..<3]"
  have "\<forall>m \<in> set ?ms. Public m \<noteq> None" by (auto simp: NewMember_def)
  then obtain nonce where n: "SessionNonce small_kyber id 1 ?ms = Inr nonce"
    using session_preimage_eq[OF small_codecs(1), of ?ms 1] by (simp add: SessionNonce_def)
  have "\<exists>shares. RunLocal small_kyber id demo_library of_nat 3 2 1 = Inr shares"
    unfolding RunLocal_def Let_def n by (simp add: demo_collect_eq alwaysTrue_def)
  then obtain shares where s: "RunLocal small_kyber id demo_library of_nat 3 2 1 = Inr shares" by blast
  then have "map Member shares = ?ms"
    using run_local_hands_out[of 2 3 small_kyber id demo_library of_nat 1] by blast
  then have "map member_Index (map Member shares) = map member_Index ?ms" by simp
  then have "map share_Index shares = [0, 1, 2]"
    by (simp add: share_Index_def[abs_def] comp_def NewMember_def upt_rec)
  with s run_local_hands_out[of 3 2 small_kyber id demo_library of_nat 1] show ?thesis by simp
qed

end
