(* ===== verification/Dkg_Dealing.thy ===== *)
theory Dkg_Dealing
  imports Dkg_Run Threshold
begin

text \<open>
  What the ceremonies of one process (\<open>RunLocal\<close>, \<open>ResharLocal\<close>, \<open>collect\<close> of \<open>node/internal/dkg/dkg.go\<close>)
  hand out.  The protocol is \<open>kyber/share/dkg\<close>, which is not part of the repository; \<open>dkg_laws\<close> states what
  its handlers are documented to achieve when everybody takes part and every message reaches everybody.
  The lemmas show that the code drives them so: the shares it assembles are those of one
  polynomial, and after a rotation the polynomial has the old constant term.
\<close>

section \<open>The shares of a group\<close>

text \<open>Each secret is the value of one polynomial at the abscissa of the operator's index.\<close>

definition dealt_by :: "('s::field) list \<Rightarrow> ('s, 'g2) share list \<Rightarrow> bool" where
  "dealt_by a shares \<longleftrightarrow> (\<forall>s \<in> set shares. Secret s = share_at a (uint (share_Index s)))"

text \<open>And every operator records the commitments to the polynomial and the public half of its constant term.\<close>

definition group_shares ::
  "('s::field, 'g1, 'g2, 'gt) kyber \<Rightarrow> 's list \<Rightarrow> ('s, 'g2) share list \<Rightarrow> bool" where
  "group_shares K a shares \<longleftrightarrow> dealt_by a shares \<and>
     (\<forall>s \<in> set shares. Commits s = commits_of K a \<and> GroupPublic s = PublicKey K (peval a 0))"

section \<open>What the handlers achieve\<close>

text \<open>The public key a handler goes by, and the index under which a list of nodes names a key.\<close>

definition own_public :: "('s, 'g1, 'g2, 'gt) kyber \<Rightarrow> ('s, 'g2) dkg_config \<Rightarrow> 'g2 option" where
  "own_public K c = map_option (\<lambda>x. mul_g2 K x (base_g2 K)) (cfg_Longterm c)"

definition seat :: "'g2 dkg_node list \<Rightarrow> 'g2 option \<Rightarrow> u32 option" where
  "seat nodes pub = map_option n_Index (List.find (\<lambda>nd. n_Public nd = pub) nodes)"

text \<open>
  The configurations of one ceremony: they agree on everything but the keys, the lists name nobody twice,
  and the participants are exactly the nodes on the lists.
\<close>

definition same_ceremony :: "('s, 'g1, 'g2, 'gt) kyber \<Rightarrow> ('s, 'g2) dkg_config list \<Rightarrow> bool" where
  "same_ceremony K cs \<longleftrightarrow> cs \<noteq> [] \<and>
     (\<forall>c \<in> set cs. cfg_Longterm c \<noteq> None \<and>
        cfg_OldNodes c = cfg_OldNodes (hd cs) \<and> cfg_NewNodes c = cfg_NewNodes (hd cs) \<and>
        cfg_Threshold c = cfg_Threshold (hd cs) \<and> cfg_OldThreshold c = cfg_OldThreshold (hd cs) \<and>
        cfg_Nonce c = cfg_Nonce (hd cs) \<and> cfg_PublicCoeffs c = cfg_PublicCoeffs (hd cs)) \<and>
     (\<forall>nodes \<in> {cfg_OldNodes (hd cs), cfg_NewNodes (hd cs)}.
        distinct (map n_Index nodes) \<and> distinct (map n_Public nodes)) \<and>
     distinct (map (own_public K) cs) \<and>
     own_public K ` set cs = n_Public ` set (cfg_OldNodes (hd cs) @ cfg_NewNodes (hd cs)) \<and>
     1 \<le> cfg_Threshold (hd cs) \<and> cfg_Threshold (hd cs) \<le> int (length (cfg_NewNodes (hd cs)))"

text \<open>Nobody holds a share yet; or the old nodes, enough of them, hold those of \<open>a\<close>.\<close>

definition founding :: "('s, 'g2) dkg_config \<Rightarrow> bool" where
  "founding c \<longleftrightarrow> cfg_OldNodes c = [] \<and> cfg_PublicCoeffs c = None \<and> cfg_Share c = None"

definition rotating ::
  "('s::field, 'g1, 'g2, 'gt) kyber \<Rightarrow> 's list \<Rightarrow> ('s, 'g2) dkg_config \<Rightarrow> bool" where
  "rotating K a c \<longleftrightarrow> a \<noteq> [] \<and> cfg_OldThreshold c = int (length a) \<and> length a \<le> length (cfg_OldNodes c) \<and>
     cfg_PublicCoeffs c = Some (commits_of K a) \<and>
     cfg_Share c = map_option (\<lambda>i. (Some (commits_of K a), uint i, share_at a (uint i)))
       (seat (cfg_OldNodes c) (own_public K c))"

text \<open>
  One participant: made from its configuration, it deals if it has something to deal, and
  answers all the deals if it is to receive.  In \<open>exchange\<close> everybody does.
\<close>

definition issues_deal :: "('s, 'g2) dkg_config \<Rightarrow> bool" where
  "issues_deal c \<longleftrightarrow> cfg_OldNodes c = [] \<or> cfg_Share c \<noteq> None"

definition receives_share :: "('s, 'g1, 'g2, 'gt) kyber \<Rightarrow> ('s, 'g2) dkg_config \<Rightarrow> bool" where
  "receives_share K c \<longleftrightarrow> seat (cfg_NewNodes c) (own_public K c) \<noteq> None"

definition dealt_step ::
  "('h, 's, 'g2) dkg_library \<Rightarrow> bool \<Rightarrow> 'h \<Rightarrow> 'g2 deal_bundle option \<Rightarrow> 'h \<Rightarrow> bool" where
  "dealt_step D issues h d h1 \<longleftrightarrow>
     (if issues then \<exists>b. d = Some b \<and> Deals D h = (Inr b, h1) else d = None \<and> h1 = h)"

definition answered_step ::
  "('h, 's, 'g2) dkg_library \<Rightarrow> 'g2 deal_bundle list \<Rightarrow> bool \<Rightarrow> 'h \<Rightarrow> response_bundle option \<Rightarrow> 'h \<Rightarrow> bool" where
  "answered_step D deals receives h r h1 \<longleftrightarrow>
     (if receives then ProcessDeals D deals h = (Inr r, h1) else r = None \<and> h1 = h)"

text \<open>The bundles that have been posted, in the order of the participants.\<close>

fun present :: "'b option list \<Rightarrow> 'b list" where
  "present [] = []"
| "present (None # os) = present os"
| "present (Some b # os) = b # present os"

definition exchange ::
  "('h, 's, 'g2) dkg_library \<Rightarrow> ('s, 'g1, 'g2, 'gt) kyber \<Rightarrow> ('s, 'g2) dkg_config list \<Rightarrow>
   'g2 deal_bundle option list \<Rightarrow> response_bundle option list \<Rightarrow> 'h list \<Rightarrow> bool" where
  "exchange D K cs ds rs hs \<longleftrightarrow> length ds = length cs \<and> length rs = length cs \<and> length hs = length cs \<and>
     (\<forall>p < length cs. \<exists>h0 h1. NewDistKeyHandler D (cs ! p) = Inr h0 \<and>
        dealt_step D (issues_deal (cs ! p)) h0 (ds ! p) h1 \<and>
        answered_step D (present ds) (receives_share K (cs ! p)) h1 (rs ! p) (hs ! p))"

text \<open>The key of every receiver, once it has seen all the answers, is its share of \<open>a\<close>.\<close>

definition ends_with ::
  "('h, 's::field, 'g2) dkg_library \<Rightarrow> ('s, 'g1, 'g2, 'gt) kyber \<Rightarrow> 's list \<Rightarrow> ('s, 'g2) dkg_config list \<Rightarrow>
   response_bundle option list \<Rightarrow> 'h list \<Rightarrow> bool" where
  "ends_with D K a cs rs hs \<longleftrightarrow> (\<forall>p < length cs. \<forall>i key pending.
     seat (cfg_NewNodes (cs ! p)) (own_public K (cs ! p)) = Some i \<longrightarrow>
     fst (ProcessResponses D (present rs) (hs ! p)) = Inr (Some key, pending) \<longrightarrow>
     key = \<lparr>key_V = share_at a (uint i), key_Public = PublicKey K (peval a 0), key_Commits = commits_of K a\<rparr>)"

text \<open>
  The documented behaviour of \<open>kyber/share/dkg\<close>: a ceremony from nothing deals a polynomial with as
  many coefficients as the threshold, a resharing deals another with the same constant term.
\<close>

definition dkg_laws :: "('h, 's::field, 'g2) dkg_library \<Rightarrow> ('s, 'g1, 'g2, 'gt) kyber \<Rightarrow> bool" where
  "dkg_laws D K \<longleftrightarrow> (\<forall>cs ds rs hs. same_ceremony K cs \<longrightarrow> exchange D K cs ds rs hs \<longrightarrow>
     ((\<forall>c \<in> set cs. founding c) \<longrightarrow>
        (\<exists>a. int (length a) = cfg_Threshold (hd cs) \<and> ends_with D K a cs rs hs)) \<and>
     (\<forall>a. (\<forall>c \<in> set cs. rotating K a c) \<longrightarrow>
        (\<exists>b. int (length b) = cfg_Threshold (hd cs) \<and> peval b 0 = peval a 0 \<and> ends_with D K b cs rs hs)))"

section \<open>The loops of collect are such an exchange\<close>

lemma made_handlers:
  "make_handlers D i cs = Inr hs \<Longrightarrow> list_all2 (\<lambda>c h. NewDistKeyHandler D c = Inr h) cs hs"
  by (induction cs arbitrary: i hs) (auto split: sum.splits)

lemma gathered_deals:
  "length bs = length hs \<Longrightarrow> gather_deals D i (zip bs hs) = Inr (ds, hs1) \<Longrightarrow>
   length hs1 = length hs \<and> (\<exists>os. length os = length hs \<and> ds = present os \<and>
     (\<forall>p < length hs. dealt_step D (bs ! p) (hs ! p) (os ! p) (hs1 ! p)))"
proof (induction bs hs arbitrary: i ds hs1 rule: list_induct2)
  case (Cons b bs h hs)
  obtain d h1 es hs2 where step: "dealt_step D b h d h1" "gather_deals D (i + 1) (zip bs hs) = Inr (es, hs2)"
    "ds = (case d of None \<Rightarrow> es | Some x \<Rightarrow> x # es)" "hs1 = h1 # hs2"
    using Cons.prems by (auto simp: dealt_step_def split: if_splits sum.splits prod.splits)
  obtain os where "length os = length hs" "es = present os"
    "\<forall>p < length hs. dealt_step D (bs ! p) (hs ! p) (os ! p) (hs2 ! p)" "length hs2 = length hs"
    using Cons.IH[OF step(2)] by blast
  with step(1,3,4) show ?case
    by (intro conjI exI[of _ "d # os"]) (auto simp: All_less_Suc2 split: option.splits)
qed simp

lemma gathered_responses:
  "length bs = length hs \<Longrightarrow> gather_responses D deals i (zip bs hs) = Inr (rs, hs1) \<Longrightarrow>
   length hs1 = length hs \<and> (\<exists>os. length os = length hs \<and> rs = present os \<and>
     (\<forall>p < length hs. answered_step D deals (bs ! p) (hs ! p) (os ! p) (hs1 ! p)))"
proof (induction bs hs arbitrary: i rs hs1 rule: list_induct2)
  case (Cons b bs h hs)
  obtain r h1 es hs2 where step: "answered_step D deals b h r h1"
    "gather_responses D deals (i + 1) (zip bs hs) = Inr (es, hs2)"
    "rs = (case r of None \<Rightarrow> es | Some x \<Rightarrow> x # es)" "hs1 = h1 # hs2"
    using Cons.prems by (auto simp: answered_step_def split: if_splits sum.splits prod.splits)
  obtain os where "length os = length hs" "es = present os"
    "\<forall>p < length hs. answered_step D deals (bs ! p) (hs ! p) (os ! p) (hs2 ! p)" "length hs2 = length hs"
    using Cons.IH[OF step(2)] by blast
  with step(1,3,4) show ?case
    by (intro conjI exI[of _ "r # os"]) (auto simp: All_less_Suc2 split: option.splits)
qed simp

definition share_of_key :: "('s, 'g2) member \<Rightarrow> ('s, 'g2) dkg_key \<Rightarrow> ('s, 'g2) share" where
  "share_of_key m key = \<lparr>Member = m, Secret = key_V key, GroupPublic = key_Public key, Commits = key_Commits key\<rparr>"

lemma gathered_shares:
  "length hs = length ps \<Longrightarrow> length bs = length ps \<Longrightarrow> gather_shares D rs i (zip bs (zip hs ps)) = Inr shares \<Longrightarrow>
   s \<in> set shares \<Longrightarrow> \<exists>p < length ps. \<exists>key pending. bs ! p \<and>
     fst (ProcessResponses D rs (hs ! p)) = Inr (Some key, pending) \<and> s = share_of_key (ps ! p) key"
proof (induction hs ps arbitrary: i bs shares rule: list_induct2)
  case (Cons h hs m ps)
  obtain b bs' where bs: "bs = b # bs'" using Cons.prems(1) by (cases bs) auto
  consider (here) key pending where "b" "fst (ProcessResponses D rs h) = Inr (Some key, pending)" "s = share_of_key m key"
    | (later) shares' where "gather_shares D rs (i + 1) (zip bs' (zip hs ps)) = Inr shares'" "s \<in> set shares'"
    using Cons.prems(2,3) unfolding bs
    by (auto simp: share_of_key_def split: if_splits sum.splits prod.splits option.splits)
  then show ?case
  proof cases
    case later
    then show ?thesis using Cons.IH[of bs'] Cons.prems(1) unfolding bs by fastforce
  qed (auto simp: bs intro!: exI[of _ 0])
qed simp

lemma collect_exchange:
  assumes "collect D cs ps issues receives = Inr shares" and "length ps = length cs"
    and "issues = map issues_deal cs" and "receives = map (receives_share K) cs"
  shows "\<exists>ds rs hs. exchange D K cs ds rs hs \<and> (\<forall>s \<in> set shares. \<exists>p < length cs. \<exists>key pending.
     receives_share K (cs ! p) \<and> fst (ProcessResponses D (present rs) (hs ! p)) = Inr (Some key, pending) \<and>
     s = share_of_key (ps ! p) key)"
proof -
  obtain h0 deals h1 responses hs where h0: "make_handlers D 0 cs = Inr h0"
    and h1: "gather_deals D 0 (zip issues h0) = Inr (deals, h1)"
    and hs: "gather_responses D deals 0 (zip receives h1) = Inr (responses, hs)"
    and out: "gather_shares D responses 0 (zip receives (zip hs ps)) = Inr shares"
    using assms(1) by (auto simp: collect_def split: sum.splits)
  have l0: "length h0 = length cs" using made_handlers[OF h0] by (simp add: list_all2_lengthD)
  have i: "length issues = length h0" using l0 assms(3) by simp
  obtain ds where ds: "length ds = length cs" "deals = present ds" "length h1 = length cs"
    "\<forall>p < length cs. dealt_step D (issues ! p) (h0 ! p) (ds ! p) (h1 ! p)"
    using gathered_deals[OF i h1] unfolding l0 by blast
  have r: "length receives = length h1" using ds(3) assms(4) by simp
  obtain rs where rs: "length rs = length cs" "responses = present rs" "length hs = length cs"
    "\<forall>p < length cs. answered_step D deals (receives ! p) (h1 ! p) (rs ! p) (hs ! p)"
    using gathered_responses[OF r hs] unfolding ds(3) by blast
  have "NewDistKeyHandler D (cs ! p) = Inr (h0 ! p)" if "p < length cs" for p
    using made_handlers[OF h0] that by (rule list_all2_nthD)
  with ds rs have "exchange D K cs ds rs hs" unfolding exchange_def assms(3,4) by auto
  moreover have "\<exists>p < length cs. \<exists>key pending. receives_share K (cs ! p) \<and>
      fst (ProcessResponses D (present rs) (hs ! p)) = Inr (Some key, pending) \<and>
      s = share_of_key (ps ! p) key" if "s \<in> set shares" for s
  proof -
    have "length hs = length ps" "length receives = length ps" using assms(2,4) rs(3) by simp_all
    from gathered_shares[OF this out that] show ?thesis using assms(2,4) rs(2) by auto
  qed
  ultimately show ?thesis by blast
qed

text \<open>So what the library promises of the keys holds of the shares.\<close>

lemma collect_group_shares:
  fixes K :: "('s::field, 'g1, 'g2, 'gt) kyber"
  assumes "\<forall>s \<in> set shares. \<exists>p < length cs. \<exists>key pending. receives_share K (cs ! p) \<and>
       fst (ProcessResponses D (present rs) (hs ! p)) = Inr (Some key, pending) \<and> s = share_of_key (ps ! p) key"
    and "ends_with D K a cs rs hs"
    and "\<And>p. p < length cs \<Longrightarrow> receives_share K (cs ! p) \<Longrightarrow>
      seat (cfg_NewNodes (cs ! p)) (own_public K (cs ! p)) = Some (member_Index (ps ! p))"
  shows "group_shares K a shares"
proof -
  have "Secret s = share_at a (uint (share_Index s)) \<and> Commits s = commits_of K a \<and>
      GroupPublic s = PublicKey K (peval a 0)" if s: "s \<in> set shares" for s
  proof -
    obtain p key pending where p: "p < length cs" "receives_share K (cs ! p)" "s = share_of_key (ps ! p) key"
      "fst (ProcessResponses D (present rs) (hs ! p)) = Inr (Some key, pending)"
      using assms(1) s by blast
    then have "key = \<lparr>key_V = share_at a (uint (member_Index (ps ! p))), key_Public = PublicKey K (peval a 0),
        key_Commits = commits_of K a\<rparr>"
      using assms(2) assms(3)[OF p(1,2)] unfolding ends_with_def by blast
    then show ?thesis by (simp add: p(3) share_of_key_def share_Index_def)
  qed
  then show ?thesis by (auto simp: group_shares_def dealt_by_def)
qed

section \<open>Identities\<close>

text \<open>Each participant has a key pair, and an index stands for one key.\<close>

definition has_keys :: "('s, 'g1, 'g2, 'gt) kyber \<Rightarrow> ('s, 'g2) member \<Rightarrow> bool" where
  "has_keys K m \<longleftrightarrow> (\<exists>x. Longterm m = Some x \<and> Public m = Some (mul_g2 K x (base_g2 K)))"

definition one_seat_each :: "('s, 'g2) member set \<Rightarrow> bool" where
  "one_seat_each M \<longleftrightarrow> (\<forall>p \<in> M. \<forall>q \<in> M. member_Index p = member_Index q \<longleftrightarrow> Public p = Public q)"

lemma one_seat_distinct:
  "one_seat_each M \<Longrightarrow> set ms \<subseteq> M \<Longrightarrow> distinct (map member_Index ms) \<Longrightarrow> distinct (map Public ms)"
  by (auto simp: one_seat_each_def distinct_map inj_on_def) blast

lemma seat_toNodes:
  assumes "one_seat_each M" and "set ms \<subseteq> M" and "p \<in> M"
  shows "seat (toNodes ms) (Public p) = (if containsMember ms (member_Index p) then Some (member_Index p) else None)"
  using assms(2)
proof (induction ms)
  case (Cons m ms)
  have "Public m = Public p \<longleftrightarrow> member_Index m = member_Index p"
    using assms(1,3) Cons.prems by (auto simp: one_seat_each_def)
  with Cons show ?case by (auto simp: seat_def toNodes_def)
qed (simp add: seat_def toNodes_def)

lemma toNodes_sel [simp]:
  "map n_Index (toNodes ms) = map member_Index ms" "map n_Public (toNodes ms) = map Public ms"
  "n_Public ` set (toNodes ms) = Public ` set ms" "length (toNodes ms) = length ms" "toNodes ms = [] \<longleftrightarrow> ms = []"
  by (auto simp: toNodes_def image_image)

section \<open>A founding ceremony\<close>

definition distinct_keys :: "('s, 'g1, 'g2, 'gt) kyber \<Rightarrow> (nat \<Rightarrow> 's) \<Rightarrow> nat \<Rightarrow> bool" where
  "distinct_keys K random n \<longleftrightarrow> inj_on (\<lambda>i. mul_g2 K (random i) (base_g2 K)) {..<n}"

lemma fresh_members:
  assumes "distinct_keys K random n" and "n \<le> 2 ^ 32"
    and "ms = map (\<lambda>i. NewMember K (random i) (word_of_nat i)) [0..<n]"
  shows "one_seat_each (set ms)" "distinct (map member_Index ms)"
proof -
  have i: "word_of_nat i = (word_of_nat j :: u32) \<longleftrightarrow> i = j" if "i < n" "j < n" for i j
    using that assms(2) by (simp add: word_unat_eq_iff unsigned_of_nat take_bit_nat_eq_self)
  have "mul_g2 K (random i) (base_g2 K) = mul_g2 K (random j) (base_g2 K) \<longleftrightarrow> i = j" if "i < n" "j < n" for i j
    using assms(1) that by (auto simp: distinct_keys_def inj_on_def)
  with i show "one_seat_each (set ms)" by (auto simp: assms(3) one_seat_each_def NewMember_def)
  show "distinct (map member_Index ms)"
    using i by (auto simp: assms(3) NewMember_def distinct_map inj_on_def)
qed

definition founding_config ::
  "('s, 'g2) member list \<Rightarrow> int \<Rightarrow> byte list \<Rightarrow> ('s, 'g2) member \<Rightarrow> ('s, 'g2) dkg_config" where
  "founding_config ms t nonce m = \<lparr>cfg_Longterm = Longterm m, cfg_OldNodes = [], cfg_NewNodes = toNodes ms,
     cfg_Threshold = t, cfg_OldThreshold = 0, cfg_Nonce = nonce, cfg_PublicCoeffs = None, cfg_Share = None\<rparr>"

lemma own_public_keys: "has_keys K m \<Longrightarrow> cfg_Longterm c = Longterm m \<Longrightarrow> own_public K c = Public m"
  by (auto simp: has_keys_def own_public_def)

lemma founding_same_ceremony:
  assumes "\<forall>m \<in> set ms. has_keys K m" and "one_seat_each (set ms)" and "distinct (map member_Index ms)"
    and "1 \<le> t" and "t \<le> int (length ms)"
  shows "same_ceremony K (map (founding_config ms t nonce) ms)"
proof -
  let ?cs = "map (founding_config ms t nonce) ms"
  have ne: "ms \<noteq> []" using assms(4,5) by auto
  then have h: "hd ?cs = founding_config ms t nonce (hd ms)" by (simp add: hd_map)
  have own: "map (own_public K) ?cs = map Public ms"
    using assms(1) by (auto intro!: own_public_keys simp: founding_config_def)
  then have img: "own_public K ` set ?cs = Public ` set ms" by (metis image_set)
  have "distinct (map Public ms)" using one_seat_distinct[OF assms(2) order_refl assms(3)] .
  moreover have "Longterm m \<noteq> None" if "m \<in> set ms" for m using assms(1) that by (auto simp: has_keys_def)
  ultimately show ?thesis
    using assms(3-5) ne unfolding same_ceremony_def own img h
    by (auto simp: founding_config_def)
qed

lemma RunLocal_group_shares:
  assumes "dkg_laws D K" and "distinct_keys K random n" and "n \<le> 2 ^ 32"
    and "RunLocal K keccak D random n t epoch = Inr shares"
  shows "\<exists>a. int (length a) = t \<and> group_shares K a shares"
proof -
  define ms where "ms = map (\<lambda>i. NewMember K (random i) (word_of_nat i)) [0..<n]"
  note fresh = fresh_members[OF assms(2,3) ms_def]
  have keys: "\<forall>m \<in> set ms. has_keys K m" by (auto simp: ms_def has_keys_def NewMember_def)
  have len: "length ms = n" by (simp add: ms_def)
  obtain nonce where t: "1 \<le> t" "t \<le> int n"
    and run: "collect D (map (founding_config ms t nonce) ms) ms (alwaysTrue n) (alwaysTrue n) = Inr shares"
    using assms(4) unfolding RunLocal_def Let_def ms_def[symmetric] founding_config_def[abs_def]
    by (auto split: if_splits sum.splits)
  let ?cs = "map (founding_config ms t nonce) ms"
  have seat: "seat (cfg_NewNodes (?cs ! p)) (own_public K (?cs ! p)) = Some (member_Index (ms ! p))" if "p < length ?cs" for p
  proof -
    have m: "ms ! p \<in> set ms" using that by simp
    then have "own_public K (?cs ! p) = Public (ms ! p)"
      using that keys by (intro own_public_keys) (auto simp: founding_config_def)
    then show ?thesis
      using that m seat_toNodes[OF fresh(1) order_refl m] by (simp add: founding_config_def containsMember_iff)
  qed
  have "issues_deal c" if "c \<in> set ?cs" for c using that by (auto simp: issues_deal_def founding_config_def)
  then have i: "alwaysTrue n = map issues_deal ?cs"
    by (intro nth_equalityI) (simp_all add: alwaysTrue_def len issues_deal_def founding_config_def)
  have r: "alwaysTrue n = map (receives_share K) ?cs"
    using seat by (intro nth_equalityI) (simp_all add: alwaysTrue_def len receives_share_def)
  obtain ds rs hs where ex: "exchange D K ?cs ds rs hs"
    and out: "\<forall>s \<in> set shares. \<exists>p < length ?cs. \<exists>key pending. receives_share K (?cs ! p) \<and>
      fst (ProcessResponses D (present rs) (hs ! p)) = Inr (Some key, pending) \<and> s = share_of_key (ms ! p) key"
    using collect_exchange[OF run _ i r] by auto
  have same: "same_ceremony K ?cs" using founding_same_ceremony[OF keys fresh t(1)] t(2) len by simp
  moreover have "\<forall>c \<in> set ?cs. founding c" by (auto simp: founding_def founding_config_def)
  moreover have "cfg_Threshold (hd ?cs) = t" using t len by (cases ms) (auto simp: founding_config_def)
  ultimately obtain a where a: "int (length a) = t" "ends_with D K a ?cs rs hs"
    using assms(1) ex unfolding dkg_laws_def by metis
  from collect_group_shares[OF out a(2) seat] a(1) show ?thesis by blast
qed

section \<open>A rotation\<close>

lemma group_shares_sel:
  "group_shares K a shares \<Longrightarrow> s \<in> set shares \<Longrightarrow>
   Commits s = commits_of K a \<and> Secret s = share_at a (uint (share_Index s)) \<and> GroupPublic s = PublicKey K (peval a 0)"
  by (simp add: group_shares_def dealt_by_def)

lemma findShare_contains: "findShare old i \<noteq> None \<longleftrightarrow> containsMember (Members old) i"
  by (auto simp: findShare_None containsMember_iff Members_def share_Index_def image_iff)

lemma rotating_reshare_config:
  fixes K :: "('s::field, 'g1, 'g2, 'gt) kyber"
  assumes "group_shares K a old" and "a \<noteq> []" and "length a \<le> length old" and "old \<noteq> []"
    and "seat (toNodes (Members old)) (own_public K (reshare_config old ms t nonce p)) =
      (if containsMember (Members old) (member_Index p) then Some (member_Index p) else None)"
  shows "rotating K a (reshare_config old ms t nonce p)"
proof -
  have hd: "Commits (hd old) = commits_of K a"
    using group_shares_sel[OF assms(1), of "hd old"] assms(4) by simp
  have "cfg_Share (reshare_config old ms t nonce p) =
      map_option (\<lambda>i. (Some (commits_of K a), uint i, share_at a (uint i)))
        (if containsMember (Members old) (member_Index p) then Some (member_Index p) else None)"
  proof (cases "findShare old (member_Index p)")
    case None
    then have "\<not> containsMember (Members old) (member_Index p)" using findShare_contains[of old "member_Index p"] by simp
    with None show ?thesis by (simp add: reshare_config_def)
  next
    case (Some s)
    then have "containsMember (Members old) (member_Index p)" using findShare_contains[of old "member_Index p"] by simp
    moreover have "s \<in> set old" "share_Index s = member_Index p" using findShare_Some[OF Some] by auto
    ultimately show ?thesis
      using group_shares_sel[OF assms(1)] by (simp add: reshare_config_def Some priShare_def)
  qed
  with assms hd show ?thesis
    by (simp add: rotating_def reshare_config_def thresholdOf_def commits_of_def Members_def)
qed

text \<open>The premises on who takes part: key pairs, one seat each, and no seat taken twice in a list.\<close>

definition rotation_members ::
  "('s, 'g1, 'g2, 'gt) kyber \<Rightarrow> ('s, 'g2) share list \<Rightarrow> ('s, 'g2) member list \<Rightarrow> bool" where
  "rotation_members K old members \<longleftrightarrow> (\<forall>m \<in> set (Members old @ members). has_keys K m) \<and>
     one_seat_each (set (Members old @ members)) \<and> distinct (map share_Index old) \<and> distinct (map member_Index members)"

lemma union_members_in:
  assumes "rotation_members K old members"
  shows "set (union_members old members) \<subseteq> set (Members old @ members)"
    "distinct (map member_Index (union_members old members))"
    "member_Index ` set (union_members old members) = member_Index ` set (Members old @ members)"
    "union_members old members = [] \<longleftrightarrow> old = [] \<and> members = []"
proof -
  have d: "distinct (map share_Index old)" using assms by (simp add: rotation_members_def)
  obtain new where new: "union_members old members = Members old @ new" "set new \<subseteq> set members"
    using union_members_participants[OF d] by blast
  then show "set (union_members old members) \<subseteq> set (Members old @ members)" by auto
  show "distinct (map member_Index (union_members old members))"
    using union_members_participants[OF d] by blast
  show i: "member_Index ` set (union_members old members) = member_Index ` set (Members old @ members)"
    by (auto simp: union_members_def union_loop_indices)
  then show "union_members old members = [] \<longleftrightarrow> old = [] \<and> members = []"
    by (metis Members_def append_is_Nil_conv image_is_empty map_is_Nil_conv set_empty)
qed

lemma reshare_own_public:
  "rotation_members K old members \<Longrightarrow> p \<in> set (Members old @ members) \<Longrightarrow>
   own_public K (reshare_config old ms t nonce p) = Public p"
  by (rule own_public_keys) (simp_all add: rotation_members_def reshare_config_def)

lemma reshare_seat:
  assumes "rotation_members K old members" and "p \<in> set (Members old @ members)" and "set ms \<subseteq> set (Members old @ members)"
  shows "seat (toNodes ms) (own_public K (reshare_config old members t nonce p)) =
     (if containsMember ms (member_Index p) then Some (member_Index p) else None)"
  unfolding reshare_own_public[OF assms(1,2)]
  using assms by (intro seat_toNodes[of "set (Members old @ members)"]) (simp_all add: rotation_members_def)

lemma reshare_same_ceremony:
  assumes "rotation_members K old members" and "1 \<le> t" and "t \<le> int (length members)"
  shows "same_ceremony K (map (reshare_config old members t nonce) (union_members old members))"
proof -
  let ?ps = "union_members old members" and ?all = "set (Members old @ members)"
  let ?cs = "map (reshare_config old members t nonce) ?ps"
  note ps = union_members_in[OF assms(1)]
  have one: "one_seat_each ?all" using assms(1) by (simp add: rotation_members_def)
  have ne: "?ps \<noteq> []" using assms(2,3) ps(4) by auto
  then have h: "hd ?cs = reshare_config old members t nonce (hd ?ps)" by (simp add: hd_map)
  have own: "map (own_public K) ?cs = map Public ?ps"
    using ps(1) reshare_own_public[OF assms(1)] by auto
  have "Public ` set ?ps = Public ` ?all"
  proof (intro equalityI subsetI)
    fix x assume "x \<in> Public ` ?all"
    then obtain q where q: "q \<in> ?all" "x = Public q" by blast
    then obtain p where p: "p \<in> set ?ps" "member_Index p = member_Index q" using ps(3) by (metis imageE imageI)
    then have "Public p = Public q" using one q(1) ps(1) unfolding one_seat_each_def by blast
    with p(1) q(2) show "x \<in> Public ` set ?ps" by (metis imageI)
  qed (use ps(1) in blast)
  then have img: "own_public K ` set ?cs = Public ` ?all" using own by (metis image_set)
  have d: "distinct (map member_Index (Members old))" "distinct (map member_Index members)"
    using assms(1) by (simp_all add: rotation_members_def Members_def share_Index_def[abs_def] comp_def)
  then have "distinct (map Public ?ps)" "distinct (map Public (Members old))" "distinct (map Public members)"
    using one_seat_distinct[OF one ps(1,2)] one_seat_distinct[OF one, of "Members old"] one_seat_distinct[OF one, of members]
    by simp_all
  moreover have "Longterm p \<noteq> None" if "p \<in> set ?ps" for p
    using assms(1) that ps(1) by (force simp: rotation_members_def has_keys_def)
  ultimately show ?thesis
    using assms(2,3) ne d unfolding same_ceremony_def own img h
    by (auto simp: reshare_config_def image_Un)
qed

lemma ResharLocal_group_shares:
  assumes "dkg_laws D K" and "rotation_members K old members" and "group_shares K a old" and "a \<noteq> []"
    and "length a \<le> length old" and "ResharLocal K keccak D old members t epoch = Inr new"
  shows "\<exists>b. int (length b) = t \<and> peval b 0 = peval a 0 \<and> group_shares K b new"
proof -
  let ?ps = "union_members old members" and ?all = "set (Members old @ members)"
  obtain nonce where old: "old \<noteq> []" and t: "1 \<le> t" "t \<le> int (length members)"
    and run: "collect D (map (reshare_config old members t nonce) ?ps) ?ps
      (map (\<lambda>p. findShare old (member_Index p) \<noteq> None) ?ps) (map (\<lambda>p. containsMember members (member_Index p)) ?ps) = Inr new"
    using assms(6) by (auto simp: ResharLocal_def Let_def split: if_splits sum.splits)
  let ?c = "reshare_config old members t nonce" and ?cs = "map (reshare_config old members t nonce) ?ps"
  note ps = union_members_in[OF assms(2)]
  have new: "seat (cfg_NewNodes (?c p)) (own_public K (?c p)) =
      (if containsMember members (member_Index p) then Some (member_Index p) else None)" if "p \<in> set ?ps" for p
    using reshare_seat[OF assms(2), of p members t nonce] that ps(1) by (simp add: reshare_config_def subset_iff)
  have "seat (toNodes (Members old)) (own_public K (?c p)) =
      (if containsMember (Members old) (member_Index p) then Some (member_Index p) else None)" if "p \<in> set ?ps" for p
    using reshare_seat[OF assms(2), of p "Members old" t nonce] that ps(1) by (simp add: subset_iff)
  then have rot: "\<forall>c \<in> set ?cs. rotating K a c"
    using rotating_reshare_config[OF assms(3,4,5) old] by simp
  have i: "map (\<lambda>p. findShare old (member_Index p) \<noteq> None) ?ps = map issues_deal ?cs"
    using old by (auto simp: issues_deal_def reshare_config_def Members_def split: option.splits)
  have r: "map (\<lambda>p. containsMember members (member_Index p)) ?ps = map (receives_share K) ?cs"
    using new by (auto simp: receives_share_def)
  obtain ds rs hs where ex: "exchange D K ?cs ds rs hs"
    and out: "\<forall>s \<in> set new. \<exists>p < length ?cs. \<exists>key pending. receives_share K (?cs ! p) \<and>
      fst (ProcessResponses D (present rs) (hs ! p)) = Inr (Some key, pending) \<and> s = share_of_key (?ps ! p) key"
    using collect_exchange[OF run _ i r] by auto
  have "?ps \<noteq> []" using ps(4) old by simp
  then have "cfg_Threshold (hd ?cs) = t" by (simp add: hd_map reshare_config_def)
  then obtain b where b: "int (length b) = t" "peval b 0 = peval a 0" "ends_with D K b ?cs rs hs"
    using assms(1) ex rot reshare_same_ceremony[OF assms(2) t] unfolding dkg_laws_def by metis
  have "seat (cfg_NewNodes (?cs ! p)) (own_public K (?cs ! p)) = Some (member_Index (?ps ! p))"
    if "p < length ?cs" "receives_share K (?cs ! p)" for p
    using that new[of "?ps ! p"] by (simp add: receives_share_def split: if_splits)
  from collect_group_shares[OF out b(3) this] b(1,2) show ?thesis by blast
qed

section \<open>A library that keeps the laws\<close>

text \<open>
  For the witnesses, over the small field, in which a public key is its own scalar: the polynomial of a ceremony is
  its constant term and ones.  The constant term is three at first, in a rotation it is read off the old commitments.
  Every participant has all it needs in its configuration.
\<close>

definition dealt_polynomial :: "(gf11, gf11) dkg_config \<Rightarrow> gf11 list" where
  "dealt_polynomial c = (case cfg_PublicCoeffs c of None \<Rightarrow> 3 | Some cs \<Rightarrow> hd cs) # replicate (nat (cfg_Threshold c) - 1) 1"

definition small_dealer :: "((gf11, gf11) dkg_config, gf11, gf11) dkg_library" where
  "small_dealer =
     \<lparr> NewDistKeyHandler = Inr,
       Deals = (\<lambda>h. (Inr \<lparr>db_DealerIndex = 0, db_Deals = [], db_Public = [], db_SessionID = cfg_Nonce h,
                          db_Signature = []\<rparr>, h)),
       ProcessDeals = (\<lambda>ds h. (Inr None, h)),
       ProcessResponses = (\<lambda>rs h. (case seat (cfg_NewNodes h) (own_public small_kyber h) of
          None \<Rightarrow> Inl ''not a receiver''
        | Some i \<Rightarrow> Inr (Some \<lparr>key_V = share_at (dealt_polynomial h) (uint i),
            key_Public = PublicKey small_kyber (peval (dealt_polynomial h) 0),
            key_Commits = commits_of small_kyber (dealt_polynomial h)\<rparr>, False), h)) \<rparr>"

lemma small_dealer_exchange:
  assumes "exchange small_dealer small_kyber cs ds rs hs" and "p < length cs"
  shows "hs ! p = cs ! p"
proof -
  obtain h0 h1 where "NewDistKeyHandler small_dealer (cs ! p) = Inr h0"
    "dealt_step small_dealer (issues_deal (cs ! p)) h0 (ds ! p) h1"
    "answered_step small_dealer (present ds) (receives_share small_kyber (cs ! p)) h1 (rs ! p) (hs ! p)"
    using assms unfolding exchange_def by blast
  then show ?thesis by (auto simp: small_dealer_def dealt_step_def answered_step_def split: if_splits)
qed

lemma small_dealer_ends:
  assumes "exchange small_dealer small_kyber cs ds rs hs" and "\<forall>c \<in> set cs. dealt_polynomial c = a"
  shows "ends_with small_dealer small_kyber a cs rs hs"
  unfolding ends_with_def
proof (intro allI impI)
  fix p i key pending
  assume "p < length cs" "seat (cfg_NewNodes (cs ! p)) (own_public small_kyber (cs ! p)) = Some i"
    and "fst (ProcessResponses small_dealer (present rs) (hs ! p)) = Inr (Some key, pending)"
  with small_dealer_exchange[OF assms(1)] assms(2)
  show "key = \<lparr>key_V = share_at a (uint i), key_Public = PublicKey small_kyber (peval a 0),
      key_Commits = commits_of small_kyber a\<rparr>"
    by (simp add: small_dealer_def)
qed

lemma small_dealer_laws: "dkg_laws small_dealer small_kyber"
  unfolding dkg_laws_def
proof (intro allI impI conjI)
  fix cs ds rs and hs :: "(gf11, gf11) dkg_config list"
  assume same: "same_ceremony small_kyber cs" and ex: "exchange small_dealer small_kyber cs ds rs hs"
  let ?a = "dealt_polynomial (hd cs)"
  have "cfg_PublicCoeffs c = cfg_PublicCoeffs (hd cs)" "cfg_Threshold c = cfg_Threshold (hd cs)" if "c \<in> set cs" for c
    using same that unfolding same_ceremony_def by blast+
  then have all: "\<forall>c \<in> set cs. dealt_polynomial c = ?a" unfolding dealt_polynomial_def by metis
  have "1 \<le> cfg_Threshold (hd cs)" using same unfolding same_ceremony_def by blast
  then have len: "int (length ?a) = cfg_Threshold (hd cs)" by (simp add: dealt_polynomial_def)
  show "\<exists>a. int (length a) = cfg_Threshold (hd cs) \<and> ends_with small_dealer small_kyber a cs rs hs"
    using len small_dealer_ends[OF ex all] by blast
  fix a assume "\<forall>c \<in> set cs. rotating small_kyber a c"
  moreover have "hd cs \<in> set cs" using same unfolding same_ceremony_def by (blast intro: hd_in_set)
  ultimately have "a \<noteq> []" "cfg_PublicCoeffs (hd cs) = Some (commits_of small_kyber a)"
    by (auto simp: rotating_def)
  then have "peval ?a 0 = peval a 0"
    by (cases a) (simp_all add: dealt_polynomial_def commits_of_def small_kyber_sel)
  then show "\<exists>b. int (length b) = cfg_Threshold (hd cs) \<and> peval b 0 = peval a 0 \<and>
      ends_with small_dealer small_kyber b cs rs hs"
    using len small_dealer_ends[OF ex all] by blast
qed

lemma small_distinct_keys: "n \<le> 11 \<Longrightarrow> distinct_keys small_kyber of_nat n"
proof -
  assume n: "n \<le> 11"
  have "i = j" if "i < n" "j < n" "of_nat i = (of_nat j :: gf11)" for i j
  proof -
    have "of_int (int i) = (of_int (int j) :: gf11)" using that(3) by simp
    then have "int i = int j" using gf_inj_on that(1,2) n by (elim inj_onD) auto
    then show ?thesis by simp
  qed
  then show ?thesis by (auto simp: distinct_keys_def small_kyber_sel inj_on_def)
qed

end
