(* ===== verification/Keystore.thy ===== *)
theory Keystore
  imports Dkg_Wire
begin

text \<open>
  The operator's share on disk: \<open>node/internal/keystore/keystore.go\<close>.  The file format with its
  encrypted half, loading with its checks in their order, and saving as a sequence of operations on
  the file system, each of which may fail.

  scrypt, AES-GCM and \<open>encoding/json\<close> are arguments.  A key that \<open>aeadFor\<close> has set up is the
  bytes scrypt returned.
\<close>

section \<open>Files and libraries\<close>

record keystore_file =
  f_Version :: int
  f_Index :: u32
  f_GroupPublic :: string
  f_Commits :: "string list"
  f_Salt :: string
  f_Nonce :: string
  f_Ciphertext :: string

record secrets =
  s_Share :: string
  s_Longterm :: string

record keystore_library =
  ks_scrypt :: "string \<Rightarrow> byte list \<Rightarrow> string + byte list"
  ks_seal :: "byte list \<Rightarrow> byte list \<Rightarrow> byte list \<Rightarrow> byte list"
  ks_open :: "byte list \<Rightarrow> byte list \<Rightarrow> byte list \<Rightarrow> byte list option"
  ks_print_file :: "keystore_file \<Rightarrow> byte list option"
  ks_parse_file :: "byte list \<Rightarrow> keystore_file option"
  ks_print_secrets :: "secrets \<Rightarrow> byte list option"
  ks_parse_secrets :: "byte list \<Rightarrow> secrets option"

datatype keystore_error =
    UnprotectedShare
  | KeystoreJson
  | UnsupportedVersion int
  | KeystoreHex hex_error
  | KeyDerivation string
  | BadKeyLength
  | NoncePanic
  | WrongPassphraseOrCorrupted
  | KeystoreMarshal
  | KeystoreUnmarshal
  | RandomnessFailed string
  | FileError string

text \<open>The nonce size of GCM; \<open>Open\<close> and \<open>Seal\<close> panic on a nonce of another length.\<close>

definition gcm_nonce_size :: nat where "gcm_nonce_size = 12"

definition keyLen :: nat where "keyLen = 32"

section \<open>Operations\<close>

text \<open>AES takes keys of 16, 24 and 32 bytes; scrypt is asked for \<open>keyLen\<close> of them.\<close>

definition aeadFor :: "keystore_library \<Rightarrow> string \<Rightarrow> byte list \<Rightarrow> keystore_error + byte list" where
  "aeadFor L passphrase salt =
     (case ks_scrypt L passphrase salt of
        Inl e \<Rightarrow> Inl (KeyDerivation e)
      | Inr key \<Rightarrow> if length key \<in> {16, 24, 32} then Inr key else Inl BadKeyLength)"

definition ks_hex :: "string \<Rightarrow> keystore_error + byte list" where
  "ks_hex s = (case hex_decode s of Inl e \<Rightarrow> Inl (KeystoreHex e) | Inr b \<Rightarrow> Inr b)"

definition marshalSecrets ::
  "('s, 'g1, 'g2, 'gt) kyber \<Rightarrow> keystore_library \<Rightarrow> ('s, 'g2) share \<Rightarrow> keystore_error + byte list" where
  "marshalSecrets K L sh =
     (case marshal_scalar K (Secret sh) of
        None \<Rightarrow> Inl KeystoreMarshal
      | Some s \<Rightarrow>
          (case (case Longterm (Member sh) of
                   None \<Rightarrow> Some ''''
                 | Some l \<Rightarrow> map_option hex_encode (marshal_scalar K l)) of
             None \<Rightarrow> Inl KeystoreMarshal
           | Some longterm \<Rightarrow>
               (case ks_print_secrets L \<lparr>s_Share = hex_encode s, s_Longterm = longterm\<rparr> of
                  None \<Rightarrow> Inl KeystoreJson | Some b \<Rightarrow> Inr b)))"

text \<open>
  \<open>unmarshalSecrets\<close> sets the secret, and the identity when there is one, of the share it is given;
  here it returns them.
\<close>

definition unmarshalSecrets ::
  "('s, 'g1, 'g2, 'gt) kyber \<Rightarrow> keystore_library \<Rightarrow> byte list \<Rightarrow>
    keystore_error + ('s \<times> ('s \<times> 'g2) option)" where
  "unmarshalSecrets K L plaintext =
     (case ks_parse_secrets L plaintext of
        None \<Rightarrow> Inl KeystoreJson
      | Some s \<Rightarrow> (case ks_hex (s_Share s) of
          Inl e \<Rightarrow> Inl e
        | Inr raw \<Rightarrow> (case unmarshal_scalar K raw of
            None \<Rightarrow> Inl KeystoreUnmarshal
          | Some secret \<Rightarrow>
              if s_Longterm s = '''' then Inr (secret, None)
              else (case ks_hex (s_Longterm s) of
                Inl e \<Rightarrow> Inl e
              | Inr raw \<Rightarrow> (case unmarshal_scalar K raw of
                  None \<Rightarrow> Inl KeystoreUnmarshal
                | Some l \<Rightarrow> Inr (secret, Some (l, mul_g2 K l (base_g2 K))))))))"

definition ks_point :: "('s, 'g1, 'g2, 'gt) kyber \<Rightarrow> string \<Rightarrow> keystore_error + 'g2" where
  "ks_point K s =
     (case ks_hex s of
        Inl e \<Rightarrow> Inl e
      | Inr raw \<Rightarrow> (case unmarshal_g2 K raw of None \<Rightarrow> Inl KeystoreUnmarshal | Some p \<Rightarrow> Inr p))"

text \<open>\<open>Load\<close> after the file has been read.\<close>

definition load_file ::
  "('s, 'g1, 'g2, 'gt) kyber \<Rightarrow> keystore_library \<Rightarrow> string \<Rightarrow> keystore_file \<Rightarrow>
    keystore_error + ('s, 'g2) share" where
  "load_file K L passphrase f =
     (if f_Version f \<noteq> 1 then Inl (UnsupportedVersion (f_Version f))
      else case ks_hex (f_Salt f) of Inl e \<Rightarrow> Inl e | Inr salt \<Rightarrow>
      (case ks_hex (f_Nonce f) of Inl e \<Rightarrow> Inl e | Inr nonce \<Rightarrow>
      (case ks_hex (f_Ciphertext f) of Inl e \<Rightarrow> Inl e | Inr ciphertext \<Rightarrow>
      (case aeadFor L passphrase salt of Inl e \<Rightarrow> Inl e | Inr key \<Rightarrow>
       if length nonce \<noteq> gcm_nonce_size then Inl NoncePanic
       else (case ks_open L key nonce ciphertext of None \<Rightarrow> Inl WrongPassphraseOrCorrupted | Some plaintext \<Rightarrow>
      (case unmarshalSecrets K L plaintext of Inl e \<Rightarrow> Inl e | Inr (secret, identity) \<Rightarrow>
      (case ks_point K (f_GroupPublic f) of Inl e \<Rightarrow> Inl e | Inr public \<Rightarrow>
      (case collect_all (ks_point K) (f_Commits f) of Inl e \<Rightarrow> Inl e | Inr commits \<Rightarrow>
         Inr \<lparr> Member = \<lparr>member_Index = f_Index f, Longterm = map_option fst identity,
                         Public = map_option snd identity\<rparr>,
               Secret = secret, GroupPublic = public, Commits = commits \<rparr>))))))))"

definition Load ::
  "('s, 'g1, 'g2, 'gt) kyber \<Rightarrow> keystore_library \<Rightarrow> (string \<Rightarrow> byte list option) \<Rightarrow> string \<Rightarrow> string \<Rightarrow>
    keystore_error + ('s, 'g2) share" where
  "Load K L disk path passphrase =
     (case disk path of
        None \<Rightarrow> Inl (FileError path)
      | Some raw \<Rightarrow> (case ks_parse_file L raw of
          None \<Rightarrow> Inl KeystoreJson
        | Some f \<Rightarrow> load_file K L passphrase f))"

text \<open>
  The text \<open>Save\<close> writes.  \<open>random\<close> gives the salt and the nonce: the first and the second read of
  the system's randomness, of the length asked for.
\<close>

definition save_body ::
  "('s, 'g1, 'g2, 'gt) kyber \<Rightarrow> keystore_library \<Rightarrow> (string + byte list) \<times> (string + byte list) \<Rightarrow>
    string \<Rightarrow> ('s, 'g2) share \<Rightarrow> keystore_error + byte list" where
  "save_body K L random passphrase sh =
     (if passphrase = '''' then Inl UnprotectedShare
      else case marshalSecrets K L sh of Inl e \<Rightarrow> Inl e | Inr plaintext \<Rightarrow>
      (case fst random of Inl e \<Rightarrow> Inl (RandomnessFailed e) | Inr salt \<Rightarrow>
      (case aeadFor L passphrase salt of Inl e \<Rightarrow> Inl e | Inr key \<Rightarrow>
      (case snd random of Inl e \<Rightarrow> Inl (RandomnessFailed e) | Inr nonce \<Rightarrow>
      (case marshal_g2 K (GroupPublic sh) of None \<Rightarrow> Inl KeystoreMarshal | Some public \<Rightarrow>
      (case collect_all (\<lambda>c. case marshal_g2 K c of None \<Rightarrow> Inl KeystoreMarshal
             | Some raw \<Rightarrow> Inr (hex_encode raw)) (Commits sh) of
         Inl e \<Rightarrow> Inl e
       | Inr commits \<Rightarrow>
         (case ks_print_file L
            \<lparr> f_Version = 1, f_Index = share_Index sh, f_GroupPublic = hex_encode public, f_Commits = commits,
              f_Salt = hex_encode salt, f_Nonce = hex_encode nonce,
              f_Ciphertext = hex_encode (ks_seal L key nonce plaintext) \<rparr> of
            None \<Rightarrow> Inl KeystoreJson
          | Some body \<Rightarrow> Inr (body @ [10]))))))))"

text \<open>
  The file system: contents by path, and operations that may fail.  A write that fails has written a
  prefix of its data (the file is created or truncated first); a failing rename or directory
  creation changes nothing.
\<close>

datatype fs_op = MakeParents string | WriteTo string "byte list" | MoveTo string string

datatype os_answer = Fine | Broken string nat

fun fs_apply :: "fs_op \<Rightarrow> os_answer \<Rightarrow> (string \<Rightarrow> byte list option) \<Rightarrow> (string \<Rightarrow> byte list option)" where
  "fs_apply (MakeParents p) _ disk = disk"
| "fs_apply (WriteTo p bs) Fine disk = disk(p \<mapsto> bs)"
| "fs_apply (WriteTo p bs) (Broken e n) disk = disk(p \<mapsto> take n bs)"
| "fs_apply (MoveTo p q) Fine disk = (disk(q := disk p))(p := None)"
| "fs_apply (MoveTo p q) (Broken e n) disk = disk"

text \<open>Running operations until one fails; a crash is a failure nobody sees.\<close>

fun fs_run :: "fs_op list \<Rightarrow> (nat \<Rightarrow> os_answer) \<Rightarrow> (string \<Rightarrow> byte list option) \<Rightarrow>
    keystore_error option \<times> (string \<Rightarrow> byte list option)" where
  "fs_run [] os disk = (None, disk)"
| "fs_run (op # ops) os disk =
     (case os 0 of
        Fine \<Rightarrow> fs_run ops (\<lambda>k. os (Suc k)) (fs_apply op Fine disk)
      | Broken e n \<Rightarrow> (Some (FileError e), fs_apply op (Broken e n) disk))"

definition save_ops :: "string \<Rightarrow> byte list \<Rightarrow> fs_op list" where
  "save_ops path body =
     [MakeParents path, WriteTo (path @ ''.tmp'') body, MoveTo (path @ ''.tmp'') path]"

definition Save ::
  "('s, 'g1, 'g2, 'gt) kyber \<Rightarrow> keystore_library \<Rightarrow> (string + byte list) \<times> (string + byte list) \<Rightarrow>
    (nat \<Rightarrow> os_answer) \<Rightarrow> string \<Rightarrow> string \<Rightarrow> ('s, 'g2) share \<Rightarrow> (string \<Rightarrow> byte list option) \<Rightarrow>
    keystore_error option \<times> (string \<Rightarrow> byte list option)" where
  "Save K L random os path passphrase sh disk =
     (case save_body K L random passphrase sh of
        Inl e \<Rightarrow> (Some e, disk)
      | Inr body \<Rightarrow> fs_run (save_ops path body) os disk)"

section \<open>What is relied on\<close>

definition ascii_file :: "keystore_file \<Rightarrow> bool" where
  "ascii_file f \<longleftrightarrow> ascii (f_GroupPublic f) \<and> ascii (f_Salt f) \<and> ascii (f_Nonce f) \<and>
     ascii (f_Ciphertext f) \<and> (\<forall>c \<in> set (f_Commits f). ascii c)"

text \<open>
  scrypt returns a key of the length asked for, what was sealed opens under the same key and nonce,
  and printed texts parse to what was printed, also with the newline \<open>Save\<close> appends.
\<close>

definition keystore_laws :: "keystore_library \<Rightarrow> bool" where
  "keystore_laws L \<longleftrightarrow>
     (\<forall>p s. \<exists>key. ks_scrypt L p s = Inr key \<and> length key = keyLen) \<and>
     (\<forall>k n x. length n = gcm_nonce_size \<longrightarrow> ks_open L k n (ks_seal L k n x) = Some x) \<and>
     (\<forall>f. ascii_file f \<longrightarrow> (\<exists>raw. ks_print_file L f = Some raw \<and> ks_parse_file L (raw @ [10]) = Some f)) \<and>
     (\<forall>s. ascii (s_Share s) \<and> ascii (s_Longterm s) \<longrightarrow>
        (\<exists>raw. ks_print_secrets L s = Some raw \<and> ks_parse_secrets L raw = Some s))"

section \<open>Lemmas\<close>

lemma keystore_lawsD:
  assumes "keystore_laws L"
  shows "\<exists>key. ks_scrypt L p s = Inr key \<and> length key = keyLen"
    and "length n = gcm_nonce_size \<Longrightarrow> ks_open L k n (ks_seal L k n x) = Some x"
    and "ascii_file f \<Longrightarrow> \<exists>raw. ks_print_file L f = Some raw \<and> ks_parse_file L (raw @ [10]) = Some f"
    and "ascii (s_Share t) \<Longrightarrow> ascii (s_Longterm t) \<Longrightarrow>
      \<exists>raw. ks_print_secrets L t = Some raw \<and> ks_parse_secrets L raw = Some t"
  using assms by (simp_all add: keystore_laws_def)

lemma ks_hex_encode [simp]: "ks_hex (hex_encode bs) = Inr bs"
  by (simp add: ks_hex_def)

lemma hex_encode_Nil_iff [simp]: "hex_encode bs = [] \<longleftrightarrow> bs = []"
  by (cases bs) simp_all

lemma ascii_Nil [simp]: "ascii []"
  by (simp add: ascii_def)

text \<open>The identity a keystore gives back: the public key is recomputed from the private one.\<close>

definition identity_of :: "('s, 'g1, 'g2, 'gt) kyber \<Rightarrow> ('s, 'g2) member \<Rightarrow> ('s \<times> 'g2) option" where
  "identity_of K m = map_option (\<lambda>l. (l, mul_g2 K l (base_g2 K))) (Longterm m)"

lemma secrets_roundtrip:
  assumes "keystore_laws L" and "scalar_codec K"
  shows "\<exists>raw. marshalSecrets K L sh = Inr raw \<and>
    unmarshalSecrets K L raw = Inr (Secret sh, identity_of K (Member sh))"
proof -
  have codec: "\<exists>raw. marshal_scalar K x = Some raw \<and> raw \<noteq> [] \<and> unmarshal_scalar K raw = Some x" for x
    using assms(2) by (simp add: scalar_codec_def)
  obtain s where s: "marshal_scalar K (Secret sh) = Some s" "unmarshal_scalar K s = Some (Secret sh)"
    using codec by blast
  show ?thesis
  proof (cases "Longterm (Member sh)")
    case None
    obtain raw where "ks_print_secrets L \<lparr>s_Share = hex_encode s, s_Longterm = []\<rparr> = Some raw"
      "ks_parse_secrets L raw = Some \<lparr>s_Share = hex_encode s, s_Longterm = []\<rparr>"
      using keystore_lawsD(4)[OF assms(1), of "\<lparr>s_Share = hex_encode s, s_Longterm = []\<rparr>"]
      by (auto simp: ascii_hex_encode)
    with s None show ?thesis
      by (simp add: marshalSecrets_def unmarshalSecrets_def identity_of_def)
  next
    case (Some l)
    obtain b where b: "marshal_scalar K l = Some b" "b \<noteq> []" "unmarshal_scalar K b = Some l"
      using codec by blast
    obtain raw where "ks_print_secrets L \<lparr>s_Share = hex_encode s, s_Longterm = hex_encode b\<rparr> = Some raw"
      "ks_parse_secrets L raw = Some \<lparr>s_Share = hex_encode s, s_Longterm = hex_encode b\<rparr>"
      using keystore_lawsD(4)[OF assms(1), of "\<lparr>s_Share = hex_encode s, s_Longterm = hex_encode b\<rparr>"]
      by (auto simp: ascii_hex_encode)
    with s b Some show ?thesis
      by (simp add: marshalSecrets_def unmarshalSecrets_def identity_of_def)
  qed
qed

lemma commits_roundtrip:
  assumes "g2_codec K"
  shows "\<exists>ss. collect_all (\<lambda>c. case marshal_g2 K c of None \<Rightarrow> Inl KeystoreMarshal
             | Some raw \<Rightarrow> Inr (hex_encode raw)) cs = Inr ss \<and>
           collect_all (ks_point K) ss = Inr cs \<and> (\<forall>s \<in> set ss. ascii s)"
proof -
  let ?f = "\<lambda>c. case marshal_g2 K c of None \<Rightarrow> Inl KeystoreMarshal | Some raw \<Rightarrow> Inr (hex_encode raw)"
  have "\<exists>s. ?f c = Inr s \<and> ks_point K s = Inr c \<and> ascii s" for c
  proof -
    obtain raw where "marshal_g2 K c = Some raw" "unmarshal_g2 K raw = Some c"
      using assms unfolding g2_codec_def by blast
    then show ?thesis by (simp add: ks_point_def ascii_hex_encode)
  qed
  from collect_all_all[of cs ?f "\<lambda>c s. ks_point K s = Inr c \<and> ascii s", OF this]
  obtain ss where ss: "collect_all ?f cs = Inr ss" "list_all2 (\<lambda>c s. ks_point K s = Inr c \<and> ascii s) cs ss"
    by blast
  moreover have "collect_all (ks_point K) ss = Inr cs"
    using ss(2) by (intro collect_all_inverse) (auto elim: list_all2_mono)
  moreover have "\<forall>s \<in> set ss. ascii s" using list_all2_right[OF ss(2)] by blast
  ultimately show ?thesis by blast
qed

text \<open>What \<open>Save\<close> writes, taken apart.\<close>

lemma save_body_parts:
  assumes "keystore_laws L" and "scalar_codec K" and "g2_codec K" and "passphrase \<noteq> ''''"
    and "length nonce = gcm_nonce_size"
  obtains body f where "save_body K L (Inr salt, Inr nonce) passphrase sh = Inr body"
    and "ks_parse_file L body = Some f" and "f_Index f = share_Index sh"
    and "\<And>i p cs. load_file K L passphrase (f\<lparr>f_Index := i, f_GroupPublic := p, f_Commits := cs\<rparr>) =
      (case ks_point K p of Inl e \<Rightarrow> Inl e | Inr public \<Rightarrow>
      (case collect_all (ks_point K) cs of Inl e \<Rightarrow> Inl e | Inr commits \<Rightarrow>
         Inr \<lparr> Member = \<lparr>member_Index = i, Longterm = Longterm (Member sh),
                Public = map_option (\<lambda>l. mul_g2 K l (base_g2 K)) (Longterm (Member sh))\<rparr>,
               Secret = Secret sh, GroupPublic = public, Commits = commits \<rparr>))"
    and "ks_point K (f_GroupPublic f) = Inr (GroupPublic sh)"
    and "collect_all (ks_point K) (f_Commits f) = Inr (Commits sh)"
proof -
  obtain pt where pt: "marshalSecrets K L sh = Inr pt"
    "unmarshalSecrets K L pt = Inr (Secret sh, identity_of K (Member sh))"
    using secrets_roundtrip[OF assms(1,2)] by blast
  obtain key where key: "ks_scrypt L passphrase salt = Inr key" "length key = keyLen"
    using keystore_lawsD(1)[OF assms(1)] by blast
  obtain g where g: "marshal_g2 K (GroupPublic sh) = Some g" "unmarshal_g2 K g = Some (GroupPublic sh)"
    using assms(3) unfolding g2_codec_def by blast
  obtain ss where ss: "collect_all (\<lambda>c. case marshal_g2 K c of None \<Rightarrow> Inl KeystoreMarshal
             | Some raw \<Rightarrow> Inr (hex_encode raw)) (Commits sh) = Inr ss"
    "collect_all (ks_point K) ss = Inr (Commits sh)" "\<forall>s \<in> set ss. ascii s"
    using commits_roundtrip[OF assms(3)] by blast
  let ?f = "\<lparr> f_Version = 1, f_Index = share_Index sh, f_GroupPublic = hex_encode g, f_Commits = ss,
      f_Salt = hex_encode salt, f_Nonce = hex_encode nonce,
      f_Ciphertext = hex_encode (ks_seal L key nonce pt) \<rparr>"
  have "ascii_file ?f" using ss(3) by (simp add: ascii_file_def ascii_hex_encode)
  then obtain raw where raw: "ks_print_file L ?f = Some raw" "ks_parse_file L (raw @ [10]) = Some ?f"
    using keystore_lawsD(3)[OF assms(1)] by blast
  have aead: "aeadFor L passphrase salt = Inr key" using key by (simp add: aeadFor_def keyLen_def)
  have opens: "ks_open L key nonce (ks_seal L key nonce pt) = Some pt"
    using keystore_lawsD(2)[OF assms(1,5)] .
  show thesis
  proof (rule that[of "raw @ [10]" ?f])
    show "save_body K L (Inr salt, Inr nonce) passphrase sh = Inr (raw @ [10])"
      using assms(4) pt(1) aead g(1) ss(1) raw(1) by (simp add: save_body_def)
    show "ks_point K (f_GroupPublic ?f) = Inr (GroupPublic sh)" using g(2) by (simp add: ks_point_def)
  qed (use raw(2) ss(2) aead opens pt(2) assms(5) in
        \<open>simp_all add: load_file_def identity_of_def option.map_comp comp_def option.map_ident
          cong: sum.case_cong\<close>)
qed

lemma fs_run_save:
  "fs_run (save_ops path body) os disk =
     (case os 0 of Broken e n \<Rightarrow> (Some (FileError e), disk)
      | Fine \<Rightarrow> (case os 1 of Broken e n \<Rightarrow> (Some (FileError e), disk(path @ ''.tmp'' \<mapsto> take n body))
        | Fine \<Rightarrow> (case os 2 of Broken e n \<Rightarrow> (Some (FileError e), disk(path @ ''.tmp'' \<mapsto> body))
          | Fine \<Rightarrow> (None, disk(path @ ''.tmp'' := None, path \<mapsto> body)))))"
  by (auto simp: save_ops_def numeral_2_eq_2 fun_eq_iff split: os_answer.splits)

lemma saved_share_loads:
  assumes "keystore_laws L" and "scalar_codec K" and "g2_codec K" and "passphrase \<noteq> ''''"
    and "length nonce = gcm_nonce_size" and "\<forall>k. os k = Fine"
  shows "\<exists>disk'. Save K L (Inr salt, Inr nonce) os path passphrase sh disk = (None, disk') \<and>
     Load K L disk' path passphrase =
       Inr (sh\<lparr>Member := (Member sh)\<lparr>Public := map_option (\<lambda>l. mul_g2 K l (base_g2 K)) (Longterm (Member sh))\<rparr>\<rparr>) \<and>
     disk' (path @ ''.tmp'') = None \<and> (\<forall>p. p \<noteq> path \<longrightarrow> p \<noteq> path @ ''.tmp'' \<longrightarrow> disk' p = disk p)"
proof -
  obtain body f where b: "save_body K L (Inr salt, Inr nonce) passphrase sh = Inr body"
    and f: "ks_parse_file L body = Some f" "f_Index f = share_Index sh"
    and ld: "\<And>i p cs. load_file K L passphrase (f\<lparr>f_Index := i, f_GroupPublic := p, f_Commits := cs\<rparr>) =
      (case ks_point K p of Inl e \<Rightarrow> Inl e | Inr public \<Rightarrow>
      (case collect_all (ks_point K) cs of Inl e \<Rightarrow> Inl e | Inr commits \<Rightarrow>
         Inr \<lparr> Member = \<lparr>member_Index = i, Longterm = Longterm (Member sh),
                Public = map_option (\<lambda>l. mul_g2 K l (base_g2 K)) (Longterm (Member sh))\<rparr>,
               Secret = Secret sh, GroupPublic = public, Commits = commits \<rparr>))"
    and pts: "ks_point K (f_GroupPublic f) = Inr (GroupPublic sh)"
      "collect_all (ks_point K) (f_Commits f) = Inr (Commits sh)"
    using save_body_parts[OF assms(1-5)] by blast
  have same: "f\<lparr>f_Index := f_Index f, f_GroupPublic := f_GroupPublic f, f_Commits := f_Commits f\<rparr> = f"
    by simp
  have "load_file K L passphrase f =
      Inr (sh\<lparr>Member := (Member sh)\<lparr>Public := map_option (\<lambda>l. mul_g2 K l (base_g2 K)) (Longterm (Member sh))\<rparr>\<rparr>)"
    using ld[where i = "f_Index f" and p = "f_GroupPublic f" and cs = "f_Commits f"] pts f(2)
    unfolding same by (cases sh; cases "Member sh") (simp add: share_Index_def)
  with b f assms(6) show ?thesis
    by (simp add: Save_def fs_run_save Load_def)
qed

section \<open>A concrete library\<close>

text \<open>
  For the witnesses: the key is constant, sealing is the identity, fields are written one after
  another.
\<close>

definition plain_keystore :: keystore_library where
  "plain_keystore =
     \<lparr> ks_scrypt = (\<lambda>p s. Inr (replicate 32 7)), ks_seal = (\<lambda>k n x. x), ks_open = (\<lambda>k n x. Some x),
       ks_print_file = (\<lambda>f. Some (put_list put_string
         ([text16 (f_Version f), f_GroupPublic f, f_Salt f, f_Nonce f, f_Ciphertext f] @ f_Commits f) @
          put_word (f_Index f))),
       ks_parse_file = (\<lambda>bs. case get_list (length bs) get_string bs of
           Some (v # g # salt # nonce # ct # cs, r) \<Rightarrow> map_option (\<lambda>(i, _).
             \<lparr>f_Version = the (set_string16 v), f_Index = i, f_GroupPublic = g, f_Commits = cs,
              f_Salt = salt, f_Nonce = nonce, f_Ciphertext = ct\<rparr>) (get_word r)
         | _ \<Rightarrow> None),
       ks_print_secrets = (\<lambda>s. Some (put_list put_string [s_Share s, s_Longterm s])),
       ks_parse_secrets = (\<lambda>bs. case get_list (length bs) get_string bs of
           Some ([a, b], r) \<Rightarrow> Some \<lparr>s_Share = a, s_Longterm = b\<rparr> | _ \<Rightarrow> None) \<rparr>"

lemma plain_keystore_laws: "keystore_laws plain_keystore"
  unfolding keystore_laws_def
proof (intro conjI allI impI)
  fix f :: keystore_file
  let ?fs = "[text16 (f_Version f), f_GroupPublic f, f_Salt f, f_Nonce f, f_Ciphertext f] @ f_Commits f"
  have "get_list (length (put_list put_string ?fs @ put_word (f_Index f) @ [10])) get_string
      (put_list put_string ?fs @ put_word (f_Index f) @ [10]) = Some (?fs, put_word (f_Index f) @ [10])"
    by (rule get_list_put_rest) simp
  then show "\<exists>raw. ks_print_file plain_keystore f = Some raw \<and> ks_parse_file plain_keystore (raw @ [10]) = Some f"
    by (simp add: plain_keystore_def del: put_list.simps get_list.simps length_append)
next
  fix s :: secrets
  have "get_list (length (put_list put_string [s_Share s, s_Longterm s])) get_string
      (put_list put_string [s_Share s, s_Longterm s]) = Some ([s_Share s, s_Longterm s], [])"
    by (rule get_list_put_end) simp
  then show "\<exists>raw. ks_print_secrets plain_keystore s = Some raw \<and> ks_parse_secrets plain_keystore raw = Some s"
    by (simp add: plain_keystore_def del: put_list.simps get_list.simps)
qed (simp_all add: plain_keystore_def keyLen_def)

section \<open>Properties\<close>

text \<open>
  C20.  A saved share comes back.  When the file system does what it is asked to, saving under a
  passphrase and loading with the same one returns the share: index, secret, group key,
  commitments and long-term key are the ones saved, and the public key of the identity is recomputed
  from the long-term key.  The temporary file is gone and no other path is touched.
\<close>

theorem keystore_roundtrip:
  assumes "keystore_laws L" and "scalar_codec K" and "g2_codec K" and "passphrase \<noteq> ''''"
    and "length nonce = gcm_nonce_size" and "\<forall>k. os k = Fine"
  shows "\<exists>disk'. Save K L (Inr salt, Inr nonce) os path passphrase sh disk = (None, disk') \<and>
     Load K L disk' path passphrase =
       Inr (sh\<lparr>Member := (Member sh)\<lparr>Public := map_option (\<lambda>l. mul_g2 K l (base_g2 K)) (Longterm (Member sh))\<rparr>\<rparr>) \<and>
     disk' (path @ ''.tmp'') = None \<and> (\<forall>p. p \<noteq> path \<longrightarrow> p \<noteq> path @ ''.tmp'' \<longrightarrow> disk' p = disk p)"
  using saved_share_loads[OF assms] .

definition demo_share :: "(gf11, gf11) share" where
  "demo_share = \<lparr>Member = \<lparr>member_Index = 4, Longterm = Some 3, Public = Some 3\<rparr>, Secret = 5,
     GroupPublic = 7, Commits = [7, 2]\<rparr>"

theorem keystore_roundtrip_witness:
  "\<exists>disk. Save small_kyber plain_keystore (Inr [1, 2], Inr (replicate 12 9)) (\<lambda>k. Fine) ''op.json'' ''secret''
      demo_share (\<lambda>p. None) = (None, disk) \<and> Load small_kyber plain_keystore disk ''op.json'' ''secret'' = Inr demo_share"
proof -
  have "demo_share\<lparr>Member := (Member demo_share)\<lparr>Public :=
      map_option (\<lambda>l. mul_g2 small_kyber l (base_g2 small_kyber)) (Longterm (Member demo_share))\<rparr>\<rparr> = demo_share"
    by (simp add: demo_share_def small_kyber_def)
  with keystore_roundtrip[OF plain_keystore_laws small_codecs(2,1), of "''secret''" "replicate 12 9" "\<lambda>k. Fine"
      "[1, 2]" "''op.json''" demo_share "\<lambda>p. None"]
  show ?thesis by (auto simp: gcm_nonce_size_def)
qed

text \<open>
  C22.  Saving is all or nothing.  Whatever step of it fails, or wherever it is cut off, the file of the share is
  afterwards either what it was before or, exactly when no error is reported, the complete new text;
  besides it only the temporary file may differ.  Without a passphrase nothing is touched.
\<close>

theorem save_is_atomic:
  assumes "Save K L random os path passphrase sh disk = (r, disk')"
  shows "(r \<noteq> None \<longrightarrow> disk' path = disk path) \<and>
     (r = None \<longrightarrow> (\<exists>body. save_body K L random passphrase sh = Inr body \<and> disk' path = Some body)) \<and>
     (\<forall>p. p \<noteq> path \<longrightarrow> p \<noteq> path @ ''.tmp'' \<longrightarrow> disk' p = disk p) \<and>
     (passphrase = '''' \<longrightarrow> r = Some UnprotectedShare \<and> disk' = disk)"
proof (cases "save_body K L random passphrase sh")
  case (Inl e)
  with assms show ?thesis by (auto simp: Save_def save_body_def)
next
  case (Inr body)
  then have "passphrase \<noteq> ''''" by (auto simp: save_body_def)
  moreover have "fs_run (save_ops path body) os disk = (r, disk')" using assms Inr by (simp add: Save_def)
  ultimately show ?thesis
    using Inr unfolding fs_run_save by (auto split: os_answer.splits)
qed

theorem save_is_atomic_witness:
  "\<exists>e disk'. Save small_kyber plain_keystore (Inr [1, 2], Inr (replicate 12 9))
      (\<lambda>k. if k = 1 then Broken ''disk full'' 3 else Fine) ''op.json'' ''secret'' demo_share
      [''op.json'' \<mapsto> [1]] = (Some e, disk') \<and> disk' ''op.json'' = Some [1]"
proof -
  let ?S = "Save small_kyber plain_keystore (Inr [1, 2], Inr (replicate 12 9))
      (\<lambda>k. if k = 1 then Broken ''disk full'' 3 else Fine) ''op.json'' ''secret'' demo_share [''op.json'' \<mapsto> [1]]"
  obtain body where "save_body small_kyber plain_keystore (Inr [1, 2], Inr (replicate 12 9)) ''secret'' demo_share = Inr body"
    by (rule save_body_parts[OF plain_keystore_laws small_codecs(2,1), of "''secret''" "replicate 12 9" "[1, 2]" demo_share])
       (simp_all add: gcm_nonce_size_def)
  then have "fst ?S = Some (FileError ''disk full'')" by (simp add: Save_def fs_run_save)
  then obtain disk' where S: "?S = (Some (FileError ''disk full''), disk')" by (metis prod.collapse)
  from save_is_atomic[OF S] S show ?thesis by simp
qed

text \<open>
  C35.  The public half of a keystore is not authenticated.  Given a saved file, anyone can replace its
  index, group key and commitments by any others without the passphrase, and it still loads under the
  passphrase, without an error, to a share with the original secret and the replaced values.
\<close>

theorem public_half_not_authenticated:
  assumes "keystore_laws L" and "scalar_codec K" and "g2_codec K" and "passphrase \<noteq> ''''"
    and "length nonce = gcm_nonce_size"
  shows "\<exists>body f p cs. save_body K L (Inr salt, Inr nonce) passphrase sh = Inr body \<and>
     ks_parse_file L body = Some f \<and>
     load_file K L passphrase (f\<lparr>f_Index := i, f_GroupPublic := p, f_Commits := cs\<rparr>) =
       Inr \<lparr> Member = \<lparr>member_Index = i, Longterm = Longterm (Member sh),
                Public = map_option (\<lambda>l. mul_g2 K l (base_g2 K)) (Longterm (Member sh))\<rparr>,
             Secret = Secret sh, GroupPublic = group_key, Commits = commits \<rparr>"
proof (rule save_body_parts[OF assms, of salt sh])
  fix body f
  assume bf: "save_body K L (Inr salt, Inr nonce) passphrase sh = Inr body" "ks_parse_file L body = Some f"
    and ld: "\<And>i p cs. load_file K L passphrase (f\<lparr>f_Index := i, f_GroupPublic := p, f_Commits := cs\<rparr>) =
      (case ks_point K p of Inl e \<Rightarrow> Inl e | Inr public \<Rightarrow>
      (case collect_all (ks_point K) cs of Inl e \<Rightarrow> Inl e | Inr commits \<Rightarrow>
         Inr \<lparr> Member = \<lparr>member_Index = i, Longterm = Longterm (Member sh),
                Public = map_option (\<lambda>l. mul_g2 K l (base_g2 K)) (Longterm (Member sh))\<rparr>,
               Secret = Secret sh, GroupPublic = public, Commits = commits \<rparr>))"
  obtain raw where "marshal_g2 K group_key = Some raw" "unmarshal_g2 K raw = Some group_key"
    using assms(3) unfolding g2_codec_def by blast
  then have p: "ks_point K (hex_encode raw) = Inr group_key" by (simp add: ks_point_def)
  obtain ss where cs: "collect_all (ks_point K) ss = Inr commits"
    using commits_roundtrip[OF assms(3), of commits] by blast
  have "load_file K L passphrase (f\<lparr>f_Index := i, f_GroupPublic := hex_encode raw, f_Commits := ss\<rparr>) =
       Inr \<lparr> Member = \<lparr>member_Index = i, Longterm = Longterm (Member sh),
                Public = map_option (\<lambda>l. mul_g2 K l (base_g2 K)) (Longterm (Member sh))\<rparr>,
             Secret = Secret sh, GroupPublic = group_key, Commits = commits \<rparr>"
    by (simp add: ld p cs)
  with bf show ?thesis by (intro exI conjI)
qed

theorem public_half_not_authenticated_witness:
  "\<exists>f. load_file small_kyber plain_keystore ''secret'' f =
     Inr \<lparr>Member = \<lparr>member_Index = 0, Longterm = Some 3, Public = Some 3\<rparr>, Secret = 5,
          GroupPublic = 1, Commits = [1]\<rparr>"
proof -
  have "length (replicate 12 (9 :: byte)) = gcm_nonce_size" by (simp add: gcm_nonce_size_def)
  from public_half_not_authenticated[OF plain_keystore_laws small_codecs(2,1) _ this, of "''secret''" "[1, 2]"
      demo_share 0 1 "[1]"]
  show ?thesis by (auto simp: demo_share_def small_kyber_sel)
qed

text \<open>A nonce that is not twelve bytes long makes \<open>Load\<close> panic instead of reporting a corrupted file.\<close>

lemma short_nonce_panics:
  assumes "keystore_laws L" and "f_Version f = 1" and "hex_decode (f_Salt f) = Inr salt"
    and "hex_decode (f_Ciphertext f) = Inr ct" and "hex_decode (f_Nonce f) = Inr nonce"
    and "length nonce \<noteq> gcm_nonce_size"
  shows "load_file K L passphrase f = Inl NoncePanic"
proof -
  obtain key where "ks_scrypt L passphrase salt = Inr key" "length key = keyLen"
    using keystore_lawsD(1)[OF assms(1)] by blast
  with assms(2-) show ?thesis by (simp add: load_file_def ks_hex_def aeadFor_def keyLen_def)
qed

end
