(* ===== verification/Go_Text.thy ===== *)
theory Go_Text
  imports Prelude
begin

text \<open>
  Decimal numbers and splitting, as the standard library does them: \<open>%d\<close> of \<open>fmt\<close>,
  \<open>strconv.Atoi\<close> and \<open>strings.Split\<close> at a single character.
\<close>

section \<open>Printing decimal numbers\<close>

definition decdigit :: "nat \<Rightarrow> char" where
  "decdigit n = ''0123456789'' ! n"

fun dec_of_nat :: "nat \<Rightarrow> string" where
  "dec_of_nat n = (if n < 10 then [decdigit n] else dec_of_nat (n div 10) @ [decdigit (n mod 10)])"

declare dec_of_nat.simps [simp del]

definition dec_of_int :: "int \<Rightarrow> string" where
  "dec_of_int i = (if i < 0 then CHR ''-'' # dec_of_nat (nat (- i)) else dec_of_nat (nat i))"

section \<open>Reading them\<close>

definition decvalue :: "char \<Rightarrow> nat option" where
  "decvalue ch = (let c = (of_char ch :: nat) in if 48 \<le> c \<and> c \<le> 57 then Some (c - 48) else None)"

fun dec_digits :: "nat \<Rightarrow> string \<Rightarrow> nat option" where
  "dec_digits acc [] = Some acc"
| "dec_digits acc (c # cs) =
     (case decvalue c of None \<Rightarrow> None | Some d \<Rightarrow> dec_digits (10 * acc + d) cs)"

text \<open>
  \<open>strconv.Atoi\<close> on a 64-bit machine: an optional sign, at least one digit, leading zeros allowed; an
  error outside the range of \<open>int\<close>.
\<close>

definition atoi :: "string \<Rightarrow> int option" where
  "atoi s =
     (let neg = (take 1 s = ''-'');
          digits = (if take 1 s = ''-'' \<or> take 1 s = ''+'' then drop 1 s else s) in
      if digits = [] then None
      else case dec_digits 0 digits of
        None \<Rightarrow> None
      | Some n \<Rightarrow> let i = (if neg then - int n else int n) in
          if - (2 ^ 63) \<le> i \<and> i < 2 ^ 63 then Some i else None)"

section \<open>Splitting\<close>

fun split_on :: "char \<Rightarrow> string \<Rightarrow> string list" where
  "split_on c [] = [[]]"
| "split_on c (x # xs) =
     (if x = c then [] # split_on c xs
      else case split_on c xs of [] \<Rightarrow> [[x]] | p # ps \<Rightarrow> (x # p) # ps)"

text \<open>The loop that trims the pieces and keeps those with something left.\<close>

fun nonempty_trimmed :: "string list \<Rightarrow> string list" where
  "nonempty_trimmed [] = []"
| "nonempty_trimmed (p # ps) =
     (let t = trim_space p in if t \<noteq> '''' then t # nonempty_trimmed ps else nonempty_trimmed ps)"

section \<open>Lemmas\<close>

lemma all_lt_10: "(n :: nat) < 10 \<longleftrightarrow> n \<in> {0, 1, 2, 3, 4, 5, 6, 7, 8, 9}"
  by simp presburger

lemma decvalue_decdigit [simp]: "n < 10 \<Longrightarrow> decvalue (decdigit n) = Some n"
  unfolding all_lt_10 by (elim insertE emptyE) (simp_all add: decvalue_def decdigit_def)

lemma decdigit_neq [simp]:
  "n < 10 \<Longrightarrow> decdigit n \<noteq> CHR ''-''" "n < 10 \<Longrightarrow> decdigit n \<noteq> CHR ''+''" "n < 10 \<Longrightarrow> decdigit n \<noteq> CHR ''/''"
  unfolding all_lt_10 by (elim insertE emptyE; simp add: decdigit_def)+

lemma dec_digits_append:
  "dec_digits acc (s @ t) = (case dec_digits acc s of None \<Rightarrow> None | Some n \<Rightarrow> dec_digits n t)"
  by (induction acc s rule: dec_digits.induct) (auto split: option.splits)

lemma dec_of_nat_not_Nil [simp]: "dec_of_nat n \<noteq> []"
  by (subst dec_of_nat.simps) simp

lemma dec_of_nat_digits: "c \<in> set (dec_of_nat n) \<Longrightarrow> \<exists>d < 10. c = decdigit d"
proof (induction n rule: dec_of_nat.induct)
  case (1 n)
  show ?case
  proof (cases "n < 10")
    case True
    with 1(2) show ?thesis by (auto simp: dec_of_nat.simps[of n])
  next
    case False
    with 1(2) have "c \<in> set (dec_of_nat (n div 10)) \<or> c = decdigit (n mod 10)"
      by (auto simp: dec_of_nat.simps[of n])
    then show ?thesis using 1(1)[OF False] by (auto intro: exI[of _ "n mod 10"])
  qed
qed

lemma dec_digits_dec_of_nat [simp]: "dec_digits 0 (dec_of_nat n) = Some n"
proof (induction n rule: dec_of_nat.induct)
  case (1 n)
  show ?case
  proof (cases "n < 10")
    case True
    then show ?thesis by (simp add: dec_of_nat.simps[of n])
  next
    case False
    then show ?thesis using 1 by (simp add: dec_of_nat.simps[of n] dec_digits_append)
  qed
qed

lemma dec_of_nat_hd: "take 1 (dec_of_nat n) \<noteq> ''-''" "take 1 (dec_of_nat n) \<noteq> ''+''"
  using dec_of_nat_digits[of "hd (dec_of_nat n)" n] by (cases "dec_of_nat n"; auto)+

lemma atoi_dec_of_nat: "int n < 2 ^ 63 \<Longrightarrow> atoi (dec_of_nat n) = Some (int n)"
  using dec_of_nat_hd[of n] by (simp add: atoi_def Let_def)

lemma dec_of_nat_inject [simp]: "dec_of_nat m = dec_of_nat n \<longleftrightarrow> m = n"
  by (metis dec_digits_dec_of_nat option.inject)

lemma split_on_not_Nil [simp]: "split_on c s \<noteq> []"
  by (induction c s rule: split_on.induct) (auto split: list.splits)

lemma split_on_none: "c \<notin> set s \<Longrightarrow> split_on c s = [s]"
  by (induction s) auto

lemma split_on_append: "c \<notin> set p \<Longrightarrow> split_on c (p @ c # s) = p # split_on c s"
  by (induction p) auto

text \<open>\<open>strings.Split\<close> loses nothing: joining the parts gives the text back.\<close>

fun join_on :: "char \<Rightarrow> string list \<Rightarrow> string" where
  "join_on c [] = []"
| "join_on c [p] = p"
| "join_on c (p # q # ps) = p @ c # join_on c (q # ps)"

lemma join_split: "join_on c (split_on c s) = s"
proof (induction s)
  case (Cons x xs)
  obtain p ps where "split_on c xs = p # ps" by (cases "split_on c xs") auto
  with Cons show ?case by (cases ps) auto
qed simp

lemma split_on_no_separator: "p \<in> set (split_on c s) \<Longrightarrow> c \<notin> set p"
proof (induction s arbitrary: p)
  case (Cons x xs)
  then show ?case by (cases "split_on c xs") (auto split: if_splits)
qed simp

end
