(* ===== verification/Tools_Dkg.thy ===== *)
theory Tools_Dkg
  imports Dkg_Dealing Keystore Go_Text
begin

text \<open>
  The two commands around the ceremony of one process: \<open>node/cmd/vrfdkg/main.go\<close>, which writes one
  keystore per operator, and \<open>node/cmd/gen-dkg-vector/main.go\<close>, which produces the test vector of the
  contracts.  Printing and flags are left out; the JSON files for the contracts are in
  \<open>Tools_Files\<close>.
\<close>

section \<open>vrfdkg\<close>

datatype dkg_tool_error =
    PassphraseRequired
  | CeremonyError ceremony_error
  | DirectoryError string
  | SaveError keystore_error
  | GroupKeyError bls_error

text \<open>The flag wins over the environment.\<close>

definition tool_passphrase :: "string \<Rightarrow> string \<Rightarrow> dkg_tool_error + string" where
  "tool_passphrase given env =
     (let pass = (if given = '''' then env else given) in
      if pass = '''' then Inl PassphraseRequired else Inr pass)"

text \<open>\<open>filepath.Join\<close> with a directory that is written in its clean form.\<close>

definition keystore_path :: "string \<Rightarrow> u32 \<Rightarrow> string" where
  "keystore_path dir i = dir @ ''/operator-'' @ dec_of_nat (unat i) @ ''.json''"

text \<open>
  The loop over the shares.  Each save has its own randomness and its own answers of the
  operating system.
\<close>

fun save_all ::
  "('s, 'g1, 'g2, 'gt) kyber \<Rightarrow> keystore_library \<Rightarrow> (nat \<Rightarrow> (string + byte list) \<times> (string + byte list)) \<Rightarrow>
    (nat \<Rightarrow> nat \<Rightarrow> os_answer) \<Rightarrow> string \<Rightarrow> string \<Rightarrow> nat \<Rightarrow> ('s, 'g2) share list \<Rightarrow>
    (string \<Rightarrow> byte list option) \<Rightarrow> dkg_tool_error option \<times> (string \<Rightarrow> byte list option)" where
  "save_all K L rnd os dir pass k [] disk = (None, disk)"
| "save_all K L rnd os dir pass k (s # ss) disk =
     (case Save K L (rnd k) (os k) (keystore_path dir (share_Index s)) pass s disk of
        (Some e, disk1) \<Rightarrow> (Some (SaveError e), disk1)
      | (None, disk1) \<Rightarrow> save_all K L rnd os dir pass (k + 1) ss disk1)"

text \<open>\<open>main\<close> up to the group file: the four coordinates of the group key, or the error.\<close>

definition dkg_main ::
  "('s, 'g1, 'g2, 'gt) kyber \<Rightarrow> (byte list \<Rightarrow> byte list) \<Rightarrow> ('h, 's, 'g2) dkg_library \<Rightarrow> (nat \<Rightarrow> 's) \<Rightarrow>
    keystore_library \<Rightarrow> (nat \<Rightarrow> (string + byte list) \<times> (string + byte list)) \<Rightarrow>
    (nat \<Rightarrow> nat \<Rightarrow> os_answer) \<Rightarrow> os_answer \<Rightarrow> nat \<Rightarrow> int \<Rightarrow> u64 \<Rightarrow> string \<Rightarrow> string \<Rightarrow> string \<Rightarrow>
    (string \<Rightarrow> byte list option) \<Rightarrow> (dkg_tool_error + nat list) \<times> (string \<Rightarrow> byte list option)" where
  "dkg_main K keccak D random L rnd os mkdir operators quorum epoch dir given env disk =
     (case tool_passphrase given env of Inl e \<Rightarrow> (Inl e, disk) | Inr pass \<Rightarrow>
      (case RunLocal K keccak D random operators quorum epoch of
         Inl e \<Rightarrow> (Inl (CeremonyError e), disk)
       | Inr shares \<Rightarrow> (case mkdir of Broken e _ \<Rightarrow> (Inl (DirectoryError e), disk) | Fine \<Rightarrow>
          (case save_all K L rnd os dir pass 0 shares disk of
             (Some e, disk1) \<Rightarrow> (Inl e, disk1)
           | (None, disk1) \<Rightarrow> (case SerializeG2 K (GroupPublic (hd shares)) of
               Inl e \<Rightarrow> (Inl (GroupKeyError e), disk1) | Inr pk \<Rightarrow> (Inr pk, disk1))))))"

section \<open>gen-dkg-vector\<close>

record vector =
  v_Operators :: nat
  v_Threshold :: nat
  v_Epoch :: u64
  v_GroupPubKey :: "string list"
  v_Seed :: string
  v_QuorumA :: "u32 list"
  v_SignatureQuorumA :: string
  v_QuorumB :: "u32 list"
  v_SignatureQuorumB :: string
  v_SignatureBelowThreshold :: string
  v_SignatureAfterRotation :: string

datatype vector_error =
    VectorDkg ceremony_error
  | VectorKey bls_error
  | VectorAggregate agg_error
  | VectorSignature bls_error
  | QuorumsDisagree
  | VectorReshare ceremony_error

definition position_range :: "nat \<Rightarrow> nat \<Rightarrow> nat list" where
  "position_range from cnt = map (\<lambda>i. from + i) [0..<cnt]"

definition shareIndices :: "('s, 'g2) share list \<Rightarrow> nat list \<Rightarrow> u32 list" where
  "shareIndices shares positions = map (\<lambda>p. share_Index (shares ! p)) positions"

definition aggregate_positions ::
  "('s, 'g1, 'g2, 'gt) kyber \<Rightarrow> ('s, 'g2) share list \<Rightarrow> nat list \<Rightarrow> byte list \<Rightarrow> int \<Rightarrow> int \<Rightarrow>
    vector_error + string" where
  "aggregate_positions K shares positions seed t n =
     (case Aggregate K (map (\<lambda>p. \<lparr>Index = share_Index (shares ! p),
             Sig = Some (Sign K (Secret (shares ! p)) seed)\<rparr>) positions) t n of
        Inl e \<Rightarrow> Inl (VectorAggregate e)
      | Inr sig \<Rightarrow> (case SignatureBytes K sig of
          Inl e \<Rightarrow> Inl (VectorSignature e) | Inr raw \<Rightarrow> Inr (''0x'' @ hex_encode raw)))"

definition hexInt :: "nat \<Rightarrow> string" where
  "hexInt n = ''0x'' @ hex_encode (left_pad (be_bytes n) 32)"

definition vector_seed :: "byte list" where
  "vector_seed = (let text = map (\<lambda>c. word_of_nat (of_char c)) ''robinhood-chain threshold vrf'' in
     text @ replicate (32 - length text) 0)"

text \<open>\<open>run\<close> up to the writing of the file; \<open>fresh\<close> is the identity scalar drawn for the newcomer.\<close>

definition run_vector ::
  "('s, 'g1, 'g2, 'gt) kyber \<Rightarrow> (byte list \<Rightarrow> byte list) \<Rightarrow> ('h, 's, 'g2) dkg_library \<Rightarrow> (nat \<Rightarrow> 's) \<Rightarrow>
    's \<Rightarrow> nat \<Rightarrow> nat \<Rightarrow> u64 \<Rightarrow> vector_error + vector" where
  "run_vector K keccak D random fresh n t epoch =
     (case RunLocal K keccak D random n (int t) epoch of
        Inl e \<Rightarrow> Inl (VectorDkg e)
      | Inr shares \<Rightarrow> (case SerializeG2 K (GroupPublic (hd shares)) of
          Inl e \<Rightarrow> Inl (VectorKey e)
        | Inr pk \<Rightarrow>
            (case aggregate_positions K shares (position_range 0 t) vector_seed (int t) (int n) of
               Inl e \<Rightarrow> Inl e
             | Inr sigA \<Rightarrow>
                 (case aggregate_positions K shares (position_range (n - t) t) vector_seed (int t) (int n) of
                    Inl e \<Rightarrow> Inl e
                  | Inr sigB \<Rightarrow>
                      if sigA \<noteq> sigB then Inl QuorumsDisagree
                      else (case aggregate_positions K shares (position_range 0 (t - 1)) vector_seed
                                  (int (t - 1)) (int n) of
                         Inl e \<Rightarrow> Inl e
                       | Inr short \<Rightarrow>
                           (case ResharLocal K keccak D shares
                                   (tl (Members shares) @ [NewMember K fresh (word_of_nat n)]) (int t) (epoch + 1) of
                              Inl e \<Rightarrow> Inl (VectorReshare e)
                            | Inr rotated \<Rightarrow>
                                (case aggregate_positions K rotated (position_range (n - t) t) vector_seed
                                        (int t) (int n) of
                                   Inl e \<Rightarrow> Inl e
                                 | Inr sigRotated \<Rightarrow> Inr
                                     \<lparr> v_Operators = n, v_Threshold = t, v_Epoch = epoch,
                                       v_GroupPubKey = map hexInt pk,
                                       v_Seed = ''0x'' @ hex_encode vector_seed,
                                       v_QuorumA = shareIndices shares (position_range 0 t),
                                       v_SignatureQuorumA = sigA,
                                       v_QuorumB = shareIndices shares (position_range (n - t) t),
                                       v_SignatureQuorumB = sigB,
                                       v_SignatureBelowThreshold = short,
                                       v_SignatureAfterRotation = sigRotated \<rparr>)))))))"

section \<open>Lemmas\<close>

lemma position_range_nth: "p \<in> set (position_range from cnt) \<longleftrightarrow> from \<le> p \<and> p < from + cnt"
  by (auto simp: position_range_def image_iff intro!: bexI[of _ "p - from"])

lemma distinct_position_range: "distinct (position_range from cnt)"
  by (simp add: position_range_def distinct_map inj_on_def)

lemma run_local_indices:
  assumes "RunLocal K keccak D random n t epoch = Inr shares"
  shows "length shares = n \<and> (\<forall>p < n. share_Index (shares ! p) = word_of_nat p)"
proof -
  have m: "map Member shares = map (\<lambda>i. NewMember K (random i) (word_of_nat i)) [0..<n]"
    using run_local_hands_out[of t n K keccak D random epoch] assms by blast
  then have len: "length shares = n" by (metis length_map length_upt diff_zero)
  moreover have "Member (shares ! p) = NewMember K (random p) (word_of_nat p)" if "p < n" for p
    using arg_cong[OF m, of "\<lambda>xs. xs ! p"] that len by simp
  ultimately show ?thesis by (simp add: share_Index_def NewMember_def)
qed

text \<open>A quorum of positions of a dealt group aggregates to the group signature.\<close>

lemma aggregate_positions_group:
  fixes K :: "('s::field, 'g1, 'g2, 'gt) kyber"
  assumes "kyber_laws K" and "small_group K (int n)" and "length a = t" and "0 < t" and "t \<le> n" and "n \<le> 2 ^ 32"
    and "length shares = n" and "\<forall>p < n. share_Index (shares ! p) = word_of_nat p" and "dealt_by a shares"
    and "from + t \<le> n"
  shows "\<exists>raw. SignatureBytes K (Sign K (peval a 0) seed) = Inr raw \<and>
    aggregate_positions K shares (position_range from t) seed (int t) (int n) = Inr (''0x'' @ hex_encode raw)"
proof -
  let ?ps = "map (\<lambda>p. \<lparr>Index = share_Index (shares ! p), Sig = Some (Sign K (Secret (shares ! p)) seed)\<rparr>)
    (position_range from t)"
  have small: "p < n" if "p \<in> set (position_range from t)" for p
    using that assms(10) by (auto simp: position_range_nth)
  have word: "uint (word_of_nat p :: u32) = int p" if "p < n" for p
    using that assms(6) by (simp add: unsigned_of_nat take_bit_nat_eq_self)
  have idx: "map Index ?ps = map word_of_nat (position_range from t)"
    using small assms(8) by simp
  have "inj_on (word_of_nat :: nat \<Rightarrow> u32) (set (position_range from t))"
    using word small by (intro inj_onI) (metis of_nat_eq_iff)
  then have "distinct (map Index ?ps)"
    unfolding idx by (simp add: distinct_map distinct_position_range)
  moreover have "int t \<le> int (length ?ps)" by (simp add: position_range_def)
  moreover have "\<forall>q \<in> set ?ps. verified K a seed (int n) q"
  proof
    fix q assume "q \<in> set ?ps"
    then obtain p where p: "p < n" "q = \<lparr>Index = share_Index (shares ! p), Sig = Some (Sign K (Secret (shares ! p)) seed)\<rparr>"
      using small by auto
    then have "shares ! p \<in> set shares" using assms(7) by simp
    then have "Secret (shares ! p) = share_at a (uint (share_Index (shares ! p)))"
      using assms(9) by (simp add: dealt_by_def)
    then have "q = honest_partial K a seed (share_Index (shares ! p))"
      using p by (simp add: honest_partial_def)
    then show "verified K a seed (int n) q"
      using p assms(1,8) word by (auto intro!: verified_honest)
  qed
  ultimately have "Aggregate K ?ps (int t) (int n) = Inr (Sign K (peval a 0) seed)"
    using assms(1-4) by (intro Aggregate_verified) auto
  moreover obtain raw where "SignatureBytes K (Sign K (peval a 0) seed) = Inr raw"
    using SignatureBytes_ok[of K] assms(1) by (metis kyber_laws_def)
  ultimately show ?thesis by (simp add: aggregate_positions_def)
qed

lemma save_ok_loads:
  assumes "keystore_laws L" and "scalar_codec K" and "g2_codec K" and "pass \<noteq> ''''"
    and "rnd = (Inr salt, Inr nonce)" and "length nonce = gcm_nonce_size" and "\<forall>k. os k = Fine"
    and "Public (Member s) = map_option (\<lambda>l. mul_g2 K l (base_g2 K)) (Longterm (Member s))"
  shows "\<exists>disk'. Save K L rnd os path pass s disk = (None, disk') \<and>
    Load K L disk' path pass = Inr s \<and> (\<forall>p. p \<noteq> path \<longrightarrow> p \<noteq> path @ ''.tmp'' \<longrightarrow> disk' p = disk p)"
proof -
  have "s\<lparr>Member := (Member s)\<lparr>Public := map_option (\<lambda>l. mul_g2 K l (base_g2 K)) (Longterm (Member s))\<rparr>\<rparr> = s"
    using assms(8) by simp
  with saved_share_loads[OF assms(1-4,6,7), of salt path s disk] assms(5) show ?thesis by auto
qed

lemma keystore_path_inject [simp]:
  "keystore_path dir i = keystore_path dir j \<longleftrightarrow> i = j"
proof
  assume "keystore_path dir i = keystore_path dir j"
  then show "i = j" by (simp add: keystore_path_def unsigned_word_eqI)
qed simp

lemma keystore_path_tmp [simp]: "keystore_path dir i \<noteq> keystore_path dir j @ ''.tmp''"
proof
  assume "keystore_path dir i = keystore_path dir j @ ''.tmp''"
  from arg_cong[OF this, of "\<lambda>s. take 4 (rev s)"] show False by (simp add: keystore_path_def)
qed

lemma save_all_loads:
  assumes "keystore_laws L" and "scalar_codec K" and "g2_codec K" and "pass \<noteq> ''''"
    and "\<forall>k. \<exists>salt nonce. rnd k = (Inr salt, Inr nonce) \<and> length nonce = gcm_nonce_size" and "\<forall>k j. os k j = Fine"
  shows "\<forall>s \<in> set ss. Public (Member s) = map_option (\<lambda>l. mul_g2 K l (base_g2 K)) (Longterm (Member s)) \<Longrightarrow>
    distinct (map share_Index ss) \<Longrightarrow>
    \<exists>disk'. save_all K L rnd os dir pass k ss disk = (None, disk') \<and>
      (\<forall>s \<in> set ss. Load K L disk' (keystore_path dir (share_Index s)) pass = Inr s) \<and>
      (\<forall>p. (\<forall>s \<in> set ss. p \<noteq> keystore_path dir (share_Index s) \<and> p \<noteq> keystore_path dir (share_Index s) @ ''.tmp'') \<longrightarrow>
        disk' p = disk p)"
proof (induction ss arbitrary: k disk)
  case (Cons s ss)
  let ?path = "keystore_path dir (share_Index s)"
  obtain salt nonce where r: "rnd k = (Inr salt, Inr nonce)" "length nonce = gcm_nonce_size"
    using assms(5) by blast
  obtain disk1 where 1: "Save K L (rnd k) (os k) ?path pass s disk = (None, disk1)"
    "Load K L disk1 ?path pass = Inr s"
    "\<forall>p. p \<noteq> ?path \<longrightarrow> p \<noteq> ?path @ ''.tmp'' \<longrightarrow> disk1 p = disk p"
    using save_ok_loads[OF assms(1-4) r, of "os k" s ?path disk] assms(6) Cons.prems(1) by auto
  obtain disk2 where 2: "save_all K L rnd os dir pass (k + 1) ss disk1 = (None, disk2)"
    "\<forall>s \<in> set ss. Load K L disk2 (keystore_path dir (share_Index s)) pass = Inr s"
    "\<forall>p. (\<forall>s \<in> set ss. p \<noteq> keystore_path dir (share_Index s) \<and> p \<noteq> keystore_path dir (share_Index s) @ ''.tmp'') \<longrightarrow>
        disk2 p = disk1 p"
    using Cons.IH[of "k + 1" disk1] Cons.prems by auto
  have "disk2 ?path = disk1 ?path"
    using 2(3) Cons.prems(2) by (auto simp: image_iff)
  then have "Load K L disk2 ?path pass = Inr s" using 1(2) by (simp add: Load_def)
  with 1 2 show ?case by auto
qed simp

lemma unat_index: "p < n \<Longrightarrow> n \<le> 2 ^ 32 \<Longrightarrow> unat (word_of_nat p :: u32) = p"
  by (simp add: unsigned_of_nat take_bit_nat_eq_self)

lemma position_range_upt: "position_range from cnt = [from..<from + cnt]"
  by (simp add: position_range_def map_add_upt add.commute)

lemma shareIndices_range:
  assumes "length shares = n" and "\<forall>p < n. share_Index (shares ! p) = word_of_nat p" and "from + cnt \<le> n"
  shows "shareIndices shares (position_range from cnt) = map word_of_nat [from..<from + cnt]"
  using assms by (simp add: shareIndices_def position_range_upt)

lemma aggregate_positions_error: "aggregate_positions K shares ps seed t n \<noteq> Inl QuorumsDisagree"
  by (simp add: aggregate_positions_def split: sum.splits)

text \<open>Every file \<open>dkg_main\<close> writes can be loaded.\<close>

lemma dkg_main_loads:
  assumes "keystore_laws L" and "scalar_codec K" and "g2_codec K" and "tool_passphrase given env = Inr pass"
    and "\<forall>k. \<exists>salt nonce. rnd k = (Inr salt, Inr nonce) \<and> length nonce = gcm_nonce_size" and "\<forall>k j. os k j = Fine"
    and "n \<le> 2 ^ 32" and "RunLocal K keccak D random n t epoch = Inr shares"
  shows "\<exists>pk disk'. dkg_main K keccak D random L rnd os Fine n t epoch dir given env disk = (Inr pk, disk') \<and>
     length pk = 4 \<and> SerializeG2 K (GroupPublic (hd shares)) = Inr pk \<and>
     (\<forall>s \<in> set shares. Load K L disk' (keystore_path dir (share_Index s)) pass = Inr s)"
proof -
  have m: "map Member shares = map (\<lambda>i. NewMember K (random i) (word_of_nat i)) [0..<n]"
    using run_local_hands_out[of t n K keccak D random epoch] assms(8) by blast
  have "Member s \<in> set (map Member shares)" if "s \<in> set shares" for s using that by simp
  then have ids: "\<forall>s \<in> set shares. Public (Member s) = map_option (\<lambda>l. mul_g2 K l (base_g2 K)) (Longterm (Member s))"
    unfolding m by (fastforce simp: NewMember_def)
  have "map share_Index shares = map member_Index (map Member shares)" by (simp add: share_Index_def)
  also have "\<dots> = map word_of_nat [0..<n]" unfolding m by (simp add: NewMember_def)
  finally have indices: "map share_Index shares = map word_of_nat [0..<n]" .
  have "inj_on (word_of_nat :: nat \<Rightarrow> u32) {0..<n}"
  proof (rule inj_onI)
    fix x y assume "x \<in> {0..<n}" "y \<in> {0..<n}" and eq: "word_of_nat x = (word_of_nat y :: u32)"
    then have "x < n" "y < n" by simp_all
    from unat_index[OF this(1) assms(7)] unat_index[OF this(2) assms(7)] eq show "x = y" by metis
  qed
  then have dist: "distinct (map share_Index shares)"
    unfolding indices by (simp add: distinct_map)
  obtain raw where "marshal_g2 K (GroupPublic (hd shares)) = Some raw" "length raw = 128"
    using assms(3) unfolding g2_codec_def by blast
  then obtain pk where pk: "SerializeG2 K (GroupPublic (hd shares)) = Inr pk" "length pk = 4"
    by (simp add: SerializeG2_def)
  have "pass \<noteq> ''''" using assms(4) by (auto simp: tool_passphrase_def Let_def split: if_splits)
  from save_all_loads[OF assms(1-3) this assms(5,6) ids dist, of dir 0 disk]
  obtain disk' where "save_all K L rnd os dir pass 0 shares disk = (None, disk')"
    "\<forall>s \<in> set shares. Load K L disk' (keystore_path dir (share_Index s)) pass = Inr s" by blast
  with pk assms(4,8) show ?thesis by (simp add: dkg_main_def)
qed

lemma demo_ceremony_of_three: "\<exists>shares. RunLocal small_kyber id demo_library of_nat 3 2 1 = Inr shares"
proof -
  let ?ms = "map (\<lambda>i. NewMember small_kyber (of_nat i) (word_of_nat i)) [0..<3]"
  have "\<forall>m \<in> set ?ms. Public m \<noteq> None" by (auto simp: NewMember_def)
  then obtain nonce where n: "SessionNonce small_kyber id 1 ?ms = Inr nonce"
    using session_preimage_eq[OF small_codecs(1), of ?ms 1] by (simp add: SessionNonce_def)
  show ?thesis
    unfolding RunLocal_def Let_def n by (simp add: demo_collect_eq alwaysTrue_def)
qed

section \<open>Properties\<close>

text \<open>
  Any two quorums of a ceremony agree.  For a library that keeps the laws of its ceremony and operators that draw
  different keys, the generator never reports that two
  quorums disagreed; the signatures it writes for the first and the last operators are
  the same text, the group signature on the seed, and the quorums are the first and
  the last \<open>t\<close> indices, which have operators in common when \<open>2t > n\<close>.
\<close>

theorem vector_quorums_agree:
  assumes "kyber_laws K" and "small_group K (int n)" and "n \<le> 2 ^ 32" and "dkg_laws D K" and "distinct_keys K random n"
  shows "run_vector K keccak D random fresh n t epoch \<noteq> Inl QuorumsDisagree \<and>
    (\<forall>v. run_vector K keccak D random fresh n t epoch = Inr v \<longrightarrow>
       (\<exists>a raw. length a = t \<and> SignatureBytes K (Sign K (peval a 0) vector_seed) = Inr raw \<and>
          v_SignatureQuorumA v = ''0x'' @ hex_encode raw \<and> v_SignatureQuorumB v = v_SignatureQuorumA v \<and>
          v_QuorumA v = map word_of_nat [0..<t] \<and> v_QuorumB v = map word_of_nat [n - t..<n]))"
proof (cases "RunLocal K keccak D random n (int t) epoch")
  case (Inl e)
  then show ?thesis by (simp add: run_vector_def)
next
  case (Inr shares)
  then have t: "0 < t" "t \<le> n" by (auto simp: RunLocal_def split: if_splits)
  have sh: "length shares = n" "\<forall>p < n. share_Index (shares ! p) = word_of_nat p"
    using run_local_indices[OF Inr] by auto
  obtain a where a: "length a = t" and d: "dealt_by a shares"
    using RunLocal_group_shares[OF assms(4,5,3) Inr] by (auto simp: group_shares_def)
  obtain raw where raw: "SignatureBytes K (Sign K (peval a 0) vector_seed) = Inr raw"
    "aggregate_positions K shares (position_range 0 t) vector_seed (int t) (int n) = Inr (''0x'' @ hex_encode raw)"
    using aggregate_positions_group[OF assms(1,2) a t assms(3) sh d, of 0 vector_seed] t by auto
  have "aggregate_positions K shares (position_range (n - t) t) vector_seed (int t) (int n) = Inr (''0x'' @ hex_encode raw)"
    using aggregate_positions_group[OF assms(1,2) a t assms(3) sh d, of "n - t" vector_seed] t raw(1) by auto
  moreover have "shareIndices shares (position_range 0 t) = map word_of_nat [0..<t]"
    using shareIndices_range[OF sh, of 0 t] t by simp
  moreover have "shareIndices shares (position_range (n - t) t) = map word_of_nat [n - t..<n]"
    using shareIndices_range[OF sh, of "n - t" t] t by simp
  moreover note raw
  ultimately show ?thesis using a
    by (auto simp: run_vector_def Inr aggregate_positions_error split: sum.splits intro!: exI[of _ a])
qed

theorem vector_quorums_agree_witness:
  "run_vector small_kyber id small_dealer of_nat 3 5 2 1 \<noteq> Inl QuorumsDisagree"
  using vector_quorums_agree[of small_kyber 5 small_dealer of_nat id 3 2 1]
    small_kyber_laws small_dealer_laws small_distinct_keys[of 5] small_kyber_group[of 5] by simp

text \<open>
  Every keystore the command writes can be used.  When the ceremony succeeds and the file system does
  what it is asked to, the command ends with the four coordinates of the group key, and
  for every operator the file named after its index loads, under the passphrase of the command, to
  exactly the share this operator was dealt.
\<close>

theorem keystores_of_the_ceremony_load:
  assumes "keystore_laws L" and "scalar_codec K" and "g2_codec K" and "tool_passphrase given env = Inr pass"
    and "\<forall>k. \<exists>salt nonce. rnd k = (Inr salt, Inr nonce) \<and> length nonce = gcm_nonce_size" and "\<forall>k j. os k j = Fine"
    and "n \<le> 2 ^ 32" and "RunLocal K keccak D random n t epoch = Inr shares"
  shows "\<exists>pk disk'. dkg_main K keccak D random L rnd os Fine n t epoch dir given env disk = (Inr pk, disk') \<and>
     length pk = 4 \<and> SerializeG2 K (GroupPublic (hd shares)) = Inr pk \<and>
     (\<forall>s \<in> set shares. Load K L disk' (keystore_path dir (share_Index s)) pass = Inr s)"
  by (rule dkg_main_loads[OF assms])

theorem keystores_of_the_ceremony_load_witness:
  "\<exists>pk disk'. dkg_main small_kyber id demo_library of_nat plain_keystore (\<lambda>k. (Inr [1], Inr (replicate 12 0)))
      (\<lambda>k j. Fine) Fine 3 2 1 ''keys'' '''' ''secret'' (\<lambda>p. None) = (Inr pk, disk') \<and> length pk = 4"
proof -
  obtain shares where "RunLocal small_kyber id demo_library of_nat 3 2 1 = Inr shares"
    using demo_ceremony_of_three by blast
  from keystores_of_the_ceremony_load[where given = "''''" and env = "''secret''" and pass = "''secret''" and
      rnd = "\<lambda>k. (Inr [1], Inr (replicate 12 0))" and os = "\<lambda>k j. Fine" and dir = "''keys''" and disk = "\<lambda>p. None",
      OF plain_keystore_laws small_codecs(2,1) _ _ _ _ this]
  show ?thesis by (auto simp: tool_passphrase_def gcm_nonce_size_def)
qed

end
