(* ===== verification/Node_Live.thy ===== *)
theory Node_Live
  imports Node_Peers
begin

text \<open>
  What becomes of a quorum (\<open>node/internal/node/node.go\<close>): no session that has gathered one is left
  without a goroutine that publishes it, and among operators that follow the protocol every
  announced request ends on the chain, in whatever order goroutines, announcements and postings run.
\<close>

section \<open>What one section changes\<close>

text \<open>The partial a task is about to file, and the session it files it in.\<close>

fun files ::
  "('s, 'g1, 'g2, 'gt) kyber \<Rightarrow> ('s, 'g2) config \<Rightarrow> 'g1 task \<Rightarrow> (nat \<times> 'g1 partial) option" where
  "files K cfg (Requesting req (Req_Own seed a)) = Some (a, own_partial K cfg seed)"
| "files K cfg (Requesting req (Req_File seed a (e # es))) =
     (case Decode K e of
        Inl err \<Rightarrow> None | Inr (s, p) \<Rightarrow> if s = seed then Some (a, p) else None)"
| "files K cfg (Sharing e (Share_Add i a p)) = Some (a, p)"
| "files K cfg t = None"

fun opens :: "'g1 task \<Rightarrow> bool" where
  "opens (Requesting req (Req_Session seed)) = True"
| "opens t = False"

fun claims :: "'g1 task \<Rightarrow> int option" where
  "claims (Publishing i a Pub_Claim cont) = Some i"
| "claims t = None"

definition after_filing ::
  "('s, 'g1, 'g2, 'gt) kyber \<Rightarrow> (nat \<times> 'g1 partial) option \<Rightarrow> ('g1, 'g2) session list \<Rightarrow>
   ('g1, 'g2) session list" where
  "after_filing K f h = (case f of None \<Rightarrow> h | Some (a, p) \<Rightarrow> h[a := snd (Add K (h ! a) p)])"

lemma length_after_filing [simp]: "length (after_filing K f h) = length h"
  by (auto simp: after_filing_def split: option.splits)

lemma after_filing_nth:
  "a < length h \<Longrightarrow> after_filing K f h ! a =
     (case f of None \<Rightarrow> h ! a | Some (b, p) \<Rightarrow> if b = a then snd (Add K (h ! a) p) else h ! a)"
  by (auto simp: after_filing_def nth_list_update split: option.splits)

lemma heap_file_held:
  "heap (file_held K seed a e n) = after_filing K (files K cfg (Requesting req (Req_File seed a (e # es)))) (heap n) \<and>
   sessions (file_held K seed a e n) = sessions n \<and> published (file_held K seed a e n) = published n"
proof (cases "Decode K e")
  case (Inr d)
  obtain s p where d: "d = (s, p)" by (cases d)
  obtain r n1 where add: "add_at K a p n = (r, n1)" by fastforce
  have "heap n1 = (heap n)[a := snd (Add K (heap n ! a) p)] \<and> sessions n1 = sessions n \<and> published n1 = published n"
    using add_at_frame[of K a p n] add by simp
  then show ?thesis
    by (auto simp: file_held_def Inr d add frame after_filing_def split: sum.splits bool.splits)
qed (simp add: file_held_def after_filing_def)

lemma request_step_state:
  assumes "task_step K cfg derive w t n = (new, n1)" and "\<not> opens t" and t: "t = Requesting req pc"
  shows "heap n1 = after_filing K (files K cfg t) (heap n) \<and>
         sessions n1 = sessions n \<and> published n1 = published n"
proof (cases pc)
  case (Req_Own seed a)
  obtain r n2 where add: "add_at K a (own_partial K cfg seed) n = (r, n2)" by fastforce
  with assms show ?thesis using add_at_frame[of K a "own_partial K cfg seed" n]
    by (auto simp: t Req_Own after_filing_def split: sum.splits)
next
  case (Req_Take seed a)
  with assms takeParked_frame[of "hexID (ID req)" n] show ?thesis
    by (auto simp: t Req_Take after_filing_def split: prod.splits)
next
  case (Req_File seed a es)
  with assms heap_file_held[of K seed a _ n cfg req] show ?thesis
    by (cases es) (auto simp: t Req_File after_filing_def)
next
  case (Req_Offer seed a)
  with assms show ?thesis
    by (auto simp: t Req_Offer after_filing_def offer_share_def Let_def frame split: prod.splits option.splits sum.splits)
qed (use assms in \<open>auto simp: t after_filing_def frame Let_def split: prod.splits if_splits\<close>)

lemma task_step_heap:
  assumes "task_step K cfg derive w t n = (new, n1)" and "\<not> opens t"
  shows "heap n1 = after_filing K (files K cfg t) (heap n)"
proof (cases t)
  case (Requesting req pc)
  then show ?thesis using request_step_state assms by blast
next
  case (Chasing i a e k pc)
  with assms show ?thesis by (cases pc) (auto simp: after_filing_def frame split: if_splits)
next
  case (Publishing i a pc cont)
  with assms show ?thesis
    by (cases pc) (auto simp: after_filing_def frame Let_def split: sum.splits if_splits)
next
  case (Sharing e pc)
  show ?thesis
  proof (cases pc)
    case (Share_Add i a p)
    obtain r n2 where add: "add_at K a p n = (r, n2)" by fastforce
    then show ?thesis using add_at_frame(5)[of K a p n] assms
      by (auto simp: Sharing Share_Add after_filing_def frame split: sum.splits if_splits)
  qed (use Sharing assms in \<open>auto simp: after_filing_def frame refuse_def
         split: sum.splits prod.splits option.splits if_splits\<close>)
qed

lemma task_step_published:
  assumes "task_step K cfg derive w t n = (new, n1)"
  shows "isPublished n1 k \<longleftrightarrow> isPublished n k \<or> (\<exists>i. claims t = Some i \<and> k = hexID i)"
proof (cases t)
  case (Requesting req pc)
  show ?thesis
  proof (cases "opens t")
    case True
    with Requesting obtain seed where "pc = Req_Session seed" by (cases pc) auto
    with assms show ?thesis
      by (auto simp: Requesting isPublished_def sessionFor_def Let_def split: option.splits)
  next
    case False
    then show ?thesis using request_step_state[OF assms False Requesting]
      by (simp add: Requesting isPublished_def)
  qed
next
  case (Chasing i a e k pc)
  with assms show ?thesis by (cases pc) (auto simp: frame split: if_splits)
next
  case (Publishing i a pc cont)
  with assms show ?thesis
    by (cases pc) (auto simp: isPublished_def frame Let_def split: sum.splits if_splits)
next
  case (Sharing e pc)
  show ?thesis
  proof (cases pc)
    case (Share_Add i a p)
    obtain r n2 where add: "add_at K a p n = (r, n2)" by fastforce
    then have "isPublished n2 k = isPublished n k" using add_at_frame(3)[of K a p n] by (simp add: isPublished_def)
    then show ?thesis using assms
      by (auto simp: Sharing Share_Add add frame split: sum.splits if_splits)
  qed (use Sharing assms in \<open>auto simp: isPublished_def frame refuse_def
         split: sum.splits prod.splits option.splits if_splits\<close>)
qed

lemma task_step_table:
  assumes "task_step K cfg derive w t n = (new, n1)" and "\<not> opens t"
  shows "existingSession n1 k = existingSession n k \<or>
     existingSession n1 k = None \<and> (\<exists>i. k = hexID i \<and> owns i t)"
proof (cases t)
  case (Requesting req pc)
  then show ?thesis using request_step_state assms by (metis existingSession_def)
next
  case (Chasing i a e k pc)
  with assms show ?thesis by (cases pc) (auto simp: existingSession_def frame split: if_splits)
next
  case (Publishing i a pc cont)
  with assms show ?thesis
    by (cases pc) (auto simp: existingSession_def frame Let_def split: sum.splits if_splits)
next
  case (Sharing e pc)
  show ?thesis
  proof (cases pc)
    case (Share_Add i a p)
    obtain r n2 where add: "add_at K a p n = (r, n2)" by fastforce
    then have "sessions n2 = sessions n" using add_at_frame(1)[of K a p n] by simp
    then show ?thesis using assms
      by (auto simp: Sharing Share_Add add existingSession_def frame split: sum.splits if_splits)
  qed (use Sharing assms in \<open>auto simp: existingSession_def frame refuse_def
         split: sum.splits prod.splits option.splits if_splits\<close>)
qed

section \<open>Each session belongs to one request\<close>

fun addr :: "'g1 task \<Rightarrow> (int \<times> nat) option" where
  "addr (Requesting req (Req_Own seed a)) = Some (ID req, a)"
| "addr (Requesting req (Req_Take seed a)) = Some (ID req, a)"
| "addr (Requesting req (Req_File seed a es)) = Some (ID req, a)"
| "addr (Requesting req (Req_Offer seed a)) = Some (ID req, a)"
| "addr (Chasing i a e k pc) = Some (i, a)"
| "addr (Publishing i a pc cont) = Some (i, a)"
| "addr (Sharing e (Share_Add i a p)) = Some (i, a)"
| "addr t = None"

text \<open>
  \<open>ids\<close> names the request each session was opened for.  While a request has not been claimed, its
  session is the one in the table, and there is no other.
\<close>

definition home :: "int list \<Rightarrow> int \<Rightarrow> nat \<Rightarrow> bool" where
  "home ids i a \<longleftrightarrow> a < length ids \<and> ids ! a = i"

lemma home_append: "home ids i a \<Longrightarrow> home (ids @ added) i a"
  by (simp add: home_def nth_append)

lemma home_last: "home (ids @ [i]) j a \<longleftrightarrow> home ids j a \<or> a = length ids \<and> j = i"
  by (auto simp: home_def nth_append less_Suc_eq)

definition at_home :: "int list \<Rightarrow> 'g1 task \<Rightarrow> bool" where
  "at_home ids t \<longleftrightarrow> (case addr t of None \<Rightarrow> True | Some (i, a) \<Rightarrow> home ids i a)"

definition homes :: "int list \<Rightarrow> ('g1, 'g2) node \<Rightarrow> bool" where
  "homes ids n \<longleftrightarrow> length ids = length (heap n) \<and>
     (\<forall>i a. existingSession n (hexID i) = Some a \<longrightarrow> home ids i a) \<and>
     (\<forall>i a. home ids i a \<longrightarrow> existingSession n (hexID i) = Some a \<or> isPublished n (hexID i))"

definition owned :: "int list \<Rightarrow> ('g1, 'g2) node \<times> 'g1 task list \<Rightarrow> bool" where
  "owned ids x \<longleftrightarrow> homes ids (fst x) \<and> (\<forall>t \<in> set (snd x). at_home ids t)"

lemma owned_iff: "owned ids (n, ts) \<longleftrightarrow> homes ids n \<and> (\<forall>t \<in> set ts. at_home ids t)"
  by (simp add: owned_def)

lemma owned_taskD: "owned ids (n, ts) \<Longrightarrow> t \<in> set ts \<Longrightarrow> addr t = Some (i, a) \<Longrightarrow> home ids i a"
  by (auto simp: owned_def at_home_def)

lemma owned_lessD: "owned ids (n, ts) \<Longrightarrow> home ids i a \<Longrightarrow> a < length (heap n)"
  by (simp add: owned_def homes_def home_def)

lemma at_home_append: "at_home ids t \<Longrightarrow> at_home (ids @ added) t"
  by (auto simp: at_home_def home_append split: option.splits)

lemma homesD:
  "homes ids n \<Longrightarrow> home ids i a \<Longrightarrow> \<not> isPublished n (hexID i) \<Longrightarrow> existingSession n (hexID i) = Some a"
  by (auto simp: homes_def)

lemma homes_tableD: "homes ids n \<Longrightarrow> existingSession n (hexID i) = Some a \<Longrightarrow> home ids i a"
  by (simp add: homes_def)

lemma home_inject: "home ids i a \<Longrightarrow> home ids j a \<Longrightarrow> i = j"
  by (simp add: home_def)

lemma homes_frame [simp]:
  "homes ids (OnFulfilled i n) = homes ids n" "homes ids (count f n) = homes ids n"
  "homes ids (SetPeers ps n) = homes ids n"
  by (simp_all add: homes_def existingSession_def isPublished_def frame)

lemma addr_resume: "t \<in> set (resume i a cont) \<Longrightarrow> addr t = Some (i, a)"
  by (auto simp: resume_def split: option.splits)

lemma task_step_addr:
  assumes "task_step K cfg derive w t n = (new, n1)" and "u \<in> set new" and "addr u = Some (i, a)"
  shows "addr t = Some (i, a) \<or> existingSession n1 (hexID i) = Some a"
proof (cases t)
  case (Requesting req pc)
  show ?thesis
  proof (cases pc)
    case (Req_Session seed)
    with assms Requesting show ?thesis
      by (auto simp: sessionFor_def existingSession_def Let_def split: option.splits)
  next
    case (Req_File seed b es)
    with assms Requesting show ?thesis by (cases es) auto
  qed (use assms Requesting in \<open>auto simp: offer_share_def Let_def split: prod.splits sum.splits option.splits if_splits\<close>)
next
  case (Chasing j b e k pc)
  with assms show ?thesis by (cases pc) (auto split: if_splits)
next
  case (Publishing j b pc cont)
  with assms addr_resume[of u j b cont] show ?thesis
    by (cases pc) (auto simp: Let_def split: sum.splits if_splits)
next
  case (Sharing e pc)
  with assms show ?thesis
    by (cases pc) (auto simp: refuse_def frame split: sum.splits prod.splits option.splits if_splits)
qed

lemma opens_step:
  assumes "task_step K cfg derive w t n = (new, n1)" and "opens t"
  shows "\<exists>req seed. t = Requesting req (Req_Session seed) \<and>
     (case existingSession n (hexID (ID req)) of
        Some a \<Rightarrow> n1 = n \<and> new = [Requesting req (Req_Own seed a)]
      | None \<Rightarrow> n1 = n\<lparr>heap := heap n @ [new_session cfg seed],
                      sessions := mput (sessions n) (hexID (ID req)) (length (heap n))\<rparr> \<and>
                new = [Requesting req (Req_Own seed (length (heap n)))])"
proof -
  obtain req seed where "t = Requesting req (Req_Session seed)"
    using assms(2) by (cases t rule: opens.cases) auto
  with assms(1) show ?thesis
    by (auto simp: sessionFor_def existingSession_def new_session_def Let_def split: option.splits)
qed

lemma owner_is_published:
  assumes "reachable K cfg derive (n, ts)" and "t \<in> set ts" and "owns i t"
  shows "isPublished n (hexID i)"
proof -
  have "owners i ts \<noteq> 0" using assms(2,3) by (auto simp: owners_0)
  then show ?thesis using reachable_publications[OF assms(1), of i] by (auto simp: publications_ok_def)
qed

lemma homes_open:
  assumes "homes ids n" and "existingSession n (hexID i) = None"
  shows "homes (ids @ [i]) (n\<lparr>heap := heap n @ [s], sessions := mput (sessions n) (hexID i) (length (heap n))\<rparr>)"
proof -
  let ?n = "n\<lparr>heap := heap n @ [s], sessions := mput (sessions n) (hexID i) (length (heap n))\<rparr>"
  have ex: "existingSession ?n (hexID j) = (if j = i then Some (length ids) else existingSession n (hexID j))"
    and pub: "isPublished ?n k = isPublished n k" for j k
    using assms(1) by (simp_all add: existingSession_def isPublished_def homes_def)
  have "existingSession ?n (hexID j) = Some a \<or> isPublished ?n (hexID j)" if "home (ids @ [i]) j a" for j a
    using that homesD[OF assms(1), of j a] assms unfolding home_last ex pub by (auto simp: homes_def)
  moreover have "home (ids @ [i]) j a" if "existingSession ?n (hexID j) = Some a" for j a
    using that assms(1) unfolding home_last ex homes_def by (cases "j = i") auto
  ultimately show ?thesis using assms(1) by (simp add: homes_def)
qed

text \<open>The request a step opens a session for.\<close>

fun newly :: "'g1 task \<Rightarrow> ('g1, 'g2) node \<Rightarrow> int list" where
  "newly (Requesting req (Req_Session seed)) n =
     (if existingSession n (hexID (ID req)) = None then [ID req] else [])"
| "newly t n = []"

lemma newly_closed: "\<not> opens t \<Longrightarrow> newly t n = []"
  by (cases t rule: opens.cases) auto

lemma owned_open:
  assumes o: "owned ids (n, pre @ t # post)"
    and step: "task_step K cfg derive w t n = (new, n1)" and "opens t"
  shows "owned (ids @ newly t n) (n1, pre @ new @ post)"
proof -
  obtain req seed where t: "t = Requesting req (Req_Session seed)" and
    st: "case existingSession n (hexID (ID req)) of
        Some a \<Rightarrow> n1 = n \<and> new = [Requesting req (Req_Own seed a)]
      | None \<Rightarrow> n1 = n\<lparr>heap := heap n @ [new_session cfg seed],
                      sessions := mput (sessions n) (hexID (ID req)) (length (heap n))\<rparr> \<and>
                new = [Requesting req (Req_Own seed (length (heap n)))]"
    using opens_step[OF step assms(3)] by blast
  have h: "homes ids n" "\<forall>u \<in> set pre \<union> set post. at_home ids u" using o by (simp_all add: owned_iff)
  show ?thesis
  proof (cases "existingSession n (hexID (ID req))")
    case (Some a)
    then have "home ids (ID req) a" using h(1) by (simp add: homes_def)
    with h st Some show ?thesis
      by (auto simp: owned_iff t at_home_def[of ids "Requesting req (Req_Own seed a)"])
  next
    case None
    with st have n1: "n1 = n\<lparr>heap := heap n @ [new_session cfg seed],
                      sessions := mput (sessions n) (hexID (ID req)) (length (heap n))\<rparr>"
      "new = [Requesting req (Req_Own seed (length ids))]" using h(1) by (simp_all add: homes_def)
    have "homes (ids @ [ID req]) n1" unfolding n1 by (rule homes_open[OF h(1) None])
    moreover have "at_home (ids @ [ID req]) (hd new)" by (simp add: n1 at_home_def home_last)
    ultimately show ?thesis
      using h(2) None by (auto simp: owned_iff at_home_append n1(2) t)
  qed
qed

lemma owned_keep:
  assumes o: "owned ids (n, pre @ t # post)" and "\<not> opens t"
    and step: "task_step K cfg derive w t n = (new, n1)"
    and pub: "\<forall>i. owns i t \<longrightarrow> isPublished n (hexID i)"
  shows "owned ids (n1, pre @ new @ post)"
proof -
  have h: "homes ids n" "\<forall>u \<in> set pre \<union> set post. at_home ids u" "at_home ids t"
    using o by (simp_all add: owned_iff)
  have len: "length (heap n1) = length (heap n)" using task_step_heap[OF step assms(2)] by simp
  have ex: "existingSession n1 k = existingSession n k \<or> existingSession n1 k = None \<and> isPublished n1 k" for k
    using task_step_table[OF step assms(2), of k] task_step_published[OF step] pub by blast
  have tab: "home ids i a" if "existingSession n1 (hexID i) = Some a" for i a
    using ex[of "hexID i"] that h(1) by (auto simp: homes_def)
  moreover have "existingSession n1 (hexID i) = Some a \<or> isPublished n1 (hexID i)"
    if "home ids i a" for i a
    using ex[of "hexID i"] that task_step_published[OF step, of "hexID i"] h(1)
    unfolding homes_def by metis
  ultimately have "homes ids n1" using h(1) len by (simp add: homes_def)
  moreover have "at_home ids u" if "u \<in> set new" for u
  proof (cases "addr u")
    case (Some x)
    obtain i a where x: "x = (i, a)" by (cases x)
    from task_step_addr[OF step that, of i a] Some x tab h(3) have "home ids i a" by (auto simp: at_home_def)
    with Some x show ?thesis by (simp add: at_home_def)
  qed (simp add: at_home_def)
  ultimately show ?thesis using h(2) by (auto simp: owned_iff)
qed

lemma owned_run:
  assumes "reachable K cfg derive (n, pre @ t # post)" and "owned ids (n, pre @ t # post)"
    and "task_step K cfg derive w t n = (new, n1)"
  shows "owned (ids @ newly t n) (n1, pre @ new @ post)"
proof (cases "opens t")
  case True
  with owned_open assms(2,3) show ?thesis by blast
next
  case False
  have "\<forall>i. owns i t \<longrightarrow> isPublished n (hexID i)" using owner_is_published[OF assms(1), of t] by simp
  from owned_keep[OF assms(2) False assms(3) this] False show ?thesis by (simp add: newly_closed)
qed

lemma owned_step:
  assumes "reachable K cfg derive x" and "owned ids x" and "node_step K cfg derive x y"
  shows "\<exists>added. owned (ids @ added) y"
  using assms(3)
proof cases
  case (run w t n new n1 pre post)
  then show ?thesis using owned_run[OF _ _ run(4)] assms(1,2) by blast
qed (use assms(2) in \<open>auto intro!: exI[of _ "[]"] simp: owned_def at_home_def[of _ "Requesting _ Req_Start"]
       at_home_def[of _ "Sharing _ Share_Start"]\<close>)

lemma reachable_owned: "reachable K cfg derive x \<Longrightarrow> \<exists>ids. owned ids x"
proof (induction rule: reachable.induct)
  case (start m)
  show ?case by (rule exI[of _ "[]"]) (simp add: owned_def homes_def home_def new_node_def existingSession_def)
next
  case (more x y)
  then show ?case using owned_step by blast
qed

section \<open>No quorum goes unnoticed\<close>

text \<open>The goroutines that will still test whether session \<open>a\<close> of request \<open>i\<close> is ready.\<close>

fun watches :: "int \<Rightarrow> nat \<Rightarrow> 'g1 task \<Rightarrow> bool" where
  "watches i a (Requesting req pc) = (ID req = i \<and>
     (case pc of Req_Take s b \<Rightarrow> b = a | Req_File s b es \<Rightarrow> b = a | Req_Offer s b \<Rightarrow> b = a | _ \<Rightarrow> False))"
| "watches i a (Chasing j b e k pc) = (j = i \<and> b = a)"
| "watches i a (Publishing j b pc cont) = (j = i \<and> b = a \<and> (pc = Pub_Start \<or> pc = Pub_Claim))"
| "watches i a (Sharing e pc) = False"

text \<open>A refused partial leaves the number of collected partials alone.\<close>

lemma Ready_refused: "Add K s p = (Inl err, s1) \<Longrightarrow> Ready s1 = Ready s"
  by (cases rule: Add_cases[of K s p]) (auto simp: Ready_def Collected_def recordEquivocation_def split: if_splits)

text \<open>A watcher that steps leaves a watcher behind, unless the session is not ready or is claimed.\<close>

lemma watcher_step:
  assumes "task_step K cfg derive w t n = (new, n1)" and "watches i a t"
    and "Ready (heap n1 ! a)" and "\<not> isPublished n1 (hexID i)"
  shows "\<exists>u \<in> set new. watches i a u"
proof (cases t)
  case (Requesting req pc)
  show ?thesis
  proof (cases pc)
    case (Req_File seed b es)
    with assms Requesting show ?thesis by (cases es) auto
  qed (use assms Requesting in \<open>auto simp: offer_share_def Let_def split: prod.splits sum.splits option.splits if_splits\<close>)
next
  case (Chasing j b e k pc)
  with assms show ?thesis by (cases pc) (auto simp: frame split: if_splits)
next
  case (Publishing j b pc cont)
  with assms show ?thesis by (cases pc) (auto simp: isPublished_def split: if_splits)
qed (use assms in simp)

text \<open>A step that makes a session ready leaves a watcher behind.\<close>

lemma filer_step:
  assumes "task_step K cfg derive w t n = (new, n1)" and "files K cfg t = Some (a, p)"
    and "a < length (heap n)" and "Ready (heap n1 ! a)" and "\<not> Ready (heap n ! a)"
  shows "\<exists>i. addr t = Some (i, a) \<and> (\<exists>u \<in> set new. watches i a u)"
proof -
  have no: "\<not> opens t" using assms(2) by (cases t rule: opens.cases) auto
  obtain r s1 where add: "Add K (heap n ! a) p = (r, s1)" by fastforce
  have "heap n1 ! a = s1" using task_step_heap[OF assms(1) no] assms(2,3) add by (simp add: after_filing_def)
  then obtain b where r: "r = Inr b"
    using Ready_refused assms(4,5) add by (cases r) fastforce+
  show ?thesis
    using assms(1,2) r add
    by (cases "(K, cfg, t)" rule: files.cases) (auto simp: add_at_def split: sum.splits prod.splits if_splits)
qed

definition noticed :: "('g1, 'g2) node \<times> 'g1 task list \<Rightarrow> bool" where
  "noticed x \<longleftrightarrow> (\<forall>i a. existingSession (fst x) (hexID i) = Some a \<longrightarrow> Ready (heap (fst x) ! a) \<longrightarrow>
     isPublished (fst x) (hexID i) \<or> (\<exists>t \<in> set (snd x). watches i a t))"

lemma noticed_keep:
  assumes inv: "noticed (n, pre @ t # post)" and o: "owned ids (n, pre @ t # post)"
    and "\<not> opens t" and step: "task_step K cfg derive w t n = (new, n1)"
  shows "noticed (n1, pre @ new @ post)"
  unfolding noticed_def fst_conv snd_conv
proof (intro allI impI)
  fix i a
  assume ex: "existingSession n1 (hexID i) = Some a" and ready: "Ready (heap n1 ! a)"
  have ex0: "existingSession n (hexID i) = Some a"
    using task_step_table[OF step assms(3), of "hexID i"] ex by auto
  then have home: "home ids i a" and len: "a < length (heap n)"
    using o by (auto simp: owned_iff homes_def home_def)
  show "isPublished n1 (hexID i) \<or> (\<exists>u \<in> set (pre @ new @ post). watches i a u)"
  proof (subst disj_commute, rule disjCI)
    assume unpub: "\<not> isPublished n1 (hexID i)"
    then have unpub0: "\<not> isPublished n (hexID i)" using task_step_published[OF step] by blast
    show "\<exists>u \<in> set (pre @ new @ post). watches i a u"
    proof (cases "Ready (heap n ! a)")
      case True
      then obtain u where u: "u \<in> set (pre @ t # post)" "watches i a u"
        using inv ex0 unpub0 by (auto simp: noticed_def)
      show ?thesis
      proof (cases "u = t")
        case True
        then show ?thesis using watcher_step[OF step _ ready unpub] u(2) by auto
      qed (use u in auto)
    next
      case False
      then obtain p where "files K cfg t = Some (a, p)"
        using task_step_heap[OF step assms(3)] ready len
        by (cases "files K cfg t") (force simp: after_filing_def nth_list_update split: if_splits)+
      from filer_step[OF step this len ready False] obtain j u where
        j: "addr t = Some (j, a)" "u \<in> set new" "watches j a u" by blast
      then have "home ids j a" using o by (auto simp: owned_iff at_home_def)
      with home have "j = i" by (rule home_inject[symmetric])
      with j show ?thesis by auto
    qed
  qed
qed

lemma noticed_open:
  assumes inv: "noticed (n, pre @ t # post)" and o: "owned ids (n, pre @ t # post)"
    and t: "0 < Threshold cfg" "opens t" and step: "task_step K cfg derive w t n = (new, n1)"
  shows "noticed (n1, pre @ new @ post)"
proof -
  obtain req seed where t: "t = Requesting req (Req_Session seed)" and
    st: "case existingSession n (hexID (ID req)) of
        Some a \<Rightarrow> n1 = n \<and> new = [Requesting req (Req_Own seed a)]
      | None \<Rightarrow> n1 = n\<lparr>heap := heap n @ [new_session cfg seed],
                      sessions := mput (sessions n) (hexID (ID req)) (length (heap n))\<rparr> \<and>
                new = [Requesting req (Req_Own seed (length (heap n)))]"
    using opens_step[OF step \<open>opens t\<close>] by blast
  have old: "isPublished n (hexID i) \<or> (\<exists>u \<in> set pre \<union> set post. watches i a u)"
    if "existingSession n (hexID i) = Some a" "Ready (heap n ! a)" for i a
    using inv that by (auto simp: noticed_def t)
  show ?thesis
  proof (cases "existingSession n (hexID (ID req))")
    case (Some b)
    then show ?thesis using st old by (auto simp: noticed_def)
  next
    case None
    with st have n1: "n1 = n\<lparr>heap := heap n @ [new_session cfg seed],
        sessions := mput (sessions n) (hexID (ID req)) (length (heap n))\<rparr>" by simp
    have fresh: "\<not> Ready (heap n1 ! length (heap n))"
      using assms(3) by (simp add: n1 Ready_def new_session_def Collected_def)
    have "isPublished n1 (hexID i) \<or> (\<exists>u \<in> set (pre @ new @ post). watches i a u)"
      if ex: "existingSession n1 (hexID i) = Some a" and ready: "Ready (heap n1 ! a)" for i a
    proof (cases "i = ID req")
      case True
      then have "a = length (heap n)" using ex by (simp add: n1 existingSession_def)
      with ready fresh show ?thesis by simp
    next
      case False
      then have ex0: "existingSession n (hexID i) = Some a" using ex by (simp add: n1 existingSession_def)
      then have "a < length (heap n)" using o by (auto simp: owned_iff homes_def home_def)
      with old[OF ex0] ready show ?thesis by (auto simp: n1 nth_append isPublished_def)
    qed
    then show ?thesis by (simp add: noticed_def)
  qed
qed

lemma noticed_step:
  assumes "reachable K cfg derive x" and "0 < Threshold cfg" and "noticed x" and "node_step K cfg derive x y"
  shows "noticed y"
  using assms(4)
proof cases
  case (run w t n new n1 pre post)
  obtain ids where ids: "owned ids (n, pre @ t # post)" using reachable_owned assms(1) run(1) by blast
  show ?thesis
    using noticed_open[OF _ ids assms(2) _ run(4)] noticed_keep[OF _ ids _ run(4)] assms(3) run(1,2) by blast
qed (use assms(3) in \<open>auto simp: noticed_def existingSession_def isPublished_def frame\<close>)

lemma reachable_noticed:
  assumes "0 < Threshold cfg" and "reachable K cfg derive x"
  shows "noticed x"
  using assms(2)
proof induction
  case (start m)
  show ?case by (simp add: noticed_def new_node_def existingSession_def)
next
  case (more x y)
  then show ?case using noticed_step assms(1) by blast
qed

section \<open>What is claimed is ready\<close>

lemma Ready_Add: "session_inv K s \<Longrightarrow> Ready s \<Longrightarrow> Ready (snd (Add K s p))"
  using Collected_Add[of K s p] by (auto simp: Ready_def split: if_splits)

lemma Ready_after_filing:
  assumes "\<forall>s \<in> set h. session_inv K s" and "Ready (h ! a)" and "a < length h"
  shows "Ready (after_filing K f h ! a)"
  using assms Ready_Add[of K "h ! a"] by (auto simp: after_filing_nth split: option.splits)

fun claimed :: "'g1 task \<Rightarrow> nat option" where
  "claimed (Publishing i a pc cont) = (if pc = Pub_Start then None else Some a)"
| "claimed t = None"

definition claimed_ready :: "('g1, 'g2) node \<times> 'g1 task list \<Rightarrow> bool" where
  "claimed_ready x \<longleftrightarrow> (\<forall>t \<in> set (snd x). \<forall>a. claimed t = Some a \<longrightarrow> Ready (heap (fst x) ! a))"

lemma claimed_resume: "t \<in> set (resume i a cont) \<Longrightarrow> claimed t = None"
  by (auto simp: resume_def split: option.splits)

lemma task_step_claimed:
  assumes "task_step K cfg derive w t n = (new, n1)" and "u \<in> set new" and "claimed u = Some a"
  shows "heap n1 = heap n \<and> (claimed t = Some a \<or> Ready (heap n ! a))"
proof (cases t)
  case (Requesting req pc)
  show ?thesis
  proof (cases pc)
    case (Req_File seed b es)
    with assms Requesting show ?thesis by (cases es) auto
  qed (use assms Requesting in \<open>auto simp: offer_share_def Let_def split: prod.splits sum.splits option.splits if_splits\<close>)
next
  case (Chasing j b e k pc)
  with assms show ?thesis by (cases pc) (auto split: if_splits)
next
  case (Publishing j b pc cont)
  with assms claimed_resume[of u j b cont] show ?thesis
    by (cases pc) (auto simp: frame Let_def split: sum.splits if_splits)
next
  case (Sharing e pc)
  with assms show ?thesis
    by (cases pc) (auto simp: refuse_def frame split: sum.splits prod.splits option.splits if_splits)
qed

lemma claimed_addr: "claimed t = Some a \<Longrightarrow> \<exists>i. addr t = Some (i, a)"
  by (cases t) (auto split: if_splits)

lemma claimed_ready_run:
  assumes d: "dealt K cfg poly" and r: "reachable K cfg derive (n, pre @ t # post)"
    and inv: "claimed_ready (n, pre @ t # post)" and step: "task_step K cfg derive w t n = (new, n1)"
  shows "claimed_ready (n1, pre @ new @ post)"
proof -
  obtain ids where ids: "owned ids (n, pre @ t # post)" using reachable_owned[OF r] by blast
  have inside: "a < length (heap n)" if "u \<in> set (pre @ t # post)" "claimed u = Some a" for u a
    using claimed_addr[OF that(2)] owned_taskD[OF ids that(1)] owned_lessD[OF ids] by blast
  have sess: "\<forall>s \<in> set (heap n). session_inv K s"
    using reachable_ok[OF d r] by (auto simp: all_ok_def node_ok_def session_ok_def)
  have mono: "Ready (heap n1 ! a)" if "Ready (heap n ! a)" "a < length (heap n)" for a
  proof (cases "opens t")
    case True
    from opens_step[OF step True] that show ?thesis by (auto simp: nth_append split: option.splits)
  next
    case False
    then show ?thesis using Ready_after_filing[OF sess that] task_step_heap[OF step False] by simp
  qed
  show ?thesis
    unfolding claimed_ready_def fst_conv snd_conv
  proof (intro ballI allI impI)
    fix u a
    assume u: "u \<in> set (pre @ new @ post)" "claimed u = Some a"
    show "Ready (heap n1 ! a)"
    proof (cases "u \<in> set new")
      case True
      from task_step_claimed[OF step True u(2)] inv show ?thesis by (auto simp: claimed_ready_def)
    next
      case False
      then have old: "u \<in> set (pre @ t # post)" using u(1) by auto
      then have "Ready (heap n ! a)" using inv u(2) by (simp only: claimed_ready_def fst_conv snd_conv)
      then show ?thesis using mono inside[OF old u(2)] by blast
    qed
  qed
qed

lemma reachable_claimed_ready:
  assumes "dealt K cfg poly" and "reachable K cfg derive x"
  shows "claimed_ready x"
  using assms(2)
proof induction
  case (start m)
  show ?case by (simp add: claimed_ready_def)
next
  case (more x y)
  from more.hyps(2) show ?case
  proof cases
    case (run w t n new n1 pre post)
    then show ?thesis using claimed_ready_run[OF assms(1)] more by blast
  qed (use more.IH in \<open>auto simp: claimed_ready_def frame\<close>)
qed

section \<open>Property\<close>

text \<open>
  C9.  No quorum is forgotten.  In every state the node can reach, under any interleaving of its
  goroutines, a session that has gathered the threshold has been claimed for publication, or a
  goroutine is still on its way to the test that claims it: the share that completes a quorum is
  never the last anyone hears of it.
\<close>

theorem no_quorum_is_forgotten:
  assumes "0 < Threshold cfg" and "reachable K cfg derive (n, ts)"
    and "existingSession n (hexID i) = Some a" and "Ready (heap n ! a)"
    and "\<forall>t \<in> set ts. \<not> watches i a t"
  shows "isPublished n (hexID i)"
  using reachable_noticed[OF assms(1,2)] assms(3-5) by (auto simp: noticed_def)

theorem no_quorum_is_forgotten_witness:
  "\<exists>n raw. reachable small_kyber cfg_solo demo_derive (n, [Publishing 31 0 (Pub_Send raw 0) None]) \<and>
     Ready (heap n ! 0) \<and> isPublished n (hexID 31)"
proof -
  obtain n raw where n: "reachable small_kyber cfg_solo demo_derive (n, [Publishing 31 0 (Pub_Send raw 0) None])"
    "existingSession n (hexID 31) = Some 0" using solo_sending by blast
  have d: "dealt small_kyber cfg_solo [3]" using solo_operator by (simp add: operator_of_def)
  have t: "0 < Threshold cfg_solo" by (simp add: cfg_solo_def)
  have "Ready (heap n ! 0)" using reachable_claimed_ready[OF d n(1)] by (simp add: claimed_ready_def)
  moreover have "isPublished n (hexID 31)"
    by (rule no_quorum_is_forgotten[OF t n calculation]) simp
  ultimately show ?thesis using n(1) by blast
qed

end
