(* ===== verification/Node_Quorum.thy ===== *)
theory Node_Quorum
  imports Node_Live
begin

text \<open>
  Among operators that follow the protocol, an announced request ends on the chain: whatever the
  order in which the goroutines of \<open>node/internal/node/node.go\<close> run, in which other requests and
  strangers' envelopes come in between, and in which the shares arrive.
\<close>

section \<open>Runs among honest operators\<close>

text \<open>What operator \<open>j\<close> of a group dealt by \<open>poly\<close> posts for request \<open>i\<close> (\<open>only_own_shares_are_sent\<close>).\<close>

definition honest_envelope ::
  "('s::field, 'g1, 'g2, 'gt) kyber \<Rightarrow> 's list \<Rightarrow> int \<Rightarrow> byte list \<Rightarrow> u32 \<Rightarrow> envelope \<Rightarrow> bool" where
  "honest_envelope K poly i seed j e \<longleftrightarrow>
     (\<exists>raw. SignatureBytes K (Sign K (share_at poly (uint j)) seed) = Inr raw \<and>
            e = envelope_of (hexID i) seed j raw)"

text \<open>The chain is reachable, the request open, the transaction accepted, the daemon not shut down.\<close>

definition calm :: "'g1 answer \<Rightarrow> bool" where
  "calm w \<longleftrightarrow> answer_ok w \<and> \<not> cancelled w \<and> is_open w \<noteq> Inr False \<and> (\<exists>hash. sent w = Inr hash)"

text \<open>This much is asked only of the answers to a goroutine that publishes request \<open>i\<close>.\<close>

definition calm_at :: "int \<Rightarrow> 'g1 task \<Rightarrow> 'g1 answer \<Rightarrow> bool" where
  "calm_at i t w \<longleftrightarrow> answer_ok w \<and> ((\<exists>a pc cont. t = Publishing i a pc cont) \<longrightarrow> calm w)"

lemma calm_at_publishing: "calm_at i (Publishing i a pc cont) w \<longleftrightarrow> calm w"
  by (auto simp: calm_at_def calm_def)

lemma calm_calm_at: "calm w \<Longrightarrow> calm_at i t w"
  by (simp add: calm_at_def calm_def)

text \<open>
  A run of the node in which request \<open>i\<close> is announced with its seed, what is posted for \<open>i\<close> comes
  from operators of the group, and nobody else settles \<open>i\<close>.  Everything about other requests, and
  every envelope that does not name \<open>i\<close>, is arbitrary.  \<open>D\<close> collects the operators whose share
  counts: its own when the request is announced, a peer's when it arrives while the session is open,
  and those that came earlier and were parked when \<open>OnRequest\<close> takes them (\<open>taken\<close>).  A share that
  finds no session but is parked only after \<open>OnRequest\<close> has taken them is not counted
  (\<open>race_strands_a_share\<close>).
\<close>

fun taken :: "int \<Rightarrow> 'g1 task \<Rightarrow> ('g1, 'g2) node \<Rightarrow> u32 set" where
  "taken i (Requesting req (Req_Take s a)) n = (if ID req = i then env_Index ` set (held_for n (hexID i)) else {})"
| "taken i t n = {}"

inductive calm_run ::
  "('s::field, 'g1, 'g2, 'gt) kyber \<Rightarrow> ('s, 'g2) config \<Rightarrow> (int \<Rightarrow> byte list \<Rightarrow> byte list) \<Rightarrow>
   's list \<Rightarrow> int \<Rightarrow> byte list \<Rightarrow> u32 set \<Rightarrow> ('g1, 'g2) node \<times> 'g1 task list \<Rightarrow> bool"
  for K cfg derive poly i seed where
  start: "calm_run K cfg derive poly i seed {} (new_node m, [])"
| announce: "calm_run K cfg derive poly i seed D (n, ts) \<Longrightarrow>
    ID req = i \<longrightarrow> derive i (Consumer req) = seed \<and> req_Seed req = seed \<Longrightarrow>
    calm_run K cfg derive poly i seed (if ID req = i then insert (share_Index (Share cfg)) D else D)
      (n, ts @ [Requesting req Req_Start])"
| stranger: "calm_run K cfg derive poly i seed D (n, ts) \<Longrightarrow> parse_id (env_RequestID e) \<noteq> Some i \<Longrightarrow>
    calm_run K cfg derive poly i seed D (n, ts @ [Sharing e Share_Start])"
| peer: "calm_run K cfg derive poly i seed D (n, ts) \<Longrightarrow> honest_envelope K poly i seed j e \<Longrightarrow>
    uint j < Operators cfg \<Longrightarrow>
    calm_run K cfg derive poly i seed (if existingSession n (hexID i) = None then D else insert j D)
      (n, ts @ [Sharing e Share_Start])"
| settle: "calm_run K cfg derive poly i seed D (n, ts) \<Longrightarrow> j \<noteq> i \<Longrightarrow>
    calm_run K cfg derive poly i seed D (OnFulfilled j n, ts)"
| scanned: "calm_run K cfg derive poly i seed D (n, ts) \<Longrightarrow>
    calm_run K cfg derive poly i seed D (count (BlockSeen b) n, ts)"
| attach: "calm_run K cfg derive poly i seed D (n, ts) \<Longrightarrow>
    calm_run K cfg derive poly i seed D (SetPeers ps n, ts)"
| run: "calm_run K cfg derive poly i seed D (n, pre @ t # post) \<Longrightarrow> calm_at i t w \<Longrightarrow>
    task_step K cfg derive w t n = (new, n1) \<Longrightarrow>
    calm_run K cfg derive poly i seed (D \<union> taken i t n) (n1, pre @ new @ post)"

lemma calm_reachable: "calm_run K cfg derive poly i seed D x \<Longrightarrow> reachable K cfg derive x"
proof (induction rule: calm_run.induct)
  case (run D n pre t post w new n1)
  have "node_step K cfg derive (n, pre @ t # post) (n1, pre @ new @ post)"
    using run.hyps(2,3) by (intro node_step.run) (simp_all add: calm_at_def)
  with run.IH show ?case by (rule reachable.more)
qed (blast intro: reachable.intros node_step.intros)+

section \<open>What may be in flight for the request\<close>

definition genuine ::
  "('s::field, 'g1, 'g2, 'gt) kyber \<Rightarrow> ('s, 'g2) config \<Rightarrow> 's list \<Rightarrow> byte list \<Rightarrow> 'g1 partial \<Rightarrow> bool" where
  "genuine K cfg poly seed p \<longleftrightarrow> uint (Index p) < Operators cfg \<and> Sig p = Sig (honest_partial K poly seed (Index p))"

definition genuine_envelope ::
  "('s::field, 'g1, 'g2, 'gt) kyber \<Rightarrow> ('s, 'g2) config \<Rightarrow> 's list \<Rightarrow> int \<Rightarrow> byte list \<Rightarrow> envelope \<Rightarrow> bool" where
  "genuine_envelope K cfg poly i seed e \<longleftrightarrow>
     (\<exists>j. honest_envelope K poly i seed j e \<and> uint j < Operators cfg)"

lemma genuine_decodes:
  assumes "kyber_laws K" and "length seed = 32" and "genuine_envelope K cfg poly i seed e"
  shows "\<exists>p. Decode K e = Inr (seed, p) \<and> genuine K cfg poly seed p \<and> Index p = env_Index e \<and>
             parse_id (env_RequestID e) = Some i"
proof -
  obtain j raw where j: "SignatureBytes K (Sign K (share_at poly (uint j)) seed) = Inr raw"
    "e = envelope_of (hexID i) seed j raw" "uint j < Operators cfg"
    using assms(3) by (auto simp: genuine_envelope_def honest_envelope_def)
  have "Decode K e = Inr (seed, honest_partial K poly seed j)"
    using Decode_envelope_of[OF assms(2) j(1)] assms(1) by (simp add: j(2) kyber_laws_def honest_partial_def)
  then show ?thesis using j(3) by (simp add: genuine_def j(2) envelope_of_def)
qed

fun request_calm ::
  "('s::field, 'g1, 'g2, 'gt) kyber \<Rightarrow> ('s, 'g2) config \<Rightarrow> 's list \<Rightarrow> int \<Rightarrow> byte list \<Rightarrow> request_pc \<Rightarrow> bool" where
  "request_calm K cfg poly i seed (Req_Settled s) = (s = seed)"
| "request_calm K cfg poly i seed (Req_Session s) = (s = seed)"
| "request_calm K cfg poly i seed (Req_Own s a) = (s = seed)"
| "request_calm K cfg poly i seed (Req_Take s a) = (s = seed)"
| "request_calm K cfg poly i seed (Req_File s a es) =
     (s = seed \<and> (\<forall>e \<in> set es. genuine_envelope K cfg poly i seed e))"
| "request_calm K cfg poly i seed (Req_Offer s a) = (s = seed)"
| "request_calm K cfg poly i seed pc = True"

fun share_calm ::
  "('s::field, 'g1, 'g2, 'gt) kyber \<Rightarrow> ('s, 'g2) config \<Rightarrow> 's list \<Rightarrow> int \<Rightarrow> byte list \<Rightarrow> envelope \<Rightarrow>
   'g1 share_pc \<Rightarrow> bool" where
  "share_calm K cfg poly i seed e Share_Start =
     (parse_id (env_RequestID e) = Some i \<longrightarrow> genuine_envelope K cfg poly i seed e)"
| "share_calm K cfg poly i seed e (Share_Find k s p) =
     (k = i \<longrightarrow> genuine_envelope K cfg poly i seed e \<and> s = seed \<and> genuine K cfg poly seed p)"
| "share_calm K cfg poly i seed e (Share_Park k) = (k = i \<longrightarrow> genuine_envelope K cfg poly i seed e)"
| "share_calm K cfg poly i seed e (Share_Add k a p) = (k = i \<longrightarrow> genuine K cfg poly seed p)"
| "share_calm K cfg poly i seed e (Share_Reject a err) = True"

fun publish_calm :: "publish_pc \<Rightarrow> bool" where
  "publish_calm Pub_Forget = False"
| "publish_calm (Pub_Backoff s k) = False"
| "publish_calm (Pub_Recheck s k) = False"
| "publish_calm (Pub_Send s k) = (k = 0)"
| "publish_calm pc = True"

fun calm_task ::
  "('s::field, 'g1, 'g2, 'gt) kyber \<Rightarrow> ('s, 'g2) config \<Rightarrow> (int \<Rightarrow> byte list \<Rightarrow> byte list) \<Rightarrow> 's list \<Rightarrow>
   int \<Rightarrow> byte list \<Rightarrow> 'g1 task \<Rightarrow> bool" where
  "calm_task K cfg derive poly i seed (Requesting req pc) = (ID req = i \<longrightarrow>
     derive i (Consumer req) = seed \<and> req_Seed req = seed \<and> request_calm K cfg poly i seed pc)"
| "calm_task K cfg derive poly i seed (Chasing k a e m pc) = True"
| "calm_task K cfg derive poly i seed (Publishing k a pc cont) = (k = i \<longrightarrow> publish_calm pc)"
| "calm_task K cfg derive poly i seed (Sharing e pc) = share_calm K cfg poly i seed e pc"

text \<open>Every share filed for the request is genuine, so no operator's place is lost.\<close>

definition clean_session :: "byte list \<Rightarrow> ('g1, 'g2) session \<Rightarrow> bool" where
  "clean_session seed s \<longleftrightarrow> s_seed s = seed \<and> (\<forall>j. \<not> burned s j)"

definition calm_node ::
  "('s::field, 'g1, 'g2, 'gt) kyber \<Rightarrow> ('s, 'g2) config \<Rightarrow> 's list \<Rightarrow> int \<Rightarrow> byte list \<Rightarrow> int list \<Rightarrow>
   ('g1, 'g2) node \<Rightarrow> bool" where
  "calm_node K cfg poly i seed ids n \<longleftrightarrow> \<not> knownSettled n (hexID i) \<and>
     (\<forall>e \<in> set (held_for n (hexID i)). genuine_envelope K cfg poly i seed e) \<and>
     (\<forall>a. home ids i a \<longrightarrow> clean_session seed (heap n ! a))"

section \<open>Every step keeps it so\<close>

lemma genuine_Add:
  assumes "kyber_laws K" and "s_commits s = commits_of K poly" and "s_operators s = Operators cfg"
    and "genuine K cfg poly (s_seed s) p" and "\<forall>j. \<not> burned s j"
  shows "(\<forall>j. \<not> burned (snd (Add K s p)) j) \<and> mget (s_partials (snd (Add K s p))) (Index p) \<noteq> None"
proof -
  have stored: "mget (s_partials (snd (Add K s p))) (Index p) \<noteq> None"
    using assms by (intro honest_Add_stores) (auto simp: genuine_def honest_partial_def)
  have "\<not> burned (snd (Add K s p)) j" for j
  proof (cases "j = Index p")
    case False
    have "\<not> burned s j" using assms(5) by blast
    with False show ?thesis
      by (cases rule: Add_cases[of K s p]) (auto simp: burned_def recordEquivocation_def)
  qed (use stored in \<open>simp add: burned_def\<close>)
  with stored show ?thesis by blast
qed

lemma add_at_memories:
  "add_at K a p n = (r, n1) \<Longrightarrow> settled n1 = settled n \<and> parked n1 = parked n"
  using add_at_frame[of K a p n] by simp

lemma file_held_memories:
  "settled (file_held K seed a e n) = settled n \<and> parked (file_held K seed a e n) = parked n"
  by (auto simp: file_held_def frame dest: add_at_memories split: sum.splits prod.splits bool.splits)

lemma task_step_settled:
  assumes "task_step K cfg derive w t n = (new, n1)"
  shows "settled n1 = settled n"
proof (cases t)
  case (Requesting req pc)
  show ?thesis
  proof (cases pc)
    case (Req_File seed a es)
    with assms Requesting file_held_memories[of K seed a _ n] show ?thesis by (cases es) auto
  next
    case (Req_Own seed a)
    with assms Requesting show ?thesis by (auto dest: add_at_memories split: sum.splits prod.splits)
  next
    case (Req_Take seed a)
    with assms Requesting takeParked_frame(5)[of "hexID (ID req)" n] show ?thesis by (auto split: prod.splits)
  qed (use assms Requesting in \<open>auto simp: offer_share_def Let_def frame sessionFor_def
         split: prod.splits sum.splits option.splits if_splits\<close>)
next
  case (Chasing j b e k pc)
  with assms show ?thesis by (cases pc) (auto simp: frame split: if_splits)
next
  case (Publishing j b pc cont)
  with assms show ?thesis by (cases pc) (auto simp: frame Let_def split: sum.splits if_splits)
next
  case (Sharing e pc)
  show ?thesis
  proof (cases pc)
    case (Share_Add j a p)
    with assms Sharing show ?thesis by (auto simp: frame dest: add_at_memories split: sum.splits prod.splits if_splits)
  qed (use assms Sharing in \<open>auto simp: refuse_def frame split: sum.splits prod.splits option.splits if_splits\<close>)
qed

lemma held_for_park:
  "e \<in> set (held_for (park cfg key e0 n) k) \<Longrightarrow> e \<in> set (held_for n k) \<or> (k = key \<and> e = e0)"
  by (auto simp: park_def held_for_def Let_def split: list.splits option.splits if_splits)

lemma held_for_cong: "parked n1 = parked n \<Longrightarrow> held_for n1 k = held_for n k"
  by (simp add: held_for_def)

lemma add_at_held: "add_at K a p n = (r, n1) \<Longrightarrow> held_for n1 k = held_for n k"
  using add_at_memories by (rule held_for_cong[OF conjunct2])

lemma held_for_takeParked: "takeParked key n = (es, n1) \<Longrightarrow> e \<in> set (held_for n1 k) \<Longrightarrow> e \<in> set (held_for n k)"
  by (auto simp: takeParked_def held_for_def split: option.splits if_splits)

lemma held_for_frame [simp]:
  "held_for (count f n) k = held_for n k" "held_for (emit ev n) k = held_for n k"
  "held_for (OnFulfilled j n) k = held_for n k" "held_for (SetPeers ps n) k = held_for n k"
  "held_for (forget u n) k = held_for n k" "held_for (n\<lparr>published := p\<rparr>) k = held_for n k"
  "held_for (n\<lparr>callbackGas := g\<rparr>) k = held_for n k"
  by (rule held_for_cong; simp add: frame)+

lemma task_step_held:
  assumes "task_step K cfg derive w t n = (new, n1)" and "e \<in> set (held_for n1 k)"
  shows "e \<in> set (held_for n k) \<or> (\<exists>j. t = Sharing e (Share_Park j) \<and> k = hexID j)"
proof (cases t)
  case (Requesting req pc)
  show ?thesis
  proof (cases pc)
    case (Req_File seed a es)
    with assms Requesting held_for_cong[OF conjunct2[OF file_held_memories], of K seed a _ n k]
    show ?thesis by (cases es) auto
  next
    case (Req_Own seed a)
    with assms Requesting show ?thesis
      by (auto simp: add_at_held split: sum.splits prod.splits)
  next
    case (Req_Take seed a)
    with assms Requesting show ?thesis by (auto dest: held_for_takeParked split: prod.splits)
  next
    case (Req_Session seed)
    with assms Requesting show ?thesis
      by (auto simp: sessionFor_def Let_def held_for_def split: prod.splits option.splits)
  qed (use assms Requesting in \<open>auto simp: offer_share_def Let_def
         split: prod.splits sum.splits option.splits if_splits\<close>)
next
  case (Chasing j b e k pc)
  with assms show ?thesis by (cases pc) (auto split: if_splits)
next
  case (Publishing j b pc cont)
  with assms show ?thesis by (cases pc) (auto simp: Let_def split: sum.splits if_splits)
next
  case (Sharing e0 pc)
  show ?thesis
  proof (cases pc)
    case (Share_Add j a p)
    with assms Sharing show ?thesis
      by (auto simp: add_at_held split: sum.splits prod.splits if_splits)
  next
    case (Share_Park j)
    with assms Sharing held_for_park[of e cfg "hexID j" e0 n k] show ?thesis by auto
  qed (use assms Sharing in \<open>auto simp: refuse_def split: sum.splits prod.splits option.splits if_splits\<close>)
qed

lemma files_addr: "files K cfg t = Some (a, p) \<Longrightarrow> \<exists>k. addr t = Some (k, a)"
  by (cases "(K, cfg, t)" rule: files.cases) (auto split: sum.splits if_splits)

lemma files_genuine:
  assumes "operator_of K cfg poly" and "length seed = 32" and "calm_task K cfg derive poly i seed t"
    and "files K cfg t = Some (a, p)" and "addr t = Some (i, a)"
  shows "genuine K cfg poly seed p"
proof (cases "(K, cfg, t)" rule: files.cases)
  case (1 K1 cfg1 req s b)
  with assms show ?thesis
    by (auto simp: genuine_def own_partial_honest operator_of_def own_partial_def)
next
  case (2 K1 cfg1 req s b e es)
  have "kyber_laws K" using assms(1) by (simp add: operator_of_def dealt_def)
  moreover have "genuine_envelope K cfg poly i seed e" "s = seed" using assms(3,5) 2 by auto
  ultimately obtain q where "Decode K e = Inr (seed, q)" "genuine K cfg poly seed q"
    using genuine_decodes assms(2) by blast
  with assms(4) 2 show ?thesis by (auto split: if_splits)
qed (use assms in auto)

lemma signs:
  assumes d: "dealt K cfg poly" and r: "reachable K cfg derive (n, ts)"
    and "Publishing i a Pub_Sign cont \<in> set ts" and "answer_ok w"
  shows "\<exists>raw. Signature K (ranged w) (heap n ! a) = Inr raw"
proof -
  have "Ready (heap n ! a)"
    using reachable_claimed_ready[OF d r] assms(3) by (auto simp: claimed_ready_def)
  moreover have "session_ok K cfg (heap n ! a)"
    using reachable_ok[OF d r] assms(3) by (fastforce simp: all_ok_def node_ok_def at_session_def)
  moreover obtain raw where "SignatureBytes K (Sign K (peval poly 0) (s_seed (heap n ! a))) = Inr raw"
    using d SignatureBytes_ok unfolding dealt_def kyber_laws_def by metis
  ultimately show ?thesis
    using d assms(4) by (subst Signature_ready[where a = poly]) (auto simp: dealt_def session_ok_def answer_ok_def)
qed

lemma calm_publish_step:
  assumes "operator_of K cfg poly" and "reachable K cfg derive (n, pre @ Publishing i a pc cont # post)"
    and "publish_calm pc" and "\<not> knownSettled n (hexID i)" and "calm w"
    and "publish_step K cfg w i a pc n = (Some pc1, n1)"
  shows "publish_calm pc1"
proof (cases pc)
  case Pub_Sign
  obtain raw where "Signature K (ranged w) (heap n ! a) = Inr raw"
    using signs[OF _ assms(2), of poly i a cont w] assms(1,5)
    by (auto simp: operator_of_def calm_def Pub_Sign)
  with assms(6) Pub_Sign show ?thesis by auto
qed (use assms in \<open>auto simp: calm_def Let_def split: if_splits\<close>)

lemma takeParked_held: "takeParked k n = (es, n1) \<Longrightarrow> es = held_for n k"
  by (auto simp: takeParked_def held_for_def split: option.splits)

lemma calm_request_step:
  assumes "calm_task K cfg derive poly i seed (Requesting req pc)"
    and "\<forall>e \<in> set (held_for n (hexID i)). genuine_envelope K cfg poly i seed e"
    and "task_step K cfg derive w (Requesting req pc) n = (new, n1)" and "u \<in> set new"
  shows "calm_task K cfg derive poly i seed u"
proof (cases pc)
  case (Req_File s a es)
  with assms show ?thesis by (cases es) auto
next
  case (Req_Take s a)
  with assms show ?thesis
    using takeParked_held[of "hexID (ID req)" n] by (auto split: prod.splits)
qed (use assms in \<open>auto simp: offer_share_def Let_def split: prod.splits sum.splits option.splits if_splits\<close>)

lemma calm_share_step:
  assumes "kyber_laws K" and "length seed = 32" and "share_calm K cfg poly i seed e pc"
    and "share_step K cfg e pc n = (new, n1)" and "u \<in> set new"
  shows "calm_task K cfg derive poly i seed u"
proof (cases pc)
  case Share_Start
  then obtain s p k where d: "Decode K e = Inr (s, p)" "parse_id (env_RequestID e) = Some k"
    "u = Sharing e (Share_Find k s p)"
    using assms(4,5) by (auto simp: refuse_def split: sum.splits option.splits)
  then show ?thesis
    using genuine_decodes[OF assms(1,2), of cfg poly i e] assms(3) Share_Start by auto
qed (use assms in \<open>auto simp: refuse_def split: sum.splits prod.splits option.splits if_splits\<close>)

lemma calm_task_step:
  assumes op: "operator_of K cfg poly" and len: "length seed = 32"
    and r: "reachable K cfg derive (n, pre @ t # post)"
    and t: "calm_task K cfg derive poly i seed t" and n: "calm_node K cfg poly i seed ids n"
    and w: "calm_at i t w" and step: "task_step K cfg derive w t n = (new, n1)" and u: "u \<in> set new"
  shows "calm_task K cfg derive poly i seed u"
proof (cases t)
  case (Requesting req pc)
  then show ?thesis using calm_request_step t step u n unfolding calm_node_def by blast
next
  case (Chasing j b e k pc)
  with step u show ?thesis by (cases pc) (auto split: if_splits)
next
  case (Publishing j b pc cont)
  have "publish_calm pc1" if "j = i" "publish_step K cfg w j b pc n = (Some pc1, n1)" for pc1
    using calm_publish_step[OF op, of derive n pre i b pc cont post w pc1 n1] r t n w that
    by (simp add: Publishing calm_node_def calm_at_publishing)
  with Publishing step u show ?thesis
    by (auto simp: resume_def split: prod.splits option.splits)
next
  case (Sharing e pc)
  have "kyber_laws K" using op by (simp add: operator_of_def dealt_def)
  with calm_share_step[OF this len] Sharing t step u show ?thesis by auto
qed

definition calm_inv ::
  "('s::field, 'g1, 'g2, 'gt) kyber \<Rightarrow> ('s, 'g2) config \<Rightarrow> (int \<Rightarrow> byte list \<Rightarrow> byte list) \<Rightarrow> 's list \<Rightarrow>
   int \<Rightarrow> byte list \<Rightarrow> int list \<Rightarrow> ('g1, 'g2) node \<times> 'g1 task list \<Rightarrow> bool" where
  "calm_inv K cfg derive poly i seed ids x \<longleftrightarrow> owned ids x \<and> calm_node K cfg poly i seed ids (fst x) \<and>
     (\<forall>t \<in> set (snd x). calm_task K cfg derive poly i seed t)"

lemma calm_node_frame [simp]:
  "calm_node K cfg poly i seed ids (count f n) = calm_node K cfg poly i seed ids n"
  "calm_node K cfg poly i seed ids (SetPeers ps n) = calm_node K cfg poly i seed ids n"
  by (simp_all add: calm_node_def knownSettled_def frame)

lemma knownSettled_trim: "mget m k \<noteq> Some True \<Longrightarrow> mget (fst (trim_settled m ks)) k \<noteq> Some True"
  by (induction m ks rule: trim_settled.induct) (auto split: if_splits)

lemma knownSettled_other:
  assumes "\<not> knownSettled n (hexID i)" and "j \<noteq> i"
  shows "\<not> knownSettled (OnFulfilled j n) (hexID i)"
proof -
  have "mget (mput (settled n) (hexID j) True) (hexID i) \<noteq> Some True"
    using assms by (simp add: knownSettled_def)
  from knownSettled_trim[OF this] assms(1) show ?thesis
    by (auto simp: OnFulfilled_def knownSettled_def Let_def split: prod.splits) (metis fst_conv)
qed

lemma calm_node_settle:
  "calm_node K cfg poly i seed ids n \<Longrightarrow> j \<noteq> i \<Longrightarrow> calm_node K cfg poly i seed ids (OnFulfilled j n)"
  using knownSettled_other[of n i j] by (simp add: calm_node_def frame)

lemma calm_node_keep:
  assumes op: "operator_of K cfg poly" and len: "length seed = 32"
    and r: "reachable K cfg derive (n, pre @ t # post)" and o: "owned ids (n, pre @ t # post)"
    and n: "calm_node K cfg poly i seed ids n" and t: "calm_task K cfg derive poly i seed t"
    and step: "task_step K cfg derive w t n = (new, n1)" and no: "\<not> opens t"
  shows "calm_node K cfg poly i seed ids n1"
proof -
  have d: "dealt K cfg poly" using op by (simp add: operator_of_def)
  have "clean_session seed (heap n1 ! a)" if a: "home ids i a" for a
  proof -
    have lt: "a < length (heap n)" using owned_lessD[OF o a] .
    have clean: "clean_session seed (heap n ! a)" using n a by (simp add: calm_node_def)
    have sess: "session_ok K cfg (heap n ! a)" using reachable_ok[OF d r] lt by (simp add: all_ok_def node_ok_def)
    have "genuine K cfg poly seed p" if f: "files K cfg t = Some (a, p)" for p
    proof -
      obtain k where k: "addr t = Some (k, a)" using files_addr[OF f] by blast
      then have "home ids k a" by (intro owned_taskD[OF o, of t]) simp_all
      with a have "k = i" by (rule home_inject[symmetric])
      with k show ?thesis using files_genuine[OF op len t f] by simp
    qed
    with clean sess d show ?thesis
      unfolding task_step_heap[OF step no] after_filing_nth[OF lt]
      using genuine_Add[of K "heap n ! a" poly cfg]
      by (auto simp: clean_session_def session_ok_def dealt_def split: option.splits)
  qed
  moreover have "genuine_envelope K cfg poly i seed e" if "e \<in> set (held_for n1 (hexID i))" for e
    using task_step_held[OF step that] t n by (auto simp: calm_node_def)
  ultimately show ?thesis using n task_step_settled[OF step] by (simp add: calm_node_def knownSettled_def)
qed

lemma calm_node_open:
  assumes len: "length ids = length (heap n)"
    and n: "calm_node K cfg poly i seed ids n" and t: "calm_task K cfg derive poly i seed t"
    and step: "task_step K cfg derive w t n = (new, n1)" and "opens t"
  shows "calm_node K cfg poly i seed (ids @ newly t n) n1"
proof -
  obtain req s where t': "t = Requesting req (Req_Session s)" and
    st: "case existingSession n (hexID (ID req)) of
        Some a \<Rightarrow> n1 = n \<and> new = [Requesting req (Req_Own s a)]
      | None \<Rightarrow> n1 = n\<lparr>heap := heap n @ [new_session cfg s],
                      sessions := mput (sessions n) (hexID (ID req)) (length (heap n))\<rparr> \<and>
                new = [Requesting req (Req_Own s (length (heap n)))]"
    using opens_step[OF step assms(5)] by blast
  show ?thesis
  proof (cases "existingSession n (hexID (ID req))")
    case (Some b)
    with n st show ?thesis by (simp add: t')
  next
    case None
    with st have n1: "n1 = n\<lparr>heap := heap n @ [new_session cfg s],
        sessions := mput (sessions n) (hexID (ID req)) (length (heap n))\<rparr>" by simp
    have "clean_session seed (heap n1 ! a)" if "home (ids @ [ID req]) i a" for a
    proof (cases "a = length ids")
      case True
      then have "ID req = i" using that by (simp add: home_def)
      with t have "s = seed" by (simp add: t')
      with True len show ?thesis by (simp add: n1 clean_session_def new_session_def burned_def)
    next
      case False
      then have "home ids i a" using that by (simp add: home_last)
      with n len show ?thesis by (auto simp: n1 calm_node_def home_def nth_append)
    qed
    moreover have "held_for n1 k = held_for n k" "knownSettled n1 k = knownSettled n k" for k
      by (simp_all add: n1 held_for_def knownSettled_def)
    ultimately show ?thesis using n None by (simp add: calm_node_def t')
  qed
qed

lemma calm_inv_run:
  assumes op: "operator_of K cfg poly" and len: "length seed = 32"
    and r: "reachable K cfg derive (n, pre @ t # post)"
    and inv: "calm_inv K cfg derive poly i seed ids (n, pre @ t # post)"
    and w: "calm_at i t w" and step: "task_step K cfg derive w t n = (new, n1)"
  shows "calm_inv K cfg derive poly i seed (ids @ newly t n) (n1, pre @ new @ post)"
proof -
  have o: "owned ids (n, pre @ t # post)" and n: "calm_node K cfg poly i seed ids n"
    and t: "calm_task K cfg derive poly i seed t"
    using inv by (simp_all add: calm_inv_def)
  have ids: "length ids = length (heap n)" using o by (simp add: owned_iff homes_def)
  have "calm_node K cfg poly i seed (ids @ newly t n) n1"
    using calm_node_open[OF ids n t step] calm_node_keep[OF op len r o n t step]
    by (cases "opens t") (simp_all add: newly_closed)
  then show ?thesis
    using inv owned_run[OF r o step] calm_task_step[OF op len r t n w step] by (auto simp: calm_inv_def)
qed

lemma calm_inv_task:
  "calm_inv K cfg derive poly i seed ids (n, ts) \<Longrightarrow> calm_task K cfg derive poly i seed t \<Longrightarrow> addr t = None \<Longrightarrow>
   calm_inv K cfg derive poly i seed ids (n, ts @ [t])"
  by (auto simp: calm_inv_def owned_def at_home_def)

lemma calm_run_inv:
  assumes op: "operator_of K cfg poly" and len: "length seed = 32"
    and "calm_run K cfg derive poly i seed D x"
  shows "\<exists>ids. calm_inv K cfg derive poly i seed ids x"
  using assms(3)
proof (induction rule: calm_run.induct)
  case (start m)
  show ?case
    by (rule exI[of _ "[]"]) (simp add: calm_inv_def owned_def homes_def home_def calm_node_def
        new_node_def existingSession_def knownSettled_def held_for_def)
next
  case (run D n pre t post w new n1)
  then show ?case using calm_inv_run[OF op len] calm_reachable by blast
next
  case (settle D n ts j)
  then obtain ids where "calm_inv K cfg derive poly i seed ids (n, ts)" by blast
  then have "calm_inv K cfg derive poly i seed ids (OnFulfilled j n, ts)"
    using settle.hyps(2) by (auto intro: calm_node_settle simp: calm_inv_def owned_def)
  then show ?case by blast
next
  case (announce D n ts req)
  then obtain ids where "calm_inv K cfg derive poly i seed ids (n, ts)" by blast
  then show ?case using calm_inv_task[of K cfg derive poly i seed ids n ts "Requesting req Req_Start"] announce.hyps(2)
    by auto
next
  case (stranger D n ts e)
  then obtain ids where "calm_inv K cfg derive poly i seed ids (n, ts)" by blast
  then show ?case using calm_inv_task[of K cfg derive poly i seed ids n ts "Sharing e Share_Start"] stranger.hyps(2)
    by auto
next
  case (peer D n ts j e)
  then obtain ids where "calm_inv K cfg derive poly i seed ids (n, ts)" by blast
  moreover have "genuine_envelope K cfg poly i seed e"
    using peer.hyps by (auto simp: genuine_envelope_def)
  ultimately show ?case using calm_inv_task[of K cfg derive poly i seed ids n ts "Sharing e Share_Start"]
    by auto
qed (auto simp: calm_inv_def owned_def)

section \<open>A claimed request reaches the chain\<close>

lemma calm_owner_step:
  assumes "publish_calm pc" and "pc \<noteq> Pub_Start" and "pc \<noteq> Pub_Claim" and "calm w"
    and "\<not> knownSettled n (hexID i)" and "pc = Pub_Sign \<longrightarrow> (\<exists>raw. Signature K (ranged w) (heap n ! a) = Inr raw)"
    and "task_step K cfg derive w (Publishing i a pc cont) n = (new, n1)"
  shows "(\<exists>u \<in> set new. owns i u) \<and> fulfills i (trace n1) = fulfills i (trace n) \<or>
     (\<exists>s. pc = Pub_Send s 0) \<and> fulfills i (trace n1) = Suc (fulfills i (trace n))"
  using assms by (cases pc) (auto simp: calm_def frame Let_def split: if_splits)

definition on_its_way :: "int \<Rightarrow> ('g1, 'g2) node \<times> 'g1 task list \<Rightarrow> bool" where
  "on_its_way i x \<longleftrightarrow> fulfills i (trace (fst x)) \<le> 1 \<and>
     (isPublished (fst x) (hexID i) \<longrightarrow> (\<exists>t \<in> set (snd x). owns i t) \<or> 0 < fulfills i (trace (fst x)))"

lemma on_its_way_run:
  assumes op: "operator_of K cfg poly"
    and r: "reachable K cfg derive (n, pre @ t # post)"
    and inv: "calm_inv K cfg derive poly i seed ids (n, pre @ t # post)"
    and way: "on_its_way i (n, pre @ t # post)"
    and w: "calm_at i t w" and step: "task_step K cfg derive w t n = (new, n1)"
  shows "on_its_way i (n1, pre @ new @ post)"
proof (cases "owns i t")
  case False
  then show ?thesis using task_step_account[OF step False] way reachable_publications[OF r, of i]
    by (auto simp: on_its_way_def same_account_def publications_ok_def)
next
  case True
  then obtain a pc cont where t: "t = Publishing i a pc cont" "pc \<noteq> Pub_Start" "pc \<noteq> Pub_Claim"
    by (cases t) auto
  have pc: "publish_calm pc" and k: "\<not> knownSettled n (hexID i)"
    using inv by (auto simp: calm_inv_def calm_node_def t)
  have sig: "pc = Pub_Sign \<longrightarrow> (\<exists>raw. Signature K (ranged w) (heap n ! a) = Inr raw)"
    using signs[OF _ r, of poly i a cont w] op w by (simp add: t operator_of_def calm_at_def)
  have zero: "pc = Pub_Send s 0 \<Longrightarrow> fulfills i (trace n) = 0" for s
    using reachable_publications[OF r, of i] by (auto simp: publications_ok_def t)
  from w have c: "calm w" by (simp add: t calm_at_publishing)
  from calm_owner_step[OF pc t(2,3) c k sig step[unfolded t]] zero way show ?thesis
    by (auto simp: on_its_way_def)
qed

lemma calm_run_on_its_way:
  assumes op: "operator_of K cfg poly" and len: "length seed = 32"
    and "calm_run K cfg derive poly i seed D x"
  shows "on_its_way i x"
  using assms(3)
proof (induction rule: calm_run.induct)
  case (start m)
  show ?case by (simp add: on_its_way_def new_node_def isPublished_def)
next
  case (run D n pre t post w new n1)
  then show ?case using calm_run_inv[OF op len run.hyps(1)] on_its_way_run[OF op calm_reachable[OF run.hyps(1)]]
    by blast
qed (auto simp: on_its_way_def isPublished_def frame)

section \<open>A share that has reached the node is counted\<close>

fun brings :: "('s, 'g2) config \<Rightarrow> int \<Rightarrow> u32 \<Rightarrow> 'g1 task \<Rightarrow> bool" where
  "brings cfg i j (Requesting req pc) = (ID req = i \<and>
     (case pc of Req_Take s a \<Rightarrow> False | Req_File s a es \<Rightarrow> j \<in> env_Index ` set es | Req_Offer s a \<Rightarrow> False
               | _ \<Rightarrow> j = share_Index (Share cfg)))"
| "brings cfg i j (Sharing e pc) =
     (case pc of Share_Start \<Rightarrow> parse_id (env_RequestID e) = Some i \<and> env_Index e = j
               | Share_Find k s p \<Rightarrow> k = i \<and> Index p = j | Share_Add k a p \<Rightarrow> k = i \<and> Index p = j
               | _ \<Rightarrow> False)"
| "brings cfg i j t = False"

fun posted :: "'g1 task \<Rightarrow> bool" where
  "posted (Sharing e pc) = True"
| "posted t = False"

definition stored :: "('g1, 'g2) node \<Rightarrow> int \<Rightarrow> u32 \<Rightarrow> bool" where
  "stored n i j \<longleftrightarrow> (\<exists>a. existingSession n (hexID i) = Some a \<and> mget (s_partials (heap n ! a)) j \<noteq> None)"

definition counted :: "('s, 'g2) config \<Rightarrow> int \<Rightarrow> u32 \<Rightarrow> ('g1, 'g2) node \<times> 'g1 task list \<Rightarrow> bool" where
  "counted cfg i j x \<longleftrightarrow> isPublished (fst x) (hexID i) \<or> stored (fst x) i j \<or>
     (\<exists>t \<in> set (snd x). brings cfg i j t \<and> (posted t \<longrightarrow> existingSession (fst x) (hexID i) \<noteq> None))"

lemma session_stays:
  assumes r: "reachable K cfg derive (n, pre @ t # post)" and step: "task_step K cfg derive w t n = (new, n1)"
    and "existingSession n (hexID i) = Some a" and "\<not> isPublished n1 (hexID i)"
  shows "existingSession n1 (hexID i) = Some a"
proof (cases "opens t")
  case True
  from opens_step[OF step True] assms(3) show ?thesis by (auto simp: existingSession_def split: option.splits)
next
  case False
  have "\<not> owns i t"
    using owner_is_published[OF r, of t i] task_step_published[OF step] assms(4) by auto
  with task_step_table[OF step False, of "hexID i"] assms(3) show ?thesis by auto
qed

lemma stored_step:
  assumes r: "reachable K cfg derive (n, pre @ t # post)" and o: "owned ids (n, pre @ t # post)"
    and step: "task_step K cfg derive w t n = (new, n1)"
    and st: "stored n i j" and "\<not> isPublished n1 (hexID i)"
  shows "stored n1 i j"
proof -
  obtain a where a: "existingSession n (hexID i) = Some a" "mget (s_partials (heap n ! a)) j \<noteq> None"
    using st by (auto simp: stored_def)
  have lt: "a < length (heap n)" using o a(1) by (intro owned_lessD[OF o, of i]) (auto simp: owned_iff homes_def)
  have "mget (s_partials (heap n1 ! a)) j \<noteq> None"
  proof (cases "opens t")
    case True
    from opens_step[OF step True] a lt show ?thesis by (auto simp: nth_append split: option.splits)
  next
    case False
    show ?thesis
      unfolding task_step_heap[OF step False] after_filing_nth[OF lt]
      using a(2) stored_stays[of "heap n ! a" j _ K "[q]" for q] by (auto split: option.splits)
  qed
  with session_stays[OF r step a(1) assms(5)] show ?thesis by (auto simp: stored_def)
qed

lemma filed_counts:
  assumes op: "operator_of K cfg poly" and len: "length seed = 32"
    and r: "reachable K cfg derive (n, pre @ t # post)"
    and inv: "calm_inv K cfg derive poly i seed ids (n, pre @ t # post)"
    and step: "task_step K cfg derive w t n = (new, n1)" and unpub: "\<not> isPublished n1 (hexID i)"
    and f: "files K cfg t = Some (a, p)" and at: "addr t = Some (i, a)"
  shows "stored n1 i (Index p)"
proof -
  have d: "dealt K cfg poly" using op by (simp add: operator_of_def)
  have o: "owned ids (n, pre @ t # post)" and t: "calm_task K cfg derive poly i seed t"
    using inv by (simp_all add: calm_inv_def)
  have home: "home ids i a" using owned_taskD[OF o _ at] by simp
  have lt: "a < length (heap n)" using owned_lessD[OF o home] .
  have no: "\<not> opens t" using f by (cases t rule: opens.cases) auto
  have "\<not> isPublished n (hexID i)" using unpub task_step_published[OF step] by blast
  moreover have "homes ids n" using o by (simp add: owned_iff)
  ultimately have ex: "existingSession n (hexID i) = Some a" by (intro homesD[OF _ home])
  have sess: "session_ok K cfg (heap n ! a)" using reachable_ok[OF d r] lt by (simp add: all_ok_def node_ok_def)
  have "clean_session seed (heap n ! a)" using inv home by (simp add: calm_inv_def calm_node_def)
  then have "mget (s_partials (heap n1 ! a)) (Index p) \<noteq> None"
    unfolding task_step_heap[OF step no] after_filing_nth[OF lt]
    using genuine_Add[of K "heap n ! a" poly cfg p] files_genuine[OF op len t f at] sess d
    by (auto simp: f clean_session_def session_ok_def dealt_def)
  with session_stays[OF r step ex unpub] show ?thesis by (auto simp: stored_def)
qed

lemma request_brings:
  assumes "calm_task K cfg derive poly i seed (Requesting req pc)" and "\<not> knownSettled n (hexID i)"
    and "brings cfg i j (Requesting req pc :: 'g1 task)"
    and "task_step K cfg derive w (Requesting req pc) n = (new :: 'g1 task list, n1)"
  shows "(\<exists>s a. pc = Req_Own s a \<and> j = share_Index (Share cfg)) \<or>
     (\<exists>s a e es. pc = Req_File s a (e # es) \<and> j = env_Index e) \<or> (\<exists>u \<in> set new. brings cfg i j u \<and> \<not> posted u)"
proof (cases pc)
  case (Req_File s a es)
  with assms show ?thesis by (cases es) auto
qed (use assms in \<open>auto simp: Let_def split: prod.splits\<close>)

lemma share_brings:
  assumes "kyber_laws K" and "length seed = 32" and "share_calm K cfg poly i seed e pc"
    and "brings cfg i j (Sharing e pc)" and "existingSession n (hexID i) = Some a"
    and "s_seed (heap n ! a) = seed" and "share_step K cfg e pc n = (new, n1)"
  shows "(\<exists>b p. pc = Share_Add i b p \<and> Index p = j) \<or> (\<exists>u \<in> set new. brings cfg i j u)"
proof (cases pc)
  case Share_Start
  then obtain p where "Decode K e = Inr (seed, p)" "Index p = env_Index e"
    using genuine_decodes[OF assms(1,2), of cfg poly i e] assms(3,4) by auto
  with assms Share_Start show ?thesis by auto
qed (use assms in \<open>auto simp: Seed_def split: option.splits\<close>)

lemma counted_run:
  assumes op: "operator_of K cfg poly" and len: "length seed = 32"
    and r: "reachable K cfg derive (n, pre @ t # post)"
    and inv: "calm_inv K cfg derive poly i seed ids (n, pre @ t # post)"
    and step: "task_step K cfg derive w t n = (new, n1)"
    and c: "counted cfg i j (n, pre @ t # post)"
  shows "counted cfg i j (n1, pre @ new @ post)"
proof (cases "isPublished n1 (hexID i)")
  case False
  have o: "owned ids (n, pre @ t # post)" and t: "calm_task K cfg derive poly i seed t"
    and node: "calm_node K cfg poly i seed ids n"
    using inv by (simp_all add: calm_inv_def)
  have unpub: "\<not> isPublished n (hexID i)" using False task_step_published[OF step] by blast
  have keep: "existingSession n (hexID i) \<noteq> None \<Longrightarrow> existingSession n1 (hexID i) \<noteq> None"
    using session_stays[OF r step] False by fastforce
  note filed = filed_counts[OF op len r inv step False]
  from c unpub consider (stored) "stored n i j"
    | (other) u where "u \<in> set pre \<union> set post" "brings cfg i j u"
        "posted u \<longrightarrow> existingSession n (hexID i) \<noteq> None"
    | (self) "brings cfg i j t" "posted t \<longrightarrow> existingSession n (hexID i) \<noteq> None"
    by (auto simp: counted_def)
  then show ?thesis
  proof cases
    case stored
    then show ?thesis using stored_step[OF r o step _ False] by (simp add: counted_def)
  next
    case other
    then show ?thesis using keep by (auto simp: counted_def)
  next
    case self
    show ?thesis
    proof (cases t)
      case (Requesting req pc)
      have k: "\<not> knownSettled n (hexID i)" using node by (simp add: calm_node_def)
      consider s a where "pc = Req_Own s a" "j = share_Index (Share cfg)"
        | s a e es where "pc = Req_File s a (e # es)" "j = env_Index e"
        | u where "u \<in> set new" "brings cfg i j u" "\<not> posted u"
        using request_brings[OF t[unfolded Requesting] k self(1)[unfolded Requesting] step[unfolded Requesting]]
        by blast
      then show ?thesis
      proof cases
        case 1
        have "stored n1 i (Index (own_partial K cfg s))"
          using self(1) by (intro filed[of a]) (simp_all add: Requesting 1)
        then show ?thesis using 1(2) by (simp add: counted_def own_partial_def)
      next
        case 2
        have "genuine_envelope K cfg poly i seed e" "s = seed" using t self(1) by (simp_all add: Requesting 2(1))
        moreover have "kyber_laws K" using op by (simp add: operator_of_def dealt_def)
        ultimately obtain p where p: "Decode K e = Inr (s, p)" "Index p = env_Index e"
          using genuine_decodes[OF _ len] by blast
        then have "stored n1 i (Index p)"
          using self(1) by (intro filed[of a]) (simp_all add: Requesting 2(1))
        then show ?thesis using p(2) 2(2) by (simp add: counted_def)
      qed (auto simp: counted_def)
    next
      case (Sharing e pc)
      then obtain a where a: "existingSession n (hexID i) = Some a" using self(2) by auto
      then have "home ids i a" using o by (simp add: owned_iff homes_def)
      then have seed: "s_seed (heap n ! a) = seed" using node by (simp add: calm_node_def clean_session_def)
      have K: "kyber_laws K" using op by (simp add: operator_of_def dealt_def)
      consider b p where "pc = Share_Add i b p" "Index p = j" | u where "u \<in> set new" "brings cfg i j u"
        using share_brings[OF K len _ self(1)[unfolded Sharing] a seed, of poly new n1] t step
        unfolding Sharing calm_task.simps task_step.simps by blast
      then show ?thesis
      proof cases
        case 1
        then have "stored n1 i (Index p)" by (intro filed[of b]) (simp_all add: Sharing)
        with 1 show ?thesis by (simp add: counted_def)
      next
        case 2
        then show ?thesis using keep a by (auto simp: counted_def)
      qed
    qed (use self in simp_all)
  qed
qed (simp add: counted_def)

lemma counted_more: "counted cfg i j (n, ts) \<Longrightarrow> counted cfg i j (n, ts @ [t])"
  by (auto simp: counted_def)

text \<open>What \<open>OnRequest\<close> takes is handed to the round that files it.\<close>

lemma taken_counts:
  assumes "kyber_laws K" and "length seed = 32" and "calm_node K cfg poly i seed ids n"
    and "task_step K cfg derive w t n = (new, n1)" and "j \<in> taken i t n"
  shows "uint j < Operators cfg \<and> counted cfg i j (n1, pre @ new @ post)"
proof -
  obtain req s a where t: "t = Requesting req (Req_Take s a)" "ID req = i" "j \<in> env_Index ` set (held_for n (hexID i))"
    using assms(5) by (cases "(i, t, n)" rule: taken.cases) (auto split: if_splits)
  then obtain e where e: "e \<in> set (held_for n (hexID i))" "j = env_Index e" by blast
  then have "genuine_envelope K cfg poly i seed e" using assms(3) by (simp add: calm_node_def)
  from genuine_decodes[OF assms(1,2) this] have "uint j < Operators cfg"
    using e(2) by (auto simp: genuine_def)
  moreover have "new = [Requesting req (Req_File s a (held_for n (hexID i)))]"
    using assms(4) t(1,2) takeParked_held[of "hexID i" n] by (auto split: prod.splits)
  ultimately show ?thesis using t(2,3) by (simp add: counted_def)
qed

lemma calm_run_counted:
  assumes op: "operator_of K cfg poly" and len: "length seed = 32"
    and "calm_run K cfg derive poly i seed D x"
  shows "\<forall>j \<in> D. uint j < Operators cfg \<and> counted cfg i j x"
  using assms(3)
proof (induction rule: calm_run.induct)
  case (start m)
  show ?case by simp
next
  case (run D n pre t post w new n1)
  then obtain ids where inv: "calm_inv K cfg derive poly i seed ids (n, pre @ t # post)"
    using calm_run_inv[OF op len run.hyps(1)] by blast
  have "kyber_laws K" using op by (simp add: operator_of_def dealt_def)
  from taken_counts[OF this len _ run.hyps(3)] inv show ?case
    using run.IH counted_run[OF op len calm_reachable[OF run.hyps(1)] inv run.hyps(3)] by (auto simp: calm_inv_def)
next
  case (announce D n ts req)
  have "ID req = i \<Longrightarrow> counted cfg i (share_Index (Share cfg)) (n, ts @ [Requesting req Req_Start])"
    by (auto simp: counted_def)
  moreover have "uint (share_Index (Share cfg)) < Operators cfg" using op by (simp add: operator_of_def)
  ultimately show ?case using announce.IH by (auto simp: counted_more)
next
  case (stranger D n ts e)
  then show ?case by (simp add: counted_more)
next
  case (peer D n ts j e)
  have "brings cfg i j (Sharing e Share_Start)"
    using peer.hyps(2) by (auto simp: honest_envelope_def envelope_of_def)
  then have "existingSession n (hexID i) \<noteq> None \<Longrightarrow> counted cfg i j (n, ts @ [Sharing e Share_Start])"
    by (auto simp: counted_def)
  with peer show ?case by (auto simp: counted_more)
qed (simp_all add: counted_def stored_def isPublished_def existingSession_def frame)

section \<open>The seed\<close>

definition fixed_seed :: "(int \<Rightarrow> byte list \<Rightarrow> byte list) \<Rightarrow> int \<Rightarrow> byte list \<Rightarrow> int \<Rightarrow> byte list \<Rightarrow> byte list" where
  "fixed_seed derive i seed = (\<lambda>k c. if k = i then seed else derive k c)"

text \<open>The handlers use the seed formula only on the request in hand.\<close>

lemma task_step_derive:
  assumes "\<And>req pc. t = Requesting req pc \<Longrightarrow> f (ID req) (Consumer req) = g (ID req) (Consumer req)"
  shows "task_step K cfg f w t n = task_step K cfg g w t n"
proof (cases t)
  case (Requesting req pc)
  show ?thesis
  proof (cases pc)
    case Req_Derive
    with assms[OF Requesting] Requesting show ?thesis by (simp add: Let_def)
  next
    case (Req_File s a es)
    with Requesting show ?thesis by (cases es) simp_all
  qed (simp_all add: Requesting)
qed simp_all

lemma task_step_seed:
  "calm_task K cfg derive poly i seed t \<Longrightarrow>
   task_step K cfg (fixed_seed derive i seed) w t n = task_step K cfg derive w t n"
  by (rule task_step_derive) (auto simp: fixed_seed_def)

lemma calm_run_seed:
  assumes op: "operator_of K cfg poly" and len: "length seed = 32"
    and "calm_run K cfg derive poly i seed D x"
  shows "calm_run K cfg (fixed_seed derive i seed) poly i seed D x"
  using assms(3)
proof (induction rule: calm_run.induct)
  case (announce D n ts req)
  then show ?case by (intro calm_run.announce) (auto simp: fixed_seed_def)
next
  case (run D n pre t post w new n1)
  obtain ids where "calm_inv K cfg derive poly i seed ids (n, pre @ t # post)"
    using calm_run_inv[OF op len run.hyps(1)] by blast
  then have "calm_task K cfg derive poly i seed t" by (simp add: calm_inv_def)
  from task_step_seed[OF this] run show ?case by (intro calm_run.run[where w = w and t = t]) simp_all
next
  case (peer D n ts j e)
  then show ?case by (intro calm_run.peer) simp_all
qed (auto intro: calm_run.intros)

lemma sent_signature:
  assumes "operator_of K cfg poly" and "length seed = 32"
    and "calm_run K cfg derive poly i seed D (n, ts)" and "SentFulfill i raw gas \<in> set (trace n)"
  shows "SignatureBytes K (Sign K (peval poly 0) seed) = Inr raw"
proof -
  have "reachable K cfg (fixed_seed derive i seed) (n, ts)"
    by (rule calm_reachable[OF calm_run_seed[OF assms(1-3)]])
  from reachable_ok[OF _ this, of poly] assms(1,4) show ?thesis
    by (force simp: operator_of_def all_ok_def node_ok_def group_signature_def derived_def fixed_seed_def)
qed

lemma fulfills_pos:
  assumes "0 < fulfills i tr"
  shows "\<exists>raw gas. SentFulfill i raw gas \<in> set tr"
proof -
  obtain ev where ev: "ev \<in> set tr" "case ev of SentFulfill j _ _ \<Rightarrow> j = i | _ \<Rightarrow> False"
    using assms unfolding fulfills_def by (metis (no_types, lifting) filter_False less_irrefl list.size(3))
  show ?thesis by (cases ev) (use ev in auto)
qed

section \<open>Property\<close>

lemma quorum_claimed:
  assumes op: "operator_of K cfg poly" and len: "length seed = 32"
    and run: "calm_run K cfg derive poly i seed D (n, [])" and t: "Threshold cfg \<le> int (card D)"
  shows "isPublished n (hexID i)"
proof (rule ccontr)
  assume un: "\<not> isPublished n (hexID i)"
  have d: "dealt K cfg poly" using op by (simp add: operator_of_def)
  then have pos: "0 < Threshold cfg" by (simp add: dealt_def) (metis length_greater_0_conv of_nat_0_less_iff)
  have r: "reachable K cfg derive (n, [])" by (rule calm_reachable[OF run])
  have st: "stored n i j" if "j \<in> D" for j
    using calm_run_counted[OF op len run] that un by (auto simp: counted_def)
  have "D \<noteq> {}" using pos t by auto
  then obtain a where a: "existingSession n (hexID i) = Some a" using st by (auto simp: stored_def)
  have "at_session derive (heap n) i a"
    using reachable_ok[OF d r] a by (simp add: all_ok_def node_ok_def existingSession_def)
  then have "session_ok K cfg (heap n ! a)"
    using reachable_ok[OF d r] by (simp add: all_ok_def node_ok_def at_session_def)
  then have "Ready (heap n ! a)"
    using st t a Ready_of_stored[of K "heap n ! a" D] by (fastforce simp: session_ok_def stored_def)
  then show False using reachable_noticed[OF pos r] a un by (auto simp: noticed_def)
qed

lemma quorum_published:
  assumes "operator_of K cfg poly" and "length seed = 32"
    and "calm_run K cfg derive poly i seed D (n, [])" and "Threshold cfg \<le> int (card D)"
  shows "\<exists>raw gas. SentFulfill i raw gas \<in> set (trace n) \<and> fulfills i (trace n) = 1 \<and>
     PointFromSignature K raw = Inr (Sign K (peval poly 0) seed)"
proof -
  have "0 < fulfills i (trace n)" "fulfills i (trace n) \<le> 1"
    using calm_run_on_its_way[OF assms(1-3)] quorum_claimed[OF assms] by (auto simp: on_its_way_def)
  moreover from this obtain raw gas where sent: "SentFulfill i raw gas \<in> set (trace n)"
    using fulfills_pos by blast
  moreover have "PointFromSignature K raw = Inr (Sign K (peval poly 0) seed)"
    using sent_signature[OF assms(1-3) sent] assms(1) SignatureBytes_ok[of K]
    unfolding operator_of_def dealt_def kyber_laws_def by (metis sum.inject(2))
  ultimately show ?thesis by (intro exI[of _ raw] exI[of _ gas]) simp
qed

text \<open>
  C5.  A quorum of honest operators ends on the chain.  Take any run of an operator in which the
  request is announced with its seed, its shares come from operators of the group, and the chain
  answers for this request; shares may come in any order and number, goroutines
  may interleave in any way, and anything may go on about other requests.  A share counts when it is the
  node's own and the request is announced, when it arrives while the session of the request is open, or
  when it came earlier and is still parked at the moment \<open>OnRequest\<close> takes what is parked.  Once the goroutines
  have ended, if the shares of at least \<open>t\<close> operators count, then the node has sent the request to the
  chain, exactly once, with the group's signature on the seed.
\<close>

theorem honest_quorum_is_published:
  assumes "operator_of K cfg poly" and "length seed = 32"
    and "calm_run K cfg derive poly i seed D (n, [])" and "Threshold cfg \<le> int (card D)"
  shows "\<exists>raw gas. SentFulfill i raw gas \<in> set (trace n) \<and> fulfills i (trace n) = 1 \<and>
     PointFromSignature K raw = Inr (Sign K (peval poly 0) seed)"
  by (rule quorum_published[OF assms])

lemma calm_run_in:
  "calm_run K cfg derive poly i seed D (n, pre @ ts @ post) \<Longrightarrow> \<forall>w \<in> set ws. calm w \<Longrightarrow>
   run_tasks K cfg derive ws ts n = (ts1, n1) \<Longrightarrow>
   \<exists>D1. D \<subseteq> D1 \<and> calm_run K cfg derive poly i seed D1 (n1, pre @ ts1 @ post)"
proof (induction ws arbitrary: ts n D)
  case (Cons w ws)
  show ?case
  proof (cases ts)
    case (Cons t us)
    obtain new n2 where step: "task_step K cfg derive w t n = (new, n2)" by fastforce
    have "calm_run K cfg derive poly i seed (D \<union> taken i t n) (n2, pre @ new @ (us @ post))"
      using Cons.prems(1,2) \<open>ts = t # us\<close> step calm_calm_at[of w]
      by (intro calm_run.run[where t = t and w = w]) simp_all
    then have "calm_run K cfg derive poly i seed (D \<union> taken i t n) (n2, pre @ (new @ us) @ post)" by simp
    from Cons.IH[OF this] show ?thesis using Cons.prems(2,3) \<open>ts = t # us\<close> step by simp blast
  qed (use Cons.prems in auto)
qed auto

lemma calm_quiet: "calm (quiet (Inr hash))"
  by (simp add: calm_def)

theorem honest_quorum_is_published_witness:
  "\<exists>D n raw gas. calm_run small_kyber cfg_demo demo_derive [3, 5] 31 (req_Seed demo_request) D (n, []) \<and>
     {1, 2} \<subseteq> D \<and> SentFulfill 31 raw gas \<in> set (trace n) \<and> fulfills 31 (trace n) = 1"
proof -
  let ?w = "quiet (Inr []) :: gf11 answer" and ?K = small_kyber and ?d = demo_derive
  let ?n = "new_node None :: (gf11, gf11) node" and ?seed = "req_Seed demo_request"
  let ?run = "calm_run ?K cfg_demo ?d [3, 5] 31 ?seed"
  have id: "ID demo_request = 31" and seed: "?d (ID demo_request) (Consumer demo_request) = ?seed"
    and len: "length ?seed = 32" and own: "share_Index (Share cfg_demo) = 1"
    by (simp_all add: demo_request_def demo_seed_length cfg_demo_def share_Index_def)
  have "\<not> knownSettled ?n k" "existingSession ?n k = None" for k
    by (simp_all add: new_node_def knownSettled_def existingSession_def)
  from run_request[where derive = ?d and n = ?n and req = demo_request and w = ?w, OF demo_operator seed this]
  obtain n1 ts1 where n1: "run_tasks ?K cfg_demo ?d (replicate 6 ?w) [Requesting demo_request Req_Start] ?n =
      (ts1, n1)" "existingSession n1 (hexID 31) \<noteq> None"
    by (auto simp: id existingSession_def)
  have "?run (if ID demo_request = 31 then insert (share_Index (Share cfg_demo)) {} else {})
      (?n, [] @ [Requesting demo_request Req_Start])"
    by (rule calm_run.announce[OF calm_run.start]) (use seed in \<open>simp add: id\<close>)
  then have "?run {1} (?n, [] @ [Requesting demo_request Req_Start] @ [])" by (simp add: id own)
  then obtain D1 where r1: "?run D1 (n1, ts1)" "1 \<in> D1"
    using calm_run_in[OF _ _ n1(1), of _ _ _ _ "[]" "[]"] by (fastforce simp: calm_quiet)
  obtain raw where raw: "SignatureBytes ?K (Sign ?K (share_at [3, 5] (uint (2 :: u32))) ?seed) = Inr raw"
    using SignatureBytes_ok[of ?K] small_kyber_laws unfolding kyber_laws_def by metis
  let ?e = "envelope_of (hexID 31) ?seed 2 raw"
  have "honest_envelope ?K [3, 5] 31 ?seed 2 ?e" using raw by (auto simp: honest_envelope_def)
  moreover have "uint (2 :: u32) < Operators cfg_demo" by (simp add: cfg_demo_def)
  ultimately have r2: "?run (insert 2 D1) (n1, [] @ (ts1 @ [Sharing ?e Share_Start]) @ [])"
    using calm_run.peer[OF r1(1), of 2 ?e] n1(2) by simp
  let ?ts = "ts1 @ [Sharing ?e Share_Start]"
  have pk: "parked_ok cfg_demo n1"
    using reachable_parked[OF calm_reachable[OF r2]] by (simp add: cfg_demo_def)
  obtain n2 where "run_tasks ?K cfg_demo ?d (replicate (total_weight cfg_demo ?ts) ?w) ?ts n1 = ([], n2)"
    using run_tasks_ends[OF pk, of ?ts "replicate (total_weight cfg_demo ?ts) ?w" ?K ?d]
    by (metis length_replicate order_refl prod.collapse)
  from calm_run_in[OF r2 _ this] r1(2) obtain D2 where r3: "?run D2 (n2, [])" "{1, 2} \<subseteq> D2"
    by (auto simp: calm_quiet)
  have "card {1, 2 :: u32} \<le> card D2" by (rule card_mono[OF finite r3(2)])
  then have t: "Threshold cfg_demo \<le> int (card D2)" by (simp add: cfg_demo_def)
  from honest_quorum_is_published[OF demo_operator len r3(1) t] r3 show ?thesis by blast
qed

end
