(* ===== verification/Fleet.thy ===== *)
theory Fleet
  imports Node_Quorum
begin

text \<open>
  The operators together.  Each runs the node of \<open>node/internal/node/node.go\<close> with its own share
  and settings; what they share is the chain, which announces one consumer per request id, and the
  network, on which anyone may post any envelope to anyone at any time, or nothing at all.
\<close>

section \<open>The state and its steps\<close>

text \<open>The contract numbers its requests: whoever is told of request \<open>i\<close> is told the same consumer.\<close>

fun as_announced :: "(int \<Rightarrow> byte list) \<Rightarrow> 'g1 task \<Rightarrow> bool" where
  "as_announced consumer (Requesting req pc) = (Consumer req = consumer (ID req))"
| "as_announced consumer t = True"

type_synonym ('g1, 'g2) fleet = "(('g1, 'g2) node \<times> 'g1 task list) list"

inductive fleet_step ::
  "('s, 'g1, 'g2, 'gt) kyber \<Rightarrow> ('s, 'g2) config list \<Rightarrow> (int \<Rightarrow> byte list \<Rightarrow> byte list) \<Rightarrow>
   (int \<Rightarrow> byte list) \<Rightarrow> ('g1, 'g2) fleet \<Rightarrow> ('g1, 'g2) fleet \<Rightarrow> bool"
  for K cfgs derive consumer where
  operator: "k < length cfgs \<Longrightarrow> node_step K (cfgs ! k) derive (xs ! k) y \<Longrightarrow>
    \<forall>t \<in> set (snd y). as_announced consumer t \<Longrightarrow>
    fleet_step K cfgs derive consumer xs (xs[k := y])"

inductive fleet_reachable ::
  "('s, 'g1, 'g2, 'gt) kyber \<Rightarrow> ('s, 'g2) config list \<Rightarrow> (int \<Rightarrow> byte list \<Rightarrow> byte list) \<Rightarrow>
   (int \<Rightarrow> byte list) \<Rightarrow> ('g1, 'g2) fleet \<Rightarrow> bool"
  for K cfgs derive consumer where
  start: "length ms = length cfgs \<Longrightarrow>
    fleet_reachable K cfgs derive consumer (map (\<lambda>m. (new_node m, [])) ms)"
| more: "fleet_reachable K cfgs derive consumer xs \<Longrightarrow> fleet_step K cfgs derive consumer xs ys \<Longrightarrow>
    fleet_reachable K cfgs derive consumer ys"

section \<open>Each operator runs as it would alone\<close>

text \<open>
  To an operator of a fleet the seed is a function of the request id: its run is a run of the
  node in which the formula ignores the consumer it is given and takes the announced one.
\<close>

definition announced_seed :: "(int \<Rightarrow> byte list \<Rightarrow> byte list) \<Rightarrow> (int \<Rightarrow> byte list) \<Rightarrow> int \<Rightarrow> byte list \<Rightarrow> byte list" where
  "announced_seed derive consumer = (\<lambda>i _. derive i (consumer i))"

lemma derived_announced [simp]:
  "derived (announced_seed derive consumer) i seed \<longleftrightarrow> seed = derive i (consumer i)"
  by (simp add: derived_def announced_seed_def)

lemma node_step_announced:
  assumes "node_step K cfg derive x y" and "\<forall>t \<in> set (snd x). as_announced consumer t"
  shows "node_step K cfg (announced_seed derive consumer) x y"
  using assms(1)
proof cases
  case (run w t n new n1 pre post)
  have "as_announced consumer t" using assms(2) run(1) by simp
  then have "task_step K cfg (announced_seed derive consumer) w t n = (new, n1)"
    using run(4) by (subst task_step_derive[where g = derive]) (auto simp: announced_seed_def)
  with run(3) show ?thesis unfolding run(1,2) by (rule node_step.run)
qed (auto intro: node_step.intros)

definition operator_run ::
  "('s, 'g1, 'g2, 'gt) kyber \<Rightarrow> (int \<Rightarrow> byte list \<Rightarrow> byte list) \<Rightarrow> (int \<Rightarrow> byte list) \<Rightarrow>
   ('s, 'g2) config \<Rightarrow> ('g1, 'g2) node \<times> 'g1 task list \<Rightarrow> bool" where
  "operator_run K derive consumer cfg x \<longleftrightarrow>
     reachable K cfg (announced_seed derive consumer) x \<and> (\<forall>t \<in> set (snd x). as_announced consumer t)"

lemma fleet_runs:
  assumes "fleet_reachable K cfgs derive consumer xs"
  shows "length xs = length cfgs \<and> (\<forall>k < length cfgs. operator_run K derive consumer (cfgs ! k) (xs ! k))"
  using assms
proof induction
  case (start ms)
  then show ?case by (simp add: operator_run_def reachable.start)
next
  case (more xs ys)
  from more.hyps(2) show ?case
  proof cases
    case (operator k y)
    have "operator_run K derive consumer (cfgs ! k) (xs ! k)" using more.IH operator(2) by blast
    then have "operator_run K derive consumer (cfgs ! k) y"
      using node_step_announced[OF operator(3)] operator(4) reachable.more
      unfolding operator_run_def by blast
    then show ?thesis using more.IH operator(1,2) by (auto simp: nth_list_update)
  qed
qed

text \<open>What an operator of the fleet sends to the chain, and to its peers.\<close>

lemma operator_fulfills:
  assumes "dealt K cfg poly" and "operator_run K derive consumer cfg x"
    and "SentFulfill i raw gas \<in> set (trace (fst x))"
  shows "SignatureBytes K (Sign K (peval poly 0) (derive i (consumer i))) = Inr raw"
proof -
  have "event_ok K cfg poly (announced_seed derive consumer) (SentFulfill i raw gas)"
    using reachable_ok[OF assms(1), of "announced_seed derive consumer" x] assms(2,3)
    by (simp only: operator_run_def all_ok_def node_ok_def)
  then show ?thesis by (simp add: group_signature_def)
qed

lemma operator_shares:
  assumes "operator_of K cfg poly" and "operator_run K derive consumer cfg x"
    and "SentShare e \<in> set (trace (fst x))"
  shows "\<exists>i. honest_envelope K poly i (derive i (consumer i)) (share_Index (Share cfg)) e"
proof -
  have d: "dealt K cfg poly" using assms(1) by (simp add: operator_of_def)
  have "event_ok K cfg poly (announced_seed derive consumer) (SentShare e)"
    using reachable_ok[OF d, of "announced_seed derive consumer" x] assms(2,3)
    by (simp only: operator_run_def all_ok_def node_ok_def)
  with assms(1) show ?thesis
    by (auto simp: own_envelope_def honest_envelope_def operator_of_def)
qed

lemma fleet_calls:
  assumes "fleet_reachable K cfgs derive consumer xs"
  shows "(\<Sum>k < length cfgs. fulfills i (trace (fst (xs ! k)))) \<le>
         (\<Sum>k < length cfgs. nat (SendRetries (cfgs ! k)) + 1)"
proof (rule sum_mono)
  fix k assume "k \<in> {..<length cfgs}"
  then have "reachable K (cfgs ! k) (announced_seed derive consumer) (xs ! k)"
    using fleet_runs[OF assms] by (simp add: operator_run_def)
  from reachable_publications[OF this, of i] show "fulfills i (trace (fst (xs ! k))) \<le> nat (SendRetries (cfgs ! k)) + 1"
    by (simp add: publications_ok_def retries_def)
qed

section \<open>Property\<close>

text \<open>
  C2.  The operators agree.  In every state a fleet can reach, with any number of operators, any
  interleaving of all their goroutines and any messages from anyone, whatever two operators that
  hold shares of the same secret have sent to the chain for a request is the same signature: the
  group's on the seed of the announced consumer; and all operators together have made at most
  one bounded campaign each for it.
\<close>

theorem fleet_agrees:
  assumes "fleet_reachable K cfgs derive consumer xs" and "k < length cfgs" and "l < length cfgs"
    and "dealt K (cfgs ! k) poly" and "dealt K (cfgs ! l) poly"
    and "SentFulfill i raw gas \<in> set (trace (fst (xs ! k)))"
    and "SentFulfill i raw' gas' \<in> set (trace (fst (xs ! l)))"
  shows "raw = raw' \<and>
     PointFromSignature K raw = Inr (Sign K (peval poly 0) (derive i (consumer i))) \<and>
     (\<Sum>k < length cfgs. fulfills i (trace (fst (xs ! k)))) \<le>
       (\<Sum>k < length cfgs. nat (SendRetries (cfgs ! k)) + 1)"
proof -
  have "SignatureBytes K (Sign K (peval poly 0) (derive i (consumer i))) = Inr raw"
    "SignatureBytes K (Sign K (peval poly 0) (derive i (consumer i))) = Inr raw'"
    using operator_fulfills fleet_runs[OF assms(1)] assms(2-7) by blast+
  moreover from this have "PointFromSignature K raw = Inr (Sign K (peval poly 0) (derive i (consumer i)))"
    using assms(4) SignatureBytes_ok[of K] unfolding dealt_def kyber_laws_def by (metis sum.inject(2))
  ultimately show ?thesis using fleet_calls[OF assms(1)] by simp
qed

lemma as_announced_step:
  assumes "task_step K cfg derive w t n = (new, n1)" and "as_announced consumer t" and "u \<in> set new"
  shows "as_announced consumer u"
proof (cases t)
  case (Requesting req pc)
  show ?thesis
  proof (cases pc)
    case (Req_File s a es)
    with assms Requesting show ?thesis by (cases es) auto
  qed (use assms Requesting in \<open>auto simp: offer_share_def Let_def split: prod.splits sum.splits option.splits if_splits\<close>)
next
  case (Chasing j b e k pc)
  with assms show ?thesis by (cases pc) (auto split: if_splits)
next
  case (Publishing j b pc cont)
  with assms show ?thesis by (auto simp: resume_def split: prod.splits option.splits)
next
  case (Sharing e pc)
  with assms show ?thesis
    by (cases pc) (auto simp: refuse_def split: sum.splits prod.splits option.splits if_splits)
qed

lemma fleet_run_tasks:
  "fleet_reachable K cfgs derive consumer xs \<Longrightarrow> k < length cfgs \<Longrightarrow> xs ! k = (n, ts) \<Longrightarrow>
   \<forall>t \<in> set ts. as_announced consumer t \<Longrightarrow> \<forall>w \<in> set ws. answer_ok w \<Longrightarrow>
   run_tasks K (cfgs ! k) derive ws ts n = (ts1, n1) \<Longrightarrow>
   fleet_reachable K cfgs derive consumer (xs[k := (n1, ts1)])"
proof (induction ws arbitrary: xs ts n)
  case Nil
  then show ?case by (metis list_update_id prod.inject run_tasks.simps(1))
next
  case (Cons w ws)
  have len: "k < length xs" using fleet_runs[OF Cons.prems(1)] Cons.prems(2) by simp
  show ?case
  proof (cases ts)
    case Nil
    with Cons.prems(6) have "(n1, ts1) = xs ! k" using Cons.prems(3) by simp
    then show ?thesis using Cons.prems(1) by simp
  next
    case (Cons t us)
    obtain new n2 where step: "task_step K (cfgs ! k) derive w t n = (new, n2)" by fastforce
    have ann: "\<forall>u \<in> set (new @ us). as_announced consumer u"
      using as_announced_step[OF step] Cons.prems(4) by (auto simp: \<open>ts = t # us\<close>)
    have "node_step K (cfgs ! k) derive (n, [] @ t # us) (n2, [] @ new @ us)"
      using step Cons.prems(5) by (intro node_step.run[where w = w]) simp_all
    then have "node_step K (cfgs ! k) derive (xs ! k) (n2, new @ us)"
      by (simp add: Cons.prems(3) \<open>ts = t # us\<close>)
    from fleet_reachable.more[OF Cons.prems(1) fleet_step.operator[OF Cons.prems(2) this]] ann
    have r: "fleet_reachable K cfgs derive consumer (xs[k := (n2, new @ us)])" by simp
    have "run_tasks K (cfgs ! k) derive ws (new @ us) n2 = (ts1, n1)"
      using Cons.prems(6) step by (simp add: \<open>ts = t # us\<close>)
    from Cons.IH[OF r Cons.prems(2) _ ann _ this] Cons.prems(5) len show ?thesis by simp
  qed
qed

lemma solo_done:
  "\<exists>ws n1 raw gas. run_tasks small_kyber cfg_solo demo_derive ws [Requesting demo_request Req_Start]
      (new_node None) = ([], n1) \<and> SentFulfill 31 raw gas \<in> set (trace n1) \<and> (\<forall>w \<in> set ws. answer_ok w)"
proof -
  let ?w = "quiet (Inr []) :: gf11 answer" and ?ts = "[Requesting demo_request Req_Start] :: gf11 task list"
  let ?n = "new_node None :: (gf11, gf11) node" and ?seed = "req_Seed demo_request"
  let ?ws = "replicate (total_weight cfg_solo ?ts) ?w"
  have pk: "parked_ok cfg_solo ?n" by (simp add: parked_ok_new cfg_solo_def)
  obtain n1 where n1: "run_tasks small_kyber cfg_solo demo_derive ?ws ?ts ?n = ([], n1)"
    using run_tasks_ends[OF pk, of ?ts ?ws small_kyber demo_derive] by (metis length_replicate order_refl prod.collapse)
  have "calm_run small_kyber cfg_solo demo_derive [3] 31 ?seed
      (if ID demo_request = 31 then insert (share_Index (Share cfg_solo)) {} else {}) (?n, [] @ ?ts)"
    by (rule calm_run.announce[OF calm_run.start]) (simp add: demo_request_def)
  then have "calm_run small_kyber cfg_solo demo_derive [3] 31 ?seed {0} (?n, [] @ ?ts @ [])"
    by (simp add: demo_request_def cfg_solo_def share_Index_def)
  from calm_run_in[OF this _ n1] obtain D where run: "calm_run small_kyber cfg_solo demo_derive [3] 31 ?seed D (n1, [])"
    and "0 \<in> D" by (auto simp: calm_quiet)
  then have "0 < card D" by (metis card_gt_0_iff empty_iff finite)
  then have t: "Threshold cfg_solo \<le> int (card D)" by (simp add: cfg_solo_def)
  have len: "length ?seed = 32" by (simp add: demo_request_def demo_seed_length)
  obtain raw gas where "SentFulfill 31 raw gas \<in> set (trace n1)"
    using quorum_published[OF solo_operator len run t] by blast
  moreover have "\<forall>w \<in> set ?ws. answer_ok w" by simp
  ultimately show ?thesis using n1 by blast
qed

theorem fleet_agrees_witness:
  "\<exists>xs raw gas gas'. fleet_reachable small_kyber [cfg_solo, cfg_solo] demo_derive (\<lambda>_. replicate 20 6) xs \<and>
     SentFulfill 31 raw gas \<in> set (trace (fst (xs ! 0))) \<and> SentFulfill 31 raw gas' \<in> set (trace (fst (xs ! 1))) \<and>
     PointFromSignature small_kyber raw =
       Inr (Sign small_kyber (peval [3] 0) (demo_derive 31 (replicate 20 6)))"
proof -
  let ?new = "new_node None :: (gf11, gf11) node" and ?t = "Requesting demo_request Req_Start :: gf11 task"
  let ?fleet = "fleet_reachable small_kyber [cfg_solo, cfg_solo] demo_derive (\<lambda>_. replicate 20 6)"
  obtain ws n1 raw gas where run: "run_tasks small_kyber cfg_solo demo_derive ws [?t] ?new = ([], n1)"
    "SentFulfill 31 raw gas \<in> set (trace n1)" "\<forall>w \<in> set ws. answer_ok w" using solo_done by blast
  have ann: "as_announced (\<lambda>_. replicate 20 6) ?t" by (simp add: demo_request_def)
  have turn: "?fleet (xs[k := (n1, [])])" if "?fleet xs" "k < 2" "xs ! k = (?new, [])" for xs k
  proof -
    have c: "[cfg_solo, cfg_solo] ! k = cfg_solo" using that(2) by (cases k) auto
    have "node_step small_kyber cfg_solo demo_derive (xs ! k) (?new, [] @ [?t])"
      unfolding that(3) by (rule node_step.announce)
    then have f: "?fleet (xs[k := (?new, [?t])])"
      using that(1,2) ann by (intro fleet_reachable.more[OF that(1)] fleet_step.operator) (simp_all only: c, simp_all)
    have "length xs = 2" using fleet_runs[OF that(1)] by simp
    with fleet_run_tasks[OF f, of k ?new "[?t]" ws "[]" n1] run(1,3) ann c that(2) show ?thesis by simp
  qed
  have s: "?fleet (map (\<lambda>m. (new_node m, [])) [None, None])" by (rule fleet_reachable.start) simp
  have "?fleet [(n1, []), (n1, [])]" using turn[OF turn[OF s, of 0], of 1] by simp
  moreover have "dealt small_kyber cfg_solo [3]" using solo_operator by (simp add: operator_of_def)
  ultimately show ?thesis
    using fleet_agrees[of small_kyber "[cfg_solo, cfg_solo]" demo_derive "\<lambda>_. replicate 20 6" "[(n1, []), (n1, [])]"
        0 1 "[3]" 31 raw gas raw gas] run(2)
    by (intro exI[of _ "[(n1, []), (n1, [])]"] exI[of _ raw] exI[of _ gas]) simp
qed

end
