(* ===== verification/Fleet_Live.thy ===== *)
theory Fleet_Live
  imports Fleet
begin

text \<open>
  Operators that all run the code, on a chain that accepts what they send: a request that has gathered
  a quorum somewhere is sent to the chain by somebody.  Nothing is assumed of the shares they exchange but that
  they are what some operator's node has posted.
\<close>

section \<open>The chain the operators share\<close>

text \<open>Somebody has sent the request to the chain.\<close>

definition settled_by :: "int \<Rightarrow> ('g1, 'g2) fleet \<Rightarrow> bool" where
  "settled_by i xs \<longleftrightarrow> (\<exists>x \<in> set xs. \<exists>raw gas. SentFulfill i raw gas \<in> set (trace (fst x)))"

text \<open>
  A run of the fleet.  The chain announces request \<open>i\<close> with its seed; until somebody has sent it, it is open,
  nobody reports it as settled, and the chain takes what is sent for it; afterwards anything goes.  A share
  for \<open>i\<close> comes from an operator that has posted it; everything about other requests is arbitrary.
  \<open>Ds ! k\<close> collects the operators whose share counts at operator \<open>k\<close>, as in \<open>calm_run\<close>.
\<close>

inductive live_fleet ::
  "('s, 'g1, 'g2, 'gt) kyber \<Rightarrow> ('s, 'g2) config list \<Rightarrow> (int \<Rightarrow> byte list \<Rightarrow> byte list) \<Rightarrow>
   (int \<Rightarrow> byte list) \<Rightarrow> int \<Rightarrow> u32 set list \<Rightarrow> ('g1, 'g2) fleet \<Rightarrow> bool"
  for K cfgs derive consumer i where
  start: "length ms = length cfgs \<Longrightarrow>
    live_fleet K cfgs derive consumer i (replicate (length cfgs) {}) (map (\<lambda>m. (new_node m, [])) ms)"
| announce: "live_fleet K cfgs derive consumer i Ds xs \<Longrightarrow> k < length cfgs \<Longrightarrow> xs ! k = (n, ts) \<Longrightarrow>
    Consumer req = consumer (ID req) \<Longrightarrow> ID req = i \<longrightarrow> req_Seed req = derive i (consumer i) \<Longrightarrow>
    live_fleet K cfgs derive consumer i
      (Ds[k := (if ID req = i then insert (share_Index (Share (cfgs ! k))) (Ds ! k) else Ds ! k)])
      (xs[k := (n, ts @ [Requesting req Req_Start])])"
| deliver: "live_fleet K cfgs derive consumer i Ds xs \<Longrightarrow> k < length cfgs \<Longrightarrow> xs ! k = (n, ts) \<Longrightarrow>
    j < length cfgs \<Longrightarrow> SentShare e \<in> set (trace (fst (xs ! j))) \<Longrightarrow>
    live_fleet K cfgs derive consumer i
      (Ds[k := (if parse_id (env_RequestID e) = Some i \<and> existingSession n (hexID i) \<noteq> None
                then insert (share_Index (Share (cfgs ! j))) (Ds ! k) else Ds ! k)])
      (xs[k := (n, ts @ [Sharing e Share_Start])])"
| stranger: "live_fleet K cfgs derive consumer i Ds xs \<Longrightarrow> k < length cfgs \<Longrightarrow> xs ! k = (n, ts) \<Longrightarrow>
    parse_id (env_RequestID e) \<noteq> Some i \<Longrightarrow>
    live_fleet K cfgs derive consumer i Ds (xs[k := (n, ts @ [Sharing e Share_Start])])"
| settle: "live_fleet K cfgs derive consumer i Ds xs \<Longrightarrow> k < length cfgs \<Longrightarrow> xs ! k = (n, ts) \<Longrightarrow>
    j \<noteq> i \<or> settled_by i xs \<Longrightarrow>
    live_fleet K cfgs derive consumer i Ds (xs[k := (OnFulfilled j n, ts)])"
| scanned: "live_fleet K cfgs derive consumer i Ds xs \<Longrightarrow> k < length cfgs \<Longrightarrow> xs ! k = (n, ts) \<Longrightarrow>
    live_fleet K cfgs derive consumer i Ds (xs[k := (count (BlockSeen b) n, ts)])"
| attach: "live_fleet K cfgs derive consumer i Ds xs \<Longrightarrow> k < length cfgs \<Longrightarrow> xs ! k = (n, ts) \<Longrightarrow>
    live_fleet K cfgs derive consumer i Ds (xs[k := (SetPeers ps n, ts)])"
| run: "live_fleet K cfgs derive consumer i Ds xs \<Longrightarrow> k < length cfgs \<Longrightarrow> xs ! k = (n, pre @ t # post) \<Longrightarrow>
    answer_ok w \<Longrightarrow> settled_by i xs \<or> calm_at i t w \<Longrightarrow>
    task_step K (cfgs ! k) derive w t n = (new, n1) \<Longrightarrow>
    live_fleet K cfgs derive consumer i (Ds[k := Ds ! k \<union> taken i t n]) (xs[k := (n1, pre @ new @ post)])"

section \<open>It is a run of the fleet\<close>

lemma fleet_turn:
  assumes "fleet_reachable K cfgs derive consumer xs" and "k < length cfgs" and "xs ! k = (n, ts)"
    and "node_step K (cfgs ! k) derive (n, ts) (n1, ts1)" and "\<forall>u \<in> set ts1. u \<in> set ts \<or> as_announced consumer u"
  shows "fleet_reachable K cfgs derive consumer (xs[k := (n1, ts1)])"
proof -
  have "\<forall>u \<in> set ts. as_announced consumer u"
    using fleet_runs[OF assms(1)] assms(2,3) by (auto simp: operator_run_def)
  then show ?thesis
    using assms by (intro fleet_reachable.more[OF assms(1)] fleet_step.operator) auto
qed

lemma live_fleet_reachable:
  "live_fleet K cfgs derive consumer i Ds xs \<Longrightarrow> fleet_reachable K cfgs derive consumer xs \<and> length Ds = length cfgs"
proof (induction rule: live_fleet.induct)
  case (start ms)
  then show ?case by (simp add: fleet_reachable.start)
next
  case (run Ds xs k n pre t post w new n1)
  have "as_announced consumer t"
    using fleet_runs[of K cfgs derive consumer xs] run.IH run.hyps(2,3) by (auto simp: operator_run_def)
  then have "\<forall>u \<in> set (pre @ new @ post). u \<in> set (pre @ t # post) \<or> as_announced consumer u"
    using as_announced_step[OF run.hyps(6)] by auto
  with run.IH node_step.run[OF run.hyps(4,6)] run.hyps(2,3)
  have "fleet_reachable K cfgs derive consumer (xs[k := (n1, pre @ new @ post)])" by (blast intro: fleet_turn)
  with run.IH show ?case by simp
qed (auto intro!: fleet_turn intro: node_step.intros)

section \<open>What has been done stays done\<close>

lemma trace_frame:
  "trace (count f n) = trace n" "trace (forget k n) = trace n" "trace (park cfg k e n) = trace n"
  "trace (OnFulfilled j n) = trace n" "trace (emit ev n) = trace n @ [ev]" "trace (SetPeers ps n) = trace n"
  by (simp_all add: count_def forget_def park_def OnFulfilled_def emit_def SetPeers_def Let_def
      split: option.splits list.splits prod.splits)

lemma trace_calls:
  "takeParked k n = (hs, n1) \<Longrightarrow> trace n1 = trace n" "sessionFor cfg j s n = (a, n1) \<Longrightarrow> trace n1 = trace n"
  "add_at K a p n = (r, n1) \<Longrightarrow> trace n1 = trace n"
  by (auto simp: takeParked_def sessionFor_def add_at_def set_session_def Let_def split: option.splits prod.splits)

lemma trace_file_held: "trace (file_held K s a e n) = trace n"
  by (auto simp: file_held_def trace_frame dest: trace_calls(3) split: sum.splits prod.splits bool.splits)

lemma task_step_trace:
  assumes "task_step K cfg derive w t n = (new, n1)"
  shows "set (trace n) \<subseteq> set (trace n1)"
proof (cases t)
  case (Requesting req pc)
  show ?thesis
  proof (cases pc)
    case (Req_File s a hs)
    with assms Requesting show ?thesis by (cases hs) (auto simp: trace_file_held)
  qed (use assms Requesting in \<open>auto simp: offer_share_def trace_frame Let_def dest: trace_calls
        split: prod.splits sum.splits option.splits if_splits\<close>)
next
  case (Chasing j a e m pc)
  with assms show ?thesis by (cases pc) (auto simp: trace_frame split: if_splits)
next
  case (Publishing j a pc cont)
  with assms show ?thesis
    by (cases pc) (auto simp: trace_frame Let_def split: sum.splits if_splits)
next
  case (Sharing e pc)
  with assms show ?thesis
    by (cases pc) (auto simp: refuse_def trace_frame dest: trace_calls
        split: sum.splits prod.splits option.splits if_splits)
qed

lemma settled_stays:
  assumes "settled_by i xs" and "xs ! k = (n, ts)" and "set (trace n) \<subseteq> set (trace n1)"
  shows "settled_by i (xs[k := (n1, ts1)])"
proof -
  obtain x raw gas where x: "x \<in> set xs" "SentFulfill i raw gas \<in> set (trace (fst x))"
    using assms(1) by (auto simp: settled_by_def)
  then obtain m where m: "m < length xs" "SentFulfill i raw gas \<in> set (trace (fst (xs ! m)))"
    by (metis in_set_conv_nth)
  then have "SentFulfill i raw gas \<in> set (trace (fst (xs[k := (n1, ts1)] ! m)))"
    using assms(2,3) by (cases "k = m") auto
  then show ?thesis using m(1) unfolding settled_by_def by (metis length_list_update nth_mem)
qed

section \<open>Until then every operator's run is calm\<close>

definition calm_fleet ::
  "('s::field, 'g1, 'g2, 'gt) kyber \<Rightarrow> ('s, 'g2) config list \<Rightarrow> (int \<Rightarrow> byte list \<Rightarrow> byte list) \<Rightarrow>
   (int \<Rightarrow> byte list) \<Rightarrow> 's list \<Rightarrow> int \<Rightarrow> u32 set list \<Rightarrow> ('g1, 'g2) fleet \<Rightarrow> bool" where
  "calm_fleet K cfgs derive consumer poly i Ds xs \<longleftrightarrow>
     (\<forall>k < length cfgs. calm_run K (cfgs ! k) derive poly i (derive i (consumer i)) (Ds ! k) (xs ! k))"

definition one_group :: "('s::field, 'g1, 'g2, 'gt) kyber \<Rightarrow> ('s, 'g2) config list \<Rightarrow> 's list \<Rightarrow> bool" where
  "one_group K cfgs poly \<longleftrightarrow>
     (\<forall>k < length cfgs. operator_of K (cfgs ! k) poly \<and> Operators (cfgs ! k) = Operators (cfgs ! 0))"

lemma calm_fleet_update:
  assumes "calm_fleet K cfgs derive consumer poly i Ds xs" and "length Ds = length cfgs" and "length xs = length cfgs"
    and "calm_run K (cfgs ! k) derive poly i (derive i (consumer i)) D y"
  shows "calm_fleet K cfgs derive consumer poly i (Ds[k := D]) (xs[k := y])"
  unfolding calm_fleet_def
proof (intro allI impI)
  fix m assume "m < length cfgs"
  with assms show "calm_run K (cfgs ! m) derive poly i (derive i (consumer i)) (Ds[k := D] ! m) (xs[k := y] ! m)"
    by (cases "m = k") (simp_all add: calm_fleet_def)
qed

lemma calm_fleet_at:
  "calm_fleet K cfgs derive consumer poly i Ds xs \<Longrightarrow> k < length cfgs \<Longrightarrow> xs ! k = x \<Longrightarrow>
   calm_run K (cfgs ! k) derive poly i (derive i (consumer i)) (Ds ! k) x"
  by (auto simp: calm_fleet_def)

lemma calm_fleet_turn:
  assumes "calm_fleet K cfgs derive consumer poly i Ds xs" and "length Ds = length cfgs" and "length xs = length cfgs"
    and "calm_run K (cfgs ! k) derive poly i (derive i (consumer i)) (Ds ! k) y"
  shows "calm_fleet K cfgs derive consumer poly i Ds (xs[k := y])"
  using calm_fleet_update[OF assms] by simp

text \<open>What an operator has posted for the request is its own share of it.\<close>

lemma posted_honest:
  assumes "one_group K cfgs poly" and "fleet_reachable K cfgs derive consumer xs" and "j < length cfgs"
    and "SentShare e \<in> set (trace (fst (xs ! j)))" and "parse_id (env_RequestID e) = Some i"
  shows "honest_envelope K poly i (derive i (consumer i)) (share_Index (Share (cfgs ! j))) e"
proof -
  have "operator_of K (cfgs ! j) poly" using assms(1,3) by (simp add: one_group_def)
  moreover have "operator_run K derive consumer (cfgs ! j) (xs ! j)" using fleet_runs[OF assms(2)] assms(3) by blast
  ultimately obtain i' where h: "honest_envelope K poly i' (derive i' (consumer i')) (share_Index (Share (cfgs ! j))) e"
    using operator_shares assms(4) by blast
  then have "env_RequestID e = hexID i'" by (auto simp: honest_envelope_def envelope_of_def)
  then have "i' = i" using assms(5) by simp
  with h show ?thesis by simp
qed

lemma delivered_calm:
  assumes g: "one_group K cfgs poly" and r: "fleet_reachable K cfgs derive consumer xs"
    and calm: "calm_fleet K cfgs derive consumer poly i Ds xs" and k: "k < length cfgs" "xs ! k = (n, ts)"
    and j: "j < length cfgs" "SentShare e \<in> set (trace (fst (xs ! j)))"
  shows "calm_run K (cfgs ! k) derive poly i (derive i (consumer i))
     (if parse_id (env_RequestID e) = Some i \<and> existingSession n (hexID i) \<noteq> None
      then insert (share_Index (Share (cfgs ! j))) (Ds ! k) else Ds ! k)
     (n, ts @ [Sharing e Share_Start])"
proof -
  have c: "calm_run K (cfgs ! k) derive poly i (derive i (consumer i)) (Ds ! k) (n, ts)"
    by (rule calm_fleet_at[OF calm k])
  show ?thesis
  proof (cases "parse_id (env_RequestID e) = Some i")
    case True
    have "operator_of K (cfgs ! j) poly" "Operators (cfgs ! j) = Operators (cfgs ! k)"
      using g j(1) k(1) unfolding one_group_def by metis+
    then have "uint (share_Index (Share (cfgs ! j))) < Operators (cfgs ! k)" by (simp add: operator_of_def)
    from calm_run.peer[OF c posted_honest[OF g r j True] this] True show ?thesis
      by (cases "existingSession n (hexID i)") simp_all
  next
    case False
    from calm_run.stranger[OF c this] False show ?thesis by simp
  qed
qed

lemma live_fleet_calm:
  assumes "one_group K cfgs poly"
  shows "live_fleet K cfgs derive consumer i Ds xs \<Longrightarrow>
    settled_by i xs \<or> calm_fleet K cfgs derive consumer poly i Ds xs"
proof (induction rule: live_fleet.induct)
  case (start ms)
  have "calm_fleet K cfgs derive consumer poly i (replicate (length cfgs) {}) (map (\<lambda>m. (new_node m, [])) ms)"
    using start by (simp add: calm_fleet_def calm_run.start)
  then show ?case ..
next
  case (announce Ds xs k n ts req)
  then have l: "length Ds = length cfgs" "length xs = length cfgs"
    using live_fleet_reachable fleet_runs by blast+
  from announce.IH show ?case
  proof
    assume c: "calm_fleet K cfgs derive consumer poly i Ds xs"
    from calm_run.announce[OF calm_fleet_at[OF c announce.hyps(2,3)], of req] announce.hyps(4,5) calm_fleet_update[OF c l] show ?thesis
      by auto
  qed (use settled_stays announce.hyps(3) in blast)
next
  case (deliver Ds xs k n ts j e)
  then have l: "length Ds = length cfgs" "length xs = length cfgs" "fleet_reachable K cfgs derive consumer xs"
    using live_fleet_reachable fleet_runs by blast+
  from deliver.IH show ?case
  proof
    assume c: "calm_fleet K cfgs derive consumer poly i Ds xs"
    from calm_fleet_update[OF c l(1,2) delivered_calm[OF assms l(3) c deliver.hyps(2-5)]] show ?thesis ..
  qed (use settled_stays deliver.hyps(3) in blast)
next
  case (stranger Ds xs k n ts e)
  then have l: "length Ds = length cfgs" "length xs = length cfgs"
    using live_fleet_reachable fleet_runs by blast+
  from stranger.IH show ?case
  proof
    assume c: "calm_fleet K cfgs derive consumer poly i Ds xs"
    from calm_fleet_turn[OF c l calm_run.stranger[OF calm_fleet_at[OF c stranger.hyps(2,3)] stranger.hyps(4)]] show ?thesis ..
  qed (use settled_stays stranger.hyps(3) in blast)
next
  case (settle Ds xs k n ts j)
  then have l: "length Ds = length cfgs" "length xs = length cfgs"
    using live_fleet_reachable fleet_runs by blast+
  have stays: "settled_by i xs \<Longrightarrow> settled_by i (xs[k := (OnFulfilled j n, ts)])"
    using settled_stays[OF _ settle.hyps(3)] by (simp add: trace_frame)
  from settle.IH settle.hyps(4) consider "settled_by i xs" | "j \<noteq> i" "calm_fleet K cfgs derive consumer poly i Ds xs"
    by blast
  then show ?case
  proof cases
    case 2
    from calm_fleet_turn[OF 2(2) l calm_run.settle[OF calm_fleet_at[OF 2(2) settle.hyps(2,3)] 2(1)]] show ?thesis ..
  qed (use stays in blast)
next
  case (scanned Ds xs k n ts b)
  then have l: "length Ds = length cfgs" "length xs = length cfgs"
    using live_fleet_reachable fleet_runs by blast+
  from scanned.IH show ?case
  proof
    assume c: "calm_fleet K cfgs derive consumer poly i Ds xs"
    from calm_fleet_turn[OF c l calm_run.scanned[OF calm_fleet_at[OF c scanned.hyps(2,3)]]] show ?thesis ..
  next
    assume "settled_by i xs"
    from settled_stays[OF this scanned.hyps(3)] show ?thesis by (simp add: trace_frame)
  qed
next
  case (attach Ds xs k n ts ps)
  then have l: "length Ds = length cfgs" "length xs = length cfgs"
    using live_fleet_reachable fleet_runs by blast+
  from attach.IH show ?case
  proof
    assume c: "calm_fleet K cfgs derive consumer poly i Ds xs"
    from calm_fleet_turn[OF c l calm_run.attach[OF calm_fleet_at[OF c attach.hyps(2,3)]]] show ?thesis ..
  next
    assume "settled_by i xs"
    from settled_stays[OF this attach.hyps(3)] show ?thesis by (simp add: trace_frame)
  qed
next
  case (run Ds xs k n pre t post w new n1)
  then have l: "length Ds = length cfgs" "length xs = length cfgs"
    using live_fleet_reachable fleet_runs by blast+
  have stays: "settled_by i xs \<Longrightarrow> settled_by i (xs[k := (n1, pre @ new @ post)])"
    using settled_stays[OF _ run.hyps(3)] task_step_trace[OF run.hyps(6)] by blast
  from run.IH run.hyps(5) consider "settled_by i xs" | "calm_at i t w" "calm_fleet K cfgs derive consumer poly i Ds xs"
    by blast
  then show ?case
  proof cases
    case 2
    from calm_fleet_update[OF 2(2) l calm_run.run[OF calm_fleet_at[OF 2(2) run.hyps(2,3)] 2(1) run.hyps(6)]] show ?thesis ..
  qed (use stays in blast)
qed

lemma quorum_settles:
  assumes "one_group K cfgs poly" and "live_fleet K cfgs derive consumer i Ds xs"
    and "length (derive i (consumer i)) = 32" and "k < length cfgs" and "snd (xs ! k) = []"
    and "Threshold (cfgs ! k) \<le> int (card (Ds ! k))"
  shows "settled_by i xs"
proof (rule ccontr)
  assume open_: "\<not> settled_by i xs"
  have r: "fleet_reachable K cfgs derive consumer xs" using live_fleet_reachable[OF assms(2)] by simp
  have op: "operator_of K (cfgs ! k) poly" using assms(1,4) by (simp add: one_group_def)
  have c: "calm_fleet K cfgs derive consumer poly i Ds xs" using live_fleet_calm[OF assms(1,2)] open_ by blast
  obtain n where n: "xs ! k = (n, [])" using assms(5) by (cases "xs ! k") auto
  obtain raw gas where "SentFulfill i raw gas \<in> set (trace n)"
    using quorum_published[OF op assms(3) calm_fleet_at[OF c assms(4) n] assms(6)] by blast
  moreover have "xs ! k \<in> set xs" using fleet_runs[OF r] assms(4) by simp
  ultimately show False using open_ n by (fastforce simp: settled_by_def)
qed

section \<open>Property\<close>

text \<open>
  C3.  A quorum anywhere ends on the chain.  In a fleet of any size whose operators hold shares of one
  secret, whatever the order in which announcements, shares and goroutines come, and however other requests
  and strangers mix in: once the shares of at least as many operators as its threshold count at an operator whose
  goroutines have ended, some operator has sent the request to the chain, with the group's signature on the
  derived seed.  At an operator count its own share, when it is announced the request, the shares that arrive while its session
  for the request is open, and the earlier ones that are still parked at the moment \<open>OnRequest\<close> takes what is parked.
\<close>

theorem some_operator_publishes:
  assumes "one_group K cfgs poly" and "live_fleet K cfgs derive consumer i Ds xs"
    and "length (derive i (consumer i)) = 32" and "k < length cfgs" and "snd (xs ! k) = []"
    and "Threshold (cfgs ! k) \<le> int (card (Ds ! k))"
  shows "\<exists>j < length cfgs. \<exists>raw gas. SentFulfill i raw gas \<in> set (trace (fst (xs ! j))) \<and>
     PointFromSignature K raw = Inr (Sign K (peval poly 0) (derive i (consumer i)))"
proof -
  have r: "fleet_reachable K cfgs derive consumer xs" using live_fleet_reachable[OF assms(2)] by simp
  obtain j raw gas where j: "j < length cfgs" "SentFulfill i raw gas \<in> set (trace (fst (xs ! j)))"
    using quorum_settles[OF assms] fleet_runs[OF r] by (metis in_set_conv_nth settled_by_def)
  then have d: "dealt K (cfgs ! j) poly" using assms(1) by (simp add: one_group_def operator_of_def)
  have "SignatureBytes K (Sign K (peval poly 0) (derive i (consumer i))) = Inr raw"
    using operator_fulfills[OF d _ j(2)] fleet_runs[OF r] j(1) by blast
  then have "PointFromSignature K raw = Inr (Sign K (peval poly 0) (derive i (consumer i)))"
    using d SignatureBytes_ok[of K] unfolding dealt_def kyber_laws_def by (metis sum.inject(2))
  with j show ?thesis by blast
qed

section \<open>Two operators of three\<close>

lemma live_run_tasks:
  "live_fleet K cfgs derive consumer i Ds xs \<Longrightarrow> k < length cfgs \<Longrightarrow> xs ! k = (n, ts) \<Longrightarrow> \<forall>w \<in> set ws. calm w \<Longrightarrow>
   run_tasks K (cfgs ! k) derive ws ts n = (ts1, n1) \<Longrightarrow>
   \<exists>D. Ds ! k \<subseteq> D \<and> live_fleet K cfgs derive consumer i (Ds[k := D]) (xs[k := (n1, ts1)])"
proof (induction ws arbitrary: xs ts n Ds)
  case Nil
  then have "live_fleet K cfgs derive consumer i (Ds[k := Ds ! k]) (xs[k := (n1, ts1)])"
    by (metis list_update_id prod.inject run_tasks.simps(1))
  then show ?case by blast
next
  case (Cons w ws)
  have len: "k < length xs" "k < length Ds" using fleet_runs live_fleet_reachable Cons.prems(1,2) by metis+
  show ?case
  proof (cases ts)
    case Nil
    then have "(n1, ts1) = xs ! k" using Cons.prems(3,5) by simp
    then show ?thesis using Cons.prems(1) by (intro exI[of _ "Ds ! k"]) simp
  next
    case (Cons t us)
    obtain new n2 where step: "task_step K (cfgs ! k) derive w t n = (new, n2)" by fastforce
    have at: "xs ! k = (n, [] @ t # us)" using Cons.prems(3) \<open>ts = t # us\<close> by simp
    have w: "answer_ok w" "settled_by i xs \<or> calm_at i t w"
      using Cons.prems(4) calm_calm_at[of w i t] by (simp_all add: calm_def)
    have l: "live_fleet K cfgs derive consumer i (Ds[k := Ds ! k \<union> taken i t n]) (xs[k := (n2, new @ us)])"
      using live_fleet.run[OF Cons.prems(1,2) at w step] by simp
    have "run_tasks K (cfgs ! k) derive ws (new @ us) n2 = (ts1, n1)"
      using Cons.prems(5) step by (simp add: \<open>ts = t # us\<close>)
    from Cons.IH[OF l Cons.prems(2) _ _ this] Cons.prems(4) len show ?thesis by simp blast
  qed
qed

definition cfg_two :: "(gf11, gf11) config" where
  "cfg_two = cfg_demo\<lparr>Share := (Share cfg_demo)\<lparr>Member := \<lparr>member_Index = 2, Longterm = None, Public = None\<rparr>,
      Secret := share_at [3, 5] 2\<rparr>\<rparr>"

lemma two_operator: "operator_of small_kyber cfg_two [3, 5]"
  using demo_operator
  by (simp add: operator_of_def dealt_def cfg_two_def) (simp add: cfg_demo_def share_Index_def)

text \<open>An operator that is announced the request posts its share of it.\<close>

lemma announced_posts:
  assumes "operator_of small_kyber cfg poly" and "peers n = Some ps" and "\<not> knownSettled n (hexID 31)"
    and "existingSession n (hexID 31) = None" and "held_for n (hexID 31) = []"
  shows "\<exists>ws n1 ts1 raw. run_tasks small_kyber cfg demo_derive ws [Requesting demo_request Req_Start] n = (ts1, n1) \<and>
     (\<forall>w \<in> set ws. calm w) \<and> existingSession n1 (hexID 31) \<noteq> None \<and>
     SentShare (envelope_of (hexID 31) (req_Seed demo_request) (share_Index (Share cfg)) raw) \<in> set (trace n1)"
proof -
  let ?w = "quiet (Inr []) :: gf11 answer" and ?seed = "req_Seed demo_request"
  have r: "ID demo_request = 31" "demo_derive (ID demo_request) (Consumer demo_request) = ?seed"
    by (simp_all add: demo_request_def)
  obtain n1 where n1: "run_tasks small_kyber cfg demo_derive (replicate 6 ?w) [Requesting demo_request Req_Start] n =
      ([Requesting demo_request (Req_File ?seed (length (heap n)) [])], n1)"
    "sessions n1 = mput (sessions n) (hexID 31) (length (heap n))" "peers n1 = Some ps"
    using run_request[where derive = demo_derive and n = n and req = demo_request and w = ?w, OF assms(1) r(2)] assms(2-5)
    by (auto simp: r(1))
  obtain raw where raw: "SignatureBytes small_kyber (Sign small_kyber (Secret (Share cfg)) ?seed) = Inr raw"
    using SignatureBytes_ok[of small_kyber] small_kyber_laws unfolding kyber_laws_def by metis
  let ?e = "envelope_of (hexID 31) ?seed (share_Index (Share cfg)) raw"
  have 2: "run_tasks small_kyber cfg demo_derive [?w, ?w] [Requesting demo_request (Req_File ?seed (length (heap n)) [])] n1 =
      ([Chasing 31 (length (heap n)) ?e 0 Chase_Wait], emit (SentShare ?e) (count ShareSent n1))"
    using raw by (simp add: offer_share_def n1(3) r(1) Let_def)
  have "run_tasks small_kyber cfg demo_derive (replicate 6 ?w @ [?w, ?w]) [Requesting demo_request Req_Start] n =
      ([Chasing 31 (length (heap n)) ?e 0 Chase_Wait], emit (SentShare ?e) (count ShareSent n1))"
    by (simp only: run_append n1(1) 2 prod.case)
  moreover have "existingSession (emit (SentShare ?e) (count ShareSent n1)) (hexID 31) \<noteq> None"
    by (simp add: existingSession_def frame n1(2))
  moreover have "SentShare ?e \<in> set (trace (emit (SentShare ?e) (count ShareSent n1)))"
    by (simp add: trace_frame)
  moreover have "\<forall>w \<in> set (replicate 6 ?w @ [?w, ?w]). calm w" by (simp add: calm_quiet)
  ultimately show ?thesis by blast
qed

theorem some_operator_publishes_witness:
  "\<exists>Ds xs. live_fleet small_kyber [cfg_demo, cfg_two] demo_derive (\<lambda>_. replicate 20 6) 31 Ds xs \<and>
     (\<exists>j < 2. \<exists>raw gas. SentFulfill 31 raw gas \<in> set (trace (fst (xs ! j))))"
proof -
  let ?live = "live_fleet small_kyber [cfg_demo, cfg_two] demo_derive (\<lambda>_. replicate 20 6) 31"
  let ?w = "quiet (Inr []) :: gf11 answer" and ?n = "SetPeers [] (new_node None) :: (gf11, gf11) node"
  let ?t = "Requesting demo_request Req_Start :: gf11 task" and ?seed = "req_Seed demo_request"
  have fresh: "peers ?n = Some []" "\<not> knownSettled ?n (hexID 31)" "existingSession ?n (hexID 31) = None"
    "held_for ?n (hexID 31) = []"
    by (simp_all add: SetPeers_def new_node_def knownSettled_def existingSession_def held_for_def)
  have idx: "share_Index (Share cfg_demo) = 1" "share_Index (Share cfg_two) = 2"
    by (simp_all add: cfg_two_def cfg_demo_def share_Index_def)
  obtain ws0 n0 ts0 where r0: "run_tasks small_kyber cfg_demo demo_derive ws0 [?t] ?n = (ts0, n0)"
    "\<forall>w \<in> set ws0. calm w" "existingSession n0 (hexID 31) \<noteq> None"
    using announced_posts[OF demo_operator fresh] by blast
  obtain ws1 n1 ts1 raw where r1: "run_tasks small_kyber cfg_two demo_derive ws1 [?t] ?n = (ts1, n1)"
    "\<forall>w \<in> set ws1. calm w"
    "SentShare (envelope_of (hexID 31) ?seed 2 raw) \<in> set (trace n1)"
    using announced_posts[OF two_operator fresh] unfolding idx by blast
  let ?e = "envelope_of (hexID 31) ?seed 2 raw"
  have "?live [{}, {}] [(new_node None, []), (new_node None, [])]"
    using live_fleet.start[of "[None, None]" "[cfg_demo, cfg_two]"] by (simp add: numeral_2_eq_2)
  from live_fleet.attach[OF this, of 0 _ _ "[]"] have "?live [{}, {}] [(?n, []), (new_node None, [])]" by simp
  from live_fleet.attach[OF this, of 1 _ _ "[]"] have "?live [{}, {}] [(?n, []), (?n, [])]" by simp
  from live_fleet.announce[OF this, of 0 _ _ demo_request] have "?live [{1}, {}] [(?n, [?t]), (?n, [])]"
    by (simp add: demo_request_def idx)
  from live_fleet.announce[OF this, of 1 _ _ demo_request] have "?live [{1}, {2}] [(?n, [?t]), (?n, [?t])]"
    by (simp add: demo_request_def idx)
  from live_run_tasks[OF this, of 1 ?n "[?t]" ws1 ts1 n1] obtain D1 where "?live [{1}, D1] [(?n, [?t]), (n1, ts1)]"
    using r1(1,2) by auto
  from live_run_tasks[OF this, of 0 ?n "[?t]" ws0 ts0 n0] obtain D0
    where "?live [D0, D1] [(n0, ts0), (n1, ts1)]" "1 \<in> D0" using r0(1,2) by auto
  with live_fleet.deliver[OF this(1), of 0 n0 ts0 1 ?e]
  have l: "?live [insert 2 D0, D1] [(n0, ts0 @ [Sharing ?e Share_Start]), (n1, ts1)]" and D0: "1 \<in> D0"
    using r1(3) r0(3) by (simp_all add: idx envelope_of_def)
  let ?ts = "ts0 @ [Sharing ?e Share_Start]" and ?m = "total_weight cfg_demo (ts0 @ [Sharing ?e Share_Start])"
  have "parked_ok cfg_demo n0"
    using reachable_parked[of small_kyber cfg_demo _ "(n0, ?ts)"] fleet_runs live_fleet_reachable[OF l]
    by (fastforce simp: operator_run_def cfg_demo_def)
  then obtain ws2 n2 where "run_tasks small_kyber cfg_demo demo_derive ws2 ?ts n0 = ([], n2)" "\<forall>w \<in> set ws2. calm w"
    using run_tasks_ends[of cfg_demo n0 ?ts "replicate ?m ?w" small_kyber demo_derive] calm_quiet
    by (metis in_set_replicate length_replicate order_refl prod.collapse)
  with live_run_tasks[OF l, of 0 n0 ?ts ws2 "[]" n2]
  obtain D where live: "?live [D, D1] [(n2, []), (n1, ts1)]" and "{1, 2} \<subseteq> D" using D0 by auto
  then have "card {1, 2 :: u32} \<le> card D" by (intro card_mono) simp_all
  then have t: "Threshold ([cfg_demo, cfg_two] ! 0) \<le> int (card ([D, D1] ! 0))" by (simp add: cfg_demo_def)
  have g: "one_group small_kyber [cfg_demo, cfg_two] [3, 5]"
    using demo_operator two_operator by (auto simp: one_group_def less_Suc_eq cfg_two_def)
  have "length (demo_derive 31 (replicate 20 6)) = 32" using demo_seed_length by (simp add: demo_request_def)
  from some_operator_publishes[OF g live this, of 0] t
  have "\<exists>j < 2. \<exists>raw gas. SentFulfill 31 raw gas \<in> set (trace (fst ([(n2, []), (n1, ts1)] ! j)))"
    by (simp add: numeral_2_eq_2) blast
  with live show ?thesis by (intro exI[of _ "[D, D1]"] exI[of _ "[(n2, []), (n1, ts1)]"] conjI)
qed

end
