(* ===== verification/Chain_Watch.thy ===== *)
theory Chain_Watch
  imports Chain_Events
begin

text \<open>
  The polling loop of \<open>node/internal/chain/chain.go\<close> (\<open>Watch\<close>, \<open>waitOrNudge\<close>, \<open>jitter\<close>) and the
  reconnection loop of the event subscription (\<open>subscribe.go\<close>).  A run is a list of rounds; a
  round holds what the endpoint answers, the random draw and how the wait ended.
\<close>

section \<open>Waiting\<close>

definition poll_jitter :: "(int \<Rightarrow> int option) \<Rightarrow> duration \<Rightarrow> duration" where
  "poll_jitter draw d =
     (if d \<le> 0 then d
      else let spread = quot d 5 in
           if spread \<le> 0 then d
           else case draw spread of None \<Rightarrow> d | Some r \<Rightarrow> wrap64 (d + r))"

text \<open>
  How a wait ends: the timer fires, the context is done, or a nudge arrives after some time, and
  then the floor is slept out or the context is done meanwhile.  The result is the time slept, or
  nothing when the context ended it.
\<close>

datatype wake = Timer | Cancelled_Wait | Nudged duration | Nudged_Cancelled duration

definition waitOrNudge :: "duration \<Rightarrow> wake \<Rightarrow> duration option" where
  "waitOrNudge d w =
     (case w of
        Timer \<Rightarrow> Some (max 0 d)
      | Cancelled_Wait \<Rightarrow> None
      | Nudged t \<Rightarrow> Some (t + milliseconds 25)
      | Nudged_Cancelled t \<Rightarrow> None)"

section \<open>The loop\<close>

record watch_options =
  From_block :: u64
  Interval :: duration
  MaxInterval :: duration
  logRange :: u64
  chunkPause :: duration

record round_answers =
  head_answer :: "string + u64"
  filter_answer :: "u64 \<Rightarrow> u64 \<Rightarrow> string + chain_log list"
  ctx_done :: "nat \<Rightarrow> bool"
  draw :: "int \<Rightarrow> int option"
  woken :: wake

datatype poll_error = HeadFailed string | ScanFailed chain_error

datatype watch_event =
    SawFulfilled int
  | SawRequest request
  | Scanned u64
  | PollFailed poll_error
  | Slept duration

record watch_state =
  next_block :: u64
  wait :: duration

definition maxWait :: "watch_options \<Rightarrow> duration" where
  "maxWait opts = (if MaxInterval opts \<le> 0 then wrap64 (30 * Interval opts) else MaxInterval opts)"

text \<open>One poll: the callbacks made, the next block, and whether it failed.  \<open>None\<close>: it never returns.\<close>

definition poll ::
  "event_ids \<Rightarrow> (byte list \<Rightarrow> string + requested_body) \<Rightarrow> watch_options \<Rightarrow> round_answers \<Rightarrow> u64 \<Rightarrow>
   (watch_event list \<times> u64 \<times> bool) option" where
  "poll I unpack opts R nextb =
     (case head_answer R of
        Inl e \<Rightarrow> Some ([PollFailed (HeadFailed e)], nextb, True)
      | Inr head \<Rightarrow>
          if nextb \<le> head
          then (case eventsBetween I unpack (filter_answer R) (ctx_done R) (chunkPause opts) (logRange opts) nextb head of
                  None \<Rightarrow> None
                | Some (Inl e) \<Rightarrow> Some ([PollFailed (ScanFailed e)], nextb, True)
                | Some (Inr (requests, settled)) \<Rightarrow>
                    Some (map SawFulfilled settled @ map SawRequest requests @ [Scanned head], head + 1, False))
          else Some ([], nextb, False))"

definition next_wait :: "watch_options \<Rightarrow> bool \<Rightarrow> duration \<Rightarrow> duration" where
  "next_wait opts failed w =
     (if failed then (let w2 = wrap64 (w * 2) in if maxWait opts < w2 then maxWait opts else w2)
      else Interval opts)"

definition watch_start :: "watch_options \<Rightarrow> watch_state" where
  "watch_start opts = \<lparr>next_block = From_block opts, wait = Interval opts\<rparr>"

fun Watch ::
  "event_ids \<Rightarrow> (byte list \<Rightarrow> string + requested_body) \<Rightarrow> watch_options \<Rightarrow> round_answers list \<Rightarrow>
   watch_state \<Rightarrow> (watch_event list \<times> watch_state) option" where
  "Watch I unpack opts [] s = Some ([], s)"
| "Watch I unpack opts (R # Rs) s =
     (case poll I unpack opts R (next_block s) of
        None \<Rightarrow> None
      | Some (evs, nextb, failed) \<Rightarrow>
          (let w = next_wait opts failed (wait s); s1 = \<lparr>next_block = nextb, wait = w\<rparr>
           in case waitOrNudge (poll_jitter (draw R) w) (woken R) of
                None \<Rightarrow> Some (evs, s1)
              | Some t \<Rightarrow>
                  (case Watch I unpack opts Rs s1 of
                     None \<Rightarrow> None
                   | Some (evs2, s2) \<Rightarrow> Some (evs @ [Slept t] @ evs2, s2))))"

text \<open>Where the daemon starts (\<open>cmd/vrfnode/main.go\<close>): \<open>lookback\<close> blocks behind the head, or at zero.\<close>

definition start_block :: "u64 \<Rightarrow> u64 \<Rightarrow> u64 \<Rightarrow> u64" where
  "start_block fromBlock head lookback =
     (if fromBlock = 0 then if lookback < head then head - lookback else fromBlock else fromBlock)"

section \<open>The subscription\<close>

definition jitterAround :: "(int \<Rightarrow> int) \<Rightarrow> duration \<Rightarrow> duration" where
  "jitterAround int63n d =
     (if d \<le> 0 then d else let spread = quot d 5 in d + (int63n (2 * spread + 1) - spread))"

text \<open>
  The reconnection loop: each round is one life of the subscription and whether the context was
  done before it, after it, or during the wait.  The result is the list of waits.
\<close>

record nudge_round =
  done_before :: bool
  done_after :: bool
  int63n :: "int \<Rightarrow> int"
  done_waiting :: bool

fun Nudges :: "nudge_round list \<Rightarrow> duration \<Rightarrow> duration list" where
  "Nudges [] w = []"
| "Nudges (r # rs) w =
     (if done_before r \<or> done_after r then []
      else if done_waiting r then []
      else jitterAround (int63n r) w # Nudges rs (if w < seconds 30 then w * 2 else w))"

section \<open>Lemmas\<close>

text \<open>
  \<open>faithful\<close>: an answer of \<open>eth_getLogs\<close> is either an error or exactly the logs of the blocks asked
  for, in order.
\<close>

definition faithful :: "(int \<Rightarrow> chain_log list) \<Rightarrow> (u64 \<Rightarrow> u64 \<Rightarrow> string + chain_log list) \<Rightarrow> bool" where
  "faithful per_block filter_logs \<longleftrightarrow>
     (\<forall>a b logs. filter_logs a b = Inr logs \<longrightarrow> logs = concat (map per_block [uint a .. uint b]))"

lemma fetch_logs_faithful:
  "faithful per_block f \<Longrightarrow> fetch_logs f done pause i cs logs = Inr out \<Longrightarrow>
   out = logs @ concat (map per_block (concat (map blocks cs)))"
proof (induction cs arbitrary: i logs)
  case (Cons c cs)
  obtain a b where c: "c = (a, b)" by (cases c)
  obtain part where part: "f a b = Inr part"
    and rest: "fetch_logs f done pause (Suc i) cs (logs @ part) = Inr out"
    using Cons.prems(2) by (auto simp: c split: if_splits sum.splits)
  have "part = concat (map per_block [uint a .. uint b])"
    using Cons.prems(1) part by (simp add: faithful_def)
  with Cons.IH[OF Cons.prems(1) rest] show ?case by (simp add: c blocks_def)
qed simp

lemma split_logs_append:
  "split_logs I unpack (xs @ ys) out settled =
     (case split_logs I unpack xs out settled of
        Inl e \<Rightarrow> Inl e | Inr (o1, s1) \<Rightarrow> split_logs I unpack ys o1 s1)"
  by (induction xs arbitrary: out settled) (auto split: list.splits sum.splits)

lemma split_logs_acc:
  "split_logs I unpack ys (out @ o0) (settled @ s0) =
     (case split_logs I unpack ys o0 s0 of
        Inl e \<Rightarrow> Inl e | Inr (o1, s1) \<Rightarrow> Inr (out @ o1, settled @ s1))"
  by (induction ys arbitrary: o0 s0) (auto split: list.splits sum.splits)

lemma eventsBetween_faithful:
  assumes "faithful per_block f" and "from \<le> to" and "uint to + uint limit < 2 ^ 64"
    and "eventsBetween I unpack f done pause limit from to = Some (Inr r)"
  shows "split_logs I unpack (concat (map per_block [uint from .. uint to])) [] [] = Inr r"
proof -
  obtain cs where cs: "chunkRange from to limit = Some cs"
    "tiles (uint from) (uint to) (if limit = 0 then 2 ^ 64 else uint limit) cs"
    using chunkRange_tiles[OF assms(2,3)] by auto
  then obtain logs where "fetch_logs f done pause 0 cs [] = Inr logs"
    and "split_logs I unpack logs [] [] = Inr r"
    using assms(4) by (auto simp: eventsBetween_def split: sum.splits)
  with fetch_logs_faithful[OF assms(1)] tiles_blocks[OF cs(2)] show ?thesis by force
qed

lemma eventsBetween_returns:
  assumes "from \<le> to" and "uint to + uint limit < 2 ^ 64"
  shows "eventsBetween I unpack f done pause limit from to \<noteq> None"
  using chunkRange_tiles[OF assms] by (auto simp: eventsBetween_def)

fun seen_requests :: "watch_event list \<Rightarrow> request list" where
  "seen_requests [] = []"
| "seen_requests (SawRequest r # evs) = r # seen_requests evs"
| "seen_requests (_ # evs) = seen_requests evs"

fun seen_fulfilled :: "watch_event list \<Rightarrow> int list" where
  "seen_fulfilled [] = []"
| "seen_fulfilled (SawFulfilled i # evs) = i # seen_fulfilled evs"
| "seen_fulfilled (_ # evs) = seen_fulfilled evs"

lemma seen_requests_append [simp]: "seen_requests (xs @ ys) = seen_requests xs @ seen_requests ys"
  by (induction xs rule: seen_requests.induct) simp_all

lemma seen_fulfilled_append [simp]: "seen_fulfilled (xs @ ys) = seen_fulfilled xs @ seen_fulfilled ys"
  by (induction xs rule: seen_fulfilled.induct) simp_all

lemma seen_map_requests [simp]: "seen_requests (map SawRequest rs) = rs" "seen_fulfilled (map SawRequest rs) = []"
  by (induction rs) simp_all

lemma seen_map_fulfilled [simp]: "seen_requests (map SawFulfilled ns) = []" "seen_fulfilled (map SawFulfilled ns) = ns"
  by (induction ns) simp_all

text \<open>A round the endpoint may give: a head below the end of the number range, and faithful logs.\<close>

definition round_ok :: "(int \<Rightarrow> chain_log list) \<Rightarrow> watch_options \<Rightarrow> round_answers \<Rightarrow> bool" where
  "round_ok per_block opts R \<longleftrightarrow> faithful per_block (filter_answer R) \<and>
     (\<forall>h. head_answer R = Inr h \<longrightarrow> uint h + 1 < 2 ^ 64 \<and> uint h + uint (logRange opts) < 2 ^ 64)"

definition delivered ::
  "event_ids \<Rightarrow> (byte list \<Rightarrow> string + requested_body) \<Rightarrow> (int \<Rightarrow> chain_log list) \<Rightarrow> u64 \<Rightarrow> u64 \<Rightarrow>
   watch_event list \<Rightarrow> bool" where
  "delivered I unpack per_block a b evs \<longleftrightarrow> uint a \<le> uint b \<and>
     split_logs I unpack (concat (map per_block [uint a .. uint b - 1])) [] [] =
       Inr (seen_requests evs, seen_fulfilled evs)"

lemma delivered_trans:
  assumes "delivered I unpack per_block a b evs" and "delivered I unpack per_block b c evs2"
  shows "delivered I unpack per_block a c (evs @ evs2)"
proof -
  have "[uint a .. uint c - 1] = [uint a .. uint b - 1] @ [uint b .. uint c - 1]"
  proof (cases "uint a = uint b")
    case False
    then show ?thesis
      using assms upto_split2[of "uint a" "uint b - 1" "uint c - 1"]
      by (cases "uint b = uint c") (auto simp: delivered_def)
  qed simp
  moreover have "split_logs I unpack (xs @ ys) [] [] = Inr (r1 @ r2, f1 @ f2)"
    if "split_logs I unpack xs [] [] = Inr (r1, f1)" and "split_logs I unpack ys [] [] = Inr (r2, f2)"
    for xs ys r1 r2 f1 f2
    using that split_logs_acc[of I unpack ys r1 "[]" f1 "[]"] by (simp add: split_logs_append)
  ultimately show ?thesis using assms by (simp add: delivered_def)
qed

lemma poll_delivers:
  assumes "round_ok per_block opts R" and "poll I unpack opts R a = Some (evs, b, failed)"
  shows "delivered I unpack per_block a b evs"
proof (cases "\<exists>h. Scanned h \<in> set evs")
  case True
  then obtain h reqs settled where h: "head_answer R = Inr h" "a \<le> h"
    and ev: "eventsBetween I unpack (filter_answer R) (ctx_done R) (chunkPause opts) (logRange opts) a h =
       Some (Inr (reqs, settled))"
    and r: "evs = map SawFulfilled settled @ map SawRequest reqs @ [Scanned h]" "b = h + 1"
    using assms(2) by (auto simp: poll_def split: sum.splits if_splits option.splits prod.splits)
  have "uint h + 1 < 2 ^ 64" "uint h + uint (logRange opts) < 2 ^ 64" "faithful per_block (filter_answer R)"
    using assms(1) h(1) by (auto simp: round_ok_def)
  moreover from this have "uint b = uint h + 1" using uint_add_small[of h 1] r by simp
  ultimately show ?thesis
    using eventsBetween_faithful[OF _ h(2) _ ev] h(2) r by (simp add: delivered_def word_le_def)
next
  case False
  with assms(2) have "b = a \<and> seen_requests evs = [] \<and> seen_fulfilled evs = []"
    using assms by (auto simp: poll_def split: sum.splits if_splits option.splits prod.splits)
  then show ?thesis by (simp add: delivered_def)
qed

lemma poll_returns: "round_ok per_block opts R \<Longrightarrow> poll I unpack opts R a \<noteq> None"
  by (auto simp: poll_def round_ok_def eventsBetween_returns split: sum.splits option.splits)

lemma Watch_delivers:
  "\<forall>R \<in> set Rs. round_ok per_block opts R \<Longrightarrow>
   \<exists>evs s1. Watch I unpack opts Rs s = Some (evs, s1) \<and>
     delivered I unpack per_block (next_block s) (next_block s1) evs"
proof (induction Rs arbitrary: s)
  case Nil
  then show ?case by (simp add: delivered_def)
next
  case (Cons R Rs)
  obtain evs b failed where p: "poll I unpack opts R (next_block s) = Some (evs, b, failed)"
    using poll_returns[of per_block opts R I unpack "next_block s"] Cons.prems by fastforce
  have d: "delivered I unpack per_block (next_block s) b evs"
    using poll_delivers[OF _ p] Cons.prems by simp
  define s1 where "s1 = \<lparr>next_block = b, wait = next_wait opts failed (wait s)\<rparr>"
  have "next_block s1 = b" by (simp add: s1_def)
  obtain evs2 s2 where rest: "Watch I unpack opts Rs s1 = Some (evs2, s2)"
    "delivered I unpack per_block b (next_block s2) evs2"
    using Cons.IH[of s1] Cons.prems \<open>next_block s1 = b\<close> by auto
  show ?case
  proof (cases "waitOrNudge (poll_jitter (draw R) (wait s1)) (woken R)")
    case None
    with d p show ?thesis by (simp add: Let_def s1_def)
  next
    case (Some t)
    have "delivered I unpack per_block (next_block s) (next_block s2) (evs @ [Slept t] @ evs2)"
      using delivered_trans[OF d] rest(2) by (simp add: delivered_def)
    with p Some rest(1) show ?thesis by (simp add: Let_def s1_def)
  qed
qed

section \<open>Properties\<close>

text \<open>
  C10.  The loop delivers every event of every block once, in order.  Take any rounds: heads that
  jump, stand still, go back or fail, scans that fail at any chunk and are retried, nudges at any
  moment, the context ending at any wait.  If the answers that do arrive are the logs of the
  blocks asked for, the loop returns, the next block never goes back, and the requests and
  fulfilments handed to the node so far are exactly those in the blocks from the first one to
  the one before next, each once and in order of the chain.
\<close>

theorem watch_delivers_each_block_once:
  assumes "\<forall>R \<in> set Rs. round_ok per_block opts R"
  shows "\<exists>evs s1. Watch I unpack opts Rs (watch_start opts) = Some (evs, s1) \<and>
     uint (From_block opts) \<le> uint (next_block s1) \<and>
     split_logs I unpack (concat (map per_block [uint (From_block opts) .. uint (next_block s1) - 1])) [] [] =
       Inr (seen_requests evs, seen_fulfilled evs)"
  using Watch_delivers[OF assms, of I unpack "watch_start opts"]
  by (simp add: delivered_def watch_start_def)

definition demo_round :: "string + u64 \<Rightarrow> bool \<Rightarrow> round_answers" where
  "demo_round h ok = \<lparr> head_answer = h,
     filter_answer = (\<lambda>a b. if ok then Inr (concat (map (\<lambda>i. [\<lparr>Topics = [[2], [word_of_int i]], Data = [],
        log_BlockNumber = 0, log_TxHash = []\<rparr>]) [uint a .. uint b])) else Inl ''429''),
     ctx_done = (\<lambda>_. False), draw = (\<lambda>_. None), woken = Timer \<rparr>"

definition demo_options :: watch_options where
  "demo_options = \<lparr>From_block = 3, Interval = seconds 3, MaxInterval = 0, logRange = 2, chunkPause = 0\<rparr>"

theorem watch_delivers_each_block_once_witness:
  "\<exists>evs s1. Watch \<lparr>requested_id = [1], fulfilled_id = [2]\<rparr> (\<lambda>_. Inl [])  demo_options
      [demo_round (Inr 4) True, demo_round (Inr 7) False, demo_round (Inl ''down'') True,
       demo_round (Inr 6) True] (watch_start demo_options) = Some (evs, s1) \<and> 3 \<le> uint (next_block s1)"
proof -
  let ?Rs = "[demo_round (Inr 4) True, demo_round (Inr 7) False, demo_round (Inl ''down'') True,
       demo_round (Inr 6) True]"
  have "\<forall>R \<in> set ?Rs. round_ok (\<lambda>i. [\<lparr>Topics = [[2], [word_of_int i]], Data = [],
        log_BlockNumber = 0, log_TxHash = []\<rparr>]) demo_options R"
    by (simp add: round_ok_def demo_round_def demo_options_def faithful_def)
  from watch_delivers_each_block_once[OF this, of "\<lparr>requested_id = [1], fulfilled_id = [2]\<rparr>" "\<lambda>_. Inl []"]
  show ?thesis by (auto simp: demo_options_def)
qed

text \<open>
  Failures double the wait, up to the cap, and one success resets it.  With a positive
  interval and a cap at least as long that leaves room to double in 64 bits, \<open>k\<close> failed polls in a
  row lead to a wait of \<open>2^k\<close> intervals or the cap, whichever is shorter; a poll that does not fail
  leads back to one interval, whatever came before.
\<close>

theorem backoff_doubles_and_resets:
  assumes "0 < Interval opts" and "Interval opts \<le> maxWait opts" and "2 * maxWait opts < 2 ^ 63"
  shows "(next_wait opts True ^^ k) (Interval opts) = min (maxWait opts) (Interval opts * 2 ^ k) \<and>
         next_wait opts False w = Interval opts"
proof (induction k)
  case (Suc k)
  let ?w = "min (maxWait opts) (Interval opts * 2 ^ k)"
  have "0 \<le> Interval opts * 2 ^ k" using assms(1) by simp
  then have w: "0 \<le> ?w * 2" "?w * 2 < 2 ^ 63" using assms by linarith+
  have "wrap64 (?w * 2) = ?w * 2" using w by (intro wrap64_id) linarith+
  then have "next_wait opts True ?w = min (maxWait opts) (?w * 2)"
    by (simp add: next_wait_def Let_def min_def)
  also have "\<dots> = min (maxWait opts) (Interval opts * 2 ^ Suc k)"
    using assms(1,2) by (simp add: min_def)
  finally show ?case using Suc by (simp add: next_wait_def)
qed (use assms in \<open>simp add: next_wait_def\<close>)

theorem backoff_doubles_and_resets_witness:
  "(next_wait demo_options True ^^ 10) (Interval demo_options) = seconds 90"
proof -
  have o: "Interval demo_options = seconds 3" "maxWait demo_options = seconds 90"
    by (simp_all add: demo_options_def maxWait_def wrap64_def)
  from backoff_doubles_and_resets[of demo_options 10 0] show ?thesis by (simp add: o)
qed

definition rounds_slept :: "(duration \<times> wake) list \<Rightarrow> duration list" where
  "rounds_slept rs = concat (map (\<lambda>(d, w). case waitOrNudge d w of None \<Rightarrow> [] | Some t \<Rightarrow> [t]) rs)"

text \<open>
  A broken subscription cannot spin the loop.  Every wait that ends without the context ends
  no earlier than the interval's timer or 25 milliseconds, whichever is first, even if the
  nudge channel is closed and always ready.
\<close>

theorem nudges_cannot_spin_the_loop:
  assumes "\<forall>(d, w) \<in> set rs. milliseconds 25 \<le> d \<and> (\<forall>t. w = Nudged t \<longrightarrow> 0 \<le> t)"
  shows "int (length (rounds_slept rs)) * milliseconds 25 \<le> sum_list (rounds_slept rs)"
  using assms
proof (induction rs)
  case (Cons r rs)
  obtain d w where r: "r = (d, w)" by (cases r)
  show ?case
    using Cons by (cases w) (auto simp: r rounds_slept_def waitOrNudge_def algebra_simps)
qed (simp add: rounds_slept_def)

theorem nudges_cannot_spin_the_loop_witness:
  "int (length (rounds_slept (replicate 40 (seconds 3, Nudged 0)))) * milliseconds 25
     \<le> sum_list (rounds_slept (replicate 40 (seconds 3, Nudged 0)))"
  by (rule nudges_cannot_spin_the_loop) simp

lemma jitterAround_bounds:
  assumes "0 < d" and "\<forall>m. 0 < m \<longrightarrow> 0 \<le> f m \<and> f m < m"
  shows "d - d div 5 \<le> jitterAround f d \<and> jitterAround f d \<le> d + d div 5"
proof -
  have q: "quot d 5 = d div 5" using assms(1) by (simp add: quot_pos)
  have "0 < 2 * (d div 5) + 1" using assms(1) by (simp add: pos_imp_zdiv_nonneg_iff add_nonneg_pos)
  then have "0 \<le> f (2 * (d div 5) + 1) \<and> f (2 * (d div 5) + 1) < 2 * (d div 5) + 1"
    using assms(2) by blast
  then show ?thesis using assms(1) by (simp add: jitterAround_def Let_def q)
qed

fun nudge_wait :: "nat \<Rightarrow> duration" where
  "nudge_wait k = (if k < 6 then milliseconds 500 * 2 ^ k else seconds 32)"

lemma nudge_wait_step:
  "(if nudge_wait k < seconds 30 then nudge_wait k * 2 else nudge_wait k) = nudge_wait (Suc k)"
proof (cases "k < 6")
  case True
  then have "k = 0 \<or> k = 1 \<or> k = 2 \<or> k = 3 \<or> k = 4 \<or> k = 5" by linarith
  then show ?thesis by auto
qed simp

lemma Nudges_nth:
  "\<forall>r \<in> set rs. \<forall>m. 0 < m \<longrightarrow> 0 \<le> int63n r m \<and> int63n r m < m \<Longrightarrow>
   j < length (Nudges rs (nudge_wait k)) \<Longrightarrow>
   nudge_wait (k + j) - nudge_wait (k + j) div 5 \<le> Nudges rs (nudge_wait k) ! j \<and>
   Nudges rs (nudge_wait k) ! j \<le> nudge_wait (k + j) + nudge_wait (k + j) div 5"
proof (induction rs arbitrary: k j)
  case (Cons r rs)
  then have live: "\<not> (done_before r \<or> done_after r)" "\<not> done_waiting r" by (auto split: if_splits)
  have pos: "0 < nudge_wait k" by simp
  have run: "Nudges (r # rs) (nudge_wait k) =
      jitterAround (int63n r) (nudge_wait k) # Nudges rs (nudge_wait (Suc k))"
    using live nudge_wait_step[of k] by (simp del: nudge_wait.simps)
  show ?case
  proof (cases j)
    case 0
    have "\<forall>m. 0 < m \<longrightarrow> 0 \<le> int63n r m \<and> int63n r m < m" using Cons.prems(1) by simp
    from jitterAround_bounds[OF pos this] show ?thesis unfolding run 0 by (simp del: nudge_wait.simps)
  next
    case (Suc i)
    then show ?thesis
      using Cons.IH[of i "Suc k"] Cons.prems unfolding run by (simp del: nudge_wait.simps)
  qed
qed simp

text \<open>
  Reconnecting slows down to half a minute.  However often the subscription drops, the waits
  before reconnecting follow 0.5, 1, 2, 4, 8, 16 and then 32 seconds, each within a fifth of it; the
  guard at 30 seconds lets the wait reach 32.
\<close>

theorem reconnecting_backs_off:
  assumes "\<forall>r \<in> set rs. \<forall>m. 0 < m \<longrightarrow> 0 \<le> int63n r m \<and> int63n r m < m"
    and "j < length (Nudges rs (milliseconds 500))"
  shows "\<bar>Nudges rs (milliseconds 500) ! j - (if j < 6 then milliseconds 500 * 2 ^ j else seconds 32)\<bar>
           \<le> (if j < 6 then milliseconds 500 * 2 ^ j else seconds 32) div 5"
  using Nudges_nth[OF assms(1), of j 0] assms(2) by (simp split: if_splits) linarith+

theorem reconnecting_backs_off_witness:
  "\<bar>Nudges (replicate 9 \<lparr>done_before = False, done_after = False, int63n = (\<lambda>m. m - 1), done_waiting = False\<rparr>)
      (milliseconds 500) ! 8 - seconds 32\<bar> \<le> seconds 32 div 5"
  using reconnecting_backs_off[of "replicate 9 \<lparr>done_before = False, done_after = False,
      int63n = (\<lambda>m. m - 1), done_waiting = False\<rparr>" 8]
  by (simp add: numeral_eq_Suc)

end
