(* ===== verification/Chain_Client.thy ===== *)
theory Chain_Client
  imports Chain_Events
begin

text \<open>
  The writing half of the client (\<open>node/internal/chain/chain.go\<close>, \<open>earnings.go\<close>): gas limits, the
  fee cache, the nonce counter and the one place that sends transactions, and the decision to
  collect earnings.

  The RPC endpoint is an argument: one record of its answers per call of the client.  Signing a
  transaction and encoding call data are arguments too.
\<close>

section \<open>Gas\<close>

definition DefaultGasLimit :: u64 where "DefaultGasLimit = 750000"
definition FulfilOverhead :: u64 where "FulfilOverhead = 240000"
definition ClaimGas :: u64 where "ClaimGas = 60000"

definition FulfilGasLimit :: "u32 \<Rightarrow> u64" where
  "FulfilGasLimit callbackGasLimit = ucast callbackGasLimit * 64 div 63 + FulfilOverhead"

section \<open>State\<close>

text \<open>
  \<open>cached\<close> holds tip, base fee and the time they were read; a header without a base fee gives
  \<open>None\<close> for it.  \<open>subscription\<close> is the zero address until it has been read.
\<close>

record client =
  coordinator :: "byte list"
  has_key :: bool
  sender :: "byte list"
  chainID :: int
  gasLimit :: u64
  cachedTip :: int
  cachedBaseFee :: "int option"
  feeAt :: int
  nextNonce :: u64
  haveNonce :: bool
  subscription :: "byte list"

record transaction =
  tx_chain :: int
  tx_nonce :: u64
  tx_tip :: int
  tx_feecap :: int
  tx_gas :: u64
  tx_to :: "byte list"
  tx_data :: "byte list"

record endpoint =
  header_base :: "string + int option"
  tip_cap :: "string + int"
  pending_nonce :: "string + u64"
  accepts :: "transaction \<Rightarrow> string option"
  sign_tx :: "transaction \<Rightarrow> string + byte list"

datatype client_error =
    NoKey
  | PackFailed string
  | RPC string
  | SignFailed string
  | SendFailed string
  | NilBaseFee
  | Undecoded string

text \<open>\<open>Dial\<close>, once the chain id and the code at the coordinator have been read.\<close>

definition Dial ::
  "byte list \<Rightarrow> byte list option \<Rightarrow> string + int \<Rightarrow> string + byte list \<Rightarrow> client_error + client" where
  "Dial coord key chain_id code =
     (case chain_id of
        Inl e \<Rightarrow> Inl (RPC e)
      | Inr cid \<Rightarrow>
          (case code of
             Inl e \<Rightarrow> Inl (RPC e)
           | Inr [] \<Rightarrow> Inl (Undecoded ''no contract'')
           | Inr (_ # _) \<Rightarrow>
               Inr \<lparr> coordinator = coord, has_key = (key \<noteq> None),
                     sender = (case key of None \<Rightarrow> replicate 20 0 | Some a \<Rightarrow> a), chainID = cid,
                     gasLimit = DefaultGasLimit, cachedTip = 0, cachedBaseFee = None, feeAt = 0,
                     nextNonce = 0, haveNonce = False, subscription = replicate 20 0 \<rparr>))"

definition SetGasLimit :: "u64 \<Rightarrow> client \<Rightarrow> client" where
  "SetGasLimit limit c = (if 0 < limit then c\<lparr>gasLimit := limit\<rparr> else c)"

section \<open>Fees\<close>

text \<open>\<open>now\<close> is the monotonic clock in nanoseconds.\<close>

definition fees :: "endpoint \<Rightarrow> int \<Rightarrow> client \<Rightarrow> (client_error + (int \<times> int option)) \<times> client" where
  "fees E now c =
     (if cachedBaseFee c \<noteq> None \<and> now - feeAt c < seconds 1
      then (Inr (cachedTip c, cachedBaseFee c), c)
      else case header_base E of
             Inl e \<Rightarrow> (Inl (RPC e), c)
           | Inr base \<Rightarrow>
               (let tip = (case tip_cap E of Inl _ \<Rightarrow> 0 | Inr t \<Rightarrow> t)
                in (Inr (tip, base), c\<lparr>cachedTip := tip, cachedBaseFee := base, feeAt := now\<rparr>)))"

section \<open>Sending\<close>

definition reserveNonce :: "endpoint \<Rightarrow> client \<Rightarrow> (client_error + u64) \<times> client" where
  "reserveNonce E c =
     (if \<not> haveNonce c
      then (case pending_nonce E of
              Inl e \<Rightarrow> (Inl (RPC e), c)
            | Inr nonce \<Rightarrow> (Inr nonce, c\<lparr>nextNonce := nonce, haveNonce := True\<rparr>))
      else (Inr (nextNonce c), c))"

text \<open>
  The section that holds \<open>nonceMu\<close>: the transaction that reached the endpoint, if one did, and
  whether it was accepted, is part of the result.
\<close>

definition submit ::
  "endpoint \<Rightarrow> byte list \<Rightarrow> byte list \<Rightarrow> u64 \<Rightarrow> int \<Rightarrow> int \<Rightarrow> client \<Rightarrow>
   (client_error + byte list) \<times> transaction option \<times> client" where
  "submit E dest data gas tip baseFee c =
     (case reserveNonce E c of
        (Inl e, c1) \<Rightarrow> (Inl e, None, c1)
      | (Inr nonce, c1) \<Rightarrow>
          (let tx = \<lparr> tx_chain = chainID c1, tx_nonce = nonce, tx_tip = tip,
                      tx_feecap = tip + baseFee * 2, tx_gas = gas, tx_to = dest, tx_data = data \<rparr>
           in case sign_tx E tx of
                Inl e \<Rightarrow> (Inl (SignFailed e), None, c1)
              | Inr hash \<Rightarrow>
                  (case accepts E tx of
                     Some e \<Rightarrow> (Inl (SendFailed e), Some tx, c1\<lparr>haveNonce := False\<rparr>)
                   | None \<Rightarrow> (Inr hash, Some tx, c1\<lparr>nextNonce := nonce + 1\<rparr>))))"

definition send ::
  "endpoint \<Rightarrow> int \<Rightarrow> byte list \<Rightarrow> byte list \<Rightarrow> u64 \<Rightarrow> client \<Rightarrow>
   (client_error + byte list) \<times> transaction option \<times> client" where
  "send E now dest data gas c =
     (if \<not> has_key c then (Inl NoKey, None, c)
      else case fees E now c of
             (Inl e, c1) \<Rightarrow> (Inl e, None, c1)
           | (Inr (tip, None), c1) \<Rightarrow> (Inl NilBaseFee, None, c1)
           | (Inr (tip, Some baseFee), c1) \<Rightarrow> submit E dest data gas tip baseFee c1)"

definition Fulfill ::
  "(int \<Rightarrow> byte list \<Rightarrow> string + byte list) \<Rightarrow> endpoint \<Rightarrow> int \<Rightarrow> int \<Rightarrow> byte list \<Rightarrow> u32 \<Rightarrow> client \<Rightarrow>
   (client_error + byte list) \<times> transaction option \<times> client" where
  "Fulfill pack E now requestID signature callbackGasLimit c =
     (if \<not> has_key c then (Inl NoKey, None, c)
      else case pack requestID signature of
             Inl e \<Rightarrow> (Inl (PackFailed e), None, c)
           | Inr data \<Rightarrow>
               (let limit = FulfilGasLimit callbackGasLimit;
                    limit1 = (if gasLimit c \<noteq> DefaultGasLimit then gasLimit c else limit)
                in send E now (coordinator c) data limit1 c))"

section \<open>Earnings\<close>

definition ClaimMargin :: int where "ClaimMargin = 3"

definition ShouldClaim :: "int option \<Rightarrow> int option \<Rightarrow> int option \<Rightarrow> int option \<Rightarrow> bool" where
  "ShouldClaim balance earnings limit claimCost =
     (case (balance, earnings, limit, claimCost) of
        (Some b, Some e, Some f, Some cost) \<Rightarrow>
          if f \<le> b then False else cost * ClaimMargin < e
      | _ \<Rightarrow> False)"

text \<open>
  \<open>asked\<close> is the answer of the coordinator's \<open>subscriptions()\<close>, decoded; reading it is skipped once
  a non-zero address is held.
\<close>

definition Subscription :: "string + byte list \<Rightarrow> client \<Rightarrow> (client_error + byte list) \<times> client" where
  "Subscription asked c =
     (if subscription c \<noteq> replicate 20 0 then (Inr (subscription c), c)
      else case asked of
             Inl e \<Rightarrow> (Inl (RPC e), c)
           | Inr addr \<Rightarrow> (Inr addr, c\<lparr>subscription := addr\<rparr>))"

definition WithdrawableOf ::
  "string + byte list \<Rightarrow> (byte list \<Rightarrow> byte list \<Rightarrow> string + int) \<Rightarrow> byte list \<Rightarrow> client \<Rightarrow>
   (client_error + int) \<times> client" where
  "WithdrawableOf asked withdrawable who c =
     (case Subscription asked c of
        (Inl e, c1) \<Rightarrow> (Inl e, c1)
      | (Inr subs, c1) \<Rightarrow>
          (case withdrawable subs who of Inl e \<Rightarrow> (Inl (RPC e), c1) | Inr amount \<Rightarrow> (Inr amount, c1)))"

definition Claim ::
  "string + byte list \<Rightarrow> (byte list \<Rightarrow> string + byte list) \<Rightarrow> endpoint \<Rightarrow> int \<Rightarrow> client \<Rightarrow>
   (client_error + byte list) \<times> transaction option \<times> client" where
  "Claim asked pack E now c =
     (case Subscription asked c of
        (Inl e, c1) \<Rightarrow> (Inl e, None, c1)
      | (Inr subs, c1) \<Rightarrow>
          (case pack (sender c1) of
             Inl e \<Rightarrow> (Inl (PackFailed e), None, c1)
           | Inr data \<Rightarrow> send E now subs data ClaimGas c1))"

definition ClaimCost :: "endpoint \<Rightarrow> int \<Rightarrow> client \<Rightarrow> (client_error + int) \<times> client" where
  "ClaimCost E now c =
     (case fees E now c of
        (Inl e, c1) \<Rightarrow> (Inl e, c1)
      | (Inr (tip, None), c1) \<Rightarrow> (Inl NilBaseFee, c1)
      | (Inr (tip, Some baseFee), c1) \<Rightarrow> (Inr ((tip + baseFee * 2) * uint ClaimGas), c1))"

section \<open>A sequence of sends\<close>

text \<open>
  Fulfilments and claims all go through \<open>send\<close>, and the mutex lets them in one at a time.  A job is
  the endpoint's behaviour for one of them with its arguments.
\<close>

type_synonym job = "endpoint \<times> int \<times> byte list \<times> byte list \<times> u64"

fun submissions :: "job list \<Rightarrow> client \<Rightarrow> (transaction \<times> bool) list" where
  "submissions [] c = []"
| "submissions ((E, now, dest, data, gas) # jobs) c =
     (case send E now dest data gas c of
        (r, None, c1) \<Rightarrow> submissions jobs c1
      | (r, Some tx, c1) \<Rightarrow> (tx, accepts E tx = None) # submissions jobs c1)"

definition accepted_nonces :: "(transaction \<times> bool) list \<Rightarrow> int list" where
  "accepted_nonces subs = map (\<lambda>(tx, ok). uint (tx_nonce tx)) (filter snd subs)"

lemma accepted_nonces_simps [simp]:
  "accepted_nonces [] = []"
  "accepted_nonces ((t, ok) # subs) =
     (if ok then uint (tx_nonce t) # accepted_nonces subs else accepted_nonces subs)"
  by (simp_all add: accepted_nonces_def)

text \<open>
  What \<open>eth_getTransactionCount\<close> with \<open>pending\<close> is documented to return: a number above every
  nonce of this account the endpoint has accepted.  \<open>b\<close> is the least such number so far.
\<close>

fun pending_truthful :: "int \<Rightarrow> job list \<Rightarrow> client \<Rightarrow> bool" where
  "pending_truthful b [] c = True"
| "pending_truthful b ((E, now, dest, data, gas) # jobs) c =
     ((\<forall>p. pending_nonce E = Inr p \<longrightarrow> b \<le> uint p \<and> uint p + int (length jobs) < 2 ^ 64 - 1) \<and>
      (case send E now dest data gas c of
         (r, Some tx, c1) \<Rightarrow>
           pending_truthful (if accepts E tx = None then uint (tx_nonce tx) + 1 else b) jobs c1
       | (r, None, c1) \<Rightarrow> pending_truthful b jobs c1))"

text \<open>What one call may do to the counter.\<close>

lemma fees_nonce:
  "fees E now c = (r, c1) \<Longrightarrow> nextNonce c1 = nextNonce c \<and> haveNonce c1 = haveNonce c \<and> has_key c1 = has_key c"
  by (auto simp: fees_def Let_def split: if_splits sum.splits)

definition counter_effect :: "endpoint \<Rightarrow> client \<Rightarrow> transaction option \<Rightarrow> client \<Rightarrow> bool" where
  "counter_effect E c tx c1 \<longleftrightarrow>
     (case tx of
        None \<Rightarrow> nextNonce c1 = nextNonce c \<and> haveNonce c1 = haveNonce c \<or>
                (\<exists>p. pending_nonce E = Inr p \<and> nextNonce c1 = p \<and> haveNonce c1)
      | Some t \<Rightarrow>
          if accepts E t = None
          then nextNonce c1 = tx_nonce t + 1 \<and> haveNonce c1 \<and>
               (if haveNonce c then tx_nonce t = nextNonce c else pending_nonce E = Inr (tx_nonce t))
          else \<not> haveNonce c1)"

lemma submit_effect:
  "submit E dest data gas tip base c = (r, tx, c1) \<Longrightarrow> counter_effect E c tx c1"
  by (auto simp: submit_def reserveNonce_def Let_def counter_effect_def
           split: if_splits sum.splits option.splits)

lemma send_effect:
  assumes "send E now dest data gas c = (r, tx, c1)"
  shows "counter_effect E c tx c1"
proof (cases "has_key c")
  case False
  with assms show ?thesis by (simp add: send_def counter_effect_def)
next
  case True
  obtain f c2 where f: "fees E now c = (f, c2)" by fastforce
  note same = fees_nonce[OF f]
  show ?thesis
  proof (cases "\<exists>tip base. f = Inr (tip, Some base)")
    case True
    then obtain tip base where "submit E dest data gas tip base c2 = (r, tx, c1)"
      using assms f \<open>has_key c\<close> by (auto simp: send_def)
    from submit_effect[OF this] same show ?thesis
      by (simp add: counter_effect_def split: option.splits)
  next
    case False
    then have "tx = None" "c1 = c2"
      using assms f \<open>has_key c\<close> by (auto simp: send_def split: sum.splits option.splits prod.splits)
    with same show ?thesis by (simp add: counter_effect_def)
  qed
qed

definition counter_ok :: "int \<Rightarrow> nat \<Rightarrow> client \<Rightarrow> bool" where
  "counter_ok b jobs c \<longleftrightarrow>
     (haveNonce c \<longrightarrow> b \<le> uint (nextNonce c) \<and> uint (nextNonce c) + int jobs < 2 ^ 64)"

lemma uint_succ: "uint (x :: u64) + 1 < 2 ^ 64 \<Longrightarrow> uint (x + 1) = uint x + 1"
  using uint_add_small[of x 1] by simp

lemma accepted_increase:
  "counter_ok b (length jobs) c \<Longrightarrow> pending_truthful b jobs c \<Longrightarrow>
   (\<forall>x \<in> set (accepted_nonces (submissions jobs c)). b \<le> x) \<and>
   sorted_wrt (<) (accepted_nonces (submissions jobs c))"
proof (induction jobs arbitrary: b c)
  case Nil
  then show ?case by simp
next
  case (Cons job jobs)
  obtain E now dest data gas where job: "job = (E, now, dest, data, gas)" by (cases job)
  obtain r tx c1 where send: "send E now dest data gas c = (r, tx, c1)" by (metis prod_cases3)
  have pend: "pending_nonce E = Inr p \<Longrightarrow> b \<le> uint p \<and> uint p + int (length jobs) < 2 ^ 64 - 1" for p
    using Cons.prems(2) by (simp add: job)
  note eff = send_effect[OF send]
  show ?case
  proof (cases tx)
    case None
    then have "counter_ok b (length jobs) c1"
      using Cons.prems(1) eff pend by (fastforce simp: counter_ok_def counter_effect_def)
    then show ?thesis using Cons None by (simp add: job send)
  next
    case (Some t)
    show ?thesis
    proof (cases "accepts E t = None")
      case False
      then have "counter_ok b (length jobs) c1"
        using eff Some by (simp add: counter_ok_def counter_effect_def)
      then show ?thesis using Cons Some False by (auto simp: job send)
    next
      case True
      have b: "b \<le> uint (tx_nonce t) \<and> uint (tx_nonce t) + 1 + int (length jobs) < 2 ^ 64"
        using eff pend[of "tx_nonce t"] Cons.prems(1) Some True
        by (auto simp: counter_ok_def counter_effect_def split: if_splits)
      then have "uint (tx_nonce t + 1) = uint (tx_nonce t) + 1" by (intro uint_succ) linarith
      then have "counter_ok (uint (tx_nonce t) + 1) (length jobs) c1"
        using eff b Some True by (simp add: counter_effect_def counter_ok_def)
      moreover have "pending_truthful (uint (tx_nonce t) + 1) jobs c1"
        using Cons.prems(2) Some True by (simp add: job send)
      ultimately have "(\<forall>x \<in> set (accepted_nonces (submissions jobs c1)). uint (tx_nonce t) + 1 \<le> x) \<and>
          sorted_wrt (<) (accepted_nonces (submissions jobs c1))" by (rule Cons.IH)
      then show ?thesis using b Some True by (fastforce simp: job send)
    qed
  qed
qed

section \<open>Properties\<close>

text \<open>
  No nonce is used twice.  Take any sequence of transactions sent through one client, with
  any mixture of refused fees, failed signatures, refusals and acceptances, against an endpoint
  whose pending count is above everything it has accepted.  Then the nonces of the accepted
  transactions increase strictly, in the order they were sent.
\<close>

theorem accepted_nonces_increase:
  assumes "\<not> haveNonce c" and "pending_truthful 0 jobs c"
  shows "sorted_wrt (<) (accepted_nonces (submissions jobs c)) \<and>
         distinct (accepted_nonces (submissions jobs c))"
proof -
  have "counter_ok 0 (length jobs) c" using assms(1) by (simp add: counter_ok_def)
  from accepted_increase[OF this assms(2)]
  have s: "sorted_wrt (<) (accepted_nonces (submissions jobs c))" by blast
  then have "distinct (accepted_nonces (submissions jobs c))"
    by (simp add: strict_sorted_iff)
  with s show ?thesis by blast
qed

definition demo_client :: client where
  "demo_client = \<lparr> coordinator = replicate 20 2, has_key = True, sender = replicate 20 3, chainID = 4663,
     gasLimit = DefaultGasLimit, cachedTip = 0, cachedBaseFee = None, feeAt = 0, nextNonce = 0,
     haveNonce = False, subscription = replicate 20 0 \<rparr>"

definition demo_endpoint :: "u64 \<Rightarrow> string option \<Rightarrow> endpoint" where
  "demo_endpoint p a = \<lparr> header_base = Inr (Some 7), tip_cap = Inr 1, pending_nonce = Inr p,
     accepts = (\<lambda>_. a), sign_tx = (\<lambda>_. Inr []) \<rparr>"

lemma demo_jobs_run:
  "pending_truthful 0 [(demo_endpoint 5 None, 0, [1], [1], 100), (demo_endpoint 6 (Some ''nonce''), 1, [1], [2], 100),
     (demo_endpoint 6 None, 2, [1], [2], 100)] demo_client"
  "map (\<lambda>s. tx_nonce (fst s)) (submissions [(demo_endpoint 5 None, 0, [1], [1], 100),
     (demo_endpoint 6 (Some ''nonce''), 1, [1], [2], 100), (demo_endpoint 6 None, 2, [1], [2], 100)] demo_client) = [5, 6, 6]"
  by (simp_all add: send_def fees_def submit_def reserveNonce_def demo_client_def demo_endpoint_def Let_def)

theorem accepted_nonces_increase_witness:
  "distinct (accepted_nonces (submissions [(demo_endpoint 5 None, 0, [1], [1], 100),
     (demo_endpoint 6 (Some ''nonce''), 1, [1], [2], 100), (demo_endpoint 6 None, 2, [1], [2], 100)] demo_client))"
  by (rule accepted_nonces_increase[THEN conjunct2, OF _ demo_jobs_run(1)]) (simp add: demo_client_def)

text \<open>The nonces of a burst that is accepted throughout.\<close>

lemma send_accepted:
  assumes "has_key c" and "header_base E = Inr (Some base)" and "\<forall>tx. accepts E tx = None"
    and "\<forall>tx. \<exists>h. sign_tx E tx = Inr h" and "haveNonce c"
  shows "\<exists>r tx c1. send E now dest data gas c = (r, Some tx, c1) \<and> tx_nonce tx = nextNonce c \<and>
     nextNonce c1 = nextNonce c + 1 \<and> haveNonce c1 \<and> has_key c1"
proof -
  have "\<exists>tip b c2. fees E now c = (Inr (tip, Some b), c2)"
    using assms(2) by (auto simp: fees_def Let_def)
  then obtain tip b c2 where f: "fees E now c = (Inr (tip, Some b), c2)" by blast
  let ?tx = "\<lparr> tx_chain = chainID c2, tx_nonce = nextNonce c, tx_tip = tip, tx_feecap = tip + b * 2,
              tx_gas = gas, tx_to = dest, tx_data = data \<rparr>"
  obtain h where h: "sign_tx E ?tx = Inr h" using assms(4) by blast
  show ?thesis
    using assms(1,3,5) fees_nonce[OF f] h
    by (simp add: send_def f submit_def reserveNonce_def Let_def)
qed

definition healthy :: "job \<Rightarrow> bool" where
  "healthy j \<longleftrightarrow> (\<exists>base. header_base (fst j) = Inr (Some base)) \<and>
     (\<forall>tx. accepts (fst j) tx = None) \<and> (\<forall>tx. \<exists>h. sign_tx (fst j) tx = Inr h)"

lemma burst_counter:
  "has_key c \<Longrightarrow> haveNonce c \<Longrightarrow> \<forall>j \<in> set jobs. healthy j \<Longrightarrow>
   map (\<lambda>s. tx_nonce (fst s)) (submissions jobs c) =
   map (\<lambda>k. nextNonce c + word_of_nat k) [0 ..< length jobs]"
proof (induction jobs arbitrary: c)
  case (Cons job jobs)
  obtain E now dest data gas where job: "job = (E, now, dest, data, gas)" by (cases job)
  obtain r tx c1 where s: "send E now dest data gas c = (r, Some tx, c1)" "tx_nonce tx = nextNonce c"
    "nextNonce c1 = nextNonce c + 1" "haveNonce c1" "has_key c1"
  proof -
    have "healthy (E, now, dest, data, gas)" using Cons.prems(3) job by simp
    then obtain base where "header_base E = Inr (Some base)" "\<forall>tx. accepts E tx = None"
      "\<forall>tx. \<exists>h. sign_tx E tx = Inr h" by (auto simp: healthy_def)
    from send_accepted[OF Cons.prems(1) this Cons.prems(2)] that show thesis by blast
  qed
  have "map (\<lambda>s. tx_nonce (fst s)) (submissions jobs c1) =
        map (\<lambda>k. nextNonce c + 1 + word_of_nat k) [0 ..< length jobs]"
    using Cons.IH[OF s(5,4)] Cons.prems(3) s(3) by simp
  moreover have "[0 ..< length (job # jobs)] = 0 # map Suc [0 ..< length jobs]"
    by (simp add: map_Suc_upt upt_conv_Cons del: upt_Suc)
  ultimately show ?case by (simp add: job s comp_def add.assoc)
qed simp

text \<open>
  A burst is numbered from one answer.  When a client without a counter sends a burst that is
  accepted, only the first pending count is used: the nonces are that count and its successors,
  whatever the endpoint would have said to the later ones.
\<close>

theorem burst_is_numbered_from_one_answer:
  assumes "has_key c" and "\<not> haveNonce c" and "pending_nonce E = Inr p"
    and "\<forall>j \<in> set ((E, now, dest, data, gas) # jobs). healthy j"
  shows "map (\<lambda>s. tx_nonce (fst s)) (submissions ((E, now, dest, data, gas) # jobs) c) =
         map (\<lambda>k. p + word_of_nat k) [0 ..< Suc (length jobs)]"
proof -
  have "healthy (E, now, dest, data, gas)" using assms(4) by simp
  then obtain base where base: "header_base E = Inr (Some base)" and acc: "\<forall>tx. accepts E tx = None"
    and sign: "\<forall>tx. \<exists>h. sign_tx E tx = Inr h" by (auto simp: healthy_def)
  have "\<exists>tip b c2. fees E now c = (Inr (tip, Some b), c2)" using base by (auto simp: fees_def Let_def)
  then obtain tip b c2 where f: "fees E now c = (Inr (tip, Some b), c2)" by blast
  let ?tx = "\<lparr> tx_chain = chainID c2, tx_nonce = p, tx_tip = tip, tx_feecap = tip + b * 2,
              tx_gas = gas, tx_to = dest, tx_data = data \<rparr>"
  obtain h where h: "sign_tx E ?tx = Inr h" using sign by blast
  let ?c1 = "c2\<lparr>haveNonce := True, nextNonce := p + 1\<rparr>"
  have send: "send E now dest data gas c = (Inr h, Some ?tx, ?c1)"
    using assms(1-3) fees_nonce[OF f] h acc by (simp add: send_def f submit_def reserveNonce_def Let_def)
  have "map (\<lambda>s. tx_nonce (fst s)) (submissions jobs ?c1) =
        map (\<lambda>k. p + 1 + word_of_nat k) [0 ..< length jobs]"
    using burst_counter[of ?c1 jobs] assms(1,4) fees_nonce[OF f] by simp
  moreover have "[0 ..< Suc (length jobs)] = 0 # map Suc [0 ..< length jobs]"
    by (simp add: map_Suc_upt upt_conv_Cons del: upt_Suc)
  ultimately show ?thesis by (simp add: send comp_def add.assoc del: upt_Suc)
qed

theorem burst_is_numbered_from_one_answer_witness:
  "map (\<lambda>s. tx_nonce (fst s)) (submissions [(demo_endpoint 5 None, 0, [1], [1], 100),
      (demo_endpoint 5 None, 1, [1], [2], 100), (demo_endpoint 0 None, 2, [1], [3], 100)] demo_client) = [5, 6, 7]"
proof -
  have h: "healthy (demo_endpoint p None, x)" for p x by (simp add: healthy_def demo_endpoint_def)
  have "pending_nonce (demo_endpoint 5 None) = Inr 5" "has_key demo_client" "\<not> haveNonce demo_client"
    by (simp_all add: demo_endpoint_def demo_client_def)
  from burst_is_numbered_from_one_answer[OF this(2,3,1), of 0 "[1]" "[1]" 100
      "[(demo_endpoint 5 None, 1, [1], [2], 100), (demo_endpoint 0 None, 2, [1], [3], 100)]"] h
  show ?thesis by simp
qed

lemma scale_64_63: "(u :: int) * 64 div 63 - u * 64 div 63 div 64 = u"
proof -
  define k r where "k = u div 63" and "r = u mod 63"
  have u: "u = 63 * k + r" and r: "0 \<le> r" "r < 63" by (simp_all add: k_def r_def)
  have "u * 64 div 63 = 64 * k + r" by (rule int_div_pos_eq[of _ _ _ r]) (use u r in simp_all)
  moreover have "(64 * k + r) div 64 = k" by (rule int_div_pos_eq[of _ _ _ r]) (use r in simp_all)
  ultimately show ?thesis using u by simp
qed

text \<open>
  The callback gets its whole budget.  For every 32-bit callback budget the limit does not
  wrap, and after the overhead, of what is left, 63 parts in 64 are at least the budget and not
  one unit more: the scaling is exactly what the 63/64 rule takes away.
\<close>

theorem callback_gets_its_budget:
  "let A = uint (FulfilGasLimit g) - uint FulfilOverhead
   in 0 \<le> A \<and> A - A div 64 = uint g \<and> uint (FulfilGasLimit g) \<le> uint g * 64 div 63 + 240000"
proof -
  have g: "0 \<le> uint g" "uint g < 2 ^ 32" using uint_lt2p[of g] by simp_all
  have u: "uint (ucast g :: u64) = uint g" using g by (simp add: unsigned_ucast_eq take_bit_int_eq_self)
  have m: "uint (ucast g * 64 :: u64) = uint g * 64"
    using g by (simp add: uint_word_ariths u)
  have d: "uint (ucast g * 64 div 63 :: u64) = uint g * 64 div 63" by (simp add: uint_div_distrib m)
  have b: "uint g * 64 div 63 < 2 ^ 63" using g by simp
  have f: "uint (FulfilGasLimit g) = uint g * 64 div 63 + 240000"
    unfolding FulfilGasLimit_def FulfilOverhead_def using b d
    by (subst uint_add_small) simp_all
  have "0 \<le> uint g * 64 div 63" using g(1) by (simp add: pos_imp_zdiv_nonneg_iff)
  with f scale_64_63[of "uint g"] show ?thesis by (simp add: Let_def FulfilOverhead_def)
qed

text \<open>
  An explicit gas limit wins unless it names the default.  Every limit set by the operator is
  what a fulfilment is sent under, except 750000, which is taken for no override: then the
  computed limit is used, whatever the flag said.
\<close>

theorem gas_override:
  assumes "Fulfill pack E now i signature g (SetGasLimit limit c) = (r, Some tx, c1)"
    and "0 < limit"
  shows "tx_gas tx = (if limit = 750000 then FulfilGasLimit g else limit)"
  using assms
  by (auto simp: Fulfill_def SetGasLimit_def send_def submit_def reserveNonce_def Let_def DefaultGasLimit_def
      split: if_splits sum.splits option.splits prod.splits)

theorem gas_override_witness:
  "\<exists>r tx c1. Fulfill (\<lambda>_ s. Inr s) (demo_endpoint 5 None) 0 31 [7] 100000 (SetGasLimit 750000 demo_client) = (r, Some tx, c1) \<and>
     tx_gas tx = 341587"
proof -
  obtain r tx c1 where run: "Fulfill (\<lambda>_ s. Inr s) (demo_endpoint 5 None) 0 31 [7] 100000
      (SetGasLimit 750000 demo_client) = (r, Some tx, c1)"
    by (simp add: Fulfill_def SetGasLimit_def send_def fees_def submit_def reserveNonce_def demo_client_def
        demo_endpoint_def Let_def DefaultGasLimit_def)
  have "FulfilGasLimit 100000 = 341587" by (simp add: FulfilGasLimit_def FulfilOverhead_def word_div_def)
  with gas_override[OF run] run show ?thesis by simp
qed

text \<open>
  Collecting pays.  A claim is sent only when all four figures are known, the balance is below
  the floor and the earnings exceed three times the cost; so whenever it is, the balance after the
  claim is higher than before by more than twice what the claim cost.
\<close>

theorem claim_pays:
  "ShouldClaim balance earnings limit cost \<longleftrightarrow>
     (\<exists>b e f c. balance = Some b \<and> earnings = Some e \<and> limit = Some f \<and> cost = Some c \<and>
        b < f \<and> b + 2 * c < b + e - c)"
  by (auto simp: ShouldClaim_def ClaimMargin_def split: option.splits)

text \<open>
  One second of fees.  While less than a second has passed since fees were read, every price
  is the one held and the endpoint is not asked, even if it would fail; a claim is then priced at
  what \<open>send\<close> would bid for it.
\<close>

theorem fees_held_for_a_second:
  assumes "fees E now c = (Inr (tip, Some base), c1)" and "now \<le> later" and "later - now < seconds 1"
    and "cachedBaseFee c = None \<or> seconds 1 \<le> now - feeAt c"
  shows "fees E' later c1 = (Inr (tip, Some base), c1) \<and>
     ClaimCost E' later c1 = (Inr ((tip + base * 2) * 60000), c1) \<and>
     (\<forall>tx r c2. send E' later dest data ClaimGas c1 = (r, Some tx, c2) \<longrightarrow>
        tx_feecap tx * uint (tx_gas tx) = (tip + base * 2) * 60000)"
proof -
  have c1: "cachedTip c1 = tip" "cachedBaseFee c1 = Some base" "feeAt c1 = now"
    using assms(1,4) by (auto simp: fees_def Let_def split: if_splits sum.splits)
  then have f: "fees E' later c1 = (Inr (tip, Some base), c1)"
    using assms(2,3) by (simp add: fees_def)
  then show ?thesis
    by (auto simp: ClaimCost_def ClaimGas_def send_def submit_def reserveNonce_def Let_def
        split: if_splits sum.splits option.splits prod.splits)
qed

theorem fees_held_for_a_second_witness:
  "fees (demo_endpoint 0 None) (seconds 5 + 999999999)
     (snd (fees (demo_endpoint 0 None) (seconds 5) demo_client)) =
     (Inr (1, Some 7), snd (fees (demo_endpoint 0 None) (seconds 5) demo_client))"
proof -
  let ?c1 = "snd (fees (demo_endpoint 0 None) (seconds 5) demo_client)"
  have "fees (demo_endpoint 0 None) (seconds 5) demo_client = (Inr (1, Some 7), ?c1)"
    "cachedBaseFee demo_client = None"
    by (simp_all add: fees_def demo_client_def demo_endpoint_def Let_def)
  from fees_held_for_a_second[OF this(1) _ _ disjI1[OF this(2)],
      of "seconds 5 + 999999999" "demo_endpoint 0 None"] show ?thesis by simp
qed

end
