(* ===== verification/Balance.thy ===== *)
theory Balance
  imports Chain_Client
begin

text \<open>
  Watching the publishing account: the balance cache (\<open>node/internal/chain/balance.go\<close>) and the
  check the daemon runs on every poll and after every publication (\<open>checkBalance\<close> of
  \<open>node/cmd/vrfnode/main.go\<close>), which collects earnings when that pays.
\<close>

section \<open>The cache\<close>

text \<open>\<open>fetched\<close> is \<open>None\<close> for Go's zero time.\<close>

record balance_cache =
  every :: duration
  held :: "int option"
  fetched :: "int option"

definition NewBalanceCache :: "duration \<Rightarrow> balance_cache" where
  "NewBalanceCache d = \<lparr>every = d, held = None, fetched = None\<rparr>"

definition is_fresh :: "int \<Rightarrow> balance_cache \<Rightarrow> bool" where
  "is_fresh now b = (case fetched b of None \<Rightarrow> False | Some t \<Rightarrow> now - t < every b)"

definition Refresh :: "int \<Rightarrow> string + int \<Rightarrow> balance_cache \<Rightarrow> bool \<times> balance_cache" where
  "Refresh now read b =
     (if is_fresh now b then (False, b)
      else case read of
             Inl err \<Rightarrow> (False, b)
           | Inr v \<Rightarrow> (True, b\<lparr>held := Some v, fetched := Some now\<rparr>))"

definition Invalidate :: "balance_cache \<Rightarrow> balance_cache" where
  "Invalidate b = b\<lparr>fetched := None\<rparr>"

definition Last :: "balance_cache \<Rightarrow> int option" where
  "Last b = held b"

section \<open>The check\<close>

text \<open>
  What the chain answers for the balance, for the subscription contract and for the earnings, and
  the endpoint and the time of the two later calls: pricing the claim and sending it.  The result
  is the claim that reached the endpoint, if one did.
\<close>

record money_answers =
  read_balance :: "string + int"
  asked_subscription :: "string + byte list"
  withdrawable :: "byte list \<Rightarrow> byte list \<Rightarrow> string + int"
  pack_withdraw :: "byte list \<Rightarrow> string + byte list"
  price_endpoint :: endpoint
  price_time :: int
  claim_endpoint :: endpoint
  claim_time :: int

definition collect_earnings ::
  "money_answers \<Rightarrow> int \<Rightarrow> int \<Rightarrow> balance_cache \<times> client \<Rightarrow>
   transaction option \<times> balance_cache \<times> client" where
  "collect_earnings M limit left s =
     (case s of (b, c) \<Rightarrow>
       (case WithdrawableOf (asked_subscription M) (withdrawable M) (sender c) c of
          (Inl err, c1) \<Rightarrow> (None, b, c1)
        | (Inr earned, c1) \<Rightarrow>
            (case ClaimCost (price_endpoint M) (price_time M) c1 of
               (Inl err, c2) \<Rightarrow> (None, b, c2)
             | (Inr cost, c2) \<Rightarrow>
                 if \<not> ShouldClaim (Some left) (Some earned) (Some limit) (Some cost)
                 then (None, b, c2)
                 else (case Claim (asked_subscription M) (pack_withdraw M) (claim_endpoint M) (claim_time M) c2 of
                         (Inl err, tx, c3) \<Rightarrow> (tx, b, c3)
                       | (Inr hash, tx, c3) \<Rightarrow> (tx, Invalidate b, c3)))))"

definition checkBalance ::
  "money_answers \<Rightarrow> int \<Rightarrow> int \<Rightarrow> bool \<Rightarrow> balance_cache \<times> client \<Rightarrow>
   transaction option \<times> balance_cache \<times> client" where
  "checkBalance M now limit justPublished s =
     (case s of (b, c) \<Rightarrow>
       let b0 = (if justPublished then Invalidate b else b);
           (fresh, b1) = Refresh now (read_balance M) b0
       in if \<not> justPublished \<and> \<not> fresh then (None, b1, c)
          else (case Last b1 of
                  None \<Rightarrow> (None, b1, c)
                | Some left \<Rightarrow>
                    if limit \<le> left then (None, b1, c) else collect_earnings M limit left (b1, c)))"

section \<open>A history of the cache\<close>

datatype cache_op = Op_Refresh int "string + int" | Op_Invalidate

fun run_op :: "cache_op \<Rightarrow> balance_cache \<Rightarrow> balance_cache" where
  "run_op (Op_Refresh now read) b = snd (Refresh now read b)"
| "run_op Op_Invalidate b = Invalidate b"

fun asks :: "cache_op \<Rightarrow> balance_cache \<Rightarrow> bool" where
  "asks (Op_Refresh now read) b = (\<not> is_fresh now b)"
| "asks Op_Invalidate b = False"

text \<open>The calls of the endpoint a history makes: time and answer of each, in order.\<close>

fun chain_reads :: "cache_op list \<Rightarrow> balance_cache \<Rightarrow> (int \<times> (string + int)) list" where
  "chain_reads [] b = []"
| "chain_reads (x # xs) b =
     (case x of
        Op_Refresh now read \<Rightarrow>
          (if asks x b then (now, read) # chain_reads xs (run_op x b) else chain_reads xs (run_op x b))
      | Op_Invalidate \<Rightarrow> chain_reads xs (run_op x b))"

definition run_ops :: "cache_op list \<Rightarrow> balance_cache \<Rightarrow> balance_cache" where
  "run_ops xs b = foldl (\<lambda>b x. run_op x b) b xs"

fun last_value :: "int option \<Rightarrow> (int \<times> (string + int)) list \<Rightarrow> int option" where
  "last_value v [] = v"
| "last_value v ((t, Inl e) # rs) = last_value v rs"
| "last_value v ((t, Inr x) # rs) = last_value (Some x) rs"

lemma Refresh_effect:
  "snd (Refresh now read b) =
     (if is_fresh now b then b
      else case read of Inl e \<Rightarrow> b | Inr v \<Rightarrow> b\<lparr>held := Some v, fetched := Some now\<rparr>)"
  by (simp add: Refresh_def split: sum.splits)

lemma run_ops_held: "held (run_ops xs b) = last_value (held b) (chain_reads xs b)"
proof (induction xs arbitrary: b)
  case (Cons x xs)
  have "run_ops (x # xs) b = run_ops xs (run_op x b)" by (simp add: run_ops_def)
  with Cons show ?case
    by (cases x) (auto simp: Refresh_effect Invalidate_def split: sum.splits)
qed (simp add: run_ops_def)

lemma run_ops_every [simp]: "every (run_op x b) = every b"
  by (cases x) (auto simp: Refresh_effect Invalidate_def split: sum.splits)

text \<open>A read that succeeds at \<open>t\<close> keeps the endpoint from being asked before \<open>t + every\<close>.\<close>

lemma reads_after_success:
  "Op_Invalidate \<notin> set xs \<Longrightarrow> fetched b = Some t \<Longrightarrow> 0 \<le> every b \<Longrightarrow>
   \<forall>r \<in> set (chain_reads xs b). t + every b \<le> fst r"
proof (induction xs arbitrary: b t)
  case (Cons x xs)
  then obtain now read where x: "x = Op_Refresh now read" by (cases x) auto
  show ?case
  proof (cases "is_fresh now b")
    case True
    then show ?thesis using Cons by (simp add: x Refresh_effect)
  next
    case False
    then have late: "t + every b \<le> now" using Cons.prems(2) by (simp add: is_fresh_def)
    show ?thesis
    proof (cases read)
      case (Inl e)
      then show ?thesis using Cons False late by (simp add: x Refresh_effect)
    next
      case (Inr v)
      let ?b = "b\<lparr>held := Some v, fetched := Some now\<rparr>"
      have "\<forall>r \<in> set (chain_reads xs ?b). now + every ?b \<le> fst r"
        using Cons.prems by (intro Cons.IH) auto
      then have "\<forall>r \<in> set (chain_reads xs ?b). t + every b \<le> fst r"
        using late Cons.prems(3) by fastforce
      with False late Inr show ?thesis by (simp add: x Refresh_effect)
    qed
  qed
qed simp

lemma reads_spaced:
  "Op_Invalidate \<notin> set xs \<Longrightarrow> 0 \<le> every b \<Longrightarrow>
   sorted_wrt (\<lambda>r r'. (\<exists>v. snd r = Inr v) \<longrightarrow> fst r + every b \<le> fst r') (chain_reads xs b)"
proof (induction xs arbitrary: b)
  case (Cons x xs)
  then obtain now read where x: "x = Op_Refresh now read" by (cases x) auto
  have IH: "sorted_wrt (\<lambda>r r'. (\<exists>v. snd r = Inr v) \<longrightarrow> fst r + every b \<le> fst r')
      (chain_reads xs (run_op x b))"
    using Cons.IH[of "run_op x b"] Cons.prems by simp
  have "\<forall>r' \<in> set (chain_reads xs (run_op x b)). now + every b \<le> fst r'"
    if "\<not> is_fresh now b" and "read = Inr v" for v
    using that reads_after_success[of xs "run_op x b" now] Cons.prems
    by (simp add: x Refresh_effect)
  with IH show ?case by (cases "is_fresh now b") (auto simp: x)
qed simp

section \<open>Properties\<close>

text \<open>
  A flapping endpoint does not blank the gauge, and a working one is asked rarely.  Over any
  history of refreshes and invalidations, what the gauge shows is the last value the chain
  actually returned; and as long as nothing invalidates it, after a read that succeeded the chain
  is not asked again before the interval has passed.
\<close>

theorem gauge_keeps_last_reading:
  "Last (run_ops xs (NewBalanceCache d)) = last_value None (chain_reads xs (NewBalanceCache d)) \<and>
   (0 \<le> d \<and> Op_Invalidate \<notin> set xs \<longrightarrow>
     sorted_wrt (\<lambda>r r'. (\<exists>v. snd r = Inr v) \<longrightarrow> fst r + d \<le> fst r') (chain_reads xs (NewBalanceCache d)))"
  using run_ops_held[of xs "NewBalanceCache d"] reads_spaced[of xs "NewBalanceCache d"]
  by (simp add: Last_def NewBalanceCache_def)

theorem gauge_keeps_last_reading_witness:
  "sorted_wrt (\<lambda>r r'. (\<exists>v. snd r = Inr v) \<longrightarrow> fst r + 60 \<le> fst r')
     (chain_reads [Op_Refresh 0 (Inr 5), Op_Refresh 30 (Inr 6), Op_Refresh 61 (Inl ''429''),
        Op_Refresh 62 (Inr 7)] (NewBalanceCache 60))"
  by (rule gauge_keeps_last_reading[THEN conjunct2, THEN mp]) simp

text \<open>
  A failed read is retried on every poll.  Once the held value is stale (or there is none), a
  run of refreshes that fail asks the chain each time, however close together they are: the kept
  timestamp is the old one, so it does not keep the next poll away.
\<close>

theorem failed_read_is_retried_every_poll:
  assumes "\<forall>t \<in> set ts. \<not> is_fresh t b"
  shows "chain_reads (map (\<lambda>t. Op_Refresh t (Inl err)) ts) b = map (\<lambda>t. (t, Inl err)) ts \<and>
         run_ops (map (\<lambda>t. Op_Refresh t (Inl err)) ts) b = b"
  using assms by (induction ts) (simp_all add: run_ops_def Refresh_effect)

theorem failed_read_is_retried_every_poll_witness:
  "chain_reads (map (\<lambda>t. Op_Refresh t (Inl ''429'')) [61, 62, 63]) (snd (Refresh 0 (Inr 9) (NewBalanceCache 60))) =
     [(61, Inl ''429''), (62, Inl ''429''), (63, Inl ''429'')]"
proof -
  have "\<forall>t \<in> set [61, 62, 63]. \<not> is_fresh t (snd (Refresh 0 (Inr 9) (NewBalanceCache 60)))"
    by (simp add: Refresh_def NewBalanceCache_def is_fresh_def)
  from failed_read_is_retried_every_poll[OF this, of "''429''"] show ?thesis by simp
qed

lemma send_tx:
  "send E now dest data gas c = (r, Some tx, c1) \<Longrightarrow> tx_to tx = dest \<and> tx_data tx = data \<and> tx_gas tx = gas"
  by (auto simp: send_def submit_def reserveNonce_def Let_def
      split: if_splits sum.splits option.splits prod.splits)

lemma Subscription_sender:
  "Subscription asked c = (r, c1) \<Longrightarrow> sender c1 = sender c \<and>
   (\<forall>subs. r = Inr subs \<longrightarrow> Subscription asked c1 = (Inr subs, c1) \<or> asked = Inr subs)"
  by (auto simp: Subscription_def split: if_splits sum.splits)

lemma Subscription_again:
  "Subscription asked c = (Inr subs, c1) \<Longrightarrow> fst (Subscription asked c1) = Inr subs"
  by (auto simp: Subscription_def split: if_splits sum.splits)

lemma ClaimCost_frame:
  "ClaimCost E now c = (r, c1) \<Longrightarrow> sender c1 = sender c \<and> subscription c1 = subscription c"
  by (auto simp: ClaimCost_def fees_def Let_def split: if_splits sum.splits prod.splits option.splits)

lemma Claim_tx:
  assumes "Claim asked pack E now c = (r, Some tx, c1)"
  shows "\<exists>subs. fst (Subscription asked c) = Inr subs \<and> tx_to tx = subs \<and>
     pack (sender c) = Inr (tx_data tx) \<and> tx_gas tx = ClaimGas"
proof -
  obtain q c2 where q: "Subscription asked c = (q, c2)" by fastforce
  with assms Subscription_sender[OF q] show ?thesis
    by (auto simp: Claim_def split: sum.splits dest: send_tx)
qed

text \<open>
  C39.  The check claims only when it pays.  Whatever the chain answers, if a check sends a
  transaction, the balance it holds after its read was below the floor; the transaction goes to the
  subscription contract as the client knew it or was told at the check; what that contract said this operator
  has earned exceeds three times the price of a claim, computed by the same client right after that; and the transaction carries the
  data that names this operator, under the claim's own gas limit.
\<close>

theorem claims_only_when_it_pays:
  assumes "checkBalance M now limit justPublished (b, c) = (Some tx, b1, c1)"
  shows "\<exists>left earned cost.
     Last (snd (Refresh now (read_balance M) (if justPublished then Invalidate b else b))) = Some left \<and>
     left < limit \<and> fst (Subscription (asked_subscription M) c) = Inr (tx_to tx) \<and>
     withdrawable M (tx_to tx) (sender c) = Inr earned \<and>
     fst (ClaimCost (price_endpoint M) (price_time M) (snd (Subscription (asked_subscription M) c))) = Inr cost \<and>
     cost * 3 < earned \<and>
     pack_withdraw M (sender c) = Inr (tx_data tx) \<and> tx_gas tx = 60000"
proof -
  define b2 where "b2 = snd (Refresh now (read_balance M) (if justPublished then Invalidate b else b))"
  have "\<exists>left. Last b2 = Some left \<and> left < limit \<and> collect_earnings M limit left (b2, c) = (Some tx, b1, c1)"
    using assms unfolding b2_def
    by (auto simp: checkBalance_def Let_def split: prod.splits if_splits option.splits)
  then obtain left where left: "Last b2 = Some left" "left < limit"
    and coll: "collect_earnings M limit left (b2, c) = (Some tx, b1, c1)" by blast
  obtain q c2 where q: "Subscription (asked_subscription M) c = (q, c2)" by fastforce
  obtain cost c3 where cost: "ClaimCost (price_endpoint M) (price_time M) c2 = (cost, c3)" by fastforce
  obtain subs earned v where s: "q = Inr subs" "withdrawable M subs (sender c) = Inr earned"
    "cost = Inr v" "ShouldClaim (Some left) (Some earned) (Some limit) (Some v)"
    and claim: "\<exists>r. Claim (asked_subscription M) (pack_withdraw M) (claim_endpoint M) (claim_time M) c3 = (r, Some tx, c1)"
    using coll by (auto simp: collect_earnings_def WithdrawableOf_def q cost split: sum.splits if_splits prod.splits)
  have f: "sender c3 = sender c" "subscription c3 = subscription c2"
    using Subscription_sender[OF q] ClaimCost_frame[OF cost] by simp_all
  then have same: "fst (Subscription (asked_subscription M) c3) = fst (Subscription (asked_subscription M) c2)"
    by (simp add: Subscription_def split: sum.splits)
  have again: "fst (Subscription (asked_subscription M) c2) = Inr subs"
    using Subscription_again[OF q[unfolded s(1)]] .
  obtain r where "Claim (asked_subscription M) (pack_withdraw M) (claim_endpoint M) (claim_time M) c3 = (r, Some tx, c1)"
    using claim by blast
  from Claim_tx[OF this] have t: "subs = tx_to tx"
    "pack_withdraw M (sender c) = Inr (tx_data tx)" "tx_gas tx = 60000"
    using same again f by (auto simp: ClaimGas_def)
  have "v * 3 < earned" using s(4) by (simp add: ShouldClaim_def ClaimMargin_def split: if_splits)
  with left s(1-3) t show ?thesis unfolding b2_def[symmetric] by (simp add: q cost)
qed

text \<open>The chain as a poor operator with earnings sees it, for as long as no claim is mined.\<close>

definition demo_money :: money_answers where
  "demo_money = \<lparr> read_balance = Inr 10, asked_subscription = Inr (replicate 20 4),
     withdrawable = (\<lambda>subs who. Inr 10000000), pack_withdraw = (\<lambda>who. Inr who),
     price_endpoint = demo_endpoint 5 None, price_time = 0,
     claim_endpoint = demo_endpoint 5 None, claim_time = 0 \<rparr>"

lemma demo_check:
  "\<exists>tx b1 c1. checkBalance demo_money 70 1000 False (NewBalanceCache 60, demo_client) = (Some tx, b1, c1) \<and>
     tx_to tx = replicate 20 4"
  by (simp add: checkBalance_def Refresh_def NewBalanceCache_def is_fresh_def Last_def demo_money_def
      collect_earnings_def WithdrawableOf_def Subscription_def demo_client_def ClaimCost_def fees_def
      demo_endpoint_def Let_def ShouldClaim_def ClaimMargin_def ClaimGas_def Claim_def send_def submit_def
      reserveNonce_def)

theorem claims_only_when_it_pays_witness:
  "\<exists>tx b1 c1. checkBalance demo_money 70 1000 False (NewBalanceCache 60, demo_client) = (Some tx, b1, c1) \<and>
     tx_data tx = replicate 20 3 \<and> tx_gas tx = 60000"
proof -
  obtain tx b1 c1 where run:
    "checkBalance demo_money 70 1000 False (NewBalanceCache 60, demo_client) = (Some tx, b1, c1)"
    using demo_check by blast
  from claims_only_when_it_pays[OF run] run show ?thesis
    by (auto simp: demo_money_def demo_client_def)
qed

text \<open>
  \<open>poor\<close>: the answers of the chain do not move, the balance is low and the earnings are worth a
  claim at the price the client holds or would read.
\<close>

definition poor :: "money_answers \<Rightarrow> int \<Rightarrow> bool" where
  "poor M limit \<longleftrightarrow>
     (\<exists>left subs base tip. read_balance M = Inr left \<and> left < limit \<and>
        asked_subscription M = Inr subs \<and> subs \<noteq> replicate 20 0 \<and>
        (\<forall>s who. \<exists>earned. withdrawable M s who = Inr earned \<and> (tip + base * 2) * 60000 * 3 < earned) \<and>
        (\<forall>who. \<exists>data. pack_withdraw M who = Inr data) \<and>
        price_endpoint M = claim_endpoint M \<and>
        header_base (claim_endpoint M) = Inr (Some base) \<and> tip_cap (claim_endpoint M) = Inr tip \<and>
        (\<exists>p. pending_nonce (claim_endpoint M) = Inr p) \<and> (\<forall>tx. accepts (claim_endpoint M) tx = None) \<and>
        (\<forall>tx. \<exists>h. sign_tx (claim_endpoint M) tx = Inr h))"

definition unpriced_or :: "endpoint \<Rightarrow> client \<Rightarrow> bool" where
  "unpriced_or E c \<longleftrightarrow> (\<exists>base tip. header_base E = Inr (Some base) \<and> tip_cap E = Inr tip \<and>
     (cachedBaseFee c = None \<or> cachedBaseFee c = Some base \<and> cachedTip c = tip))"

lemma fees_steady:
  assumes "unpriced_or E c" and "header_base E = Inr (Some base)" and "tip_cap E = Inr tip"
  shows "\<exists>c1. fees E now c = (Inr (tip, Some base), c1) \<and> unpriced_or E c1 \<and>
     has_key c1 = has_key c \<and> sender c1 = sender c \<and> subscription c1 = subscription c"
  using assms by (auto simp: fees_def unpriced_or_def Let_def)

lemma send_steady:
  assumes "unpriced_or E c" and "header_base E = Inr (Some base)" and "tip_cap E = Inr tip"
    and "has_key c" and "pending_nonce E = Inr p" and "\<forall>tx. accepts E tx = None"
    and "\<forall>tx. \<exists>h. sign_tx E tx = Inr h"
  shows "\<exists>h tx c1. send E now dest data gas c = (Inr h, Some tx, c1) \<and> unpriced_or E c1 \<and> has_key c1"
proof -
  obtain c2 where f: "fees E now c = (Inr (tip, Some base), c2)" and c2: "unpriced_or E c2" "has_key c2"
    using fees_steady[OF assms(1-3), of now] assms(4) by auto
  have "\<exists>h tx c1. submit E dest data gas tip base c2 = (Inr h, Some tx, c1) \<and> unpriced_or E c1 \<and> has_key c1"
  proof -
    let ?n = "if haveNonce c2 then nextNonce c2 else p"
    let ?tx = "\<lparr> tx_chain = chainID c2, tx_nonce = ?n, tx_tip = tip, tx_feecap = tip + base * 2,
                tx_gas = gas, tx_to = dest, tx_data = data \<rparr>"
    obtain h where "sign_tx E ?tx = Inr h" using assms(7) by blast
    then show ?thesis
      using assms(5,6) c2 by (auto simp: submit_def reserveNonce_def Let_def unpriced_or_def)
  qed
  then show ?thesis using f assms(4) by (simp add: send_def)
qed

lemma poor_check:
  assumes "poor M limit" and "unpriced_or (claim_endpoint M) c" and "has_key c" and "\<not> is_fresh now b"
  shows "\<exists>tx b1 c1. checkBalance M now limit False (b, c) = (Some tx, b1, c1) \<and>
     fetched b1 = None \<and> unpriced_or (claim_endpoint M) c1 \<and> has_key c1"
proof -
  obtain left subs base tip p where M: "read_balance M = Inr left" "left < limit"
      "asked_subscription M = Inr subs"
      "\<forall>s who. \<exists>earned. withdrawable M s who = Inr earned \<and> (tip + base * 2) * 60000 * 3 < earned"
      "\<forall>who. \<exists>data. pack_withdraw M who = Inr data" "price_endpoint M = claim_endpoint M"
    and E: "header_base (claim_endpoint M) = Inr (Some base)" "tip_cap (claim_endpoint M) = Inr tip"
      "pending_nonce (claim_endpoint M) = Inr p" "\<forall>tx. accepts (claim_endpoint M) tx = None"
      "\<forall>tx. \<exists>h. sign_tx (claim_endpoint M) tx = Inr h"
    using assms(1) by (auto simp: poor_def)
  let ?E = "claim_endpoint M"
  have sub: "\<exists>s d1. Subscription (asked_subscription M) d = (Inr s, d1) \<and> unpriced_or ?E d1 \<and> has_key d1"
    if "unpriced_or ?E d" "has_key d" for d
    using that M(3) by (auto simp: Subscription_def unpriced_or_def)
  obtain s c1 where s: "Subscription (asked_subscription M) c = (Inr s, c1)" "unpriced_or ?E c1" "has_key c1"
    using sub assms(2,3) by blast
  obtain earned where earned: "withdrawable M s (sender c) = Inr earned" "(tip + base * 2) * 60000 * 3 < earned"
    using M(4) by blast
  obtain c2 where c2: "fees ?E (price_time M) c1 = (Inr (tip, Some base), c2)" "unpriced_or ?E c2" "has_key c2"
    using fees_steady[OF s(2) E(1,2)] s(3) by metis
  obtain s' c3 where s': "Subscription (asked_subscription M) c2 = (Inr s', c3)" "unpriced_or ?E c3" "has_key c3"
    using sub c2 by blast
  obtain data where data: "pack_withdraw M (sender c3) = Inr data" using M(5) by blast
  obtain h tx c4 where tx: "send ?E (claim_time M) s' data ClaimGas c3 = (Inr h, Some tx, c4)"
    "unpriced_or ?E c4" "has_key c4"
    using send_steady[OF s'(2) E(1,2) s'(3) E(3-5)] by metis
  have "ShouldClaim (Some left) (Some earned) (Some limit) (Some ((tip + base * 2) * 60000))"
    using M(2) earned(2) by (simp add: ShouldClaim_def ClaimMargin_def)
  then show ?thesis
    using assms(4) M(1,2,6) s earned(1) c2 s' data tx
    by (simp add: checkBalance_def Refresh_def Last_def collect_earnings_def WithdrawableOf_def ClaimCost_def
        Claim_def Invalidate_def ClaimGas_def)
qed

fun polls :: "money_answers \<Rightarrow> int \<Rightarrow> int list \<Rightarrow> balance_cache \<times> client \<Rightarrow> transaction option list" where
  "polls M limit [] s = []"
| "polls M limit (t # ts) s =
     (case checkBalance M t limit False s of (tx, s1) \<Rightarrow> tx # polls M limit ts s1)"

lemma polls_claim:
  "poor M limit \<Longrightarrow> unpriced_or (claim_endpoint M) c \<Longrightarrow> has_key c \<Longrightarrow> fetched b = None \<Longrightarrow>
   None \<notin> set (polls M limit ts (b, c))"
proof (induction ts arbitrary: b c)
  case (Cons t ts)
  have "\<not> is_fresh t b" using Cons.prems(4) by (simp add: is_fresh_def)
  from poor_check[OF Cons.prems(1-3) this] Cons.IH[OF Cons.prems(1)] show ?case by fastforce
qed simp

text \<open>
  A claim is sent again on every poll until it is mined.  A claim drops the held reading, so
  the next poll reads again at once; while the claim is still pending the chain gives the same
  answers, and the check sends another one.  For any number of polls, at any times, each of them
  sends a transaction.
\<close>

theorem claim_repeats_until_mined:
  assumes "poor M limit" and "unpriced_or (claim_endpoint M) c" and "has_key c" and "fetched b = None"
  shows "None \<notin> set (polls M limit ts (b, c)) \<and> length (polls M limit ts (b, c)) = length ts"
proof -
  have "length (polls M limit ts s) = length ts" for s
    by (induction ts arbitrary: s) (simp_all split: prod.splits)
  with polls_claim[OF assms] show ?thesis by blast
qed

theorem claim_repeats_until_mined_witness:
  "None \<notin> set (polls demo_money 1000 [70, 73, 76] (NewBalanceCache 60, demo_client))"
proof -
  have "poor demo_money 1000"
    by (simp add: poor_def demo_money_def demo_endpoint_def)
  moreover have "unpriced_or (claim_endpoint demo_money) demo_client"
    by (simp add: unpriced_or_def demo_money_def demo_endpoint_def demo_client_def)
  moreover have "has_key demo_client" "fetched (NewBalanceCache 60) = None"
    by (simp_all add: demo_client_def NewBalanceCache_def)
  ultimately show ?thesis by (rule claim_repeats_until_mined[THEN conjunct1])
qed

end
