(* ===== verification/Daemon.thy ===== *)
theory Daemon
  imports Node_Props Chain_Watch Balance Keystore Go_Text
begin

text \<open>
  The operator's daemon: \<open>node/cmd/vrfnode/main.go\<close>.  Its flags, the start with its checks in their
  order, and the callbacks that carry what the polling loop finds to the node.  Here the parts meet:
  a run of the daemon interleaves the events of \<open>Watch\<close> with the node's goroutines and with the
  shares peers post, and what the node serves as its counters is compared with the chain.

  Flag parsing, the listening sockets, signals and logging are left out.
\<close>

section \<open>Flags\<close>

record node_flags =
  nf_rpc :: string
  nf_ws :: string
  nf_coordinator :: string
  nf_keystore :: string
  nf_allow :: string
  nf_shareRate :: rat
  nf_peers :: string
  nf_threshold :: int
  nf_operators :: int
  nf_fromBlock :: u64
  nf_lookback :: u64
  nf_poll :: duration
  nf_sendRetry :: duration
  nf_sendRetries :: int
  nf_rebroadcast :: duration
  nf_rebroadcastTries :: int
  nf_minBalance :: string
  nf_maxLogRange :: u64
  nf_logChunkPause :: duration
  nf_publishDelay :: duration

text \<open>The defaults.\<close>

definition default_flags :: node_flags where
  "default_flags =
     \<lparr> nf_rpc = '''', nf_ws = '''', nf_coordinator = '''', nf_keystore = '''', nf_allow = '''',
       nf_shareRate = 500, nf_peers = '''', nf_threshold = 5, nf_operators = 9, nf_fromBlock = 0,
       nf_lookback = 20000, nf_poll = seconds 1, nf_sendRetry = seconds 2, nf_sendRetries = 3,
       nf_rebroadcast = seconds 3, nf_rebroadcastTries = 4, nf_minBalance = ''1000000000000000'',
       nf_maxLogRange = 0, nf_logChunkPause = milliseconds 250, nf_publishDelay = seconds 3 \<rparr>"

text \<open>\<open>splitPeers\<close>: the entries between commas, without white space around them and without empty ones.\<close>

definition splitPeers :: "string \<Rightarrow> string list" where
  "splitPeers s = (if trim_space s = '''' then [] else nonempty_trimmed (split_on CHR '','' s))"

text \<open>
  \<open>big.Int.SetString\<close> in base ten: an optional sign and at least one digit, of any length.
\<close>

definition big_decimal :: "string \<Rightarrow> int option" where
  "big_decimal s =
     (let digits = (if take 1 s = ''-'' \<or> take 1 s = ''+'' then drop 1 s else s) in
      if digits = [] then None
      else map_option (\<lambda>n. if take 1 s = ''-'' then - int n else int n) (dec_digits 0 digits))"

text \<open>Go's conversion from a floating point number truncates towards zero.\<close>

definition trunc :: "rat \<Rightarrow> int" where
  "trunc q = (if q < 0 then - \<lfloor>- q\<rfloor> else \<lfloor>q\<rfloor>)"

section \<open>Starting\<close>

datatype start_error =
    FlagsMissing
  | PassphraseMissing
  | EthKeyMissing
  | EthKeyBad string
  | ShareUnloadable keystore_error
  | DialFailed client_error
  | FloorNotANumber
  | HeadUnknown string

text \<open>
  What the outside answers: parsing of the publishing key (with the address it has) and of an
  address, the connection, the chain id, the code at the coordinator and the head.
\<close>

record node_world =
  nw_key :: "string \<Rightarrow> string + byte list"
  nw_address :: "string \<Rightarrow> byte list"
  nw_dial :: "string \<Rightarrow> string option"
  nw_chainID :: "string + int"
  nw_code :: "byte list \<Rightarrow> string + byte list"
  nw_head :: "string + u64"

record ('s, 'g1, 'g2) started =
  st_config :: "('s, 'g2) config"
  st_node :: "('g1, 'g2) node"
  st_client :: client
  st_cache :: balance_cache
  st_floor :: int
  st_server :: server_options
  st_watch :: watch_options

definition node_config :: "node_flags \<Rightarrow> ('s, 'g2) share \<Rightarrow> ('s, 'g2) config" where
  "node_config f sh =
     \<lparr> Share = sh, Threshold = nf_threshold f, Operators = nf_operators f, AfterPublish = True,
       SendRetryInterval = nf_sendRetry f, SendRetries = nf_sendRetries f,
       RebroadcastInterval = nf_rebroadcast f, RebroadcastAttempts = nf_rebroadcastTries f,
       PublishDelay = nf_publishDelay f \<rparr>"

definition node_server :: "node_flags \<Rightarrow> server_options" where
  "node_server f =
     \<lparr> RatePerSecond = nf_shareRate f, Burst = trunc (nf_shareRate f) * 2,
       AllowedSources = splitPeers (nf_allow f) \<rparr>"

definition node_watch :: "node_flags \<Rightarrow> u64 \<Rightarrow> watch_options" where
  "node_watch f start =
     \<lparr> From_block = start, Interval = nf_poll f, MaxInterval = 0, logRange = nf_maxLogRange f,
       chunkPause = nf_logChunkPause f \<rparr>"

definition start_node ::
  "('s, 'g1, 'g2, 'gt) kyber \<Rightarrow> keystore_library \<Rightarrow> (string \<Rightarrow> byte list option) \<Rightarrow> node_world \<Rightarrow>
   string \<Rightarrow> string \<Rightarrow> node_flags \<Rightarrow> start_error + ('s, 'g1, 'g2) started" where
  "start_node K L disk W env_passphrase env_key f =
     (if nf_rpc f = '''' \<or> nf_coordinator f = '''' \<or> nf_keystore f = '''' then Inl FlagsMissing
      else if env_passphrase = '''' then Inl PassphraseMissing
      else let ethKeyHex = trim_prefix ''0x'' env_key in
      if ethKeyHex = '''' then Inl EthKeyMissing
      else case nw_key W ethKeyHex of
        Inl e \<Rightarrow> Inl (EthKeyBad e)
      | Inr publisher \<Rightarrow>
      (case Load K L disk (nf_keystore f) env_passphrase of
        Inl e \<Rightarrow> Inl (ShareUnloadable e)
      | Inr sh \<Rightarrow>
      (case nw_dial W (nf_rpc f) of
        Some e \<Rightarrow> Inl (DialFailed (RPC e))
      | None \<Rightarrow>
      (case (let c = nw_address W (nf_coordinator f) in Dial c (Some publisher) (nw_chainID W) (nw_code W c)) of
        Inl e \<Rightarrow> Inl (DialFailed e)
      | Inr c \<Rightarrow>
      (case big_decimal (nf_minBalance f) of
        None \<Rightarrow> Inl FloorNotANumber
      | Some limit \<Rightarrow>
          let registry = new_registry (share_Index sh) (nf_threshold f) (nf_operators f);
              n = SetPeers (splitPeers (nf_peers f)) (new_node (Some registry));
              up = (\<lambda>start. \<lparr> st_config = node_config f sh, st_node = n, st_client = c,
                     st_cache = NewBalanceCache (seconds 60), st_floor = limit,
                     st_server = node_server f, st_watch = node_watch f start \<rparr>) in
          if nf_fromBlock f = 0
          then (case nw_head W of
                  Inl e \<Rightarrow> Inl (HeadUnknown e)
                | Inr head \<Rightarrow> Inr (up (start_block (nf_fromBlock f) head (nf_lookback f))))
          else Inr (up (nf_fromBlock f)))))))"

section \<open>The callbacks\<close>

text \<open>
  The daemon's state: the node, its goroutines, and the cache and client that watch the balance.
  \<open>OnRequest\<close> is called in a goroutine of its own, \<open>OnFulfilled\<close> in the loop itself; a scanned block is
  counted and then the balance is checked.
\<close>

record ('g1, 'g2) daemon =
  d_node :: "('g1, 'g2) node"
  d_tasks :: "'g1 task list"
  d_money :: "balance_cache \<times> client"

definition dispatch ::
  "int \<Rightarrow> money_answers \<Rightarrow> int \<Rightarrow> watch_event \<Rightarrow> ('g1, 'g2) daemon \<Rightarrow> ('g1, 'g2) daemon" where
  "dispatch limit M now e d =
     (case e of
        SawRequest req \<Rightarrow> d\<lparr>d_tasks := d_tasks d @ [Requesting req Req_Start]\<rparr>
      | SawFulfilled i \<Rightarrow> d\<lparr>d_node := OnFulfilled i (d_node d)\<rparr>
      | Scanned b \<Rightarrow> d\<lparr>d_node := count (BlockSeen b) (d_node d),
                         d_money := snd (checkBalance M now limit False (d_money d))\<rparr>
      | PollFailed err \<Rightarrow> d
      | Slept t \<Rightarrow> d)"

definition initial_daemon :: "('s, 'g1, 'g2) started \<Rightarrow> ('g1, 'g2) daemon" where
  "initial_daemon up =
     \<lparr>d_node = st_node up, d_tasks = [], d_money = (st_cache up, st_client up)\<rparr>"

text \<open>
  A run: the loop's events in their order, and between them shares of peers and sections of the
  goroutines.  Sending and the check after a publication change the money part in any way
  here; \<open>Daemon_Money\<close> writes them out.
\<close>

inductive daemon_run ::
  "('s, 'g1, 'g2, 'gt) kyber \<Rightarrow> (int \<Rightarrow> byte list \<Rightarrow> byte list) \<Rightarrow> ('s, 'g1, 'g2) started \<Rightarrow>
   watch_event list \<Rightarrow> ('g1, 'g2) daemon \<Rightarrow> bool"
  for K derive up where
  started: "daemon_run K derive up [] (initial_daemon up)"
| callback: "daemon_run K derive up evs d \<Longrightarrow>
     daemon_run K derive up (evs @ [e]) (dispatch (st_floor up) M now e d)"
| posted: "daemon_run K derive up evs d \<Longrightarrow>
     daemon_run K derive up evs (d\<lparr>d_tasks := d_tasks d @ [Sharing e Share_Start]\<rparr>)"
| goroutine: "daemon_run K derive up evs d \<Longrightarrow> d_tasks d = pre @ t # post \<Longrightarrow> answer_ok w \<Longrightarrow>
     task_step K (st_config up) derive w t (d_node d) = (new, n1) \<Longrightarrow>
     daemon_run K derive up evs (d\<lparr>d_node := n1, d_tasks := pre @ new @ post, d_money := m\<rparr>)"

section \<open>Counting\<close>

definition seen :: "('g1, 'g2) node \<Rightarrow> u64" where
  "seen n = (case counters n of None \<Rightarrow> 0 | Some m \<Rightarrow> requestsSeen m)"

definition delivered_total :: "('g1, 'g2) node \<Rightarrow> u64" where
  "delivered_total n = (case counters n of None \<Rightarrow> 0 | Some m \<Rightarrow> published_total m)"

definition seen_block :: "('g1, 'g2) node \<Rightarrow> u64" where
  "seen_block n = (case counters n of None \<Rightarrow> 0 | Some m \<Rightarrow> lastSeenBlock m)"

fun unstarted :: "'g1 task \<Rightarrow> bool" where
  "unstarted (Requesting req Req_Start) = True"
| "unstarted (Requesting req Req_Derive) = True"
| "unstarted t = False"

definition waiting :: "'g1 task list \<Rightarrow> nat" where
  "waiting ts = length (filter unstarted ts)"

lemma waiting_simps [simp]:
  "waiting [] = 0" "waiting (t # ts) = (if unstarted t then 1 else 0) + waiting ts"
  "waiting (xs @ ys) = waiting xs + waiting ys"
  by (simp_all add: waiting_def)

fun deliveries :: "event list \<Rightarrow> nat" where
  "deliveries [] = 0"
| "deliveries (RanAfterPublish # tr) = Suc (deliveries tr)"
| "deliveries (_ # tr) = deliveries tr"

lemma deliveries_append [simp]: "deliveries (xs @ ys) = deliveries xs + deliveries ys"
  by (induction xs rule: deliveries.induct) simp_all

text \<open>What a step does to the counters and to the deliveries in the trace.\<close>

definition same_tally :: "('g1, 'g2) node \<Rightarrow> ('g1, 'g2) node \<Rightarrow> bool" where
  "same_tally n n1 \<longleftrightarrow> (counters n1 = None \<longleftrightarrow> counters n = None) \<and> seen n1 = seen n \<and>
     delivered_total n1 = delivered_total n \<and> seen_block n1 = seen_block n \<and>
     deliveries (trace n1) = deliveries (trace n)"

lemma same_tally_refl [simp]: "same_tally n n"
  by (simp add: same_tally_def)

lemma same_tally_trans: "same_tally n n1 \<Longrightarrow> same_tally n1 n2 \<Longrightarrow> same_tally n n2"
  by (simp add: same_tally_def)

lemma same_tally_frame:
  "counters n1 = counters n \<Longrightarrow> deliveries (trace n1) = deliveries (trace n) \<Longrightarrow> same_tally n n1"
  by (simp add: same_tally_def seen_def delivered_total_def seen_block_def)

lemma same_tally_count:
  assumes "\<And>m. requestsSeen (f m) = requestsSeen m \<and> published_total (f m) = published_total m \<and>
     lastSeenBlock (f m) = lastSeenBlock m"
  shows "same_tally n (count f n)"
  using assms
  by (auto simp: same_tally_def seen_def delivered_total_def seen_block_def count_def split: option.splits)

lemma same_tally_counts [simp]:
  "same_tally n (count ShareSent n)" "same_tally n (count RaceLost n)"
  "same_tally n (count (ShareReceived p) n)" "same_tally n (count (ShareRejected p) n)"
  "same_tally n (count (Equivocated p) n)"
  by (rule same_tally_count; simp add: ShareSent_def RaceLost_def ShareReceived_def ShareRejected_def
      Equivocated_def)+

lemma same_tally_emit [simp]: "e \<noteq> RanAfterPublish \<Longrightarrow> same_tally n (emit e n)"
  by (rule same_tally_frame) (cases e; simp add: emit_def)+

lemma same_tally_forget [simp]: "same_tally n (forget k n)"
  by (rule same_tally_frame) (simp_all add: forget_def)

lemma same_tally_park [simp]: "same_tally n (park cfg k e n)"
  by (rule same_tally_frame) (simp_all add: park_def Let_def split: list.splits)

lemma same_tally_takeParked: "takeParked k n = (hs, n1) \<Longrightarrow> same_tally n n1"
  by (rule same_tally_frame) (auto simp: takeParked_def split: option.splits)

lemma same_tally_sessionFor: "sessionFor cfg i seed n = (a, n1) \<Longrightarrow> same_tally n n1"
  by (rule same_tally_frame) (auto simp: sessionFor_def Let_def split: option.splits)

lemma same_tally_add_at: "add_at K a p n = (r, n1) \<Longrightarrow> same_tally n n1"
  by (rule same_tally_frame) (auto simp: add_at_def set_session_def split: prod.splits)

lemma same_tally_OnFulfilled [simp]: "same_tally n (OnFulfilled i n)"
  by (rule same_tally_frame) (simp_all add: OnFulfilled_def Let_def split: prod.splits)

lemma same_tally_file_held [simp]: "same_tally n (file_held K seed a e n)"
proof (cases "Decode K e")
  case (Inr x)
  obtain s p where x: "x = (s, p)" by (cases x)
  obtain r n1 where add: "add_at K a p n = (r, n1)" by (cases "add_at K a p n")
  have "same_tally n n1" using same_tally_add_at[OF add] .
  then show ?thesis
    by (auto simp: file_held_def Inr x add intro: same_tally_trans split: sum.splits bool.splits)
qed (simp add: file_held_def)

lemma same_tally_after_emit:
  "same_tally n n1 \<Longrightarrow> e \<noteq> RanAfterPublish \<Longrightarrow> same_tally n (emit e n1)"
  using same_tally_trans same_tally_emit by blast

lemma same_tally_after_count:
  "same_tally n n1 \<Longrightarrow> same_tally n (count ShareSent n1)"
  "same_tally n n1 \<Longrightarrow> same_tally n (count RaceLost n1)"
  "same_tally n n1 \<Longrightarrow> same_tally n (count (ShareReceived p) n1)"
  "same_tally n n1 \<Longrightarrow> same_tally n (count (ShareRejected p) n1)"
  "same_tally n n1 \<Longrightarrow> same_tally n (count (Equivocated p) n1)"
  using same_tally_trans same_tally_counts by blast+

lemma same_tally_publish [simp]: "same_tally n (n\<lparr>published := p\<rparr>)" "same_tally n (n\<lparr>callbackGas := g\<rparr>)"
  by (rule same_tally_frame; simp)+

lemmas tally_steps = same_tally_after_emit same_tally_after_count
lemmas tally_calls = same_tally_add_at same_tally_takeParked same_tally_sessionFor

text \<open>
  The tally a step of a task keeps: announcements counted and waiting, publications counted and
  delivered, and the last block never going back.
\<close>

definition tally_step ::
  "'g1 task list \<Rightarrow> ('g1, 'g2) node \<Rightarrow> 'g1 task list \<Rightarrow> ('g1, 'g2) node \<Rightarrow> bool" where
  "tally_step ts n new n1 \<longleftrightarrow> counters n1 \<noteq> None \<and>
     seen n1 + word_of_nat (waiting new) = seen n + word_of_nat (waiting ts) \<and>
     delivered_total n1 + word_of_nat (deliveries (trace n)) =
       delivered_total n + word_of_nat (deliveries (trace n1)) \<and>
     seen_block n \<le> seen_block n1"

lemma tally_step_same:
  "same_tally n n1 \<Longrightarrow> counters n \<noteq> None \<Longrightarrow> waiting new = waiting ts \<Longrightarrow> tally_step ts n new n1"
  by (simp add: tally_step_def same_tally_def)

lemma publish_tally:
  assumes "publish_step K cfg w i a pc n = (r, n1)" and "AfterPublish cfg" and "counters n \<noteq> None"
  shows "tally_step [] n [] n1"
proof (cases "\<exists>signature attempt hash. pc = Pub_Send signature attempt \<and> sent w = Inr hash")
  case True
  then show ?thesis using assms
    by (auto simp: tally_step_def seen_def delivered_total_def seen_block_def emit_def forget_def count_def
        Published_def Let_def)
next
  case False
  have "same_tally n n1"
    using assms(1) False
    by (cases pc)
      (auto simp: Let_def intro!: tally_steps
        split: if_splits sum.splits)
  then show ?thesis using assms(3) by (rule tally_step_same) simp
qed

lemma offer_share_tally:
  "offer_share K cfg i seed a n = (t, n1) \<Longrightarrow> same_tally n n1 \<and> \<not> unstarted t"
  by (auto simp: offer_share_def Let_def intro!: tally_steps split: option.splits sum.splits)

lemma request_tally:
  assumes "request_step K cfg derive req pc n = (r, n1)" and "counters n \<noteq> None"
  shows "tally_step [Requesting req pc] n (case r of None \<Rightarrow> [] | Some t \<Rightarrow> [t]) n1"
proof (cases "pc = Req_Derive")
  case True
  then show ?thesis using assms
    by (auto simp: tally_step_def seen_def delivered_total_def seen_block_def count_def Let_def
        BlockSeen_def RequestSeen_def split: if_splits)
next
  case False
  have "same_tally n n1 \<and> waiting (case r of None \<Rightarrow> [] | Some t \<Rightarrow> [t]) = waiting [Requesting req pc]"
  proof (cases pc)
    case (Req_File seed a hs)
    then show ?thesis using assms(1) by (cases hs) auto
  qed (use False assms(1) in \<open>auto intro: tally_steps tally_calls dest: offer_share_tally
        split: if_splits prod.splits sum.splits\<close>)
  then show ?thesis using assms(2) by (auto intro: tally_step_same)
qed

lemma share_tally:
  assumes "share_step K cfg e pc n = (new, n1)"
  shows "same_tally n n1 \<and> waiting new = 0"
proof (cases pc)
  case (Share_Add i a p)
  obtain r n2 where add: "add_at K a p n = (r, n2)" by (cases "add_at K a p n")
  show ?thesis using assms same_tally_add_at[OF add]
    by (auto simp: Share_Add add intro: tally_steps split: sum.splits if_splits)
qed (use assms in \<open>auto simp: refuse_def intro!: tally_steps split: sum.splits option.splits prod.splits if_splits\<close>)

lemma task_tally:
  assumes "task_step K cfg derive w t n = (new, n1)" and "AfterPublish cfg" and "counters n \<noteq> None"
  shows "tally_step [t] n new n1"
proof (cases t)
  case (Requesting req pc)
  then show ?thesis using assms request_tally[of K cfg derive req pc n]
    by (auto split: prod.splits option.splits)
next
  case (Chasing i a e attempt pc)
  have "same_tally n n1 \<and> waiting new = 0" using assms(1)
    by (cases pc) (auto simp: Chasing intro!: tally_steps split: if_splits)
  then show ?thesis using assms(3) by (auto intro: tally_step_same simp: Chasing)
next
  case (Publishing i a pc cont)
  obtain r n2 where p: "publish_step K cfg w i a pc n = (r, n2)" by (cases "publish_step K cfg w i a pc n")
  have "n2 = n1" "waiting new = 0" using assms(1) p
    by (auto simp: Publishing resume_def split: option.splits)
  then show ?thesis using publish_tally[OF p assms(2,3)] by (simp add: tally_step_def Publishing)
next
  case (Sharing e pc)
  then show ?thesis using share_tally[of K cfg e pc n new n1] assms by (auto intro: tally_step_same)
qed

section \<open>Runs\<close>

lemma start_node_cases:
  assumes "start_node K L disk W pass key f = Inr up"
  obtains sh c limit start where "Load K L disk (nf_keystore f) pass = Inr sh"
    "up = \<lparr> st_config = node_config f sh,
            st_node = SetPeers (splitPeers (nf_peers f))
              (new_node (Some (new_registry (share_Index sh) (nf_threshold f) (nf_operators f)))),
            st_client = c, st_cache = NewBalanceCache (seconds 60), st_floor = limit,
            st_server = node_server f, st_watch = node_watch f start \<rparr>"
  using assms by (auto simp: start_node_def Let_def split: if_splits sum.splits option.splits)

lemma started_facts:
  assumes "start_node K L disk W pass key f = Inr up"
  shows "AfterPublish (st_config up)" "counters (st_node up) \<noteq> None" "seen (st_node up) = 0"
    "delivered_total (st_node up) = 0" "trace (st_node up) = []"
    "reachable K (st_config up) derive (st_node up, [])"
  using assms
proof -
  obtain sh c limit start where up: "up = \<lparr> st_config = node_config f sh,
            st_node = SetPeers (splitPeers (nf_peers f))
              (new_node (Some (new_registry (share_Index sh) (nf_threshold f) (nf_operators f)))),
            st_client = c, st_cache = NewBalanceCache (seconds 60), st_floor = limit,
            st_server = node_server f, st_watch = node_watch f start \<rparr>"
    using assms by (rule start_node_cases)
  show "AfterPublish (st_config up)" "counters (st_node up) \<noteq> None" "seen (st_node up) = 0"
    "delivered_total (st_node up) = 0" "trace (st_node up) = []"
    by (simp_all add: up node_config_def SetPeers_def new_node_def seen_def delivered_total_def new_registry_def)
  show "reachable K (st_config up) derive (st_node up, [])"
    unfolding up by simp (rule more[OF start attach])
qed

lemma daemon_reachable:
  assumes "start_node K L disk W pass key f = Inr up" and "daemon_run K derive up evs d"
  shows "reachable K (st_config up) derive (d_node d, d_tasks d)"
  using assms(2)
proof induction
  case started
  then show ?case using started_facts(6)[OF assms(1)] by (simp add: initial_daemon_def)
next
  case (callback evs d e M now)
  then show ?case
    by (cases e) (auto simp: dispatch_def intro: more node_step.intros)
next
  case (posted evs d e)
  then show ?case by (auto intro: more deliver)
next
  case (goroutine evs d pre t post w new n1 m)
  then show ?case by (auto intro: more[OF _ run])
qed

text \<open>What the served counters say at any moment of a run.\<close>

definition tally_ok :: "watch_event list \<Rightarrow> ('g1, 'g2) daemon \<Rightarrow> bool" where
  "tally_ok evs d \<longleftrightarrow> counters (d_node d) \<noteq> None \<and>
     seen (d_node d) + word_of_nat (waiting (d_tasks d)) = word_of_nat (length (seen_requests evs)) \<and>
     delivered_total (d_node d) = word_of_nat (deliveries (trace (d_node d))) \<and>
     (\<forall>b. Scanned b \<in> set evs \<longrightarrow> b \<le> seen_block (d_node d))"

lemma tally_dispatch:
  assumes "tally_ok evs d"
  shows "tally_ok (evs @ [e]) (dispatch limit M now e d)"
proof (cases e)
  case (SawFulfilled i)
  have "same_tally (d_node d) (OnFulfilled i (d_node d))" by simp
  then show ?thesis using assms
    by (auto simp: SawFulfilled dispatch_def tally_ok_def same_tally_def)
next
  case (Scanned b)
  then show ?thesis using assms
    by (auto simp: dispatch_def tally_ok_def count_def seen_def delivered_total_def seen_block_def BlockSeen_def
        split: option.splits)
qed (use assms in \<open>auto simp: dispatch_def tally_ok_def algebra_simps\<close>)

lemma tally_section:
  assumes "tally_ok evs d" and "d_tasks d = pre @ t # post" and "tally_step [t] (d_node d) new n1"
  shows "tally_ok evs (d\<lparr>d_node := n1, d_tasks := pre @ new @ post, d_money := m\<rparr>)"
proof -
  let ?n = "d_node d"
  have s: "seen n1 + word_of_nat (waiting new) = seen ?n + word_of_nat (waiting [t])"
    and p: "delivered_total n1 + word_of_nat (deliveries (trace ?n)) =
       delivered_total ?n + word_of_nat (deliveries (trace n1))"
    and b: "seen_block ?n \<le> seen_block n1" and c: "counters n1 \<noteq> None"
    using assms(3) by (simp_all add: tally_step_def)
  have "seen n1 + word_of_nat (waiting (pre @ new @ post)) =
     (seen n1 + word_of_nat (waiting new)) + word_of_nat (waiting pre) + word_of_nat (waiting post)"
    by (simp add: algebra_simps)
  also have "\<dots> = seen ?n + word_of_nat (waiting (d_tasks d))"
    unfolding s assms(2) by (simp add: algebra_simps)
  finally have "seen n1 + word_of_nat (waiting (pre @ new @ post)) = word_of_nat (length (seen_requests evs))"
    using assms(1) by (simp add: tally_ok_def)
  moreover have "delivered_total n1 = word_of_nat (deliveries (trace n1))"
    using p assms(1) by (simp add: tally_ok_def)
  ultimately show ?thesis using assms(1) b c by (auto simp: tally_ok_def intro: order_trans)
qed

lemma daemon_tally:
  assumes "start_node K L disk W pass key f = Inr up" and "daemon_run K derive up evs d"
  shows "tally_ok evs d"
  using assms(2)
proof induction
  case started
  then show ?case using started_facts[OF assms(1)] by (simp add: tally_ok_def initial_daemon_def)
next
  case (callback evs d e M now)
  then show ?case by (intro tally_dispatch)
next
  case (posted evs d e)
  then show ?case by (auto simp: tally_ok_def)
next
  case (goroutine evs d pre t post w new n1 m)
  have "tally_step [t] (d_node d) new n1"
    using task_tally[OF goroutine.hyps(4) started_facts(1)[OF assms(1)]] goroutine.IH
    by (simp add: tally_ok_def)
  with goroutine show ?case by (intro tally_section)
qed

lemma daemon_run_tasks:
  "daemon_run K derive up evs d \<Longrightarrow> \<forall>w \<in> set ws. answer_ok w \<Longrightarrow>
   run_tasks K (st_config up) derive ws (d_tasks d) (d_node d) = (ts1, n1) \<Longrightarrow>
   daemon_run K derive up evs (d\<lparr>d_node := n1, d_tasks := ts1\<rparr>)"
proof (induction ws arbitrary: d)
  case Nil
  then show ?case by (cases d) auto
next
  case (Cons w ws)
  show ?case
  proof (cases "d_tasks d")
    case Nil
    with Cons.prems show ?thesis by (cases d) auto
  next
    case (Cons t us)
    obtain new n2 where step: "task_step K (st_config up) derive w t (d_node d) = (new, n2)" by fastforce
    let ?d = "d\<lparr>d_node := n2, d_tasks := [] @ new @ us, d_money := d_money d\<rparr>"
    have "daemon_run K derive up evs ?d"
      using goroutine[where pre = "[]" and post = us and m = "d_money d", OF Cons.prems(1) _ _ step] Cons Cons.prems(2)
      by simp
    from Cons.IH[OF this] Cons.prems Cons step show ?thesis by simp
  qed
qed

section \<open>A daemon that runs\<close>

text \<open>
  The smallest: a group of one, whose share comes from a keystore saved before, with a peer list
  that is empty and re-broadcasting off.
\<close>

definition solo_share :: "(gf11, gf11) share" where
  "solo_share = Share cfg_solo"

definition solo_world :: node_world where
  "solo_world = \<lparr> nw_key = (\<lambda>s. Inr (replicate 20 5)), nw_address = (\<lambda>s. replicate 20 2), nw_dial = (\<lambda>s. None),
     nw_chainID = Inr 1, nw_code = (\<lambda>a. Inr [1]), nw_head = Inr 20009 \<rparr>"

definition solo_flags :: node_flags where
  "solo_flags = default_flags\<lparr> nf_rpc := ''rpc'', nf_coordinator := ''0xc0'', nf_keystore := ''op.json'',
     nf_threshold := 1, nf_operators := 1, nf_rebroadcast := 0 \<rparr>"

lemma solo_disk:
  "\<exists>disk. Save small_kyber plain_keystore (Inr [1, 2], Inr (replicate 12 9)) (\<lambda>k. Fine) ''op.json'' ''secret''
      solo_share (\<lambda>p. None) = (None, disk) \<and> Load small_kyber plain_keystore disk ''op.json'' ''secret'' = Inr solo_share"
proof -
  have "solo_share\<lparr>Member := (Member solo_share)\<lparr>Public :=
      map_option (\<lambda>l. mul_g2 small_kyber l (base_g2 small_kyber)) (Longterm (Member solo_share))\<rparr>\<rparr> = solo_share"
    by (simp add: solo_share_def cfg_solo_def)
  with saved_share_loads[OF plain_keystore_laws small_codecs(2,1), of "''secret''" "replicate 12 9" "\<lambda>k. Fine"
      "[1, 2]" "''op.json''" solo_share "\<lambda>p. None"]
  show ?thesis by (auto simp: gcm_nonce_size_def)
qed

definition solo_registry :: registry where
  "solo_registry = new_registry 0 1 1"

lemma solo_starts:
  fixes disk :: "string \<Rightarrow> byte list option"
  assumes "Load small_kyber plain_keystore disk ''op.json'' ''secret'' = Inr solo_share"
  obtains up :: "(gf11, gf11, gf11) started"
  where "start_node small_kyber plain_keystore disk solo_world ''secret'' ''0xabc'' solo_flags = Inr up"
    "st_config up = node_config solo_flags solo_share"
    "st_node up = SetPeers [] (new_node (Some solo_registry))"
    "st_watch up = node_watch solo_flags 9"
proof -
  have b: "big_decimal ''1000000000000000'' = Some 1000000000000000"
    by (simp add: big_decimal_def decvalue_def)
  have p: "splitPeers '''' = []" by (simp add: splitPeers_def trim_space_def)
  have i: "share_Index solo_share = 0" by (simp add: solo_share_def cfg_solo_def share_Index_def)
  show ?thesis
    by (rule that[where up = "\<lparr> st_config = node_config solo_flags solo_share,
            st_node = SetPeers [] (new_node (Some solo_registry)),
            st_client = the (case Dial (replicate 20 2) (Some (replicate 20 5)) (Inr 1) (Inr [1]) of Inr c \<Rightarrow> Some c),
            st_cache = NewBalanceCache (seconds 60), st_floor = 1000000000000000,
            st_server = node_server solo_flags, st_watch = node_watch solo_flags 9 \<rparr>"])
      (simp_all add: start_node_def solo_flags_def default_flags_def solo_world_def trim_prefix_def assms b p i
        start_block_def solo_registry_def Dial_def)
qed

lemma solo_tasks:
  fixes n :: "(gf11, gf11) node"
  assumes n: "n = SetPeers [] (new_node (Some m))"
  obtains raw n' where
    "run_tasks small_kyber (node_config solo_flags solo_share) demo_derive (replicate 17 (quiet (Inr [])))
       [Requesting demo_request Req_Start] n = ([], n')"
    "SentFulfill 31 raw 100000 \<in> set (trace n')" "deliveries (trace n') = 1"
proof -
  let ?cfg = "node_config solo_flags solo_share" and ?K = small_kyber and ?d = demo_derive
  let ?w = "quiet (Inr []) :: gf11 answer" and ?n = n and ?seed = "req_Seed demo_request"
  have c: "Share ?cfg = Share cfg_solo" "Threshold ?cfg = 1" "Operators ?cfg = 1" "RebroadcastInterval ?cfg = 0"
    "AfterPublish ?cfg" "Commits (Share cfg_solo) = commits_of ?K [3]"
    by (simp_all add: node_config_def solo_share_def solo_flags_def default_flags_def cfg_solo_def)
  have op: "operator_of ?K ?cfg [3]"
    using solo_operator by (simp add: operator_of_def dealt_def c cfg_solo_def)
  have dl: "dealt ?K ?cfg [3]" using op by (simp add: operator_of_def)
  have r: "ID demo_request = 31" "CallbackGasLimit demo_request = 100000"
    "?d (ID demo_request) (Consumer demo_request) = ?seed" by (simp_all add: demo_request_def)
  have nn: "\<not> knownSettled ?n k" "existingSession ?n k = None" "heap ?n = []" "peers ?n = Some []"
    "held_for ?n k = []" "trace ?n = []" "published ?n = []" "settled ?n = []" for k
    by (simp_all add: n SetPeers_def new_node_def knownSettled_def existingSession_def held_for_def mempty_def mget_def)
  obtain n1 where n1: "run_tasks ?K ?cfg ?d (replicate 6 ?w) [Requesting demo_request Req_Start] ?n =
       ([Requesting demo_request (Req_File ?seed 0 [])], n1)"
    "heap n1 = [add_all ?K (new_session ?cfg ?seed) [own_partial ?K ?cfg ?seed]]"
    "trace n1 = []" "peers n1 = Some []" "published n1 = []" "settled n1 = []"
    "callbackGasOf n1 (hexID 31) = 100000"
    using run_request[where derive = ?d and n = ?n and req = demo_request and w = ?w, OF op r(3) nn(1,2)]
    by (auto simp: nn r callbackGasOf_def)
  obtain own where "SignatureBytes ?K (Sign ?K (Secret (Share ?cfg)) ?seed) = Inr own"
    using SignatureBytes_ok[of ?K] small_kyber_laws unfolding kyber_laws_def by metis
  then obtain e n2 where n2: "run_tasks ?K ?cfg ?d [?w, ?w, ?w] [Requesting demo_request (Req_File ?seed 0 [])] n1 =
      ([Publishing 31 0 Pub_Start None], n2)" "n2 = emit (SentShare e) (count ShareSent n1)"
    by (simp add: offer_share_def n1 r c Let_def)
  have own: "own_partial ?K ?cfg ?seed = honest_partial ?K [3] ?seed 0"
    using own_partial_honest[OF op] by (simp add: c cfg_solo_def share_Index_def)
  have s: "heap n2 ! 0 = add_all ?K (New ?seed (commits_of ?K [3]) 1 1) (map (honest_partial ?K [3] ?seed) [0])"
    by (simp add: n1 n2 own new_session_def c frame)
  have ready: "Ready (heap n2 ! 0)"
    unfolding s by (rule honest_ready) (simp_all add: small_kyber_laws)
  have ok: "session_ok ?K ?cfg (heap n2 ! 0)"
    unfolding s by (simp add: session_ok_def c session_inv_Add session_inv_New)
  obtain raw where raw: "SignatureBytes ?K (Sign ?K (peval [3] 0) (s_seed (heap n2 ! 0))) = Inr raw"
    using SignatureBytes_ok[of ?K] small_kyber_laws unfolding kyber_laws_def by metis
  have not: "\<not> isPublished n2 (hexID 31)" "\<not> knownSettled n2 (hexID 31)"
    by (simp_all add: n2 frame n1 isPublished_def knownSettled_def mget_def)
  have gas: "callbackGasOf n2 k = callbackGasOf n1 k" for k by (simp add: n2 frame callbackGasOf_def)
  have w: "\<not> cancelled ?w" "is_open ?w \<noteq> Inr False" "answer_ok ?w" by simp_all
  obtain n3 where pub: "run_tasks ?K ?cfg ?d (replicate 7 ?w) [Publishing 31 0 Pub_Start None] n2 =
      ([Publishing 31 0 (Pub_Send raw 0) None], n3)" "deliveries (trace n3) = 0" "callbackGasOf n3 (hexID 31) = 100000"
    using run_publish[OF dl ok ready not w(3,1,2) raw, of ?d None] n1(7) gas[of "hexID 31"]
    by (auto simp: callbackGasOf_def n2 frame n1(3))
  obtain n4 where sent: "run_tasks ?K ?cfg ?d [?w] [Publishing 31 0 (Pub_Send raw 0) None] n3 = ([], n4)"
    "trace n4 = trace n3 @ [SentFulfill 31 raw 100000, RanAfterPublish]"
    using pub(3) by (simp add: Let_def resume_def frame c)
  have "run_tasks ?K ?cfg ?d (replicate 6 ?w @ [?w, ?w, ?w] @ replicate 7 ?w @ [?w]) [Requesting demo_request Req_Start] ?n =
      ([], n4)"
    by (simp only: run_append n1(1) n2(1) pub(1) sent(1) prod.case)
  moreover have "replicate 6 ?w @ [?w, ?w, ?w] @ replicate 7 ?w @ [?w] = replicate 17 ?w" by simp
  ultimately have "run_tasks ?K ?cfg ?d (replicate 17 ?w) [Requesting demo_request Req_Start] ?n = ([], n4)" by (simp only:)
  then show ?thesis by (rule that[of n4 raw]) (simp_all add: sent(2) pub(2))
qed

lemma solo_publishes:
  assumes "daemon_run small_kyber demo_derive up evs d" and "d_tasks d = [Requesting demo_request Req_Start]"
    and n: "d_node d = SetPeers [] (new_node (Some m))"
    and "st_config up = node_config solo_flags solo_share"
  shows "\<exists>d' raw. daemon_run small_kyber demo_derive up evs d' \<and> d_tasks d' = [] \<and>
     SentFulfill 31 raw 100000 \<in> set (trace (d_node d')) \<and> deliveries (trace (d_node d')) = 1"
proof -
  obtain raw n' where run: "run_tasks small_kyber (node_config solo_flags solo_share) demo_derive
       (replicate 17 (quiet (Inr []))) [Requesting demo_request Req_Start] (d_node d) = ([], n')"
    "SentFulfill 31 raw 100000 \<in> set (trace n')" "deliveries (trace n') = 1" by (rule solo_tasks[OF n])
  have "daemon_run small_kyber demo_derive up evs (d\<lparr>d_node := n', d_tasks := []\<rparr>)"
    by (rule daemon_run_tasks[OF assms(1) _ run(1)[folded assms(2,4)]]) simp
  then show ?thesis using run(2,3) by (intro exI conjI) auto
qed

text \<open>A daemon that has seen one request and published it.\<close>

lemma solo_daemon:
  obtains disk and up :: "(gf11, gf11, gf11) started" and d and raw where
    "Save small_kyber plain_keystore (Inr [1, 2], Inr (replicate 12 9)) (\<lambda>k. Fine) ''op.json'' ''secret''
       solo_share (\<lambda>p. None) = (None, disk)"
    "start_node small_kyber plain_keystore disk solo_world ''secret'' ''0xabc'' solo_flags = Inr up"
    "daemon_run small_kyber demo_derive up [SawRequest demo_request] d"
    "SentFulfill 31 raw 100000 \<in> set (trace (d_node d))" "d_tasks d = []"
proof -
  obtain disk where disk: "Save small_kyber plain_keystore (Inr [1, 2], Inr (replicate 12 9)) (\<lambda>k. Fine) ''op.json''
      ''secret'' solo_share (\<lambda>p. None) = (None, disk)"
    "Load small_kyber plain_keystore disk ''op.json'' ''secret'' = Inr solo_share"
    using solo_disk by blast
  obtain up :: "(gf11, gf11, gf11) started" where up:
    "start_node small_kyber plain_keystore disk solo_world ''secret'' ''0xabc'' solo_flags = Inr up"
    "st_config up = node_config solo_flags solo_share" "st_node up = SetPeers [] (new_node (Some solo_registry))"
    using solo_starts[OF disk(2)] by blast
  let ?d = "dispatch (st_floor up) undefined 0 (SawRequest demo_request) (initial_daemon up)"
  have r: "daemon_run small_kyber demo_derive up [SawRequest demo_request] ?d"
    using callback[OF started, of small_kyber demo_derive up "SawRequest demo_request"] by simp
  have "d_tasks ?d = [Requesting demo_request Req_Start]" "d_node ?d = SetPeers [] (new_node (Some solo_registry))"
    by (simp_all add: dispatch_def initial_daemon_def up)
  from solo_publishes[OF r this up(2)] disk up(1) that show ?thesis by blast
qed

section \<open>Properties\<close>

text \<open>
  C11.  From the keystore to the chain.  A share whose commitments are those of a polynomial with as many
  coefficients as the threshold flag says is saved and the daemon started on that file.  Then over any run
  of the daemon, whatever the chain announces, whatever anyone posts, and however the goroutines
  interleave, everything it has sent to the chain is the signature under the secret of that polynomial
  on a seed the formula gives, and it verifies under the group key of the saved share.
\<close>

theorem saved_share_publishes_group_signatures:
  assumes "keystore_laws L" and "scalar_codec K" and "g2_codec K" and "kyber_laws K"
    and "pass \<noteq> ''''" and "length nonce = gcm_nonce_size" and "\<forall>k. os k = Fine"
    and "poly \<noteq> []" and "Commits sh = commits_of K poly" and "nf_threshold f = int (length poly)"
    and "small_group K (nf_operators f)"
    and "Save K L (Inr salt, Inr nonce) os (nf_keystore f) pass sh disk = (None, disk')"
    and "start_node K L disk' W pass key f = Inr up" and "daemon_run K derive up evs d"
    and "SentFulfill i raw gas \<in> set (trace (d_node d))"
  shows "\<exists>consumer. PointFromSignature K raw = Inr (Sign K (peval poly 0) (derive i consumer)) \<and>
     Verify K (hd (Commits sh)) (derive i consumer) (Sign K (peval poly 0) (derive i consumer))"
proof -
  have load: "Load K L disk' (nf_keystore f) pass =
      Inr (sh\<lparr>Member := (Member sh)\<lparr>Public := map_option (\<lambda>l. mul_g2 K l (base_g2 K)) (Longterm (Member sh))\<rparr>\<rparr>)"
    using saved_share_loads[OF assms(1-3,5-7), of salt "nf_keystore f" sh disk] assms(12) by auto
  obtain sh' where "Load K L disk' (nf_keystore f) pass = Inr sh'" "st_config up = node_config f sh'"
    using assms(13) by (rule start_node_cases) auto
  then have "dealt K (st_config up) poly"
    using load assms(4,8-11) by (auto simp: dealt_def node_config_def)
  from reachable_ok[OF this daemon_reachable[OF assms(13,14)]]
  have "event_ok K (st_config up) poly derive (SentFulfill i raw gas)"
    using assms(15) by (auto simp: all_ok_def node_ok_def)
  then obtain c where c: "SignatureBytes K (Sign K (peval poly 0) (derive i c)) = Inr raw"
    by (auto simp: group_signature_def derived_def)
  have "PointFromSignature K raw = Inr (Sign K (peval poly 0) (derive i c))"
    using c SignatureBytes_ok[of K] assms(4) unfolding kyber_laws_def by (metis sum.inject(2))
  then show ?thesis using assms(4,8,9) by (auto simp: commits_head Verify_Sign kyber_laws_def)
qed

theorem saved_share_publishes_group_signatures_witness:
  "\<exists>raw consumer. PointFromSignature small_kyber raw = Inr (Sign small_kyber (peval [3] 0) (demo_derive 31 consumer))"
proof -
  obtain disk up d raw where run:
    "Save small_kyber plain_keystore (Inr [1, 2], Inr (replicate 12 9)) (\<lambda>k. Fine) ''op.json'' ''secret''
       solo_share (\<lambda>p. None) = (None, disk)"
    "start_node small_kyber plain_keystore disk solo_world ''secret'' ''0xabc'' solo_flags = Inr up"
    "daemon_run small_kyber demo_derive up [SawRequest demo_request] d"
    "SentFulfill 31 raw 100000 \<in> set (trace (d_node d))" by (rule solo_daemon)
  have f: "nf_threshold solo_flags = int (length [3 :: gf11])" "nf_keystore solo_flags = ''op.json''"
    "small_group small_kyber (nf_operators solo_flags)" "Commits solo_share = commits_of small_kyber [3]"
    by (simp_all add: solo_flags_def default_flags_def small_kyber_group solo_share_def cfg_solo_def)
  have "length (replicate 12 (9 :: byte)) = gcm_nonce_size" by (simp add: gcm_nonce_size_def)
  from saved_share_publishes_group_signatures[OF plain_keystore_laws small_codecs(2,1) small_kyber_laws _ this _ _
      f(4,1,3) run(1)[folded f(2)] run(2,3,4)]
  show ?thesis by auto
qed

text \<open>One round of the loop over the blocks 9 to 12, the last of which announces a request.\<close>

definition solo_log :: chain_log where
  "solo_log = \<lparr>Topics = [[1], [], [], []], Data = [], log_BlockNumber = 12, log_TxHash = []\<rparr>"

definition solo_blocks :: "int \<Rightarrow> chain_log list" where
  "solo_blocks i = (if i = 12 then [solo_log] else [])"

definition solo_round :: round_answers where
  "solo_round = \<lparr>head_answer = Inr 12, filter_answer = (\<lambda>a b. Inr (concat (map solo_blocks [uint a .. uint b]))),
     ctx_done = (\<lambda>_. False), draw = (\<lambda>_. None), woken = Cancelled_Wait\<rparr>"

definition solo_unpack :: "byte list \<Rightarrow> string + requested_body" where
  "solo_unpack bs = Inr \<lparr>b_RequestId = 7, b_Seed = 1, b_CallbackGasLimit = 5, b_NumWords = 1\<rparr>"

lemma left_pad_not_Nil: "0 < n \<Longrightarrow> left_pad bs n \<noteq> []"
  using length_left_pad[of bs n] by (metis list.size(3) max.strict_coboundedI1 less_irrefl)

lemma solo_watch:
  "\<exists>r. req_Seed r \<noteq> [] \<and> Watch \<lparr>requested_id = [1], fulfilled_id = [2]\<rparr> solo_unpack (node_watch solo_flags 9) [solo_round]
     (watch_start (node_watch solo_flags 9)) =
     Some ([SawRequest r, Scanned 12], \<lparr>next_block = 13, wait = seconds 1\<rparr>)"
  by (simp add: poll_def solo_round_def watch_start_def node_watch_def solo_flags_def default_flags_def
      eventsBetween_def chunkRange_def fetch_logs.simps solo_blocks_def solo_log_def decodeRequest_def
      solo_unpack_def next_wait_def waitOrNudge_def upto_rec1 left_pad_not_Nil)

lemma ignored_announcement:
  assumes "derive (ID r) (Consumer r) \<noteq> req_Seed r"
  shows "run_tasks K cfg derive [quiet (Inr []), quiet (Inr [])] [Requesting r Req_Start] n =
     ([], count (\<lambda>m. BlockSeen (Block r) (RequestSeen m))
            (n\<lparr>callbackGas := mput (callbackGas n) (hexID (ID r)) (CallbackGasLimit r)\<rparr>))"
  using assms by (simp add: Let_def)

lemma split_logs_keeps:
  "split_logs I unpack ls out ids = Inr (rs, fs) \<Longrightarrow> set out \<subseteq> set rs"
proof (induction ls arbitrary: out ids)
  case (Cons l ls)
  then show ?case
    by (fastforce split: list.splits if_splits sum.splits)
qed simp

lemma split_logs_finds:
  "split_logs I unpack ls out ids = Inr (rs, fs) \<Longrightarrow> l \<in> set ls \<Longrightarrow> Topics l = requested_id I # rest \<Longrightarrow>
   \<exists>req. decodeRequest unpack l = Inr req \<and> req \<in> set rs"
proof (induction ls arbitrary: out ids)
  case (Cons k ls)
  show ?case
  proof (cases "k = l")
    case True
    then obtain req where req: "decodeRequest unpack l = Inr req"
      "split_logs I unpack ls (out @ [req]) ids = Inr (rs, fs)"
      using Cons.prems by (auto split: sum.splits)
    then show ?thesis using split_logs_keeps[OF req(2)] by auto
  next
    case False
    then have "l \<in> set ls" using Cons.prems by simp
    moreover have "\<exists>out ids. split_logs I unpack ls out ids = Inr (rs, fs)"
      using Cons.prems(1) by (simp split: list.splits if_splits sum.splits) blast+
    ultimately show ?thesis using Cons.IH Cons.prems(3) by blast
  qed
qed simp

lemma delivered_finds:
  assumes "delivered I unpack per_block a c evs" and "uint a \<le> b" and "b < uint c"
    and "l \<in> set (per_block b)" and "Topics l = requested_id I # rest"
  shows "\<exists>req. decodeRequest unpack l = Inr req \<and> req \<in> set (seen_requests evs)"
proof -
  have "l \<in> set (concat (map per_block [uint a .. uint c - 1]))" using assms(2-4) by auto
  then show ?thesis using assms(1,5) split_logs_finds unfolding delivered_def by blast
qed

lemma started_block:
  assumes "start_node K L disk W pass key f = Inr up" and "nf_fromBlock f = 0" and "nw_head W = Inr h"
  shows "uint (From_block (st_watch up)) = max 0 (uint h - uint (nf_lookback f))"
proof -
  have "From_block (st_watch up) = start_block 0 h (nf_lookback f)"
    using assms by (auto simp: start_node_def Let_def node_watch_def split: if_splits sum.splits option.splits)
  then show ?thesis
    by (auto simp: start_block_def word_less_def uint_sub_if' max_def)
qed

text \<open>
  C19.  A restart picks up what was missed.  Take one life of the daemon's loop, from any first block, and a
  later start without \<open>-from-block\<close>, at a head that is at most \<open>-lookback\<close> blocks past the first block the
  earlier loop had not scanned.  Then every request announced in a block between the first
  block of the first life and the last one scanned by the second has been handed to the node in one of them.
\<close>

theorem restart_misses_no_request:
  assumes "start_node K L disk W pass key f = Inr up" and "nf_fromBlock f = 0" and "nw_head W = Inr h"
    and "\<forall>R \<in> set Rs1. round_ok per_block opts R"
    and "Watch I unpack opts Rs1 (watch_start opts) = Some (evs1, s1)"
    and "uint h \<le> uint (next_block s1) + uint (nf_lookback f)"
    and "\<forall>R \<in> set Rs2. round_ok per_block (st_watch up) R"
    and "Watch I unpack (st_watch up) Rs2 (watch_start (st_watch up)) = Some (evs2, s2)"
    and "uint (From_block opts) \<le> b" and "b < uint (next_block s2)"
    and "l \<in> set (per_block b)" and "Topics l = requested_id I # rest"
  shows "\<exists>req. decodeRequest unpack l = Inr req \<and> req \<in> set (seen_requests evs1) \<union> set (seen_requests evs2)"
proof -
  have d1: "delivered I unpack per_block (From_block opts) (next_block s1) evs1"
    using Watch_delivers[OF assms(4), of I unpack "watch_start opts"] assms(5) by (simp add: watch_start_def)
  have d2: "delivered I unpack per_block (From_block (st_watch up)) (next_block s2) evs2"
    using Watch_delivers[OF assms(7), of I unpack "watch_start (st_watch up)"] assms(8) by (simp add: watch_start_def)
  show ?thesis
  proof (cases "b < uint (next_block s1)")
    case True
    then show ?thesis using delivered_finds[OF d1 assms(9) _ assms(11,12)] by blast
  next
    case False
    then have "uint (From_block (st_watch up)) \<le> b"
      using started_block[OF assms(1-3)] assms(6) uint_ge_0[of "next_block s1"] by linarith
    then show ?thesis using delivered_finds[OF d2 _ assms(10-12)] by blast
  qed
qed

theorem restart_misses_no_request_witness:
  "\<exists>(up :: (gf11, gf11, gf11) started) evs s. Watch \<lparr>requested_id = [1], fulfilled_id = [2]\<rparr> solo_unpack (st_watch up) [solo_round]
       (watch_start (st_watch up)) = Some (evs, s) \<and>
     (\<exists>req. decodeRequest solo_unpack solo_log = Inr req \<and> req \<in> set (seen_requests evs))"
proof -
  let ?I = "\<lparr>requested_id = [1], fulfilled_id = [2]\<rparr> :: event_ids" and ?o = "node_watch solo_flags 3"
  obtain disk where "Load small_kyber plain_keystore disk ''op.json'' ''secret'' = Inr solo_share"
    using solo_disk by blast
  then obtain up :: "(gf11, gf11, gf11) started" where up:
    "start_node small_kyber plain_keystore disk solo_world ''secret'' ''0xabc'' solo_flags = Inr up"
    "st_watch up = node_watch solo_flags 9" by (rule solo_starts)
  obtain r where w: "Watch ?I solo_unpack (st_watch up) [solo_round] (watch_start (st_watch up)) =
      Some ([SawRequest r, Scanned 12], \<lparr>next_block = 13, wait = seconds 1\<rparr>)"
    using solo_watch unfolding up(2) by blast
  have rounds: "\<forall>R \<in> set [solo_round]. round_ok solo_blocks (st_watch up) R"
    by (simp add: up(2) round_ok_def solo_round_def faithful_def node_watch_def solo_flags_def default_flags_def)
  have f: "nf_fromBlock solo_flags = 0" "nw_head solo_world = Inr 20009" "nf_lookback solo_flags = 20000"
    by (simp_all add: solo_flags_def default_flags_def solo_world_def)
  have o: "Watch ?I solo_unpack (?o\<lparr>From_block := 9\<rparr>) [] (watch_start (?o\<lparr>From_block := 9\<rparr>)) =
      Some ([], watch_start (?o\<lparr>From_block := 9\<rparr>))" by simp
  have "solo_log \<in> set (solo_blocks 12)" "Topics solo_log = requested_id ?I # [[], [], []]"
    by (simp_all add: solo_blocks_def solo_log_def)
  from restart_misses_no_request[OF up(1) f(1,2) _ o _ rounds w _ _ this]
  have "\<exists>req. decodeRequest solo_unpack solo_log = Inr req \<and> req \<in> set (seen_requests [SawRequest r, Scanned 12])"
    by (simp add: f watch_start_def)
  with w show ?thesis by blast
qed

text \<open>The commitments of the loaded share play no part in the start.\<close>

lemma start_node_threshold:
  assumes "start_node K L disk W pass key f = Inr up"
  shows "\<exists>up'. start_node K L disk W pass key (f\<lparr>nf_threshold := v\<rparr>) = Inr up' \<and>
     st_config up' = (st_config up)\<lparr>Threshold := v\<rparr>"
  using assms by (auto simp: start_node_def node_config_def Let_def split: if_splits sum.splits option.splits)

text \<open>With a threshold of one, a session is complete with one verified partial.\<close>

lemma threshold_one_session:
  assumes "kyber_laws K" and "small_group K n" and "poly \<noteq> []" and "uint (Index p) < n" and "Sig p = Some sig"
    and "VerifyPartial K (commits_of K poly) (Index p) seed sig" and "iteration_order order"
  shows "\<exists>s raw. snd (Add K (New seed (commits_of K poly) 1 n) p) = s \<and> Ready s \<and>
     Signature K order s = Inr raw \<and> PointFromSignature K raw = Inr sig \<and>
     (Verify K (hd (commits_of K poly)) seed sig \<longleftrightarrow> sig = Sign K (peval poly 0) seed)"
proof -
  let ?c = "share_at poly (uint (Index p))"
  have sig: "sig = Sign K ?c seed" using assms(1,6) by (simp add: VerifyPartial_iff)
  have "share_at [?c] i = ?c" for i by (simp add: share_at_def)
  then have ver: "verified K [?c] seed n p"
    using assms(1,4,5) sig by (simp add: verified_def VerifyPartial_iff)
  define s where "s = snd (Add K (New seed (commits_of K poly) 1 n) p)"
  have s: "s_partials s = mput mempty (Index p) p" "s_threshold s = 1" "s_operators s = n"
    using assms(4-6) by (simp_all add: s_def Add_def Let_def)
  have one: "s_partials s = [(Index p, p)]" by (simp add: s mput_def mempty_def)
  then have "Collected s = 1" by (simp add: Collected_def mlen_def)
  have "mset (order (s_partials s)) = {#(Index p, p)#}"
    using assms(7) by (simp add: iteration_order_def one)
  then have ps: "map snd (order (s_partials s)) = [p]" by simp
  have "Aggregate K [p] 1 n = Inr (Sign K (peval [?c] 0) seed)"
    using Aggregate_verified[OF assms(1,2), of "[?c]" 1 "[p]" seed] ver by simp
  moreover obtain raw where "SignatureBytes K sig = Inr raw" "PointFromSignature K raw = Inr sig"
    using SignatureBytes_ok[of K sig] assms(1) unfolding kyber_laws_def by metis
  ultimately have "Signature K order s = Inr raw" by (simp add: Signature_def ps s(2,3) sig)
  moreover have "Ready s" by (simp add: Ready_def \<open>Collected s = 1\<close> s)
  ultimately show ?thesis
    using \<open>PointFromSignature K raw = Inr sig\<close> assms(1,3)
    by (intro exI[of _ s] exI[of _ raw]) (simp add: s_def commits_head Verify_iff kyber_laws_def)
qed

text \<open>
  C32.  The threshold flag is taken at its word.  Where the daemon starts with some \<open>-threshold\<close>, it starts with
  any other, on the same keystore, although the keystore holds the commitments whose number is the threshold of the group.
  Started with a threshold of one for a share of any group, the session it opens for a seed is ready with one
  verified partial, and what it combines, in any map order, is the encoding of that partial: it verifies
  under the group key only if it happens to equal the group's signature.
\<close>

theorem threshold_flag_is_trusted:
  assumes "start_node K L disk W pass key f = Inr up"
    and "kyber_laws K" and "small_group K (nf_operators f)" and "poly \<noteq> []"
    and "Commits (Share (st_config up)) = commits_of K poly"
    and "uint (Index p) < nf_operators f" and "Sig p = Some sig"
    and "VerifyPartial K (commits_of K poly) (Index p) seed sig" and "iteration_order order"
  shows "\<exists>up'. start_node K L disk W pass key (f\<lparr>nf_threshold := v\<rparr>) = Inr up' \<and>
     Share (st_config up') = Share (st_config up) \<and> Threshold (st_config up') = v \<and>
     (v = 1 \<longrightarrow> (\<exists>s raw. snd (Add K (New seed (Commits (Share (st_config up'))) (Threshold (st_config up'))
         (Operators (st_config up'))) p) = s \<and> Ready s \<and>
       Signature K order s = Inr raw \<and> PointFromSignature K raw = Inr sig \<and>
       (Verify K (hd (Commits (Share (st_config up')))) seed sig \<longleftrightarrow> sig = Sign K (peval poly 0) seed)))"
proof -
  obtain up' where up': "start_node K L disk W pass key (f\<lparr>nf_threshold := v\<rparr>) = Inr up'"
    "st_config up' = (st_config up)\<lparr>Threshold := v\<rparr>" using start_node_threshold[OF assms(1)] by blast
  obtain sh where "st_config up = node_config f sh" using assms(1) by (rule start_node_cases) auto
  then have "Operators (st_config up') = nf_operators f" by (simp add: up'(2) node_config_def)
  then show ?thesis
    using up' assms(5) threshold_one_session[OF assms(2-4,6-9)] by (intro exI[of _ up']) auto
qed

theorem threshold_flag_is_trusted_witness:
  "\<exists>disk up s raw. start_node small_kyber plain_keystore disk solo_world ''secret'' ''0xabc''
       (solo_flags\<lparr>nf_operators := 3, nf_threshold := 1\<rparr>) = Inr up \<and>
     snd (Add small_kyber (New [1] (Commits (Share (st_config up))) (Threshold (st_config up)) (Operators (st_config up)))
        (honest_partial small_kyber [3, 5] [1] 0)) = s \<and>
     Signature small_kyber id s = Inr raw \<and>
     PointFromSignature small_kyber raw = Inr (Sign small_kyber (share_at [3, 5] 0) [1]) \<and>
     \<not> Verify small_kyber (hd (Commits (Share (st_config up)))) [1] (Sign small_kyber (share_at [3, 5] 0) [1])"
proof -
  let ?f = "solo_flags\<lparr>nf_operators := 3, nf_threshold := 2\<rparr>" and ?sh = "Share cfg_demo"
  have sh: "?sh\<lparr>Member := (Member ?sh)\<lparr>Public :=
      map_option (\<lambda>l. mul_g2 small_kyber l (base_g2 small_kyber)) (Longterm (Member ?sh))\<rparr>\<rparr> = ?sh"
    by (simp add: cfg_demo_def)
  obtain disk where load: "Load small_kyber plain_keystore disk ''op.json'' ''secret'' = Inr ?sh"
    using saved_share_loads[OF plain_keystore_laws small_codecs(2,1), of "''secret''" "replicate 12 9" "\<lambda>k. Fine"
      "[1, 2]" "''op.json''" ?sh "\<lambda>p. None"]
    by (auto simp: gcm_nonce_size_def sh)
  have b: "big_decimal ''1000000000000000'' = Some 1000000000000000"
    by (simp add: big_decimal_def decvalue_def)
  obtain up :: "(gf11, gf11, gf11) started" where up:
    "start_node small_kyber plain_keystore disk solo_world ''secret'' ''0xabc'' ?f = Inr up"
    using load by (simp add: start_node_def solo_flags_def default_flags_def solo_world_def trim_prefix_def b
        start_block_def Dial_def)
  obtain sh' where "Load small_kyber plain_keystore disk (nf_keystore ?f) ''secret'' = Inr sh'"
    "st_config up = node_config ?f sh'" using up by (rule start_node_cases) auto
  then have c: "Commits (Share (st_config up)) = commits_of small_kyber [3, 5]"
    using load by (auto simp: node_config_def cfg_demo_def solo_flags_def)
  have f: "small_group small_kyber (nf_operators ?f)"
    "uint (Index (honest_partial small_kyber [3, 5] [1] 0)) < nf_operators ?f"
    by (simp_all add: solo_flags_def small_kyber_group honest_partial_def)
  have p: "Sig (honest_partial small_kyber [3, 5] [1] 0) = Some (Sign small_kyber (share_at [3, 5] 0) [1])"
    "VerifyPartial small_kyber (commits_of small_kyber [3, 5])
       (Index (honest_partial small_kyber [3, 5] [1] 0)) [1] (Sign small_kyber (share_at [3, 5] 0) [1])"
    by (simp_all add: honest_partial_def VerifyPartial_iff small_kyber_laws)
  have "Sign small_kyber (share_at [3, 5] 0) [1] \<noteq> Sign small_kyber (peval [3, 5] 0) [1]"
    by (simp add: Sign_def HashSeedToPoint_def small_kyber_sel share_at_def)
  moreover have "iteration_order (id :: (u32, gf11 partial) gomap \<Rightarrow> _)" by (simp add: iteration_order_def)
  ultimately show ?thesis
    using threshold_flag_is_trusted[OF up small_kyber_laws f(1) _ c f(2) p, of id 1] c by fastforce
qed

end
