(* ===== verification/Daemon_Budget.thy ===== *)
theory Daemon_Budget
  imports Daemon Node_Quorum
begin

text \<open>
  The callback budget of a request, from the event that announces it to the transaction that settles
  it: \<open>OnRequest\<close> notes it, \<open>callbackGasOf\<close> reads it when the transaction is sent
  (\<open>node/internal/node/node.go\<close>).  A share that comes before the announcement is parked, so nothing
  is sent for a request whose budget is not known.  Likewise the seeds of a run are those of the consumers
  that were announced.
\<close>

section \<open>What is noted\<close>

text \<open>The requests a task works for, once their budget has been noted.\<close>

fun concerns :: "int \<Rightarrow> 'g1 task \<Rightarrow> bool" where
  "concerns i (Requesting req pc) = (ID req = i \<and> pc \<noteq> Req_Start)"
| "concerns i (Chasing j a e k pc) = (j = i)"
| "concerns i (Publishing j a pc cont) = (j = i)"
| "concerns i (Sharing e (Share_Add j a p)) = (j = i)"
| "concerns i (Sharing e pc) = False"

definition noted :: "int \<Rightarrow> ('g1, 'g2) node \<Rightarrow> bool" where
  "noted i n \<longleftrightarrow> mget (callbackGas n) (hexID i) \<noteq> None"

definition announced :: "watch_event list \<Rightarrow> int \<Rightarrow> u32 \<Rightarrow> bool" where
  "announced evs i g \<longleftrightarrow> (\<exists>req. SawRequest req \<in> set evs \<and> ID req = i \<and> CallbackGasLimit req = g)"

fun known_task :: "watch_event list \<Rightarrow> 'g1 task \<Rightarrow> bool" where
  "known_task evs (Requesting req pc) = (SawRequest req \<in> set evs)"
| "known_task evs t = True"

fun known_event :: "watch_event list \<Rightarrow> event \<Rightarrow> bool" where
  "known_event evs (SentFulfill i raw g) = announced evs i g"
| "known_event evs e = True"

definition budget_ok :: "watch_event list \<Rightarrow> ('g1, 'g2) node \<Rightarrow> 'g1 task list \<Rightarrow> bool" where
  "budget_ok evs n ts \<longleftrightarrow>
     (\<forall>t \<in> set ts. known_task evs t \<and> (\<forall>i. concerns i t \<longrightarrow> noted i n)) \<and>
     (\<forall>i. existingSession n (hexID i) \<noteq> None \<longrightarrow> noted i n) \<and>
     (\<forall>i g. mget (callbackGas n) (hexID i) = Some g \<longrightarrow> announced evs i g) \<and>
     (\<forall>e \<in> set (trace n). known_event evs e)"

lemma budget_of_sent: "budget_ok evs n ts \<Longrightarrow> SentFulfill i raw g \<in> set (trace n) \<Longrightarrow> announced evs i g"
  unfolding budget_ok_def by (metis known_event.simps(1))

lemma announced_mono: "announced evs i g \<Longrightarrow> announced (evs @ es) i g"
  by (auto simp: announced_def)

lemma known_task_mono: "known_task evs t \<Longrightarrow> known_task (evs @ es) t"
  by (cases t) simp_all

lemma known_event_mono: "known_event evs e \<Longrightarrow> known_event (evs @ es) e"
  by (cases e) (simp_all add: announced_mono)

lemma budget_ok_mono: "budget_ok evs n ts \<Longrightarrow> budget_ok (evs @ es) n ts"
  by (auto simp: budget_ok_def intro: announced_mono known_task_mono known_event_mono)

section \<open>One section\<close>

text \<open>
  What a section of \<open>t\<close> may do: budgets are only ever noted, from announcements; a session is opened and a
  task goes on only for what is noted; and what is sent carries the noted budget.
\<close>

definition budget_step ::
  "watch_event list \<Rightarrow> ('g1, 'g2) node \<Rightarrow> 'g1 task list \<Rightarrow> ('g1, 'g2) node \<Rightarrow> bool" where
  "budget_step evs n new n1 \<longleftrightarrow>
     (\<forall>i. noted i n \<longrightarrow> noted i n1) \<and>
     (\<forall>t \<in> set new. known_task evs t \<and> (\<forall>i. concerns i t \<longrightarrow> noted i n1)) \<and>
     (\<forall>i. existingSession n1 (hexID i) \<noteq> None \<longrightarrow> existingSession n (hexID i) \<noteq> None \<or> noted i n1) \<and>
     (\<forall>i g. mget (callbackGas n1) (hexID i) = Some g \<longrightarrow>
        mget (callbackGas n) (hexID i) = Some g \<or> announced evs i g) \<and>
     (\<forall>e \<in> set (trace n1). e \<in> set (trace n) \<or> known_event evs e)"

lemma budget_ok_step:
  assumes "budget_ok evs n (pre @ t # post)" and "budget_step evs n new n1"
  shows "budget_ok evs n1 (pre @ new @ post)"
  using assms unfolding budget_ok_def budget_step_def by (auto simp del: not_None_eq) blast+

definition same_books :: "('g1, 'g2) node \<Rightarrow> ('g1, 'g2) node \<Rightarrow> bool" where
  "same_books n n1 \<longleftrightarrow> callbackGas n1 = callbackGas n \<and> sessions n1 = sessions n \<and> trace n1 = trace n"

lemma same_books_refl: "same_books n n"
  by (simp add: same_books_def)

lemma same_books_calls:
  "add_at K a p n = (r, n1) \<Longrightarrow> same_books n n1"
  "takeParked k n = (hs, n1) \<Longrightarrow> same_books n n1"
  by (auto simp: same_books_def add_at_def set_session_def takeParked_def split: prod.splits option.splits)

lemma same_books_file_held [simp]: "same_books n (file_held K seed a e n)"
proof (cases "Decode K e")
  case (Inr x)
  obtain s p where x: "x = (s, p)" by (cases x)
  obtain r n1 where add: "add_at K a p n = (r, n1)" by fastforce
  show ?thesis using same_books_calls(1)[OF add]
    by (auto simp: file_held_def Inr x add same_books_def count_def split: sum.splits bool.splits option.splits)
qed (simp add: file_held_def same_books_def)

lemma gas_frame [simp]:
  "callbackGas (count f n) = callbackGas n" "callbackGas (emit e n) = callbackGas n"
  "callbackGas (forget k n) = callbackGas n" "callbackGas (park cfg k x n) = callbackGas n"
  "callbackGas (OnFulfilled i n) = callbackGas n"
  by (auto simp: count_def emit_def forget_def park_def OnFulfilled_def Let_def split: option.splits list.splits prod.splits)

lemma session_frame [simp]:
  "existingSession (count f n) k = existingSession n k" "existingSession (emit e n) k = existingSession n k"
  "existingSession (park cfg j x n) k = existingSession n k"
  "existingSession (OnFulfilled i n) k = existingSession n k"
  by (simp_all add: existingSession_def frame)

lemma noted_frame [simp]:
  "noted i (count f n) = noted i n" "noted i (emit e n) = noted i n" "noted i (forget k n) = noted i n"
  "noted i (park cfg k x n) = noted i n" "noted i (OnFulfilled j n) = noted i n"
  by (simp_all add: noted_def)

lemma callbackGasOf_noted: "noted i n \<Longrightarrow> mget (callbackGas n) (hexID i) = Some (callbackGasOf n (hexID i))"
  by (auto simp: noted_def callbackGasOf_def)

lemma budget_step_books:
  assumes "callbackGas n1 = callbackGas n"
    and "\<forall>i. existingSession n1 (hexID i) \<noteq> None \<longrightarrow> existingSession n (hexID i) \<noteq> None \<or> noted i n"
    and "\<forall>e \<in> set (trace n1). e \<in> set (trace n) \<or> known_event evs e"
    and "\<forall>t \<in> set new. known_task evs t \<and> (\<forall>i. concerns i t \<longrightarrow> noted i n)"
  shows "budget_step evs n new n1"
  using assms by (simp add: budget_step_def noted_def)

lemma budget_step_same:
  assumes "same_books n n1" and "\<forall>t \<in> set new. known_task evs t \<and> (\<forall>i. concerns i t \<longrightarrow> noted i n)"
  shows "budget_step evs n new n1"
  using assms by (intro budget_step_books) (simp_all add: same_books_def existingSession_def)

lemma resume_concerns: "t \<in> set (resume j a cont) \<Longrightarrow> known_task evs t \<and> (concerns i t \<longrightarrow> i = j)"
  by (auto simp: resume_def split: option.splits)

lemma publish_budget:
  assumes "task_step K cfg derive w (Publishing i a pc cont) n = (new, n1)" and "noted i n"
    and "\<forall>g. mget (callbackGas n) (hexID i) = Some g \<longrightarrow> announced evs i g"
  shows "budget_step evs n new n1"
proof -
  have g: "announced evs i (callbackGasOf n (hexID i))"
    using assms(3) callbackGasOf_noted[OF assms(2)] by blast
  show ?thesis
  proof (rule budget_step_books)
    show "callbackGas n1 = callbackGas n"
      using assms(1) by (cases pc) (auto simp: Let_def split: sum.splits if_splits)
    show "\<forall>j. existingSession n1 (hexID j) \<noteq> None \<longrightarrow> existingSession n (hexID j) \<noteq> None \<or> noted j n"
      using assms(1)
      by (cases pc) (auto simp: Let_def existingSession_def frame split: sum.splits if_splits)
    show "\<forall>e \<in> set (trace n1). e \<in> set (trace n) \<or> known_event evs e"
      using assms(1) g by (cases pc) (auto simp: Let_def frame split: sum.splits if_splits)
    have "t \<in> set new \<Longrightarrow> known_task evs t \<and> (concerns j t \<longrightarrow> j = i)" for t j
      using assms(1) resume_concerns[of t i a cont evs j] by (auto split: prod.splits option.splits)
    then show "\<forall>t \<in> set new. known_task evs t \<and> (\<forall>i. concerns i t \<longrightarrow> noted i n)" using assms(2) by blast
  qed
qed

lemma chase_budget:
  assumes "task_step K cfg derive w (Chasing i a e k pc) n = (new, n1)" and "noted i n"
  shows "budget_step evs n new n1"
proof (rule budget_step_books)
  show "callbackGas n1 = callbackGas n" "\<forall>e \<in> set (trace n1). e \<in> set (trace n) \<or> known_event evs e"
    "\<forall>j. existingSession n1 (hexID j) \<noteq> None \<longrightarrow> existingSession n (hexID j) \<noteq> None \<or> noted j n"
    using assms(1) by (cases pc; auto simp: frame split: if_splits)+
  show "\<forall>t \<in> set new. known_task evs t \<and> (\<forall>i. concerns i t \<longrightarrow> noted i n)"
    using assms by (cases pc) (auto split: if_splits)
qed

lemma share_budget:
  assumes "share_step K cfg e pc n = (new, n1)" and "\<forall>i. concerns i (Sharing e pc) \<longrightarrow> noted i n"
    and "\<forall>i. existingSession n (hexID i) \<noteq> None \<longrightarrow> noted i n"
  shows "budget_step evs n new n1"
proof (cases pc)
  case (Share_Add i a p)
  obtain r n2 where add: "add_at K a p n = (r, n2)" by fastforce
  show ?thesis
    using assms same_books_calls(1)[OF add]
    by (intro budget_step_books)
      (auto simp: Share_Add add same_books_def existingSession_def frame split: sum.splits if_splits)
qed (use assms in \<open>auto simp: refuse_def frame intro!: budget_step_books
      split: sum.splits prod.splits option.splits if_splits\<close>)

lemma request_budget:
  assumes "request_step K cfg derive req pc n = (r, n1)" and "SawRequest req \<in> set evs"
    and "pc \<noteq> Req_Start \<longrightarrow> noted (ID req) n"
  shows "budget_step evs n (case r of None \<Rightarrow> [] | Some t \<Rightarrow> [t]) n1"
proof (cases pc)
  case Req_Start
  have a: "announced evs (ID req) (CallbackGasLimit req)" using assms(2) by (auto simp: announced_def)
  then show ?thesis
    using assms by (auto simp: Req_Start budget_step_def noted_def existingSession_def split: if_splits)
next
  case (Req_Session seed)
  then show ?thesis using assms
    by (auto simp: existingSession_def sessionFor_def Let_def intro!: budget_step_books
        split: prod.splits option.splits if_splits)
next
  case (Req_Own seed a)
  obtain q n2 where add: "add_at K a (own_partial K cfg seed) n = (q, n2)" by fastforce
  show ?thesis using assms Req_Own same_books_calls(1)[OF add]
    by (auto simp: add split: sum.splits intro!: budget_step_same)
next
  case (Req_Take seed a)
  obtain hs n2 where take: "takeParked (hexID (ID req)) n = (hs, n2)" by fastforce
  show ?thesis using assms Req_Take same_books_calls(2)[OF take] by (auto simp: take intro!: budget_step_same)
next
  case (Req_File seed a es)
  then show ?thesis using assms by (cases es) (auto intro!: budget_step_same intro: same_books_refl)
next
  case (Req_Offer seed a)
  then show ?thesis using assms
    by (auto simp: offer_share_def Let_def frame intro!: budget_step_books
        split: prod.splits option.splits sum.splits)
qed (use assms in \<open>auto simp: Let_def frame intro!: budget_step_books split: if_splits\<close>)

lemma task_budget:
  assumes "budget_ok evs n (pre @ t # post)" and "task_step K cfg derive w t n = (new, n1)"
  shows "budget_step evs n new n1"
proof (cases t)
  case (Requesting req pc)
  obtain r n2 where step: "request_step K cfg derive req pc n = (r, n2)" by fastforce
  then have new: "new = (case r of None \<Rightarrow> [] | Some t \<Rightarrow> [t])" "n2 = n1"
    using assms(2) Requesting by (auto split: option.splits)
  have "SawRequest req \<in> set evs" "pc \<noteq> Req_Start \<longrightarrow> noted (ID req) n"
    using assms(1) by (auto simp: budget_ok_def Requesting)
  from request_budget[OF step this] show ?thesis unfolding new .
next
  case (Chasing i a e k pc)
  then show ?thesis using assms chase_budget by (auto simp: budget_ok_def)
next
  case (Publishing i a pc cont)
  then have "noted i n" "\<forall>g. mget (callbackGas n) (hexID i) = Some g \<longrightarrow> announced evs i g"
    using assms(1) by (auto simp: budget_ok_def)
  then show ?thesis using assms(2) publish_budget unfolding Publishing by blast
next
  case (Sharing e pc)
  have "share_step K cfg e pc n = (new, n1)" using assms(2) Sharing by simp
  from share_budget[OF this, of evs] show ?thesis using assms(1) by (auto simp: budget_ok_def Sharing)
qed

section \<open>A run of the daemon\<close>

lemma daemon_budget:
  assumes "start_node K L disk W pass key f = Inr up" and "daemon_run K derive up evs d"
  shows "budget_ok evs (d_node d) (d_tasks d)"
  using assms(2)
proof induction
  case started
  obtain m where "st_node up = SetPeers (splitPeers (nf_peers f)) (new_node (Some m))"
    using assms(1) by (rule start_node_cases) auto
  then show ?case
    by (simp add: initial_daemon_def budget_ok_def SetPeers_def new_node_def existingSession_def)
next
  case (callback evs d e M now)
  from budget_ok_mono[OF callback.IH, of "[e]"] show ?case
    by (cases e) (auto simp: dispatch_def budget_ok_def frame)
next
  case (posted evs d e)
  then show ?case by (auto simp: budget_ok_def)
next
  case (goroutine evs d pre t post w new n1 m)
  then have "budget_ok evs (d_node d) (pre @ t # post)" by simp
  from budget_ok_step[OF this task_budget[OF this goroutine.hyps(4)]] show ?case by simp
qed

section \<open>The seeds of a run\<close>

text \<open>
  In a run the formula is only ever asked about announced requests, so the run is also one of a node whose
  formula knows nothing but the consumers announced for a request id.
\<close>

fun consumers :: "watch_event list \<Rightarrow> int \<Rightarrow> byte list list" where
  "consumers [] i = []"
| "consumers (SawRequest req # evs) i = (if ID req = i then Consumer req # consumers evs i else consumers evs i)"
| "consumers (_ # evs) i = consumers evs i"

definition pinned :: "(int \<Rightarrow> byte list \<Rightarrow> byte list) \<Rightarrow> watch_event list \<Rightarrow> int \<Rightarrow> byte list \<Rightarrow> byte list" where
  "pinned derive evs i c =
     (let cs = consumers evs i in if cs = [] \<or> c \<in> set cs then derive i c else derive i (hd cs))"

lemma consumers_in: "c \<in> set (consumers evs i) \<longleftrightarrow> (\<exists>req. SawRequest req \<in> set evs \<and> ID req = i \<and> Consumer req = c)"
  by (induction evs i rule: consumers.induct) auto

lemma pinned_announced: "SawRequest req \<in> set evs \<Longrightarrow> pinned derive evs (ID req) (Consumer req) = derive (ID req) (Consumer req)"
  by (auto simp: pinned_def Let_def consumers_in)

lemma derived_pinned:
  assumes "derived (pinned derive evs) i seed" and "announced evs i g"
  shows "\<exists>req. SawRequest req \<in> set evs \<and> ID req = i \<and> seed = derive i (Consumer req)"
proof -
  obtain c where c: "seed = pinned derive evs i c" using assms(1) by (auto simp: derived_def)
  obtain req where "SawRequest req \<in> set evs" "ID req = i" using assms(2) by (auto simp: announced_def)
  then have "Consumer req \<in> set (consumers evs i)" using consumers_in by blast
  then have "consumers evs i \<noteq> []" by auto
  then have "seed \<in> derive i ` set (consumers evs i)" by (auto simp: c pinned_def Let_def)
  then show ?thesis by (auto simp: consumers_in)
qed

lemma daemon_pinned:
  assumes "start_node K L disk W pass key f = Inr up" and "daemon_run K derive up evs d" and "set evs \<subseteq> set E"
  shows "reachable K (st_config up) (pinned derive E) (d_node d, d_tasks d)"
  using assms(2,3)
proof induction
  case started
  then show ?case using started_facts(6)[OF assms(1)] by (simp add: initial_daemon_def)
next
  case (callback evs d e M now)
  then show ?case by (cases e) (auto simp: dispatch_def intro: reachable.more node_step.intros)
next
  case (posted evs d e)
  then show ?case by (auto intro: reachable.more node_step.deliver)
next
  case (goroutine evs d pre t post w new n1 m)
  have "known_task evs t" using daemon_budget[OF assms(1) goroutine.hyps(1)] goroutine.hyps(2) by (simp add: budget_ok_def)
  then have "task_step K (st_config up) (pinned derive E) w t (d_node d) = (new, n1)"
    using goroutine.hyps(4) goroutine.prems
    by (subst task_step_derive[where g = derive]) (auto intro!: pinned_announced)
  with goroutine show ?case by (auto intro: reachable.more[OF _ node_step.run])
qed

section \<open>Properties\<close>

text \<open>
  Every transaction is sized for the callback its request asked for.  Over any run of the daemon,
  with shares arriving before, after or without an announcement, the callback budget with which a
  request is sent to the chain is that of an announcement of this very request; the zero with which
  \<open>callbackGasOf\<close> answers for an unknown request is never used to send.
\<close>

theorem budget_is_announced:
  assumes "start_node K L disk W pass key f = Inr up" and "daemon_run K derive up evs d"
    and "SentFulfill i raw g \<in> set (trace (d_node d))"
  shows "\<exists>req. SawRequest req \<in> set evs \<and> ID req = i \<and> CallbackGasLimit req = g"
  using budget_of_sent[OF daemon_budget[OF assms(1,2)] assms(3)] by (auto simp: announced_def)

theorem budget_is_announced_witness:
  "\<exists>d :: (gf11, gf11) daemon. \<exists>up raw. daemon_run small_kyber demo_derive up [SawRequest demo_request] d \<and>
     SentFulfill 31 raw (CallbackGasLimit demo_request) \<in> set (trace (d_node d))"
proof -
  obtain disk up d raw where run:
    "start_node small_kyber plain_keystore disk solo_world ''secret'' ''0xabc'' solo_flags = Inr up"
    "daemon_run small_kyber demo_derive up [SawRequest demo_request] d"
    "SentFulfill 31 raw 100000 \<in> set (trace (d_node d))" by (rule solo_daemon)
  from budget_is_announced[OF run] run show ?thesis by auto
qed

end
