(* ===== verification/Daemon_Money.thy ===== *)
theory Daemon_Money
  imports Daemon_Budget
begin

text \<open>
  The daemon and its publishing account.  \<open>Daemon\<close> leaves open what sending does to the client; here the
  node's sends are calls of \<open>Fulfill\<close> (\<open>node/internal/chain/chain.go\<close>), the scanned blocks and the
  publications run \<open>checkBalance\<close> (\<open>node/cmd/vrfnode/main.go\<close>), all on the one client, and what reaches the
  endpoint is kept in a log.  Each call of the client is one step.
\<close>

section \<open>The account\<close>

text \<open>
  Why something was sent: for a request, with the signature and the callback budget, or by a check,
  which is either the one after a publication (\<open>True\<close>) or the one on a poll.
\<close>

datatype origin =
    Fulfilling int "byte list" u32
  | Collecting bool money_answers

type_synonym send_log = "(origin \<times> endpoint \<times> transaction option) list"

text \<open>\<open>a_due\<close>: the goroutines of \<open>AfterPublish\<close> that have not run yet.\<close>

record ('g1, 'g2) account =
  a_daemon :: "('g1, 'g2) daemon"
  a_due :: nat
  a_sends :: send_log

definition initial_account :: "('s, 'g1, 'g2) started \<Rightarrow> ('g1, 'g2) account" where
  "initial_account up = \<lparr>a_daemon = initial_daemon up, a_due = 0, a_sends = []\<rparr>"

fun sending :: "'g1 task \<Rightarrow> (int \<times> byte list) option" where
  "sending (Publishing i a (Pub_Send signature attempt) cont) = Some (i, signature)"
| "sending t = None"

text \<open>The node learns whether the call failed; the text of the error is only logged.\<close>

definition heard :: "client_error + byte list \<Rightarrow> string + byte list" where
  "heard r = (case r of Inl e \<Rightarrow> Inl [] | Inr hash \<Rightarrow> Inr hash)"

text \<open>One section of a goroutine, with the call of the client where it sends.\<close>

definition run_section ::
  "('s, 'g1, 'g2, 'gt) kyber \<Rightarrow> ('s, 'g2) config \<Rightarrow> (int \<Rightarrow> byte list \<Rightarrow> byte list) \<Rightarrow>
   (int \<Rightarrow> byte list \<Rightarrow> string + byte list) \<Rightarrow> endpoint \<Rightarrow> int \<Rightarrow> 'g1 answer \<Rightarrow> 'g1 task \<Rightarrow>
   ('g1, 'g2) account \<Rightarrow> 'g1 task list \<times> ('g1, 'g2) account" where
  "run_section K cfg derive pack E now w t x =
     (let d = a_daemon x; n = d_node d in
      case sending t of
        None \<Rightarrow>
          (case task_step K cfg derive w t n of
             (new, n1) \<Rightarrow> (new, x\<lparr>a_daemon := d\<lparr>d_node := n1\<rparr>\<rparr>))
      | Some (i, signature) \<Rightarrow>
          (let g = callbackGasOf n (hexID i) in
           case Fulfill pack E now i signature g (snd (d_money d)) of
             (r, tx, c1) \<Rightarrow>
               (case task_step K cfg derive (w\<lparr>sent := heard r\<rparr>) t n of
                  (new, n1) \<Rightarrow>
                    (new, \<lparr> a_daemon = d\<lparr>d_node := n1, d_money := (fst (d_money d), c1)\<rparr>,
                            a_due = a_due x + (if isl r then 0 else 1),
                            a_sends = a_sends x @ [(Fulfilling i signature g, E, tx)] \<rparr>))))"

text \<open>A check of the balance, and a callback of the loop: a scanned block is followed by a check.\<close>

definition run_check :: "money_answers \<Rightarrow> int \<Rightarrow> int \<Rightarrow> bool \<Rightarrow> ('g1, 'g2) account \<Rightarrow> ('g1, 'g2) account" where
  "run_check M now limit just x =
     (case checkBalance M now limit just (d_money (a_daemon x)) of
        (tx, m) \<Rightarrow> x\<lparr>a_daemon := (a_daemon x)\<lparr>d_money := m\<rparr>,
                     a_sends := a_sends x @ [(Collecting just M, claim_endpoint M, tx)]\<rparr>)"

definition account_dispatch ::
  "int \<Rightarrow> money_answers \<Rightarrow> int \<Rightarrow> watch_event \<Rightarrow> ('g1, 'g2) account \<Rightarrow> ('g1, 'g2) account" where
  "account_dispatch limit M now e x =
     (case e of
        Scanned b \<Rightarrow>
          run_check M now limit False
            (x\<lparr>a_daemon := (a_daemon x)\<lparr>d_node := count (BlockSeen b) (d_node (a_daemon x))\<rparr>\<rparr>)
      | _ \<Rightarrow> x\<lparr>a_daemon := dispatch limit M now e (a_daemon x)\<rparr>)"

inductive account_run ::
  "('s, 'g1, 'g2, 'gt) kyber \<Rightarrow> (int \<Rightarrow> byte list \<Rightarrow> byte list) \<Rightarrow> (int \<Rightarrow> byte list \<Rightarrow> string + byte list) \<Rightarrow>
   ('s, 'g1, 'g2) started \<Rightarrow> watch_event list \<Rightarrow> ('g1, 'g2) account \<Rightarrow> bool"
  for K derive pack up where
  opened: "account_run K derive pack up [] (initial_account up)"
| called: "account_run K derive pack up evs x \<Longrightarrow>
     account_run K derive pack up (evs @ [e]) (account_dispatch (st_floor up) M now e x)"
| handed: "account_run K derive pack up evs x \<Longrightarrow> d = a_daemon x \<Longrightarrow>
     account_run K derive pack up evs (x\<lparr>a_daemon := d\<lparr>d_tasks := d_tasks d @ [Sharing e Share_Start]\<rparr>\<rparr>)"
| ran: "account_run K derive pack up evs x \<Longrightarrow> d_tasks (a_daemon x) = pre @ t # post \<Longrightarrow> answer_ok w \<Longrightarrow>
     run_section K (st_config up) derive pack E now w t x = (new, y) \<Longrightarrow>
     account_run K derive pack up evs (y\<lparr>a_daemon := (a_daemon y)\<lparr>d_tasks := pre @ new @ post\<rparr>\<rparr>)"
| checked: "account_run K derive pack up evs x \<Longrightarrow> a_due x = Suc k \<Longrightarrow>
     account_run K derive pack up evs (run_check M now (st_floor up) True (x\<lparr>a_due := k\<rparr>))"

section \<open>It is a run of the daemon\<close>

text \<open>The two models differ in the money part only.\<close>

definition same_work :: "('g1, 'g2) daemon \<Rightarrow> ('g1, 'g2) daemon \<Rightarrow> bool" where
  "same_work d d' \<longleftrightarrow> d_node d = d_node d' \<and> d_tasks d = d_tasks d'"

lemma same_work_dispatch:
  "same_work d d' \<Longrightarrow> same_work (dispatch limit M now e d) (dispatch limit M now e d')"
  by (cases e) (simp_all add: same_work_def dispatch_def)

lemma account_dispatch_daemon:
  "a_daemon (account_dispatch limit M now e x) = dispatch limit M now e (a_daemon x)"
  by (cases e) (simp_all add: account_dispatch_def dispatch_def run_check_def split: prod.splits)

text \<open>The step of the node that a section makes.\<close>

lemma run_section_node:
  assumes "run_section K cfg derive pack E now w t x = (new, y)"
  obtains w' n1 where "task_step K cfg derive w' t (d_node (a_daemon x)) = (new, n1)"
    "ranged w' = ranged w" "drawn w' = drawn w" "d_node (a_daemon y) = n1"
  using assms by (fastforce simp: run_section_def Let_def split: option.splits prod.splits)

lemma account_run_daemon:
  "account_run K derive pack up evs x \<Longrightarrow> \<exists>d. daemon_run K derive up evs d \<and> same_work (a_daemon x) d"
proof (induction rule: account_run.induct)
  case opened
  show ?case using started by (fastforce simp: initial_account_def same_work_def)
next
  case (called evs x e M now)
  then obtain d where d: "daemon_run K derive up evs d" "same_work (a_daemon x) d" by blast
  from callback[OF d(1), of e M now] same_work_dispatch[OF d(2)] show ?case
    unfolding account_dispatch_daemon by blast
next
  case (handed evs x d e)
  then obtain d1 where d: "daemon_run K derive up evs d1" "same_work d d1" by blast
  from posted[OF d(1), of e] d(2) show ?case by (fastforce simp: same_work_def)
next
  case (ran evs x pre t post w E now new y)
  obtain d where d: "daemon_run K derive up evs d" "same_work (a_daemon x) d" using ran.IH by blast
  obtain w' n1 where w: "task_step K (st_config up) derive w' t (d_node (a_daemon x)) = (new, n1)"
    "ranged w' = ranged w" "drawn w' = drawn w" "d_node (a_daemon y) = n1"
    using run_section_node[OF ran.hyps(4)] by metis
  have "answer_ok w'" using ran.hyps(3) w(2,3) by (simp add: answer_ok_def)
  from goroutine[OF d(1) _ this, of pre t post new n1 "d_money d"] ran.hyps(2) w d(2)
  have "daemon_run K derive up evs (d\<lparr>d_node := n1, d_tasks := pre @ new @ post, d_money := d_money d\<rparr>)"
    by (simp add: same_work_def)
  then show ?case by (rule exI[where x = "d\<lparr>d_node := n1, d_tasks := pre @ new @ post, d_money := d_money d\<rparr>", OF conjI])
    (simp add: same_work_def w(4))
next
  case (checked evs x k M now)
  then show ?case by (auto simp: run_check_def same_work_def split: prod.splits)
qed

section \<open>What the log and the trace have in common\<close>

fun of_sending :: "event \<Rightarrow> bool" where
  "of_sending (SentFulfill i raw g) = True"
| "of_sending RanAfterPublish = True"
| "of_sending _ = False"

definition sends_of :: "event list \<Rightarrow> event list" where
  "sends_of tr = filter of_sending tr"

lemma sends_of_simps [simp]:
  "sends_of [] = []" "sends_of (xs @ ys) = sends_of xs @ sends_of ys"
  "sends_of (e # tr) = (if of_sending e then e # sends_of tr else sends_of tr)"
  by (simp_all add: sends_of_def)

fun calls_of :: "event list \<Rightarrow> (int \<times> byte list \<times> u32) list" where
  "calls_of [] = []"
| "calls_of (SentFulfill i raw g # tr) = (i, raw, g) # calls_of tr"
| "calls_of (_ # tr) = calls_of tr"

lemma calls_of_append [simp]: "calls_of (xs @ ys) = calls_of xs @ calls_of ys"
  by (induction xs rule: calls_of.induct) simp_all

lemma calls_of_sends: "calls_of (sends_of tr) = calls_of tr"
  by (induction tr rule: calls_of.induct) simp_all

lemma deliveries_sends: "deliveries (sends_of tr) = deliveries tr"
  by (induction tr rule: deliveries.induct) simp_all

lemma calls_of_in: "(i, raw, g) \<in> set (calls_of tr) \<longleftrightarrow> SentFulfill i raw g \<in> set tr"
  by (induction tr rule: calls_of.induct) auto

text \<open>Only the section that sends adds to what the trace says about sending.\<close>

lemma quiet_section:
  assumes "task_step K cfg derive w t n = (new, n1)" and "sending t = None"
  shows "sends_of (trace n1) = sends_of (trace n)"
proof (cases t)
  case (Publishing i a pc cont)
  then show ?thesis using assms by (cases pc) (auto simp: frame split: sum.splits if_splits)
next
  case (Chasing i a e k pc)
  then show ?thesis using assms by (cases pc) (auto simp: frame split: if_splits)
next
  case (Sharing e pc)
  show ?thesis
  proof (cases pc)
    case (Share_Add i a p)
    obtain r n2 where add: "add_at K a p n = (r, n2)" by fastforce
    show ?thesis using assms Sharing same_books_calls(1)[OF add]
      by (auto simp: Share_Add add same_books_def frame split: sum.splits if_splits)
  qed (use assms Sharing in \<open>auto simp: refuse_def frame split: sum.splits prod.splits option.splits if_splits\<close>)
next
  case (Requesting req pc)
  show ?thesis
  proof (cases pc)
    case (Req_Own seed a)
    obtain q n2 where add: "add_at K a (own_partial K cfg seed) n = (q, n2)" by fastforce
    show ?thesis using assms Requesting Req_Own same_books_calls(1)[OF add]
      by (auto simp: add same_books_def split: sum.splits)
  next
    case (Req_Take seed a)
    obtain hs n2 where take: "takeParked (hexID (ID req)) n = (hs, n2)" by fastforce
    show ?thesis using assms Requesting Req_Take same_books_calls(2)[OF take] by (auto simp: take same_books_def)
  next
    case (Req_File seed a es)
    have "trace (file_held K seed a e n) = trace n" for e
      using same_books_file_held[of n K seed a e] by (simp only: same_books_def)
    then show ?thesis using assms Requesting Req_File by (cases es) auto
  qed (use assms Requesting in \<open>auto simp: Let_def frame offer_share_def sessionFor_def
         split: prod.splits option.splits sum.splits if_splits\<close>)
qed

lemma sending_section:
  assumes "task_step K cfg derive w t n = (new, n1)" and "sending t = Some (i, raw)" and "AfterPublish cfg"
  shows "sends_of (trace n1) = sends_of (trace n) @ SentFulfill i raw (callbackGasOf n (hexID i)) #
     (if isl (sent w) then [] else [RanAfterPublish])"
proof -
  obtain a k cont where t: "t = Publishing i a (Pub_Send raw k) cont"
    using assms(2) by (cases t rule: sending.cases) auto
  show ?thesis using assms(1,3) by (auto simp: t Let_def frame split: sum.splits if_splits)
qed

section \<open>The books\<close>

fun for_requests :: "send_log \<Rightarrow> (int \<times> byte list \<times> u32) list" where
  "for_requests [] = []"
| "for_requests ((Fulfilling i raw g, E, tx) # l) = (i, raw, g) # for_requests l"
| "for_requests ((Collecting just M, E, tx) # l) = for_requests l"

lemma for_requests_append [simp]: "for_requests (xs @ ys) = for_requests xs @ for_requests ys"
  by (induction xs rule: for_requests.induct) simp_all

lemma for_requests_in: "(Fulfilling i raw g, E, tx) \<in> set l \<Longrightarrow> (i, raw, g) \<in> set (for_requests l)"
  by (induction l rule: for_requests.induct) auto

definition was_accepted :: "endpoint \<Rightarrow> transaction option \<Rightarrow> bool" where
  "was_accepted E tx = (case tx of None \<Rightarrow> False | Some t \<Rightarrow> accepts E t = None)"

text \<open>The fulfilments that were accepted, and the checks that a publication called for.\<close>

definition landed :: "send_log \<Rightarrow> nat" where
  "landed l = length (filter (\<lambda>(why, E, tx). (case why of Fulfilling i raw g \<Rightarrow> True | _ \<Rightarrow> False) \<and> was_accepted E tx) l)"

definition forced :: "send_log \<Rightarrow> nat" where
  "forced l = length (filter (\<lambda>(why, E, tx). case why of Collecting just M \<Rightarrow> just | _ \<Rightarrow> False) l)"

lemma landed_simps [simp]:
  "landed [] = 0" "landed (xs @ ys) = landed xs + landed ys"
  "landed [(Fulfilling i raw g, E, tx)] = (if was_accepted E tx then 1 else 0)"
  "landed [(Collecting just M, E, tx)] = 0"
  by (simp_all add: landed_def)

lemma forced_simps [simp]:
  "forced [] = 0" "forced (xs @ ys) = forced xs + forced ys"
  "forced [(Fulfilling i raw g, E, tx)] = 0" "forced [(Collecting just M, E, tx)] = (if just then 1 else 0)"
  by (simp_all add: forced_def)

definition books_ok :: "('g1, 'g2) account \<Rightarrow> bool" where
  "books_ok x \<longleftrightarrow> (let tr = trace (d_node (a_daemon x)) in
     for_requests (a_sends x) = calls_of tr \<and> landed (a_sends x) = deliveries tr \<and>
     forced (a_sends x) + a_due x = deliveries tr)"

lemma send_result:
  "send E now dest data gas c = (r, tx, c1) \<Longrightarrow> isl r \<longleftrightarrow> \<not> was_accepted E tx"
  by (auto simp: send_def submit_def reserveNonce_def Let_def was_accepted_def
      split: if_splits sum.splits option.splits prod.splits)

lemma Fulfill_result:
  "Fulfill pack E now i raw g c = (r, tx, c1) \<Longrightarrow> isl r \<longleftrightarrow> \<not> was_accepted E tx"
  by (auto simp: Fulfill_def Let_def was_accepted_def[of E None] split: if_splits sum.splits dest: send_result)

lemma isl_heard [simp]: "isl (heard r) = isl r"
  by (cases r) (simp_all add: heard_def)

lemma books_section:
  assumes "books_ok x" and "AfterPublish cfg" and "run_section K cfg derive pack E now w t x = (new, y)"
  shows "books_ok (y\<lparr>a_daemon := (a_daemon y)\<lparr>d_tasks := ts\<rparr>\<rparr>)"
proof (cases "sending t")
  case None
  then obtain n1 where step: "task_step K cfg derive w t (d_node (a_daemon x)) = (new, n1)"
    and y: "y = x\<lparr>a_daemon := (a_daemon x)\<lparr>d_node := n1\<rparr>\<rparr>"
    using assms(3) by (auto simp: run_section_def Let_def split: prod.splits)
  have "calls_of (trace n1) = calls_of (trace (d_node (a_daemon x)))"
    "deliveries (trace n1) = deliveries (trace (d_node (a_daemon x)))"
    using quiet_section[OF step None] calls_of_sends deliveries_sends by metis+
  then show ?thesis using assms(1) by (simp add: books_ok_def y Let_def)
next
  case (Some q)
  obtain i raw where q: "q = (i, raw)" by (cases q)
  let ?n = "d_node (a_daemon x)" and ?g = "callbackGasOf (d_node (a_daemon x)) (hexID i)"
  obtain r tx c1 where call: "Fulfill pack E now i raw ?g (snd (d_money (a_daemon x))) = (r, tx, c1)"
    by (metis prod_cases3)
  obtain n1 where step: "task_step K cfg derive (w\<lparr>sent := heard r\<rparr>) t ?n = (new, n1)"
    and y: "d_node (a_daemon y) = n1" "a_sends y = a_sends x @ [(Fulfilling i raw ?g, E, tx)]"
      "a_due y = a_due x + (if isl r then 0 else 1)"
    using assms(3) by (auto simp: run_section_def Let_def Some q call split: prod.splits)
  have tr: "sends_of (trace n1) = sends_of (trace ?n) @ SentFulfill i raw ?g # (if isl r then [] else [RanAfterPublish])"
    using sending_section[OF step _ assms(2)] Some q by simp
  have "calls_of (trace n1) = calls_of (trace ?n) @ [(i, raw, ?g)]"
    using arg_cong[OF tr, of calls_of] by (simp add: calls_of_sends split: if_splits)
  moreover have "deliveries (trace n1) = deliveries (trace ?n) + (if isl r then 0 else 1)"
    using arg_cong[OF tr, of deliveries] by (simp add: deliveries_sends split: if_splits)
  ultimately show ?thesis using assms(1) Fulfill_result[OF call] by (auto simp: books_ok_def y Let_def)
qed

lemma account_books:
  assumes "start_node K L disk W pass key f = Inr up" and "account_run K derive pack up evs x"
  shows "books_ok x"
  using assms(2)
proof induction
  case opened
  show ?case using started_facts(5)[OF assms(1)] by (simp add: initial_account_def initial_daemon_def books_ok_def)
next
  case (called evs x e M now)
  then show ?case
    by (cases e) (auto simp: account_dispatch_def dispatch_def run_check_def books_ok_def frame Let_def split: prod.splits)
next
  case (ran evs x pre t post w E now new y)
  from books_section[OF ran.IH started_facts(1)[OF assms(1)] ran.hyps(4)] show ?case .
qed (auto simp: books_ok_def run_check_def Let_def split: prod.splits)

section \<open>What the calls do to the client\<close>

text \<open>
  \<open>client_step asked c c1\<close>: who the client is does not change, and the address of the subscription
  contract is the one held or the one the endpoint gave.
\<close>

definition same_identity :: "client \<Rightarrow> client \<Rightarrow> bool" where
  "same_identity c c1 \<longleftrightarrow> coordinator c1 = coordinator c \<and> has_key c1 = has_key c \<and> sender c1 = sender c \<and>
     chainID c1 = chainID c \<and> gasLimit c1 = gasLimit c"

definition client_step :: "string + byte list \<Rightarrow> client \<Rightarrow> client \<Rightarrow> bool" where
  "client_step asked c c1 \<longleftrightarrow> same_identity c c1 \<and>
     (subscription c1 = subscription c \<or> asked = Inr (subscription c1))"

definition same_counter :: "client \<Rightarrow> client \<Rightarrow> bool" where
  "same_counter c c1 \<longleftrightarrow> nextNonce c1 = nextNonce c \<and> haveNonce c1 = haveNonce c"

lemma client_step_refl [simp]: "client_step asked c c"
  by (simp add: client_step_def same_identity_def)

lemma client_step_trans: "client_step asked c c1 \<Longrightarrow> client_step asked c1 c2 \<Longrightarrow> client_step asked c c2"
  by (auto simp: client_step_def same_identity_def)

lemma same_counter_refl [simp]: "same_counter c c"
  by (simp add: same_counter_def)

lemma same_counter_trans: "same_counter c c1 \<Longrightarrow> same_counter c1 c2 \<Longrightarrow> same_counter c c2"
  by (simp add: same_counter_def)

lemma counter_effect_after: "same_counter c c1 \<Longrightarrow> counter_effect E c1 tx c2 \<Longrightarrow> counter_effect E c tx c2"
  by (auto simp: same_counter_def counter_effect_def split: option.splits)

lemma counter_effect_quiet: "same_counter c c1 \<Longrightarrow> counter_effect E c None c1"
  by (auto simp: same_counter_def counter_effect_def)

text \<open>The address \<open>Subscription\<close> answers with.\<close>

definition subs_ok :: "string + byte list \<Rightarrow> client \<Rightarrow> byte list \<Rightarrow> bool" where
  "subs_ok asked c subs \<longleftrightarrow> subscription c \<noteq> replicate 20 0 \<and> subs = subscription c \<or> asked = Inr subs"

lemma Subscription_step:
  "Subscription asked c = (r, c1) \<Longrightarrow> client_step asked c c1 \<and> same_counter c c1 \<and> (\<forall>subs. r = Inr subs \<longrightarrow> subs_ok asked c subs)"
  by (auto simp: Subscription_def client_step_def same_identity_def same_counter_def subs_ok_def
      split: if_splits sum.splits)

lemma subs_ok_step: "client_step asked c c1 \<Longrightarrow> subs_ok asked c1 subs \<Longrightarrow> subs_ok asked c subs"
  by (auto simp: subs_ok_def client_step_def)

lemma fees_step: "fees E now c = (r, c1) \<Longrightarrow> client_step asked c c1 \<and> same_counter c c1"
  by (auto simp: fees_def Let_def client_step_def same_identity_def same_counter_def split: if_splits sum.splits)

lemma WithdrawableOf_step:
  "WithdrawableOf asked wd who c = (r, c1) \<Longrightarrow> client_step asked c c1 \<and> same_counter c c1"
  by (auto simp: WithdrawableOf_def split: sum.splits prod.splits dest: Subscription_step)

lemma ClaimCost_step: "ClaimCost E now c = (r, c1) \<Longrightarrow> client_step asked c c1 \<and> same_counter c c1"
  by (auto simp: ClaimCost_def split: sum.splits prod.splits option.splits dest: fees_step)

lemma submit_step: "submit E dest data gas tip base c = (r, tx, c1) \<Longrightarrow> client_step asked c c1"
  by (auto simp: submit_def reserveNonce_def Let_def client_step_def same_identity_def
      split: if_splits sum.splits option.splits)

lemma send_step: "send E now dest data gas c = (r, tx, c1) \<Longrightarrow> client_step asked c c1"
  by (auto simp: send_def split: if_splits sum.splits prod.splits option.splits
      dest: fees_step submit_step intro: client_step_trans)

lemma Claim_step:
  assumes "Claim asked pack E now c = (r, tx, c1)"
  shows "client_step asked c c1" "counter_effect E c tx c1"
    "\<forall>t. tx = Some t \<longrightarrow> subs_ok asked c (tx_to t) \<and> pack (sender c) = Inr (tx_data t) \<and> tx_gas t = ClaimGas"
proof -
  obtain q c2 where q: "Subscription asked c = (q, c2)" by fastforce
  note s = Subscription_step[OF q]
  consider (quiet) "tx = None" "c1 = c2"
    | (sent) subs data where "q = Inr subs" "pack (sender c2) = Inr data"
        "send E now subs data ClaimGas c2 = (r, tx, c1)"
    using assms q by (auto simp: Claim_def split: sum.splits)
  then have "client_step asked c c1 \<and> counter_effect E c tx c1 \<and>
     (\<forall>t. tx = Some t \<longrightarrow> subs_ok asked c (tx_to t) \<and> pack (sender c) = Inr (tx_data t) \<and> tx_gas t = ClaimGas)"
  proof cases
    case quiet
    then show ?thesis using s by (simp add: counter_effect_quiet)
  next
    case sent
    have "sender c2 = sender c" using s by (simp add: client_step_def same_identity_def)
    then show ?thesis
      using s sent send_step[OF sent(3)] send_effect[OF sent(3)] send_tx[of E now subs data ClaimGas c2 r _ c1]
      by (auto intro: client_step_trans counter_effect_after)
  qed
  then show "client_step asked c c1" "counter_effect E c tx c1"
    "\<forall>t. tx = Some t \<longrightarrow> subs_ok asked c (tx_to t) \<and> pack (sender c) = Inr (tx_data t) \<and> tx_gas t = ClaimGas"
    by blast+
qed

lemma Fulfill_step:
  assumes "Fulfill pack E now i raw g c = (r, tx, c1)"
  shows "client_step asked c c1" "counter_effect E c tx c1"
    "\<forall>t. tx = Some t \<longrightarrow> tx_to t = coordinator c \<and> pack i raw = Inr (tx_data t) \<and>
       tx_gas t = (if gasLimit c \<noteq> DefaultGasLimit then gasLimit c else FulfilGasLimit g)"
  using assms counter_effect_quiet[of c c]
  by (auto simp: Fulfill_def Let_def split: if_splits sum.splits dest: send_step send_effect send_tx)

text \<open>A whole check.\<close>

lemma collect_step:
  assumes "collect_earnings M limit left (b, c) = (tx, b1, c1)"
  shows "client_step (asked_subscription M) c c1 \<and> counter_effect (claim_endpoint M) c tx c1 \<and>
     (\<forall>t. tx = Some t \<longrightarrow> subs_ok (asked_subscription M) c (tx_to t) \<and> pack_withdraw M (sender c) = Inr (tx_data t) \<and>
        tx_gas t = ClaimGas)"
proof -
  let ?a = "asked_subscription M"
  obtain earned c2 where e: "WithdrawableOf ?a (withdrawable M) (sender c) c = (earned, c2)" by fastforce
  obtain cost c3 where p: "ClaimCost (price_endpoint M) (price_time M) c2 = (cost, c3)" by fastforce
  obtain r tx4 c4 where k: "Claim ?a (pack_withdraw M) (claim_endpoint M) (claim_time M) c3 = (r, tx4, c4)"
    by (metis prod_cases3)
  note e1 = WithdrawableOf_step[OF e] and p1 = ClaimCost_step[OF p, of ?a] and k1 = Claim_step[OF k]
  have c3: "client_step ?a c c3" "same_counter c c3"
    using e1 p1 client_step_trans same_counter_trans by blast+
  then have who: "sender c3 = sender c" by (simp add: client_step_def same_identity_def)
  have "tx = None \<and> c1 = c2 \<or> tx = None \<and> c1 = c3 \<or> tx = tx4 \<and> c1 = c4"
    using assms e p k by (auto simp: collect_earnings_def split: sum.splits if_splits)
  then show ?thesis
    using e1 c3 k1 who by (auto intro: counter_effect_quiet client_step_trans counter_effect_after subs_ok_step)
qed

lemma check_step:
  assumes "checkBalance M now limit just (b, c) = (tx, b1, c1)"
  shows "client_step (asked_subscription M) c c1 \<and> counter_effect (claim_endpoint M) c tx c1 \<and>
     (\<forall>t. tx = Some t \<longrightarrow> subs_ok (asked_subscription M) c (tx_to t) \<and> pack_withdraw M (sender c) = Inr (tx_data t) \<and>
        tx_gas t = ClaimGas)"
  using assms counter_effect_quiet[of c c]
  by (auto simp: checkBalance_def Let_def split: prod.splits if_splits option.splits dest: collect_step)

section \<open>What the account is used for\<close>

text \<open>\<open>told l a\<close>: some check logged in \<open>l\<close> was given \<open>a\<close> as the subscription contract of the coordinator.\<close>

definition told :: "send_log \<Rightarrow> byte list \<Rightarrow> bool" where
  "told l a \<longleftrightarrow> (\<exists>e \<in> set l. case fst e of
     Collecting just M \<Rightarrow> asked_subscription M = Inr a | Fulfilling i raw g \<Rightarrow> False)"

definition entry_ok ::
  "(int \<Rightarrow> byte list \<Rightarrow> string + byte list) \<Rightarrow> client \<Rightarrow> send_log \<Rightarrow> origin \<Rightarrow> transaction option \<Rightarrow> bool" where
  "entry_ok pack c l why tx \<longleftrightarrow> (\<forall>t. tx = Some t \<longrightarrow> (case why of
       Fulfilling i raw g \<Rightarrow> tx_to t = coordinator c \<and> pack i raw = Inr (tx_data t) \<and>
         tx_gas t = (if gasLimit c \<noteq> DefaultGasLimit then gasLimit c else FulfilGasLimit g)
     | Collecting just M \<Rightarrow> told l (tx_to t) \<and> pack_withdraw M (sender c) = Inr (tx_data t) \<and> tx_gas t = ClaimGas))"

definition account_ok ::
  "(int \<Rightarrow> byte list \<Rightarrow> string + byte list) \<Rightarrow> client \<Rightarrow> ('g1, 'g2) account \<Rightarrow> bool" where
  "account_ok pack c0 x \<longleftrightarrow> (let c = snd (d_money (a_daemon x)) in
     same_identity c0 c \<and> (subscription c \<noteq> replicate 20 0 \<longrightarrow> told (a_sends x) (subscription c)) \<and>
     (\<forall>(why, E, tx) \<in> set (a_sends x). entry_ok pack c0 (a_sends x) why tx))"

lemma told_mono: "told l a \<Longrightarrow> told (l @ l') a"
  by (auto simp: told_def)

lemma entry_ok_mono: "entry_ok pack c l why tx \<Longrightarrow> entry_ok pack c (l @ l') why tx"
  by (auto simp: entry_ok_def told_mono split: origin.splits)

lemma account_ok_step:
  assumes "account_ok pack c0 x" and "a_sends y = a_sends x @ [(why, E, tx)]"
    and "same_identity c0 (snd (d_money (a_daemon y)))"
    and "subscription (snd (d_money (a_daemon y))) \<noteq> replicate 20 0 \<Longrightarrow>
       told (a_sends y) (subscription (snd (d_money (a_daemon y))))"
    and "entry_ok pack c0 (a_sends y) why tx"
  shows "account_ok pack c0 y"
  using assms by (auto simp: account_ok_def Let_def entry_ok_mono)

lemma same_identity_step: "same_identity c0 c \<Longrightarrow> client_step asked c c1 \<Longrightarrow> same_identity c0 c1"
  by (auto simp: same_identity_def client_step_def)

lemma account_ok_check:
  assumes "account_ok pack c0 x"
  shows "account_ok pack c0 (run_check M now limit just x)"
proof -
  obtain b c where m: "d_money (a_daemon x) = (b, c)" by fastforce
  obtain tx b1 c1 where chk: "checkBalance M now limit just (b, c) = (tx, b1, c1)" by (metis prod_cases3)
  let ?l = "a_sends x @ [(Collecting just M, claim_endpoint M, tx)]"
  note s = check_step[OF chk]
  have c: "same_identity c0 c" "subscription c \<noteq> replicate 20 0 \<Longrightarrow> told (a_sends x) (subscription c)"
    using assms by (auto simp: account_ok_def m)
  have new: "told ?l a" if "asked_subscription M = Inr a" for a using that by (simp add: told_def)
  have subs: "told ?l a" if "subs_ok (asked_subscription M) c a" for a
    using that c(2) new told_mono by (auto simp: subs_ok_def)
  have "sender c0 = sender c" using c(1) by (simp add: same_identity_def)
  then have e: "entry_ok pack c0 ?l (Collecting just M) tx" using s subs by (auto simp: entry_ok_def)
  have "told ?l (subscription c1)" if "subscription c1 \<noteq> replicate 20 0"
    using s that c(2) new told_mono by (auto simp: client_step_def)
  then show ?thesis using e c(1) s same_identity_step
    by (intro account_ok_step[OF assms]) (auto simp: run_check_def m chk)
qed

lemma account_ok_section:
  assumes "account_ok pack c0 x" and "run_section K cfg derive pack E now w t x = (new, y)"
  shows "account_ok pack c0 y"
proof (cases "sending t")
  case None
  then show ?thesis using assms by (auto simp: run_section_def Let_def account_ok_def split: prod.splits)
next
  case (Some q)
  obtain i raw where q: "q = (i, raw)" by (cases q)
  obtain b c where m: "d_money (a_daemon x) = (b, c)" by fastforce
  let ?g = "callbackGasOf (d_node (a_daemon x)) (hexID i)"
  obtain r tx c1 where call: "Fulfill pack E now i raw ?g c = (r, tx, c1)" by (metis prod_cases3)
  have y: "a_sends y = a_sends x @ [(Fulfilling i raw ?g, E, tx)]" "snd (d_money (a_daemon y)) = c1"
    using assms(2) by (auto simp: run_section_def Let_def Some q m call split: prod.splits)
  have c: "same_identity c0 c" "subscription c \<noteq> replicate 20 0 \<Longrightarrow> told (a_sends x) (subscription c)"
    using assms(1) by (auto simp: account_ok_def m)
  have "client_step (Inl []) c c1" using Fulfill_step(1)[OF call] .
  then have s: "same_identity c0 c1" "subscription c1 = subscription c"
    using c(1) same_identity_step by (auto simp: client_step_def)
  have "coordinator c0 = coordinator c" "gasLimit c0 = gasLimit c" using c(1) by (simp_all add: same_identity_def)
  then have "entry_ok pack c0 (a_sends y) (Fulfilling i raw ?g) tx"
    using Fulfill_step(3)[OF call] by (simp add: entry_ok_def)
  then show ?thesis using y s c(2) by (intro account_ok_step[OF assms(1) y(1)]) (auto intro: told_mono)
qed

lemma started_client:
  assumes "start_node K L disk W pass key f = Inr up"
  obtains publisher where "nw_key W (trim_prefix ''0x'' key) = Inr publisher" "sender (st_client up) = publisher"
    "coordinator (st_client up) = nw_address W (nf_coordinator f)" "gasLimit (st_client up) = DefaultGasLimit"
    "subscription (st_client up) = replicate 20 0" "\<not> haveNonce (st_client up)" "has_key (st_client up)"
  using assms by (auto simp: start_node_def Dial_def Let_def split: if_splits sum.splits option.splits list.splits)

lemma account_run_ok:
  assumes "start_node K L disk W pass key f = Inr up" and "account_run K derive pack up evs x"
  shows "account_ok pack (st_client up) x"
  using assms(2)
proof induction
  case opened
  obtain "subscription (st_client up) = replicate 20 0" using assms(1) by (rule started_client)
  then show ?case by (simp add: initial_account_def initial_daemon_def account_ok_def same_identity_def)
next
  case (called evs x e M now)
  show ?case
  proof (cases e)
    case (Scanned b)
    have "account_ok pack (st_client up)
        (x\<lparr>a_daemon := (a_daemon x)\<lparr>d_node := count (BlockSeen b) (d_node (a_daemon x))\<rparr>\<rparr>)"
      using called.IH by (simp add: account_ok_def)
    from account_ok_check[OF this] show ?thesis by (simp add: account_dispatch_def Scanned)
  qed (use called.IH in \<open>simp_all add: account_dispatch_def dispatch_def account_ok_def\<close>)
next
  case (ran evs x pre t post w E now new y)
  from account_ok_section[OF ran.IH ran.hyps(4)] show ?case by (simp add: account_ok_def)
next
  case (checked evs x k M now)
  have "account_ok pack (st_client up) (x\<lparr>a_due := k\<rparr>)" using checked.IH by (simp add: account_ok_def)
  from account_ok_check[OF this] show ?case .
qed (simp add: account_ok_def)

section \<open>Nonces\<close>

definition nonces :: "send_log \<Rightarrow> int list" where
  "nonces l = map (\<lambda>(why, E, tx). uint (tx_nonce (the tx))) (filter (\<lambda>(why, E, tx). was_accepted E tx) l)"

lemma nonces_simps [simp]:
  "nonces [] = []" "nonces (l @ l') = nonces l @ nonces l'"
  "nonces [(why, E, tx)] = (if was_accepted E tx then [uint (tx_nonce (the tx))] else [])"
  by (simp_all add: nonces_def)

text \<open>
  What \<open>eth_getTransactionCount\<close> with \<open>pending\<close> is documented to return: a number above every nonce of this
  account that the endpoint has accepted.  \<open>N\<close> is the number of sends in the life of the client; the
  counts leave room for them.
\<close>

definition endpoint_counts :: "nat \<Rightarrow> send_log \<Rightarrow> endpoint \<Rightarrow> bool" where
  "endpoint_counts N l E \<longleftrightarrow> (case pending_nonce E of Inl e \<Rightarrow> True
     | Inr p \<Rightarrow> (\<forall>x \<in> set (nonces l). x < uint p) \<and> uint p + int N < 2 ^ 64)"

definition endpoints_count :: "nat \<Rightarrow> send_log \<Rightarrow> bool" where
  "endpoints_count N l \<longleftrightarrow> (\<forall>k < length l. endpoint_counts N (take k l) (fst (snd (l ! k))))"

lemma endpoints_count_snoc:
  "endpoints_count N (l @ [(why, E, tx)]) \<longleftrightarrow> endpoints_count N l \<and> endpoint_counts N l E"
  by (auto simp: endpoints_count_def All_less_Suc nth_append less_Suc_eq)

text \<open>The counter is above what was accepted, and leaves room for what is still to come.\<close>

definition nonce_ok :: "nat \<Rightarrow> send_log \<Rightarrow> client \<Rightarrow> bool" where
  "nonce_ok N l c \<longleftrightarrow> sorted_wrt (<) (nonces l) \<and>
     (haveNonce c \<longrightarrow> (\<forall>x \<in> set (nonces l). x < uint (nextNonce c)) \<and>
        uint (nextNonce c) + int N < 2 ^ 64 + int (length l))"

lemma nonce_ok_step:
  assumes "nonce_ok N l c" and "counter_effect E c tx c1" and "endpoint_counts N l E" and "length l < N"
  shows "nonce_ok N (l @ [(why, E, tx)]) c1"
proof (cases "was_accepted E tx")
  case False
  then show ?thesis using assms
    by (fastforce simp: nonce_ok_def counter_effect_def was_accepted_def endpoint_counts_def split: option.splits if_splits)
next
  case True
  then obtain t where t: "tx = Some t" "accepts E t = None"
    by (auto simp: was_accepted_def split: option.splits)
  then have c1: "nextNonce c1 = tx_nonce t + 1" "haveNonce c1"
    and n: "if haveNonce c then tx_nonce t = nextNonce c else pending_nonce E = Inr (tx_nonce t)"
    using assms(2) by (simp_all add: counter_effect_def)
  have above: "\<forall>x \<in> set (nonces l). x < uint (tx_nonce t)"
    and room: "uint (tx_nonce t) + int N < 2 ^ 64 + int (length l)"
    using n assms(1,3) by (auto simp: nonce_ok_def endpoint_counts_def split: if_splits)
  have "uint (tx_nonce t) + 1 < 2 ^ 64" using room assms(4) by linarith
  then have "uint (nextNonce c1) = uint (tx_nonce t) + 1" using c1(1) uint_succ by simp
  then show ?thesis
    using above room assms(1) True t(1) by (force simp: nonce_ok_def sorted_wrt_append)
qed

lemma nonce_ok_same: "nonce_ok N l c \<Longrightarrow> same_counter c c1 \<Longrightarrow> nonce_ok N l c1"
  by (simp add: nonce_ok_def same_counter_def)

lemma account_nonces:
  assumes "start_node K L disk W pass key f = Inr up" and "account_run K derive pack up evs x"
    and "length (a_sends x) \<le> N" and "endpoints_count N (a_sends x)"
  shows "nonce_ok N (a_sends x) (snd (d_money (a_daemon x)))"
  using assms(2-4)
proof induction
  case opened
  obtain "\<not> haveNonce (st_client up)" using assms(1) by (rule started_client)
  then show ?case by (simp add: initial_account_def initial_daemon_def nonce_ok_def)
next
  case (called evs x e M now)
  show ?case
  proof (cases e)
    case (Scanned b)
    obtain b c where m: "d_money (a_daemon x) = (b, c)" by fastforce
    obtain tx b1 c1 where chk: "checkBalance M now (st_floor up) False (b, c) = (tx, b1, c1)" by (metis prod_cases3)
    show ?thesis using called check_step[OF chk]
      by (auto simp: account_dispatch_def Scanned run_check_def m chk endpoints_count_snoc intro!: nonce_ok_step)
  qed (use called in \<open>simp_all add: account_dispatch_def dispatch_def\<close>)
next
  case (ran evs x pre t post w E now new y)
  show ?case
  proof (cases "sending t")
    case None
    then show ?thesis using ran by (auto simp: run_section_def Let_def split: prod.splits)
  next
    case (Some q)
    obtain i raw where q: "q = (i, raw)" by (cases q)
    obtain b c where m: "d_money (a_daemon x) = (b, c)" by fastforce
    let ?g = "callbackGasOf (d_node (a_daemon x)) (hexID i)"
    obtain r tx c1 where call: "Fulfill pack E now i raw ?g c = (r, tx, c1)" by (metis prod_cases3)
    have y: "a_sends y = a_sends x @ [(Fulfilling i raw ?g, E, tx)]" "snd (d_money (a_daemon y)) = c1"
      using ran.hyps(4) by (auto simp: run_section_def Let_def Some q m call split: prod.splits)
    then show ?thesis using ran Fulfill_step(2)[OF call]
      by (auto simp: m endpoints_count_snoc intro!: nonce_ok_step)
  qed
next
  case (checked evs x k M now)
  obtain b c where m: "d_money (a_daemon x) = (b, c)" by fastforce
  obtain tx b1 c1 where chk: "checkBalance M now (st_floor up) True (b, c) = (tx, b1, c1)" by (metis prod_cases3)
  show ?case using checked check_step[OF chk]
    by (auto simp: run_check_def m chk endpoints_count_snoc intro!: nonce_ok_step)
qed simp

section \<open>An account in use\<close>

text \<open>With an endpoint that takes every fulfilment, a run of tasks can be followed on the account.\<close>

definition takes_all :: "(int \<Rightarrow> byte list \<Rightarrow> string + byte list) \<Rightarrow> endpoint \<Rightarrow> bool" where
  "takes_all pack E \<longleftrightarrow> (\<forall>i raw. \<exists>data. pack i raw = Inr data) \<and> (\<exists>base. header_base E = Inr (Some base)) \<and>
     (\<exists>p. pending_nonce E = Inr p) \<and> (\<forall>t. accepts E t = None) \<and> (\<forall>t. sign_tx E t = Inr [])"

lemma Fulfill_taken:
  assumes "takes_all pack E" and "has_key c"
  shows "\<exists>t c1. Fulfill pack E now i raw g c = (Inr [], Some t, c1) \<and> has_key c1"
proof -
  obtain data base p where E: "pack i raw = Inr data" "header_base E = Inr (Some base)" "pending_nonce E = Inr p"
    using assms(1) unfolding takes_all_def by metis
  have "\<exists>tip b c2. fees E now c = (Inr (tip, Some b), c2) \<and> has_key c2"
    using E(2) assms(2) by (auto simp: fees_def Let_def)
  then obtain tip b c2 where f: "fees E now c = (Inr (tip, Some b), c2)" "has_key c2" by blast
  have "\<exists>t c1. submit E dest data gas tip b c2 = (Inr [], Some t, c1) \<and> has_key c1" for dest gas
    using assms(1) E(3) f(2) by (auto simp: submit_def reserveNonce_def Let_def takes_all_def)
  then show ?thesis using assms(2) E(1) f(1) by (simp add: Fulfill_def send_def)
qed

definition all_taken :: "endpoint \<Rightarrow> ('g1, 'g2) account \<Rightarrow> bool" where
  "all_taken E x \<longleftrightarrow> has_key (snd (d_money (a_daemon x))) \<and>
     (\<forall>(why, E', tx) \<in> set (a_sends x). E' = E) \<and> length (a_sends x) = landed (a_sends x)"

lemma section_taken:
  assumes "takes_all pack E" and "all_taken E x" and "sent w = Inr []"
    and "task_step K cfg derive w t (d_node (a_daemon x)) = (new, n1)"
  obtains y where "run_section K cfg derive pack E now w t x = (new, y)" "all_taken E y"
    "d_node (a_daemon y) = n1" "d_tasks (a_daemon y) = d_tasks (a_daemon x)"
proof (cases "sending t")
  case None
  then show ?thesis using that[of "x\<lparr>a_daemon := (a_daemon x)\<lparr>d_node := n1\<rparr>\<rparr>"] assms
    by (simp add: run_section_def Let_def all_taken_def)
next
  case (Some q)
  obtain i raw where q: "q = (i, raw)" by (cases q)
  let ?g = "callbackGasOf (d_node (a_daemon x)) (hexID i)"
  obtain tx c1 where call: "Fulfill pack E now i raw ?g (snd (d_money (a_daemon x))) = (Inr [], Some tx, c1)" "has_key c1"
    using Fulfill_taken assms(1,2) by (metis all_taken_def)
  have "w\<lparr>sent := heard (Inr [])\<rparr> = w" using assms(3) by (simp add: heard_def)
  moreover have "was_accepted E (Some tx)" using assms(1) by (simp add: was_accepted_def takes_all_def)
  ultimately show ?thesis
    using assms(2,4) call
    by (intro that[of "\<lparr> a_daemon = (a_daemon x)\<lparr>d_node := n1, d_money := (fst (d_money (a_daemon x)), c1)\<rparr>,
          a_due = a_due x + 1, a_sends = a_sends x @ [(Fulfilling i raw ?g, E, Some tx)] \<rparr>"])
      (simp_all add: run_section_def Let_def Some q all_taken_def)
qed

lemma account_run_tasks:
  assumes "takes_all pack E"
  shows "account_run K derive pack up evs x \<Longrightarrow> all_taken E x \<Longrightarrow> \<forall>w \<in> set ws. answer_ok w \<and> sent w = Inr [] \<Longrightarrow>
   run_tasks K (st_config up) derive ws (d_tasks (a_daemon x)) (d_node (a_daemon x)) = (ts1, n1) \<Longrightarrow>
   \<exists>y. account_run K derive pack up evs y \<and> all_taken E y \<and> d_node (a_daemon y) = n1 \<and> d_tasks (a_daemon y) = ts1"
proof (induction ws arbitrary: x)
  case Nil
  then show ?case by auto
next
  case (Cons w ws)
  show ?case
  proof (cases "d_tasks (a_daemon x)")
    case Nil
    with Cons.prems show ?thesis by auto
  next
    case (Cons t us)
    obtain new n2 where step: "task_step K (st_config up) derive w t (d_node (a_daemon x)) = (new, n2)" by fastforce
    obtain y where y: "run_section K (st_config up) derive pack E 0 w t x = (new, y)" "all_taken E y"
      "d_node (a_daemon y) = n2"
      using section_taken[OF assms Cons.prems(2) _ step] Cons.prems(3) by auto
    let ?y = "y\<lparr>a_daemon := (a_daemon y)\<lparr>d_tasks := [] @ new @ us\<rparr>\<rparr>"
    have "account_run K derive pack up evs ?y"
      using ran[OF Cons.prems(1) _ _ y(1), of "[]" us] Cons Cons.prems(3) by simp
    moreover have "all_taken E ?y" using y(2) by (simp add: all_taken_def)
    ultimately show ?thesis using Cons.IH[of ?y] Cons.prems(3,4) Cons step y(3) by simp
  qed
qed

definition solo_pack :: "int \<Rightarrow> byte list \<Rightarrow> string + byte list" where
  "solo_pack i raw = Inr raw"

definition solo_endpoint :: endpoint where
  "solo_endpoint = \<lparr> header_base = Inr (Some 10), tip_cap = Inr 1, pending_nonce = Inr 7,
     accepts = (\<lambda>t. None), sign_tx = (\<lambda>t. Inr []) \<rparr>"

lemma solo_takes_all: "takes_all solo_pack solo_endpoint"
  by (simp add: takes_all_def solo_pack_def solo_endpoint_def)

text \<open>The small daemon has published its request and paid for it; the check that follows is due.\<close>

lemma solo_account:
  obtains disk and up :: "(gf11, gf11, gf11) started" and x raw t where
    "start_node small_kyber plain_keystore disk solo_world ''secret'' ''0xabc'' solo_flags = Inr up"
    "st_config up = node_config solo_flags solo_share"
    "account_run small_kyber demo_derive solo_pack up [SawRequest demo_request] x"
    "a_sends x = [(Fulfilling 31 raw 100000, solo_endpoint, Some t)]" "accepts solo_endpoint t = None" "a_due x = 1"
proof -
  let ?K = small_kyber and ?E = solo_endpoint and ?ws = "replicate 17 (quiet (Inr [])) :: gf11 answer list"
  obtain disk where "Load ?K plain_keystore disk ''op.json'' ''secret'' = Inr solo_share" using solo_disk by blast
  then obtain up :: "(gf11, gf11, gf11) started" where up:
    "start_node ?K plain_keystore disk solo_world ''secret'' ''0xabc'' solo_flags = Inr up"
    "st_config up = node_config solo_flags solo_share" "st_node up = SetPeers [] (new_node (Some solo_registry))"
    by (rule solo_starts)
  let ?x = "account_dispatch (st_floor up) undefined 0 (SawRequest demo_request) (initial_account up)"
  have r: "account_run ?K demo_derive solo_pack up [SawRequest demo_request] ?x"
    using called[OF opened, of ?K demo_derive solo_pack up "SawRequest demo_request"] by simp
  obtain "has_key (st_client up)" using up(1) by (rule started_client)
  then have x: "all_taken ?E ?x" "d_tasks (a_daemon ?x) = [Requesting demo_request Req_Start]"
    "d_node (a_daemon ?x) = SetPeers [] (new_node (Some solo_registry))"
    by (simp_all add: account_dispatch_def dispatch_def initial_account_def initial_daemon_def up all_taken_def)
  obtain raw n' where run: "run_tasks ?K (node_config solo_flags solo_share) demo_derive ?ws
       [Requesting demo_request Req_Start] (d_node (a_daemon ?x)) = ([], n')"
    "SentFulfill 31 raw 100000 \<in> set (trace n')" "deliveries (trace n') = 1" using solo_tasks[OF x(3)] by metis
  have ws: "\<forall>w \<in> set ?ws. answer_ok w \<and> sent w = Inr []" by (auto simp: quiet_def answer_ok_def iteration_order_def)
  obtain y where y: "account_run ?K demo_derive solo_pack up [SawRequest demo_request] y" "all_taken ?E y"
    "d_node (a_daemon y) = n'"
    using account_run_tasks[OF solo_takes_all r x(1) ws, unfolded up(2) x(2), OF run(1)] by blast
  have b: "for_requests (a_sends y) = calls_of (trace n')" "landed (a_sends y) = 1" "forced (a_sends y) + a_due y = 1"
    using account_books[OF up(1) y(1)] run(3) y(3) by (simp_all add: books_ok_def Let_def)
  then obtain why E tx where s: "a_sends y = [(why, E, tx)]"
    using y(2) by (auto simp: all_taken_def length_Suc_conv)
  have E: "E = ?E" using y(2) by (simp add: all_taken_def s)
  have "(31, raw, 100000) \<in> set (for_requests (a_sends y))" using b(1) run(2) by (simp add: calls_of_in)
  then have why: "why = Fulfilling 31 raw 100000" by (cases why) (simp_all add: s)
  obtain t where t: "tx = Some t" "accepts E t = None"
    using b(2) by (auto simp: s why was_accepted_def split: option.splits if_splits)
  have "a_due y = 1" using b(3) by (simp add: s why)
  with up(1,2) y(1) s t(2) show ?thesis unfolding E why t(1) by (rule that)
qed

section \<open>Properties\<close>

text \<open>
  C12.  The publishing account pays for nothing but the operator's work.  Take a daemon whose share belongs to a
  group dealt by a polynomial with as many coefficients as its threshold flag says.  Then over any run, whatever
  the chain and the peers do, every transaction that reached the endpoint is one of two.  It is a call of the
  coordinator that fulfils a request with the signature of the group on the seed derived for a consumer this request was
  announced with, under the gas limit that belongs to the callback budget of an announcement of it; or it is a claim sent by a check to an
  address the coordinator gave for its subscription contract, which names this operator, under the gas limit of a claim.
\<close>

theorem account_pays_only_for_service:
  assumes "start_node K L disk W pass key f = Inr up" and "kyber_laws K" and "poly \<noteq> []"
    and "Commits (Share (st_config up)) = commits_of K poly" and "nf_threshold f = int (length poly)"
    and "small_group K (nf_operators f)" and "account_run K derive pack up evs x"
    and "(why, E, Some t) \<in> set (a_sends x)"
  shows "(\<exists>req req' raw. why = Fulfilling (ID req) raw (CallbackGasLimit req) \<and> SawRequest req \<in> set evs \<and>
       SawRequest req' \<in> set evs \<and> ID req' = ID req \<and>
       SignatureBytes K (Sign K (peval poly 0) (derive (ID req) (Consumer req'))) = Inr raw \<and>
       tx_to t = nw_address W (nf_coordinator f) \<and> pack (ID req) raw = Inr (tx_data t) \<and>
       tx_gas t = FulfilGasLimit (CallbackGasLimit req)) \<or>
     (\<exists>just M publisher. why = Collecting just M \<and> nw_key W (trim_prefix ''0x'' key) = Inr publisher \<and>
       pack_withdraw M publisher = Inr (tx_data t) \<and> tx_gas t = ClaimGas \<and> told (a_sends x) (tx_to t))"
proof -
  obtain publisher where c: "nw_key W (trim_prefix ''0x'' key) = Inr publisher" "sender (st_client up) = publisher"
    "coordinator (st_client up) = nw_address W (nf_coordinator f)" "gasLimit (st_client up) = DefaultGasLimit"
    using assms(1) by (rule started_client)
  obtain d where d: "daemon_run K derive up evs d" "same_work (a_daemon x) d"
    using account_run_daemon[OF assms(7)] by blast
  obtain sh where "st_config up = node_config f sh" using assms(1) by (rule start_node_cases) auto
  then have "dealt K (st_config up) poly" using assms(2-6) by (auto simp: dealt_def node_config_def)
  from reachable_ok[OF this daemon_pinned[OF assms(1) d(1) order_refl]]
  have ev: "\<forall>e \<in> set (trace (d_node (a_daemon x))). event_ok K (st_config up) poly (pinned derive evs) e"
    using d(2) by (auto simp: all_ok_def node_ok_def same_work_def)
  have ok: "entry_ok pack (st_client up) (a_sends x) why (Some t)"
    using account_run_ok[OF assms(1,7)] assms(8) by (auto simp: account_ok_def Let_def)
  show ?thesis
  proof (cases why)
    case (Collecting just M)
    then show ?thesis using ok c by (auto simp: entry_ok_def)
  next
    case (Fulfilling i raw g)
    have "(i, raw, g) \<in> set (for_requests (a_sends x))"
      using assms(8) for_requests_in unfolding Fulfilling by blast
    then have s: "SentFulfill i raw g \<in> set (trace (d_node (a_daemon x)))"
      using account_books[OF assms(1,7)] by (simp add: books_ok_def Let_def calls_of_in)
    then have g: "announced evs i g"
      using budget_of_sent[OF daemon_budget[OF assms(1) d(1)]] d(2) by (fastforce simp: same_work_def)
    have "event_ok K (st_config up) poly (pinned derive evs) (SentFulfill i raw g)" using ev s by blast
    then obtain seed where "derived (pinned derive evs) i seed" "SignatureBytes K (Sign K (peval poly 0) seed) = Inr raw"
      by (auto simp: group_signature_def)
    then obtain req' where r': "SawRequest req' \<in> set evs" "ID req' = i"
      "SignatureBytes K (Sign K (peval poly 0) (derive i (Consumer req'))) = Inr raw"
      using derived_pinned[OF _ g] by blast
    obtain req where r: "SawRequest req \<in> set evs" "ID req = i" "CallbackGasLimit req = g"
      using g by (auto simp: announced_def)
    show ?thesis using ok c r r'
      by (intro disjI1 exI[of _ req] exI[of _ req'] exI[of _ raw]) (simp add: Fulfilling entry_ok_def)
  qed
qed

theorem account_pays_only_for_service_witness:
  "\<exists>disk up x t. start_node small_kyber plain_keystore disk solo_world ''secret'' ''0xabc'' solo_flags = Inr up \<and>
     account_run small_kyber demo_derive solo_pack up [SawRequest demo_request] x \<and>
     tx_to t = replicate 20 2 \<and> (\<exists>raw. a_sends x = [(Fulfilling 31 raw 100000, solo_endpoint, Some t)]) \<and>
     tx_gas t = FulfilGasLimit 100000"
proof -
  obtain disk up x raw t where run:
    "start_node small_kyber plain_keystore disk solo_world ''secret'' ''0xabc'' solo_flags = Inr up"
    "st_config up = node_config solo_flags solo_share"
    "account_run small_kyber demo_derive solo_pack up [SawRequest demo_request] x"
    "a_sends x = [(Fulfilling 31 raw 100000, solo_endpoint, Some t)]" by (rule solo_account)
  have f: "nf_threshold solo_flags = int (length [3 :: gf11])" "small_group small_kyber (nf_operators solo_flags)"
    "Commits (Share (st_config up)) = commits_of small_kyber [3]"
    by (simp_all add: solo_flags_def default_flags_def small_kyber_group solo_share_def cfg_solo_def run(2) node_config_def)
  have "(Fulfilling 31 raw 100000, solo_endpoint, Some t) \<in> set (a_sends x)" by (simp add: run(4))
  from account_pays_only_for_service[OF run(1) small_kyber_laws _ f(3,1,2) run(3) this]
  have "tx_to t = nw_address solo_world (nf_coordinator solo_flags)" "tx_gas t = FulfilGasLimit 100000" by auto
  moreover have "nw_address solo_world a = replicate 20 2" for a by (simp add: solo_world_def)
  ultimately show ?thesis using run(1,3,4) by metis
qed

text \<open>
  C16.  What an operator's counters say is what happened.  Take a daemon that has started, any rounds of the
  polling loop in which the endpoint answers with the logs of the blocks asked for, and any interleaving of
  the events so found with shares, goroutines, calls of the client and checks.  Then the requests counted, together with the
  goroutines that have not got as far as counting, are exactly the requests in the blocks from the
  first to the one before next; the publications counted are the fulfilments that the endpoint accepted; and no
  scanned block is ahead of the block reported as seen (counters wrap at \<open>2^64\<close>).
\<close>

theorem counters_follow_the_chain:
  assumes "start_node K L disk W pass key f = Inr up"
    and "\<forall>R \<in> set Rs. round_ok per_block (st_watch up) R"
    and "Watch I unpack (st_watch up) Rs (watch_start (st_watch up)) = Some (evs, s1)"
    and "account_run K derive pack up evs x"
  shows "\<exists>requests fulfilled m.
     split_logs I unpack
       (concat (map per_block [uint (From_block (st_watch up)) .. uint (next_block s1) - 1])) [] [] =
       Inr (requests, fulfilled) \<and>
     counters (d_node (a_daemon x)) = Some m \<and>
     requestsSeen m + word_of_nat (waiting (d_tasks (a_daemon x))) = word_of_nat (length requests) \<and>
     published_total m = word_of_nat (landed (a_sends x)) \<and>
     (\<forall>b. Scanned b \<in> set evs \<longrightarrow> b \<le> lastSeenBlock m)"
proof -
  obtain d where d: "daemon_run K derive up evs d" "same_work (a_daemon x) d"
    using account_run_daemon[OF assms(4)] by blast
  have "delivered I unpack per_block (From_block (st_watch up)) (next_block s1) evs"
    using Watch_delivers[OF assms(2), of I unpack "watch_start (st_watch up)"] assms(3)
    by (simp add: watch_start_def)
  moreover obtain m where "counters (d_node d) = Some m"
    using daemon_tally[OF assms(1) d(1)] by (auto simp: tally_ok_def)
  moreover have "landed (a_sends x) = deliveries (trace (d_node d))"
    using account_books[OF assms(1,4)] d(2) by (simp add: books_ok_def same_work_def Let_def)
  ultimately show ?thesis using daemon_tally[OF assms(1) d(1)] d(2)
    by (simp add: delivered_def tally_ok_def seen_def delivered_total_def seen_block_def same_work_def)
qed

theorem counters_follow_the_chain_witness:
  "\<exists>up r x m. account_run small_kyber (\<lambda>_ _. []) solo_pack (up :: (gf11, gf11, gf11) started) [SawRequest r, Scanned 12] x \<and>
     counters (d_node (a_daemon x)) = Some m \<and> d_tasks (a_daemon x) = [] \<and> requestsSeen m = 1 \<and> 12 \<le> lastSeenBlock m"
proof -
  let ?I = "\<lparr>requested_id = [1], fulfilled_id = [2]\<rparr> :: event_ids" and ?d = "\<lambda>(_ :: int) (_ :: byte list). [] :: byte list"
  let ?run = "account_run small_kyber ?d solo_pack" and ?ws = "[quiet (Inr []), quiet (Inr [])] :: gf11 answer list"
  obtain disk where "Load small_kyber plain_keystore disk ''op.json'' ''secret'' = Inr solo_share"
    using solo_disk by blast
  then obtain up :: "(gf11, gf11, gf11) started" where up:
    "start_node small_kyber plain_keystore disk solo_world ''secret'' ''0xabc'' solo_flags = Inr up"
    "st_watch up = node_watch solo_flags 9" by (rule solo_starts)
  obtain r where ne: "req_Seed r \<noteq> []"
    and w: "Watch ?I solo_unpack (st_watch up) [solo_round] (watch_start (st_watch up)) =
      Some ([SawRequest r, Scanned 12], \<lparr>next_block = 13, wait = seconds 1\<rparr>)"
    using solo_watch unfolding up(2) by blast
  have rounds: "\<forall>R \<in> set [solo_round]. round_ok solo_blocks (st_watch up) R"
    by (simp add: up(2) round_ok_def solo_round_def faithful_def node_watch_def solo_flags_def default_flags_def)
  define x0 where "x0 = account_dispatch (st_floor up) undefined 0 (SawRequest r) (initial_account up)"
  have "?run up ([] @ [SawRequest r]) x0" unfolding x0_def by (intro called opened)
  then have r0: "?run up [SawRequest r] x0" by simp
  obtain "has_key (st_client up)" using up(1) by (rule started_client)
  then have x0: "all_taken solo_endpoint x0" "d_tasks (a_daemon x0) = [Requesting r Req_Start]"
    by (simp_all add: x0_def account_dispatch_def dispatch_def initial_account_def initial_daemon_def all_taken_def)
  have ws: "\<forall>w \<in> set ?ws. answer_ok w \<and> sent w = Inr []" by (auto simp: quiet_def answer_ok_def iteration_order_def)
  have "?d (ID r) (Consumer r) \<noteq> req_Seed r" using ne by simp
  note run = ignored_announcement[of ?d, OF this, of small_kyber "st_config up" "d_node (a_daemon x0)", folded x0(2)]
  obtain x1 where x1: "?run up [SawRequest r] x1" "d_tasks (a_daemon x1) = []"
    using account_run_tasks[OF solo_takes_all r0 x0(1) ws run] by blast
  let ?x2 = "account_dispatch (st_floor up) undefined 0 (Scanned 12) x1"
  have r2: "?run up [SawRequest r, Scanned 12] ?x2" using called[OF x1(1), of "Scanned 12"] by simp
  have t2: "d_tasks (a_daemon ?x2) = []" unfolding account_dispatch_daemon by (simp add: dispatch_def x1(2))
  have blocks: "[9 .. 12 :: int] = [9, 10, 11, 12]" by (simp add: upto_rec1)
  from counters_follow_the_chain[OF up(1) rounds w r2] t2 r2
  show ?thesis
    by (auto simp: up(2) node_watch_def blocks solo_blocks_def solo_log_def decodeRequest_def solo_unpack_def)
qed

text \<open>
  C17.  What the operator reports is what its account did.  Over any run of the daemon the publications its metrics
  count are the fulfilments the endpoint accepted; every one of them has been followed by a check of the
  balance, or the goroutine that checks has yet to run; the calls for a request are at most one more than the retries; and the
  calls in the log are those of the trace, in their order.
\<close>

theorem metrics_report_the_account:
  assumes "start_node K L disk W pass key f = Inr up" and "account_run K derive pack up evs x"
  shows "\<exists>m. counters (d_node (a_daemon x)) = Some m \<and>
     published_total m = word_of_nat (landed (a_sends x)) \<and>
     forced (a_sends x) + a_due x = landed (a_sends x) \<and>
     for_requests (a_sends x) = calls_of (trace (d_node (a_daemon x))) \<and>
     length (filter (\<lambda>(j, raw, g). j = i) (for_requests (a_sends x))) \<le> Suc (nat (SendRetries (st_config up)))"
proof -
  obtain d where d: "daemon_run K derive up evs d" "same_work (a_daemon x) d"
    using account_run_daemon[OF assms(2)] by blast
  have b: "for_requests (a_sends x) = calls_of (trace (d_node (a_daemon x)))"
    "landed (a_sends x) = deliveries (trace (d_node (a_daemon x)))" "forced (a_sends x) + a_due x = landed (a_sends x)"
    using account_books[OF assms] by (simp_all add: books_ok_def Let_def)
  have "length (filter (\<lambda>(j, raw, g). j = i) (calls_of tr)) = fulfills i tr" for tr
    by (induction tr rule: calls_of.induct) auto
  moreover have "fulfills i (trace (d_node (a_daemon x))) \<le> Suc (retries (st_config up))"
    using reachable_publications[OF daemon_reachable[OF assms(1) d(1)], of i] d(2)
    by (simp add: publications_ok_def same_work_def)
  ultimately show ?thesis
    using daemon_tally[OF assms(1) d(1)] d(2) b
    by (auto simp: tally_ok_def delivered_total_def same_work_def retries_def)
qed

theorem metrics_report_the_account_witness:
  "\<exists>(x :: (gf11, gf11) account) m. counters (d_node (a_daemon x)) = Some m \<and> published_total m = 1 \<and> a_due x = 1"
proof -
  obtain disk up x raw t where run:
    "start_node small_kyber plain_keystore disk solo_world ''secret'' ''0xabc'' solo_flags = Inr up"
    "account_run small_kyber demo_derive solo_pack up [SawRequest demo_request] x"
    "a_sends x = [(Fulfilling 31 raw 100000, solo_endpoint, Some t)]" "accepts solo_endpoint t = None"
    "a_due x = 1" by (rule solo_account)
  have "landed (a_sends x) = 1" by (simp add: run(3,4) landed_def was_accepted_def)
  with metrics_report_the_account[OF run(1,2), of 0] obtain m where
    "counters (d_node (a_daemon x)) = Some m" "published_total m = 1" by auto
  then show ?thesis using run(5) by blast
qed

text \<open>
  C18.  No two transactions of an operator compete for a nonce.  Fulfilments sent by any number of goroutines, claims of
  checks on a poll and claims of checks after a publication all draw from the one counter: as long as the
  endpoint's count of pending transactions is above what it has accepted, the nonces of the accepted transactions
  increase strictly over the whole life of the daemon, whatever it refuses in between.
\<close>

theorem daemon_nonces_increase:
  assumes "start_node K L disk W pass key f = Inr up" and "account_run K derive pack up evs x"
    and "endpoints_count (length (a_sends x)) (a_sends x)"
  shows "sorted_wrt (<) (nonces (a_sends x))"
  using account_nonces[OF assms(1,2) order_refl assms(3)] by (simp add: nonce_ok_def)

theorem daemon_nonces_increase_witness:
  "\<exists>up x. account_run small_kyber demo_derive solo_pack (up :: (gf11, gf11, gf11) started) [SawRequest demo_request] x \<and>
     nonces (a_sends x) \<noteq> [] \<and> sorted_wrt (<) (nonces (a_sends x))"
proof -
  obtain disk up x raw t where run:
    "start_node small_kyber plain_keystore disk solo_world ''secret'' ''0xabc'' solo_flags = Inr up"
    "account_run small_kyber demo_derive solo_pack up [SawRequest demo_request] x"
    "a_sends x = [(Fulfilling 31 raw 100000, solo_endpoint, Some t)]" "accepts solo_endpoint t = None"
    by (rule solo_account)
  have "endpoints_count (length (a_sends x)) (a_sends x)"
    by (simp add: run(3) endpoints_count_def endpoint_counts_def solo_endpoint_def)
  from daemon_nonces_increase[OF run(1,2) this] run(2) show ?thesis
    by (intro exI[of _ up] exI[of _ x]) (simp add: run(3,4) nonces_def was_accepted_def)
qed

end
