(* ===== verification/Founding.thy ===== *)
theory Founding
  imports Tools_Dkg Fleet_Live Daemon_Money
begin

text \<open>
  From the ceremony to the chain.  The command \<open>vrfdkg\<close> deals the shares and writes one keystore per
  operator, every operator starts \<open>vrfnode\<close> on its own file, and the daemons together answer
  requests (\<open>node/cmd/vrfdkg/main.go\<close>, \<open>node/cmd/vrfnode/main.go\<close>, \<open>node/internal/dkg/dkg.go\<close>,
  \<open>node/internal/keystore/keystore.go\<close>, \<open>node/internal/node/node.go\<close>).  Here the lemmas about the parts are
  put together, for a group that has been founded and for one that has been rotated.
\<close>

section \<open>The shares of a group\<close>

lemma group_share_operator:
  assumes "kyber_laws K" and "small_group K (Operators cfg)" and "a \<noteq> []" and "group_shares K a shares"
    and "Share cfg \<in> set shares" and "Threshold cfg = int (length a)" and "uint (share_Index (Share cfg)) < Operators cfg"
  shows "operator_of K cfg a"
  using assms by (auto simp: operator_of_def dealt_def group_shares_def dealt_by_def)

text \<open>What is sent to the chain, read back and checked under the key of the group.\<close>

lemma group_signature_checks:
  assumes "kyber_laws K" and "SignatureBytes K (Sign K (peval a 0) seed) = Inr raw"
  shows "\<exists>sig. PointFromSignature K raw = Inr sig \<and> Verify K (PublicKey K (peval a 0)) seed sig"
proof -
  have "PointFromSignature K raw = Inr (Sign K (peval a 0) seed)"
    using SignatureBytes_ok[of K] assms unfolding kyber_laws_def by (metis sum.inject(2))
  then show ?thesis using assms(1) by (simp add: Verify_Sign kyber_laws_def)
qed

section \<open>Daemons on the files of a ceremony\<close>

text \<open>
  \<open>started_from\<close>: the daemon \<open>up\<close> came up on the file of operator \<open>k\<close>, with the group's size and
  threshold in its flags; the rest of its flags, its endpoint and its publishing key are its own.
\<close>

definition started_from ::
  "('s, 'g1, 'g2, 'gt) kyber \<Rightarrow> keystore_library \<Rightarrow> (string \<Rightarrow> byte list option) \<Rightarrow> string \<Rightarrow> string \<Rightarrow>
   nat \<Rightarrow> nat \<Rightarrow> nat \<Rightarrow> ('s, 'g1, 'g2) started \<Rightarrow> bool" where
  "started_from K L disk dir pass n t k up \<longleftrightarrow> (\<exists>W key f. start_node K L disk W pass key f = Inr up \<and>
     nf_keystore f = keystore_path dir (word_of_nat k) \<and> nf_threshold f = int t \<and> nf_operators f = int n)"

lemma started_from_share:
  assumes "started_from K L disk dir pass n t k up" and "Load K L disk (keystore_path dir (word_of_nat k)) pass = Inr s"
  shows "Share (st_config up) = s \<and> Threshold (st_config up) = int t \<and> Operators (st_config up) = int n"
proof -
  obtain W key f where up: "start_node K L disk W pass key f = Inr up"
    and f: "nf_keystore f = keystore_path dir (word_of_nat k)" "nf_threshold f = int t" "nf_operators f = int n"
    using assms(1) by (auto simp: started_from_def)
  obtain sh where "Load K L disk (nf_keystore f) pass = Inr sh" "st_config up = node_config f sh"
    using up by (rule start_node_cases) auto
  then show ?thesis using assms(2) f by (simp add: node_config_def)
qed

lemma ceremony_founds_group:
  assumes "keystore_laws L" and "scalar_codec K" and "g2_codec K" and "kyber_laws K" and "small_group K (int n)"
    and "tool_passphrase given env = Inr pass"
    and "\<forall>k. \<exists>salt nonce. rnd k = (Inr salt, Inr nonce) \<and> length nonce = gcm_nonce_size" and "\<forall>k j. os k j = Fine"
    and "n \<le> 2 ^ 32" and run: "RunLocal K keccak D random n (int t) epoch = Inr shares"
    and "length a = t" and "group_shares K a shares"
    and "dkg_main K keccak D random L rnd os Fine n (int t) epoch dir given env disk = (r, disk')"
    and "length ups = n" and "\<forall>k < n. started_from K L disk' dir pass n t k (ups ! k)"
  shows "one_group K (map st_config ups) a" "\<forall>k < n. Threshold (st_config (ups ! k)) = int t"
    "\<exists>pk. r = Inr pk \<and> SerializeG2 K (PublicKey K (peval a 0)) = Inr pk"
proof -
  have t: "0 < t" "t \<le> n" using run by (auto simp: RunLocal_def split: if_splits)
  have sh: "length shares = n" "\<forall>p < n. share_Index (shares ! p) = word_of_nat p"
    using run_local_indices[OF run] by auto
  obtain pk where m: "r = Inr pk" "SerializeG2 K (GroupPublic (hd shares)) = Inr pk"
    "\<forall>s \<in> set shares. Load K L disk' (keystore_path dir (share_Index s)) pass = Inr s"
    using dkg_main_loads[OF assms(1-3,6-9) run, of dir disk] assms(13) by auto
  have op: "operator_of K (st_config (ups ! k)) a \<and> Operators (st_config (ups ! k)) = int n \<and>
      Threshold (st_config (ups ! k)) = int t" if "k < n" for k
  proof -
    have s: "shares ! k \<in> set shares" "share_Index (shares ! k) = word_of_nat k" using sh that by auto
    then have "Load K L disk' (keystore_path dir (word_of_nat k)) pass = Inr (shares ! k)" using m(3) by metis
    with started_from_share have c: "Share (st_config (ups ! k)) = shares ! k"
      "Threshold (st_config (ups ! k)) = int t" "Operators (st_config (ups ! k)) = int n"
      using assms(15) that by blast+
    have "uint (word_of_nat k :: u32) = int k" using that assms(9) by (simp add: unsigned_of_nat take_bit_nat_eq_self)
    then show ?thesis using c s that t assms(4,5,11,12) by (auto intro!: group_share_operator)
  qed
  then show "one_group K (map st_config ups) a" "\<forall>k < n. Threshold (st_config (ups ! k)) = int t"
    using assms(14) t by (auto simp: one_group_def)
  have "hd shares \<in> set shares" using sh(1) t by (cases shares) auto
  then show "\<exists>pk. r = Inr pk \<and> SerializeG2 K (PublicKey K (peval a 0)) = Inr pk"
    using m(1,2) assms(12) by (simp add: group_shares_def)
qed

section \<open>Groups of one\<close>

text \<open>For the witnesses: an operator that needs nobody else answers the request and is done.\<close>

lemma single_live:
  assumes "operator_of small_kyber cfg poly" and "Threshold cfg = 1"
  shows "\<exists>D n1. live_fleet small_kyber [cfg] demo_derive (\<lambda>_. replicate 20 6) 31 [D] [(n1, [])] \<and> share_Index (Share cfg) \<in> D"
proof -
  let ?live = "live_fleet small_kyber [cfg] demo_derive (\<lambda>_. replicate 20 6) 31"
  let ?w = "quiet (Inr []) :: gf11 answer" and ?t = "Requesting demo_request Req_Start :: gf11 task"
  let ?n = "new_node None :: (gf11, gf11) node"
  have "uint (share_Index (Share cfg)) < Operators cfg" using assms(1) by (simp add: operator_of_def)
  then have "0 < Operators cfg" using uint_ge_0[of "share_Index (Share cfg)"] by linarith
  then have pk: "parked_ok cfg ?n" by (simp add: parked_ok_new)
  let ?ws = "replicate (total_weight cfg [?t]) ?w"
  obtain n1 where n1: "run_tasks small_kyber cfg demo_derive ?ws [?t] ?n = ([], n1)"
    using run_tasks_ends[OF pk, of "[?t]" ?ws small_kyber demo_derive] by (metis length_replicate order_refl prod.collapse)
  have "?live [{}] [(?n, [])]" using live_fleet.start[of "[None]" "[cfg]"] by simp
  from live_fleet.announce[OF this, of 0 _ _ demo_request]
  have "?live [{share_Index (Share cfg)}] [(?n, [?t])]" by (simp add: demo_request_def)
  from live_run_tasks[OF this, of 0 ?n "[?t]" ?ws "[]" n1] n1
  show ?thesis by (fastforce simp: calm_quiet)
qed

lemma single_publishes:
  assumes "operator_of small_kyber cfg poly" and "Threshold cfg = 1"
  shows "\<exists>n1 raw gas. fleet_reachable small_kyber [cfg] demo_derive (\<lambda>_. replicate 20 6) [(n1, [])] \<and>
     SentFulfill 31 raw gas \<in> set (trace n1)"
proof -
  obtain D n1 where live: "live_fleet small_kyber [cfg] demo_derive (\<lambda>_. replicate 20 6) 31 [D] [(n1, [])]"
    and "share_Index (Share cfg) \<in> D" using single_live[OF assms] by blast
  then have "0 < card D" by (metis card_gt_0_iff empty_iff finite)
  have "one_group small_kyber [cfg] poly" using assms(1) by (simp add: one_group_def)
  moreover have "length (demo_derive 31 (replicate 20 6)) = 32" using demo_seed_length by (simp add: demo_request_def)
  ultimately have "settled_by 31 [(n1, [])]"
    using assms(2) \<open>0 < card D\<close> by (intro quorum_settles[OF _ live, of poly 0]) simp_all
  then show ?thesis using live_fleet_reachable[OF live] by (auto simp: settled_by_def)
qed

section \<open>Properties\<close>

text \<open>
  C4.  A group founded by \<open>vrfdkg\<close> answers on the chain under the key it printed.  For a ceremony library that keeps
  its laws (\<open>dkg_laws\<close>) and operators that draw different keys: when the command has run on a file system that does what
  it is asked to and ends with four coordinates, they are those of a key.  Start a daemon on each of the files it
  wrote, with the same threshold and size in the flags and anything else as each operator likes, and let
  the daemons exchange what they post.  Once at an operator whose goroutines have ended the shares of as
  many operators as the threshold count (its own with the announcement, those that arrive while its session is open and those
  that were parked when \<open>OnRequest\<close> took them), one of the operators has sent the request to the chain, with a signature
  that verifies under the key of these coordinates.
\<close>

theorem ceremony_to_chain:
  assumes "keystore_laws L" and "scalar_codec K" and "g2_codec K" and "kyber_laws K" and "small_group K (int n)"
    and "n \<le> 2 ^ 32" and "tool_passphrase given env = Inr pass"
    and "\<forall>k. \<exists>salt nonce. rnd k = (Inr salt, Inr nonce) \<and> length nonce = gcm_nonce_size" and "\<forall>k j. os k j = Fine"
    and "dkg_laws D K" and "distinct_keys K random n"
    and "dkg_main K keccak D random L rnd os Fine n (int t) epoch dir given env disk = (Inr pk, disk')"
    and "length ups = n" and "\<forall>k < n. started_from K L disk' dir pass n t k (ups ! k)"
    and "live_fleet K (map st_config ups) derive consumer i Ds xs" and "length (derive i (consumer i)) = 32"
    and "k < n" and "snd (xs ! k) = []" and "int t \<le> int (card (Ds ! k))"
  shows "\<exists>key. SerializeG2 K key = Inr pk \<and>
     (\<exists>j < n. \<exists>raw gas sig. SentFulfill i raw gas \<in> set (trace (fst (xs ! j))) \<and>
        PointFromSignature K raw = Inr sig \<and> Verify K key (derive i (consumer i)) sig)"
proof -
  obtain shares where run: "RunLocal K keccak D random n (int t) epoch = Inr shares"
    using assms(12) by (auto simp: dkg_main_def split: sum.splits)
  obtain a where a: "length a = t" "group_shares K a shares"
    using RunLocal_group_shares[OF assms(10,11,6) run] by auto
  note group = ceremony_founds_group[OF assms(1-5,7-9,6) run a assms(12,13,14)]
  have k: "k < length (map st_config ups)" using assms(13,17) by simp
  have "settled_by i xs"
    using quorum_settles[OF group(1) assms(15,16) k assms(18)] group(2) assms(13,17,19) by simp
  moreover note runs = fleet_runs[of K "map st_config ups" derive consumer xs]
  moreover have reach: "fleet_reachable K (map st_config ups) derive consumer xs"
    using live_fleet_reachable[OF assms(15)] by simp
  ultimately obtain j raw gas where j: "j < n" "SentFulfill i raw gas \<in> set (trace (fst (xs ! j)))"
    using assms(13) by (metis in_set_conv_nth length_map settled_by_def)
  have "dealt K (map st_config ups ! j) a" using group(1) j(1) assms(13) by (simp add: one_group_def operator_of_def)
  from operator_fulfills[OF this _ j(2)] have "SignatureBytes K (Sign K (peval a 0) (derive i (consumer i))) = Inr raw"
    using runs[OF reach] j(1) assms(13) by simp
  from group_signature_checks[OF assms(4) this] group(3) j show ?thesis by blast
qed

abbreviation solo_random :: "nat \<Rightarrow> (string + byte list) \<times> (string + byte list)" where
  "solo_random \<equiv> \<lambda>k. (Inr [1], Inr (replicate 12 0))"

lemma solo_random_ok: "\<forall>k. \<exists>salt nonce. solo_random k = (Inr salt, Inr nonce) \<and> length nonce = gcm_nonce_size"
  by (simp add: gcm_nonce_size_def)

lemma solo_passphrase: "tool_passphrase ''secret'' '''' = Inr ''secret''"
  by (simp add: tool_passphrase_def)

text \<open>The ceremony of one, and the daemon on its file.\<close>

lemma solo_founded:
  obtains shares pk disk' and up :: "(gf11, gf11, gf11) started" where
    "RunLocal small_kyber id small_dealer (\<lambda>k. 3) 1 (int 1) 1 = Inr shares"
    "dkg_main small_kyber id small_dealer (\<lambda>k. 3) plain_keystore solo_random (\<lambda>k j. Fine) Fine 1 (int 1) 1
       ''keys'' ''secret'' '''' (\<lambda>p. None) = (Inr pk, disk')"
    "started_from small_kyber plain_keystore disk' ''keys'' ''secret'' 1 1 0 up"
    "share_Index (Share (st_config up)) = 0"
proof -
  let ?K = small_kyber and ?L = plain_keystore and ?f = "solo_flags\<lparr>nf_keystore := keystore_path ''keys'' 0\<rparr>"
  let ?run = "RunLocal ?K id small_dealer (\<lambda>k. 3) 1 (int 1) 1"
  have "\<exists>nonce. SessionNonce ?K id 1 [NewMember ?K 3 0] = Inr nonce"
    using session_preimage_eq[OF small_codecs(1), of "[NewMember ?K 3 0]" 1] by (simp add: SessionNonce_def NewMember_def)
  then obtain shares where run: "?run = Inr shares"
    by (auto simp: RunLocal_def collect_def small_dealer_def seat_def own_public_def toNodes_def NewMember_def
        alwaysTrue_def Let_def)
  obtain pk disk' where tool: "dkg_main ?K id small_dealer (\<lambda>k. 3) ?L solo_random (\<lambda>k j. Fine) Fine 1 (int 1) 1
       ''keys'' ''secret'' '''' (\<lambda>p. None) = (Inr pk, disk')"
    and load: "\<forall>s \<in> set shares. Load ?K ?L disk' (keystore_path ''keys'' (share_Index s)) ''secret'' = Inr s"
    using dkg_main_loads[OF plain_keystore_laws small_codecs(2,1) solo_passphrase solo_random_ok _ _ run,
        of "\<lambda>k j. Fine" "''keys''" "\<lambda>p. None"] by auto
  obtain s where s: "s \<in> set shares" "share_Index s = 0"
    using run_local_indices[OF run] by (cases shares) auto
  then have l: "Load ?K ?L disk' (keystore_path ''keys'' 0) ''secret'' = Inr s" using load by metis
  have "big_decimal ''1000000000000000'' = Some 1000000000000000" by (simp add: big_decimal_def decvalue_def)
  moreover have "keystore_path ''keys'' 0 \<noteq> ''''" by (simp add: keystore_path_def)
  ultimately obtain up :: "(gf11, gf11, gf11) started" where
    "start_node ?K ?L disk' solo_world ''secret'' ''0xabc'' ?f = Inr up"
    using l by (simp add: start_node_def solo_flags_def default_flags_def solo_world_def trim_prefix_def start_block_def Dial_def)
  then have up: "started_from ?K ?L disk' ''keys'' ''secret'' 1 1 0 up"
    by (auto simp: started_from_def solo_flags_def intro!: exI)
  have "share_Index (Share (st_config up)) = 0" using started_from_share[OF up] l s(2) by simp
  with run tool up show ?thesis by (rule that)
qed

theorem ceremony_to_chain_witness:
  "\<exists>pk disk' up Ds xs key. dkg_main small_kyber id small_dealer (\<lambda>k. 3) plain_keystore solo_random (\<lambda>k j. Fine) Fine 1 (int 1) 1
       ''keys'' ''secret'' '''' (\<lambda>p. None) = (Inr pk, disk') \<and>
     started_from small_kyber plain_keystore disk' ''keys'' ''secret'' 1 1 0 up \<and>
     live_fleet small_kyber (map st_config [up]) demo_derive (\<lambda>_. replicate 20 6) 31 Ds xs \<and> 0 \<in> Ds ! 0 \<and>
     SerializeG2 small_kyber key = Inr pk \<and> (\<exists>raw gas sig. SentFulfill 31 raw gas \<in> set (trace (fst (xs ! 0))) \<and>
       Verify small_kyber key (demo_derive 31 (replicate 20 6)) sig)"
proof -
  let ?K = small_kyber and ?live = "\<lambda>up. live_fleet small_kyber (map st_config [up]) demo_derive (\<lambda>_. replicate 20 6) 31"
  obtain shares pk disk' and up :: "(gf11, gf11, gf11) started" where
    run: "RunLocal ?K id small_dealer (\<lambda>k. 3) 1 (int 1) 1 = Inr shares"
    and tool: "dkg_main ?K id small_dealer (\<lambda>k. 3) plain_keystore solo_random (\<lambda>k j. Fine) Fine 1 (int 1) 1
       ''keys'' ''secret'' '''' (\<lambda>p. None) = (Inr pk, disk')"
    and up: "started_from ?K plain_keystore disk' ''keys'' ''secret'' 1 1 0 up" "share_Index (Share (st_config up)) = 0"
    by (rule solo_founded)
  have files: "\<forall>k < 1. started_from ?K plain_keystore disk' ''keys'' ''secret'' 1 1 k ([up] ! k)" using up(1) by simp
  have g: "small_group ?K (int 1)" by (rule small_kyber_group) simp
  have one: "length [up] = 1" by simp
  have keys: "distinct_keys ?K (\<lambda>k. 3) 1" by (simp add: distinct_keys_def inj_on_def)
  obtain a where a: "length a = 1" "group_shares ?K a shares"
    using RunLocal_group_shares[OF small_dealer_laws keys _ run] by auto
  note laws = plain_keystore_laws small_codecs(2,1) small_kyber_laws g
  note group = ceremony_founds_group[OF laws solo_passphrase solo_random_ok _ _ run a tool one files]
  have op: "operator_of ?K (st_config up) a" "Threshold (st_config up) = 1"
    using group(1,2) by (simp_all add: one_group_def)
  obtain D n1 where live: "?live up [D] [(n1, [])]" "0 \<in> D" using single_live[OF op] up(2) by auto
  then have quorum: "int 1 \<le> int (card ([D] ! 0))" by (simp add: Suc_le_eq card_gt_0_iff) blast
  have "length (demo_derive 31 (replicate 20 6)) = 32" using demo_seed_length by (simp add: demo_request_def)
  from ceremony_to_chain[OF laws _ solo_passphrase solo_random_ok _ small_dealer_laws keys tool one files live(1) this, of 0] quorum
  obtain key raw gas sig where "SerializeG2 ?K key = Inr pk" "SentFulfill 31 raw gas \<in> set (trace n1)"
    "Verify ?K key (demo_derive 31 (replicate 20 6)) sig" by auto
  then show ?thesis using tool up(1) live
    by (intro exI[of _ pk] exI[of _ disk'] exI[of _ up] exI[of _ "[D]"] exI[of _ "[(n1, [])]"] exI[of _ key] conjI)
      (simp_all, blast)
qed

text \<open>
  C13.  A rotation is invisible to the chain.  Let \<open>ResharLocal\<close> hand the key of a group, as many of its operators as the threshold
  or more, to members with an index and a key each, with a ceremony library that keeps its laws (\<open>dkg_laws\<close>):
  whatever operators of the old group and operators of the new one, in fleets of their own and with thresholds of their
  own, send to the chain for the same request is the same signature, and it verifies under the group key
  that every share of either group records.
\<close>

theorem rotation_is_invisible:
  assumes "kyber_laws K" and "dkg_laws D K" and "rotation_members K old members" and "group_shares K a old"
    and "a \<noteq> []" and "length a \<le> length old" and "ResharLocal K keccak D old members t epoch = Inr new"
    and "fleet_reachable K cfgs derive consumer xs" and "fleet_reachable K cfgs' derive consumer ys"
    and "j < length cfgs" and "l < length cfgs'"
    and "Share (cfgs ! j) \<in> set old" and "Threshold (cfgs ! j) = int (length a)" and "small_group K (Operators (cfgs ! j))"
    and "Share (cfgs' ! l) \<in> set new" and "Threshold (cfgs' ! l) = t" and "small_group K (Operators (cfgs' ! l))"
    and "SentFulfill i raw gas \<in> set (trace (fst (xs ! j)))" and "SentFulfill i raw' gas' \<in> set (trace (fst (ys ! l)))"
  shows "raw = raw' \<and> (\<forall>s \<in> set old \<union> set new. \<exists>sig. PointFromSignature K raw = Inr sig \<and>
     Verify K (GroupPublic s) (derive i (consumer i)) sig)"
proof -
  obtain b where b: "int (length b) = t" "peval b 0 = peval a 0" "group_shares K b new"
    using ResharLocal_group_shares[OF assms(2-7)] by blast
  have "0 < t" using assms(7) by (auto simp: ResharLocal_def split: if_splits)
  then have d: "dealt K (cfgs ! j) a" "dealt K (cfgs' ! l) b"
    using assms b(1,3) by (auto simp: dealt_def group_shares_def)
  have raw: "SignatureBytes K (Sign K (peval a 0) (derive i (consumer i))) = Inr raw"
    using operator_fulfills[OF d(1) _ assms(18)] fleet_runs[OF assms(8)] assms(10) by blast
  have "SignatureBytes K (Sign K (peval b 0) (derive i (consumer i))) = Inr raw'"
    using operator_fulfills[OF d(2) _ assms(19)] fleet_runs[OF assms(9)] assms(11) by blast
  then have "raw = raw'" using raw b(2) by simp
  moreover have "GroupPublic s = PublicKey K (peval a 0)" if "s \<in> set old \<union> set new" for s
    using that assms(4) b(2,3) by (auto simp: group_shares_def)
  ultimately show ?thesis using group_signature_checks[OF assms(1) raw] by auto
qed

text \<open>A group of one hands its key over to another operator.\<close>

definition leaving_share :: "(gf11, gf11) share" where
  "leaving_share = \<lparr>Member = \<lparr>member_Index = 0, Longterm = Some 3, Public = Some 3\<rparr>, Secret = 3,
     GroupPublic = PublicKey small_kyber 3, Commits = commits_of small_kyber [3]\<rparr>"

definition arriving_share :: "(gf11, gf11) share" where
  "arriving_share = leaving_share\<lparr>Member := \<lparr>member_Index = 1, Longterm = Some 5, Public = Some 5\<rparr>\<rparr>"

lemma hand_over:
  "ResharLocal small_kyber id small_dealer [leaving_share] [Member arriving_share] 1 1 = Inr [arriving_share]"
proof -
  let ?ms = "[Member leaving_share, Member arriving_share]"
  obtain nonce where n: "SessionNonce small_kyber id 1 ?ms = Inr nonce"
    using session_preimage_eq[OF small_codecs(1), of ?ms 1]
    by (auto simp: SessionNonce_def leaving_share_def arriving_share_def)
  have u: "union_members [leaving_share] [Member arriving_share] = ?ms"
    by (simp add: union_members_def Members_def leaving_share_def arriving_share_def)
  show ?thesis
    by (simp add: ResharLocal_def u n collect_def small_dealer_def Let_def)
      (simp add: leaving_share_def arriving_share_def share_Index_def reshare_config_def seat_def own_public_def toNodes_def
        dealt_polynomial_def share_at_def small_kyber_sel commits_of_def PublicKey_def)
qed

lemma rotation_of_one: "rotation_members small_kyber [leaving_share] [Member arriving_share]"
proof -
  have "(3 :: gf11) \<noteq> 5" by simp
  then show ?thesis
    by (auto simp: rotation_members_def Members_def has_keys_def one_seat_each_def leaving_share_def arriving_share_def
        small_kyber_sel)
qed

theorem rotation_is_invisible_witness:
  "\<exists>n1 n2 raw gas gas'. SentFulfill 31 raw gas \<in> set (trace n1) \<and> SentFulfill 31 raw gas' \<in> set (trace n2) \<and>
     fleet_reachable small_kyber [cfg_solo\<lparr>Share := leaving_share\<rparr>] demo_derive (\<lambda>_. replicate 20 6)
       [(n1 :: (gf11, gf11) node, [])] \<and>
     fleet_reachable small_kyber [cfg_solo\<lparr>Share := arriving_share, Operators := 2\<rparr>] demo_derive (\<lambda>_. replicate 20 6)
       [(n2 :: (gf11, gf11) node, [])]"
proof -
  let ?K = small_kyber and ?old = "[leaving_share]" and ?new = "[arriving_share]"
  let ?c = "cfg_solo\<lparr>Share := leaving_share\<rparr>" and ?c' = "cfg_solo\<lparr>Share := arriving_share, Operators := 2\<rparr>"
  have g: "group_shares ?K [3] ?old" "group_shares ?K [3] ?new"
    by (simp_all add: group_shares_def dealt_by_def leaving_share_def arriving_share_def share_at_def)
  have t: "Threshold ?c = 1" "Threshold ?c' = 1" "Operators ?c = 1" "Operators ?c' = 2" by (simp_all add: cfg_solo_def)
  have i: "share_Index leaving_share = 0" "share_Index arriving_share = 1"
    by (simp_all add: leaving_share_def arriving_share_def share_Index_def)
  have sg: "small_group ?K 1" "small_group ?K 2" by (rule small_kyber_group, simp)+
  have op: "operator_of ?K ?c [3]" "operator_of ?K ?c' [3]"
    using group_share_operator[OF small_kyber_laws _ _ g(1), of ?c] group_share_operator[OF small_kyber_laws _ _ g(2), of ?c']
      t sg i by simp_all
  obtain n1 raw gas where 1: "fleet_reachable ?K [?c] demo_derive (\<lambda>_. replicate 20 6) [(n1, [])]"
    "SentFulfill 31 raw gas \<in> set (trace n1)" using single_publishes[OF op(1) t(1)] by blast
  obtain n2 raw' gas' where 2: "fleet_reachable ?K [?c'] demo_derive (\<lambda>_. replicate 20 6) [(n2, [])]"
    "SentFulfill 31 raw' gas' \<in> set (trace n2)" using single_publishes[OF op(2) t(2)] by blast
  have "raw = raw'"
    using rotation_is_invisible[OF small_kyber_laws small_dealer_laws rotation_of_one g(1) _ _ hand_over 1(1) 2(1),
        of 0 0 31 raw gas raw' gas'] 1(2) 2(2) t sg by simp
  with 1 2 show ?thesis by blast
qed

end
