(* ===== verification/Chain_Rpc.thy ===== *)
theory Chain_Rpc
  imports Chain_Watch Balance
begin

text \<open>
  The client's plain calls (\<open>node/internal/chain/chain.go\<close>, \<open>balance.go\<close>): what it asks the
  contract and the endpoint, its settings, the wait for a receipt; and the websocket that hurries the
  poll loop (\<open>WebsocketNudges\<close> of \<open>subscribe.go\<close>).

  The RPC endpoint and the ABI library are arguments.  An address is its 20 bytes.
\<close>

section \<open>Asking the contract\<close>

type_synonym contract_call = "byte list \<Rightarrow> byte list \<Rightarrow> string + byte list"

definition callTo :: "contract_call \<Rightarrow> byte list \<Rightarrow> byte list \<Rightarrow> string + byte list" where
  "callTo rpc to data = rpc to data"

definition call :: "contract_call \<Rightarrow> client \<Rightarrow> byte list \<Rightarrow> string + byte list" where
  "call rpc c data = callTo rpc (coordinator c) data"

text \<open>One method of the contract: packing its argument and unpacking its results.\<close>

record 'v abi_method =
  pack :: "int \<Rightarrow> string + byte list"
  unpack :: "byte list \<Rightarrow> string + 'v"

definition ask :: "contract_call \<Rightarrow> 'v abi_method \<Rightarrow> client \<Rightarrow> int \<Rightarrow> client_error + 'v" where
  "ask rpc method c requestID =
     (case pack method requestID of
        Inl e \<Rightarrow> Inl (PackFailed e)
      | Inr data \<Rightarrow>
          (case call rpc c data of
             Inl e \<Rightarrow> Inl (RPC e)
           | Inr res \<Rightarrow> (case unpack method res of Inl e \<Rightarrow> Inl (Undecoded e) | Inr v \<Rightarrow> Inr v)))"

definition SeedOf :: "contract_call \<Rightarrow> byte list abi_method \<Rightarrow> client \<Rightarrow> int \<Rightarrow> client_error + byte list" where
  "SeedOf rpc seedOf c requestID = ask rpc seedOf c requestID"

definition IsOpen_asked ::
  "contract_call \<Rightarrow> (byte list \<times> bool \<times> bool) abi_method \<Rightarrow> client \<Rightarrow> int \<Rightarrow> client_error + bool" where
  "IsOpen_asked rpc requests c requestID =
     (case ask rpc requests c requestID of Inl e \<Rightarrow> Inl e | Inr v \<Rightarrow> Inr (IsOpen_of v))"

section \<open>Reading the endpoint\<close>

definition ChainID :: "client \<Rightarrow> int" where "ChainID c = chainID c"
definition Address :: "client \<Rightarrow> byte list" where "Address c = sender c"

definition BlockNumber :: "string + u64 \<Rightarrow> string + u64" where
  "BlockNumber answer = answer"

text \<open>\<open>balance_at\<close> answers for any account; the client asks for its own.\<close>

definition Balance :: "(byte list \<Rightarrow> string + int) \<Rightarrow> client \<Rightarrow> string + int" where
  "Balance balance_at c = balance_at (sender c)"

text \<open>How the client scans for logs: the two settings and the scan that uses them.\<close>

record scan_settings =
  maxLogRange :: u64
  logChunkPause :: duration

definition SetMaxLogRange :: "u64 \<Rightarrow> scan_settings \<Rightarrow> scan_settings" where
  "SetMaxLogRange width s = s\<lparr>maxLogRange := width\<rparr>"

definition SetLogChunkPause :: "duration \<Rightarrow> scan_settings \<Rightarrow> scan_settings" where
  "SetLogChunkPause d s = s\<lparr>logChunkPause := d\<rparr>"

definition RequestsBetween ::
  "event_ids \<Rightarrow> (byte list \<Rightarrow> string + requested_body) \<Rightarrow>
   (u64 \<Rightarrow> u64 \<Rightarrow> string + chain_log list) \<Rightarrow> (nat \<Rightarrow> bool) \<Rightarrow> scan_settings \<Rightarrow> u64 \<Rightarrow> u64 \<Rightarrow>
   (chain_error + request list) option" where
  "RequestsBetween I unp filter_logs done s a b =
     map_option (\<lambda>r. case r of Inl e \<Rightarrow> Inl e | Inr (requests, _) \<Rightarrow> Inr requests)
       (eventsBetween I unp filter_logs done (logChunkPause s) (maxLogRange s) a b)"

section \<open>Waiting for a receipt\<close>

text \<open>
  One look per tick: a receipt, not there yet, or an error; and whether the context ends before the
  next tick.  \<open>None\<close>: still waiting when the answers run out.
\<close>

datatype 'r receipt_answer = Mined 'r | Not_There | Receipt_Failed string

datatype wait_error = WaitRPC string | WaitDone

fun WaitMined :: "('r receipt_answer \<times> bool) list \<Rightarrow> (wait_error + 'r) option" where
  "WaitMined [] = None"
| "WaitMined ((answer, over) # rest) =
     (case answer of
        Mined r \<Rightarrow> Some (Inr r)
      | Receipt_Failed e \<Rightarrow> Some (Inl (WaitRPC e))
      | Not_There \<Rightarrow> if over then Some (Inl WaitDone) else WaitMined rest)"

section \<open>The websocket\<close>

text \<open>
  What happens while a subscription is open, in the order it happens: the context ends, the subscription
  reports an error, a log arrives, or the poll loop takes the pending nudge.  The nudge channel has
  room for one; a send into a full channel is dropped.
\<close>

datatype ws_event = WsDone | WsError string | WsLog | WsTaken

datatype ws_end = WsOpen | WsOver | WsDropped string

record nudge_channel =
  pending :: bool
  taken :: nat

definition push_nudge :: "nudge_channel \<Rightarrow> nudge_channel" where
  "push_nudge ch = (if pending ch then ch else ch\<lparr>pending := True\<rparr>)"

definition take_nudge :: "nudge_channel \<Rightarrow> nudge_channel" where
  "take_nudge ch = (if pending ch then ch\<lparr>pending := False, taken := taken ch + 1\<rparr> else ch)"

fun ws_loop :: "ws_event list \<Rightarrow> nudge_channel \<Rightarrow> ws_end \<times> nudge_channel" where
  "ws_loop [] ch = (WsOpen, ch)"
| "ws_loop (WsDone # es) ch = (WsOver, ch)"
| "ws_loop (WsError e # es) ch = (WsDropped e, ch)"
| "ws_loop (WsLog # es) ch = ws_loop es (push_nudge ch)"
| "ws_loop (WsTaken # es) ch = ws_loop es (take_nudge ch)"

text \<open>One life of the subscription: dialling, subscribing, the loop; then whether the poll loop takes
  the pending nudge during the wait that follows.\<close>

record ws_life =
  ws_dial :: "string option"
  ws_subscribe :: "string option"
  ws_events :: "ws_event list"
  ws_takes :: bool

definition ws_open :: "ws_life \<Rightarrow> nudge_channel \<Rightarrow> ws_end \<times> nudge_channel" where
  "ws_open s ch =
     (case ws_dial s of
        Some e \<Rightarrow> (WsDropped e, ch)
      | None \<Rightarrow> (case ws_subscribe s of Some e \<Rightarrow> (WsDropped e, ch) | None \<Rightarrow> ws_loop (ws_events s) ch))"

text \<open>The reconnection loop with this source; \<open>nudge_round\<close> is as in \<open>Nudges\<close>.\<close>

fun WebsocketNudges ::
  "(ws_life \<times> nudge_round) list \<Rightarrow> duration \<Rightarrow> nudge_channel \<Rightarrow> duration list \<times> nudge_channel" where
  "WebsocketNudges [] w ch = ([], ch)"
| "WebsocketNudges ((s, r) # rs) w ch =
     (if done_before r then ([], ch)
      else case ws_open s ch of
             (WsOpen, ch1) \<Rightarrow> ([], ch1)
           | (WsOver, ch1) \<Rightarrow> ([], ch1)
           | (WsDropped e, ch1) \<Rightarrow>
               if done_after r \<or> done_waiting r then ([], ch1)
               else (let ch2 = (if ws_takes s then take_nudge ch1 else ch1);
                         (ws, ch3) = WebsocketNudges rs (if w < seconds 30 then w * 2 else w) ch2
                     in (jitterAround (int63n r) w # ws, ch3)))"

section \<open>Lemmas\<close>

lemma ask_requests:
  "IsOpen_asked rpc requests c i =
     (case ask rpc requests c i of
        Inl e \<Rightarrow> Inl e
      | Inr v \<Rightarrow> (case IsOpen (\<lambda>_. Inr v) i of Inl _ \<Rightarrow> Inl (RPC []) | Inr b \<Rightarrow> Inr b))"
  by (simp add: IsOpen_asked_def IsOpen_def split: sum.splits)

lemma ws_loop_append:
  "ws_loop (es @ fs) ch =
     (case ws_loop es ch of (WsOpen, ch1) \<Rightarrow> ws_loop fs ch1 | (other, ch1) \<Rightarrow> (other, ch1))"
  by (induction es ch rule: ws_loop.induct) auto

lemma ws_loop_taken: "taken ch \<le> taken (snd (ws_loop es ch))"
proof (induction es ch rule: ws_loop.induct)
  case (4 es ch)
  moreover have "taken (push_nudge ch) = taken ch" by (simp add: push_nudge_def)
  ultimately show ?case by simp
next
  case (5 es ch)
  moreover have "taken ch \<le> taken (take_nudge ch)" by (simp add: take_nudge_def)
  ultimately show ?case by (metis le_trans ws_loop.simps(5))
qed simp_all

lemma ws_loop_pending: "pending ch \<Longrightarrow> pending (snd (ws_loop es ch)) \<or> taken ch < taken (snd (ws_loop es ch))"
proof (induction es ch rule: ws_loop.induct)
  case (5 es ch)
  have "taken ch < taken (take_nudge ch)" using 5 by (simp add: take_nudge_def)
  with ws_loop_taken[of "take_nudge ch" es] show ?case by simp
qed (simp_all add: push_nudge_def)

section \<open>Properties\<close>

text \<open>
  A log is never forgotten, and a burst is one look.  Whatever happens after a log has arrived, the
  poll loop has taken a nudge since, or one is waiting for it; and a burst of logs with nobody taking
  leaves exactly one.
\<close>

theorem a_log_leaves_a_nudge:
  assumes "ws_loop es ch = (WsOpen, ch1)"
  shows "(let ch2 = snd (ws_loop (es @ WsLog # fs) ch) in pending ch2 \<or> taken ch1 < taken ch2) \<and>
         ws_loop (es @ replicate (Suc k) WsLog) ch = (WsOpen, ch1\<lparr>pending := True\<rparr>)"
proof -
  have p: "pending (push_nudge ch1)" "taken (push_nudge ch1) = taken ch1"
    "push_nudge ch1 = ch1\<lparr>pending := True\<rparr>" by (simp_all add: push_nudge_def)
  have burst: "pending c \<Longrightarrow> ws_loop (replicate k WsLog) c = (WsOpen, c)" for c
    by (induction k) (simp_all add: push_nudge_def)
  show ?thesis
    using ws_loop_pending[OF p(1), of fs] burst[OF p(1)] p(2,3)
    by (simp add: ws_loop_append assms Let_def)
qed

text \<open>
  The websocket only hurries.  However its lives end, the waits between them are those of the
  reconnection loop for any source that fails; in particular they follow the same back-off.
\<close>

theorem websocket_waits_as_nudges:
  assumes "\<forall>(s, r) \<in> set rs. \<forall>ch. \<exists>e ch1. ws_open s ch = (WsDropped e, ch1)"
  shows "fst (WebsocketNudges rs w ch) = Nudges (map snd rs) w"
  using assms
proof (induction rs arbitrary: w ch)
  case (Cons x rs)
  obtain s r where x: "x = (s, r)" by (cases x)
  then obtain e ch1 where "ws_open s ch = (WsDropped e, ch1)" using Cons.prems by fastforce
  with Cons show ?case by (simp add: x Let_def case_prod_beta)
qed simp

text \<open>
  A receipt is waited for.  The wait ends with the receipt at the first look that finds it, however
  many found nothing, and with an error only if the endpoint gives one or the context ends.
\<close>

theorem receipt_is_waited_for:
  "WaitMined (replicate k (Not_There, False) @ (Mined r, over) # rest) = Some (Inr r) \<and>
   (WaitMined as = Some (Inl err) \<longrightarrow> (\<exists>a \<in> set as. (\<exists>e. fst a = Receipt_Failed e) \<or> snd a))"
proof (intro conjI impI)
  show "WaitMined (replicate k (Not_There, False) @ (Mined r, over) # rest) = Some (Inr r)"
    by (induction k) simp_all
  show "\<exists>a \<in> set as. (\<exists>e. fst a = Receipt_Failed e) \<or> snd a" if "WaitMined as = Some (Inl err)"
    using that by (induction as rule: WaitMined.induct) (auto split: receipt_answer.splits if_splits)
qed

end
