(* ===== verification/Metrics_Text.thy ===== *)
theory Metrics_Text
  imports Metrics Go_Text
begin

text \<open>
  The text an operator's counters are served as: \<open>render\<close>, \<open>sortedKeys\<close> and \<open>copyOf\<close> of
  \<open>node/internal/metrics/metrics.go\<close>.  A Go map is ranged over in an arbitrary order, here the order of
  the association list.  The gauges the node installs (sessions, parked requests, balance) are
  arguments, absent when they were not installed, and so is the uptime in seconds.
\<close>

section \<open>Definitions\<close>

definition newline :: string where "newline = [CHR 0x0A]"

definition gauge_text :: "string \<Rightarrow> string \<Rightarrow> string \<Rightarrow> string" where
  "gauge_text name doc value =
     ''# HELP '' @ name @ '' '' @ doc @ newline @ ''# TYPE '' @ name @ '' gauge'' @ newline @
     name @ '' '' @ value @ newline"

definition counter_text :: "string \<Rightarrow> string \<Rightarrow> u64 \<Rightarrow> string" where
  "counter_text name doc value =
     ''# HELP '' @ name @ '' '' @ doc @ newline @ ''# TYPE '' @ name @ '' counter'' @ newline @
     name @ '' '' @ dec_of_nat (unat value) @ newline"

definition copyOf :: "(u32, u64) gomap \<Rightarrow> (u32, u64) gomap" where
  "copyOf m = fold (\<lambda>(k, v) out. mput out k v) m mempty"

definition sortedKeys :: "(u32, u64) gomap \<Rightarrow> u32 list" where
  "sortedKeys m = sort (map fst m)"

definition peer_line :: "string \<Rightarrow> u32 \<Rightarrow> u64 \<Rightarrow> string" where
  "peer_line name peer value =
     name @ ''{peer='' @ [CHR 0x22] @ dec_of_nat (unat peer) @ [CHR 0x22] @ ''} '' @ dec_of_nat (unat value) @ newline"

definition per_peer_text :: "string \<Rightarrow> string \<Rightarrow> (u32, u64) gomap \<Rightarrow> string" where
  "per_peer_text name doc values =
     ''# HELP '' @ name @ '' '' @ doc @ newline @ ''# TYPE '' @ name @ '' counter'' @ newline @
     concat (map (\<lambda>peer. peer_line name peer (counter_of values peer)) (sortedKeys values))"

definition render :: "registry \<Rightarrow> int \<Rightarrow> int option \<Rightarrow> int option \<Rightarrow> int option \<Rightarrow> string" where
  "render r uptime sessions parked balance =
     (let received = copyOf (sharesReceived r); rejected = copyOf (sharesRejected r);
          equivocal = copyOf (equivocations r) in
      gauge_text ''vrf_operator_index'' ''Index of the operator answering this scrape.''
        (dec_of_nat (unat (operatorIndex r))) @
      gauge_text ''vrf_threshold'' ''Signatures needed to produce a group signature.''
        (dec_of_int (m_threshold r)) @
      gauge_text ''vrf_operators'' ''Size of the operator group.'' (dec_of_int (m_operators r)) @
      gauge_text ''vrf_uptime_seconds'' ''Seconds since this node started.'' (dec_of_int uptime) @
      gauge_text ''vrf_sessions_active'' ''Requests currently being signed.''
        (dec_of_int (case sessions of None \<Rightarrow> 0 | Some n \<Rightarrow> n)) @
      gauge_text ''vrf_parked_requests'' ''Requests with shares held from peers that got here first.''
        (dec_of_int (case parked of None \<Rightarrow> 0 | Some n \<Rightarrow> n)) @
      gauge_text ''vrf_last_seen_block'' ''Highest L2 block this node has scanned for requests.''
        (dec_of_nat (unat (lastSeenBlock r))) @
      (case balance of None \<Rightarrow> ''''
       | Some wei \<Rightarrow> gauge_text ''vrf_publisher_balance_wei''
           ''Native balance of the account this node publishes fulfilments from.'' (dec_of_int wei)) @
      counter_text ''vrf_requests_seen_total'' ''Requests observed on the chain.'' (requestsSeen r) @
      counter_text ''vrf_shares_sent_total'' ''Signature shares broadcast to peers.'' (sharesSent r) @
      counter_text ''vrf_fulfilments_published_total''
        (''Fulfilment transactions this node sent. Several operators may send for one '' @
         ''request, so a fleet total above the number of fulfilments is expected.'') (published_total r) @
      counter_text ''vrf_fulfilments_lost_total''
        ''Fulfilments another operator published first. Expected, not a fault.'' (racesLost r) @
      per_peer_text ''vrf_shares_received_total''
        ''Verified signature shares accepted from each operator.'' received @
      per_peer_text ''vrf_shares_rejected_total''
        ''Shares refused from each operator: bad signature, wrong seed, or unwanted.'' rejected @
      per_peer_text ''vrf_equivocations_total''
        ''Times an operator sent two different shares for one seed. Slashable.'' equivocal)"

section \<open>Lemmas\<close>

text \<open>Go's map is a finite function: two lists with the same lookups are the same map.\<close>

definition same_map :: "('k, 'v) gomap \<Rightarrow> ('k, 'v) gomap \<Rightarrow> bool" where
  "same_map m m' \<longleftrightarrow> mok m \<and> mok m' \<and> mget m = mget m'"

lemma set_keys: "set (map fst m) = dom (mget m)"
proof -
  have "mget m = map_of m" by (rule ext) (simp add: mget_def)
  then show ?thesis by (simp add: dom_map_of_conv_image_fst)
qed

lemma sortedKeys_same: "same_map m m' \<Longrightarrow> sortedKeys m = sortedKeys m'"
  unfolding sortedKeys_def same_map_def mok_def
  by (intro sorted_distinct_set_unique) (simp_all add: set_keys flip: set_map)

lemma counter_of_same: "same_map m m' \<Longrightarrow> counter_of m = counter_of m'"
  by (auto simp: same_map_def counter_of_def)

lemma per_peer_text_same: "same_map m m' \<Longrightarrow> per_peer_text name doc m = per_peer_text name doc m'"
  by (simp add: per_peer_text_def sortedKeys_same counter_of_same)

lemma mget_fold_put:
  "mok m \<Longrightarrow> mget (fold (\<lambda>(k, v) out. mput out k v) m out) k =
     (case mget m k of None \<Rightarrow> mget out k | Some v \<Rightarrow> Some v)"
proof (induction m arbitrary: out)
  case (Cons x m)
  obtain a v where x: "x = (a, v)" by (cases x)
  have "mok m" and "mget m a = None"
    using Cons.prems x by (auto simp: mok_def mget_def map_of_eq_None_iff)
  with Cons.IH[of "mput out a v"] show ?case
    by (auto simp: x mget_def[of "_ # _"] mget_def[of m] split: option.splits)
qed (simp add: mget_def)

lemma mok_fold_put: "mok out \<Longrightarrow> mok (fold (\<lambda>(k, v) out. mput out k v) m out)"
  by (induction m arbitrary: out) (auto simp: gm.ok_put)

lemma copyOf_same: "mok m \<Longrightarrow> same_map m (copyOf m)"
  unfolding same_map_def copyOf_def
proof (intro conjI ext)
  fix k assume "mok m"
  then show "mget m k = mget (fold (\<lambda>(k, v) out. mput out k v) m mempty) k"
    by (simp add: mget_fold_put split: option.splits)
qed (simp_all add: mok_fold_put)

section \<open>Properties\<close>

text \<open>
  A scrape does not depend on the order Go ranges over its maps in: two registries with the same
  scalar counters, whose tables hold the same counts, are served as the same text.
\<close>

theorem scrape_is_deterministic:
  assumes "same_map (sharesReceived r) (sharesReceived r')" and "same_map (sharesRejected r) (sharesRejected r')"
    and "same_map (equivocations r) (equivocations r')"
    and "r' = r\<lparr>sharesReceived := sharesReceived r', sharesRejected := sharesRejected r',
                equivocations := equivocations r'\<rparr>"
  shows "render r uptime sessions parked balance = render r' uptime sessions parked balance"
proof -
  have copies: "per_peer_text name doc (copyOf m) = per_peer_text name doc (copyOf m')"
    if "same_map m m'" for name doc m m'
    using that copyOf_same[of m] copyOf_same[of m'] per_peer_text_same
    by (metis same_map_def)
  have "operatorIndex r' = operatorIndex r" "m_threshold r' = m_threshold r" "m_operators r' = m_operators r"
    "lastSeenBlock r' = lastSeenBlock r" "requestsSeen r' = requestsSeen r" "sharesSent r' = sharesSent r"
    "published_total r' = published_total r" "racesLost r' = racesLost r"
    by (subst assms(4); simp)+
  then show ?thesis
    unfolding render_def Let_def
    by (simp only: copies[OF assms(1)] copies[OF assms(2)] copies[OF assms(3)])
qed

definition demo_registry :: registry where
  "demo_registry = (new_registry 3 2 4)\<lparr>sharesReceived := [(1, 5), (2, 6)]\<rparr>"

theorem scrape_is_deterministic_witness:
  "render demo_registry 60 None None None =
   render (demo_registry\<lparr>sharesReceived := [(2, 6), (1, 5)]\<rparr>) 60 None None None"
proof (rule scrape_is_deterministic)
  show "same_map (sharesReceived demo_registry) (sharesReceived (demo_registry\<lparr>sharesReceived := [(2, 6), (1, 5)]\<rparr>))"
    by (auto simp: demo_registry_def same_map_def mok_def mget_def fun_eq_iff)
qed (simp_all add: demo_registry_def same_map_def mok_def new_registry_def mempty_def)

text \<open>
  The table of a counter in the text has one line per operator that has been counted, in ascending
  order of index, with this operator's count, and no other line.
\<close>

theorem peer_lines_sorted:
  assumes "mok m"
  shows "\<exists>peers. sorted_wrt (<) peers \<and> set peers = dom (mget m) \<and>
     per_peer_text name doc (copyOf m) =
       ''# HELP '' @ name @ '' '' @ doc @ newline @ ''# TYPE '' @ name @ '' counter'' @ newline @
       concat (map (\<lambda>p. peer_line name p (the (mget m p))) peers)"
proof (intro exI conjI)
  have same: "same_map m (copyOf m)" by (rule copyOf_same[OF assms])
  have keys: "set (sortedKeys m) = dom (mget m)" by (simp add: sortedKeys_def set_keys flip: set_map)
  show "sorted_wrt (<) (sortedKeys m)"
    using assms by (simp add: sortedKeys_def mok_def strict_sorted_iff)
  show "set (sortedKeys m) = dom (mget m)" by (rule keys)
  have "counter_of m p = the (mget m p)" if "p \<in> dom (mget m)" for p
    using that by (auto simp: counter_of_def)
  then have "map (\<lambda>p. peer_line name p (counter_of m p)) (sortedKeys m) =
      map (\<lambda>p. peer_line name p (the (mget m p))) (sortedKeys m)"
    by (intro map_cong refl) (simp add: keys)
  then show "per_peer_text name doc (copyOf m) =
       ''# HELP '' @ name @ '' '' @ doc @ newline @ ''# TYPE '' @ name @ '' counter'' @ newline @
       concat (map (\<lambda>p. peer_line name p (the (mget m p))) (sortedKeys m))"
    unfolding per_peer_text_same[OF same, symmetric] unfolding per_peer_text_def
    by (simp only:)
qed

theorem peer_lines_sorted_witness:
  "\<exists>peers. sorted_wrt (<) peers \<and> set peers = {1, 9 :: u32} \<and>
     per_peer_text ''n'' ''h'' (copyOf [(9, 4), (1, 7)]) =
       ''# HELP n h'' @ newline @ ''# TYPE n counter'' @ newline @
       concat (map (\<lambda>p. peer_line ''n'' p (the (mget [(9, 4), (1, 7)] p))) peers)"
proof -
  have "dom (mget [(9 :: u32, 4 :: u64), (1, 7)]) = {1, 9}" by (auto simp: mget_def split: if_splits)
  with peer_lines_sorted[of "[(9, 4), (1, 7)]" "''n''" "''h''"] show ?thesis
    by (simp add: mok_def)
qed

end
