(* ===== verification/Status.thy ===== *)
theory Status
  imports Go_Text
begin

text \<open>
  The public status page: \<open>node/internal/status/status.go\<close>.  One handler in front of a fixed list of
  operators' counters.  The HTTP client is an argument: for a URL an error, or a status code with
  the result of reading the body.
\<close>

section \<open>Definitions\<close>

type_synonym upstream = "string \<Rightarrow> string + (int \<times> (string + string))"

definition maxUpstreamBody :: nat where "maxUpstreamBody = 256 * 2 ^ 10"

record operatorStatus =
  os_Index :: int
  os_Up :: bool
  os_Metrics :: string
  os_Error :: string

text \<open>The answers of the handler; header fields are left out.\<close>

datatype page =
    NoContent
  | ReadOnly
  | NotFound
  | Ok
  | Listing int "string list"
  | Snapshot "operatorStatus list"
  | Metrics string
  | Unreachable

definition targets_of :: "string list \<Rightarrow> string list" where
  "targets_of upstreams = map (\<lambda>u. trim_suffix ''/'' u @ ''/metrics'') upstreams"

definition op_Index :: "string \<Rightarrow> nat \<Rightarrow> nat option" where
  "op_Index path count =
     (let parts = split_on CHR ''/'' path in
      if length parts \<noteq> 4 \<or> parts ! 0 \<noteq> '''' \<or> parts ! 1 \<noteq> ''op'' \<or> parts ! 3 \<noteq> ''metrics'' then None
      else case atoi (parts ! 2) of
        None \<Rightarrow> None
      | Some index \<Rightarrow> if index < 0 \<or> int count \<le> index then None else Some (nat index))"

definition fetch :: "upstream \<Rightarrow> string \<Rightarrow> string + string" where
  "fetch get target =
     (case get target of
        Inl e \<Rightarrow> Inl e
      | Inr (status, body) \<Rightarrow>
          if status \<noteq> 200 then Inl (''operator answered '' @ dec_of_int status)
          else case body of Inl e \<Rightarrow> Inl e | Inr text \<Rightarrow> Inr (take maxUpstreamBody text))"

definition proxy :: "upstream \<Rightarrow> string \<Rightarrow> page" where
  "proxy get target = (case fetch get target of Inl e \<Rightarrow> Unreachable | Inr body \<Rightarrow> Metrics body)"

definition status_of :: "upstream \<Rightarrow> nat \<times> string \<Rightarrow> operatorStatus" where
  "status_of get = (\<lambda>(i, target). case fetch get target of
     Inl e \<Rightarrow> \<lparr>os_Index = int i, os_Up = False, os_Metrics = '''', os_Error = e\<rparr>
   | Inr body \<Rightarrow> \<lparr>os_Index = int i, os_Up = True, os_Metrics = body, os_Error = ''''\<rparr>)"

definition snapshot :: "upstream \<Rightarrow> string list \<Rightarrow> operatorStatus list" where
  "snapshot get targets = map (status_of get) (zip [0..<length targets] targets)"

definition listing :: "nat \<Rightarrow> string list" where
  "listing count = map (\<lambda>i. ''/op/'' @ dec_of_nat i @ ''/metrics'') [0..<count]"

text \<open>
  The handler of \<open>NewServer\<close>: the answer, and the URLs it has asked for.
\<close>

definition serve :: "string list \<Rightarrow> upstream \<Rightarrow> string \<Rightarrow> string \<Rightarrow> page \<times> string list" where
  "serve upstreams get verb path =
     (let targets = targets_of upstreams in
      if verb = ''OPTIONS'' then (NoContent, [])
      else if verb \<noteq> ''GET'' \<and> verb \<noteq> ''HEAD'' then (ReadOnly, [])
      else if path = ''/healthz'' then (Ok, [])
      else if path = ''/operators.json'' then (Listing (int (length targets)) (listing (length targets)), [])
      else if path = ''/status.json'' then (Snapshot (snapshot get targets), targets)
      else case op_Index path (length targets) of
        None \<Rightarrow> (NotFound, [])
      | Some index \<Rightarrow> (proxy get (targets ! index), [targets ! index]))"

text \<open>
  The command \<open>cmd/vrfstatus\<close>: the operators to serve, from a list or one local port each; it does not start
  without any.
\<close>

definition vrfstatus_targets :: "int \<Rightarrow> int \<Rightarrow> string \<Rightarrow> string list" where
  "vrfstatus_targets operators metricsBase upstreams =
     (if trim_space upstreams \<noteq> '''' then nonempty_trimmed (split_on CHR '','' upstreams)
      else map (\<lambda>i. ''http://127.0.0.1:'' @ dec_of_int (wrap64 (metricsBase + i))) [0 .. operators - 1])"

definition vrfstatus_main ::
  "int \<Rightarrow> int \<Rightarrow> string \<Rightarrow> (upstream \<Rightarrow> string \<Rightarrow> string \<Rightarrow> page \<times> string list) option" where
  "vrfstatus_main operators metricsBase upstreams =
     (let targets = vrfstatus_targets operators metricsBase upstreams in
      if targets = [] then None else Some (serve targets))"

section \<open>Lemmas\<close>

lemma op_Index_less: "op_Index path count = Some i \<Longrightarrow> i < count"
  by (auto simp: op_Index_def Let_def split: option.splits if_splits)

lemma op_Index_listed:
  assumes "i < count" and "int count \<le> 2 ^ 63"
  shows "op_Index (''/op/'' @ dec_of_nat i @ ''/metrics'') count = Some i"
proof -
  have d: "CHR ''/'' \<notin> set (dec_of_nat i)" using dec_of_nat_digits[of "CHR ''/''" i] by (metis decdigit_neq(3))
  have "split_on CHR ''/'' (''/op/'' @ dec_of_nat i @ ''/metrics'') = ['''', ''op'', dec_of_nat i, ''metrics'']"
    using split_on_append[OF d] by (simp add: split_on_none)
  moreover have "atoi (dec_of_nat i) = Some (int i)" using assms by (intro atoi_dec_of_nat) linarith
  ultimately show ?thesis using assms(1) by (simp add: op_Index_def)
qed

text \<open>The number in a path may carry a sign or leading zeros.\<close>

lemma op_Index_lenient:
  "op_Index ''/op/+1/metrics'' 3 = Some 1" "op_Index ''/op/007/metrics'' 9 = Some 7"
  by (simp_all add: op_Index_def atoi_def decvalue_def numeral_eq_Suc nat_eq_iff)

lemma listed_path_answer:
  assumes "i < length upstreams" and "int (length upstreams) \<le> 2 ^ 63" and "verb \<in> {''GET'', ''HEAD''}"
  shows "serve upstreams get verb (listing (length upstreams) ! i) =
      (proxy get (trim_suffix ''/'' (upstreams ! i) @ ''/metrics''),
       [trim_suffix ''/'' (upstreams ! i) @ ''/metrics''])"
proof -
  let ?p = "''/op/'' @ dec_of_nat i @ ''/metrics''"
  have "?p \<noteq> ''/healthz''" "?p \<noteq> ''/operators.json''" "?p \<noteq> ''/status.json''" by simp_all
  moreover have "listing (length upstreams) ! i = ?p" using assms(1) by (simp add: listing_def)
  ultimately show ?thesis
    using assms op_Index_listed[OF assms(1,2)] by (auto simp: serve_def targets_of_def Let_def)
qed

lemma trim_suffix_digits:
  "c \<notin> set s \<Longrightarrow> s \<noteq> [] \<Longrightarrow> trim_suffix [c] (p @ s) = p @ s"
  by (cases s rule: rev_cases) (auto simp: trim_suffix_def trim_prefix_def)

section \<open>Properties\<close>

text \<open>
  No request can name a destination.  Whatever method and path a request has, the handler asks only
  URLs of its fixed list: none at all for anything but a read, all of them for the snapshot, and
  at most one otherwise.
\<close>

theorem only_fixed_targets:
  "set (snd (serve upstreams get verb path)) \<subseteq> set (targets_of upstreams) \<and>
   (verb \<notin> {''GET'', ''HEAD''} \<longrightarrow> snd (serve upstreams get verb path) = []) \<and>
   (path \<noteq> ''/status.json'' \<longrightarrow> length (snd (serve upstreams get verb path)) \<le> 1)"
proof -
  have "targets_of upstreams ! i \<in> set (targets_of upstreams)"
    if "op_Index path (length (targets_of upstreams)) = Some i" for i
    using op_Index_less[OF that] by simp
  then show ?thesis by (auto simp: serve_def Let_def split: option.splits)
qed

theorem only_fixed_targets_witness:
  "snd (serve [''http://a/'', ''http://b''] (\<lambda>u. Inl ''down'') ''POST'' ''/op/1/metrics'') = [] \<and>
   length (snd (serve [''http://a/'', ''http://b''] (\<lambda>u. Inl ''down'') ''GET'' ''/op/1/metrics'')) \<le> 1"
  using only_fixed_targets[of "[''http://a/'', ''http://b'']" "\<lambda>u. Inl ''down''" "''POST''" "''/op/1/metrics''"]
    only_fixed_targets[of "[''http://a/'', ''http://b'']" "\<lambda>u. Inl ''down''" "''GET''" "''/op/1/metrics''"]
  by simp

text \<open>
  Every path that is advertised works.  The listing has one path per operator, in order, and a read
  of the \<open>i\<close>-th path answers with the counters of the \<open>i\<close>-th operator, cut to the limit, or that it
  is unreachable, after asking this operator and nobody else.
\<close>

theorem listed_paths_work:
  assumes "i < length upstreams" and "int (length upstreams) \<le> 2 ^ 63" and "verb \<in> {''GET'', ''HEAD''}"
  shows "serve upstreams get verb (listing (length upstreams) ! i) =
      (proxy get (trim_suffix ''/'' (upstreams ! i) @ ''/metrics''),
       [trim_suffix ''/'' (upstreams ! i) @ ''/metrics''])"
  using assms by (rule listed_path_answer)

theorem listed_paths_work_witness:
  "serve [''http://a/'', ''http://b''] (\<lambda>u. Inr (200, Inr u)) ''GET'' (listing 2 ! 1) =
     (Metrics ''http://b/metrics'', [''http://b/metrics''])"
  using listed_paths_work[of 1 "[''http://a/'', ''http://b'']" "''GET''" "\<lambda>u. Inr (200, Inr u)"]
  by (simp add: proxy_def fetch_def maxUpstreamBody_def trim_suffix_def trim_prefix_def)
     (simp add: numeral_2_eq_2)

text \<open>
  The defaults reach the local fleet.  Without a list the command serves one operator per local port, from the
  base upwards: reading the \<open>i\<close>-th advertised path asks the port \<open>base + i\<close> of this machine for its
  counters and nothing else.  With no operators it does not start.
\<close>

theorem local_fleet_ports:
  assumes "0 \<le> i" and "i < operators" and "0 \<le> base" and "base + operators < 2 ^ 63"
    and "verb \<in> {''GET'', ''HEAD''}"
  shows "\<exists>page. map_option (\<lambda>h. h get verb (listing (nat operators) ! nat i)) (vrfstatus_main operators base '''') =
       Some (page, [''http://127.0.0.1:'' @ dec_of_int (base + i) @ ''/metrics'']) \<and>
     vrfstatus_main 0 base '''' = None"
proof -
  let ?us = "vrfstatus_targets operators base ''''"
  have us: "length ?us = nat operators" "?us \<noteq> []"
    "?us ! nat i = ''http://127.0.0.1:'' @ dec_of_int (base + i)"
    using assms by (auto simp: vrfstatus_targets_def trim_space_def wrap64_id)
  have "CHR ''/'' \<notin> set (dec_of_nat (nat (base + i)))"
    using dec_of_nat_digits[of "CHR ''/''"] by (metis decdigit_neq(3))
  then have "trim_suffix ''/'' (''http://127.0.0.1:'' @ dec_of_int (base + i)) =
      ''http://127.0.0.1:'' @ dec_of_int (base + i)"
    using assms(1,3) by (intro trim_suffix_digits) (simp_all add: dec_of_int_def)
  then have "trim_suffix ''/'' (?us ! nat i) = ?us ! nat i" by (simp only: us(3))
  with listed_path_answer[of "nat i" ?us verb get] assms us show ?thesis
    by (auto simp: vrfstatus_main_def vrfstatus_targets_def trim_space_def)
qed

theorem local_fleet_ports_witness:
  "\<exists>page. map_option (\<lambda>h. h (\<lambda>u. Inl ''down'') ''GET'' (listing 9 ! 3)) (vrfstatus_main 9 9600 '''') =
       Some (page, [''http://127.0.0.1:9603/metrics''])"
  using local_fleet_ports[of 3 9 9600 "''GET''" "\<lambda>u. Inl ''down''"]
  by (auto simp: dec_of_int_def dec_of_nat.simps decdigit_def)

text \<open>
  The snapshot keeps operators apart: it has one entry per operator, in order, each saying what that
  operator alone answered; an operator that does not answer does not change the entry of another.
\<close>

theorem snapshot_entries_independent:
  assumes "i < length upstreams" and "get (targets_of upstreams ! i) = get' (targets_of upstreams ! i)"
  shows "length (snapshot get (targets_of upstreams)) = length upstreams \<and>
     snapshot get (targets_of upstreams) ! i = snapshot get' (targets_of upstreams) ! i \<and>
     os_Index (snapshot get (targets_of upstreams) ! i) = int i \<and>
     (os_Up (snapshot get (targets_of upstreams) ! i) \<longleftrightarrow>
        (\<exists>body. fetch get (targets_of upstreams ! i) = Inr body))"
proof -
  have "length (targets_of upstreams) = length upstreams" by (simp add: targets_of_def)
  moreover have "fetch get (targets_of upstreams ! i) = fetch get' (targets_of upstreams ! i)"
    using assms(2) by (simp add: fetch_def)
  ultimately show ?thesis
    using assms(1) by (auto simp: snapshot_def status_of_def split: sum.splits)
qed

theorem snapshot_entries_independent_witness:
  "snapshot (\<lambda>u. if u = ''a/metrics'' then Inl ''down'' else Inr (200, Inr ''x'')) (targets_of [''a'', ''b'']) ! 1 =
   snapshot (\<lambda>u. Inr (200, Inr ''x'')) (targets_of [''a'', ''b'']) ! 1"
  using snapshot_entries_independent[of 1 "[''a'', ''b'']"
      "\<lambda>u. if u = ''a/metrics'' then Inl ''down'' else Inr (200, Inr ''x'')" "\<lambda>u. Inr (200, Inr ''x'')"]
  by (simp add: targets_of_def trim_suffix_def trim_prefix_def)

end
