(* ===== verification/Endpoints.thy ===== *)
theory Endpoints
  imports Node_Props Balance Metrics_Text Status
begin

text \<open>
  What an operator answers on its two ports and the status page on its own: the routes and sources of
  \<open>node/internal/mesh/mesh.go\<close>, the page of counters with the gauges that are read when it is asked for
  (\<open>node/internal/metrics/metrics.go\<close>), and the header fields of \<open>node/internal/status/status.go\<close>.
\<close>

section \<open>Where a share comes from\<close>

text \<open>\<open>net.SplitHostPort\<close>: the host and the port, or an error.\<close>

definition before_last :: "char \<Rightarrow> string \<Rightarrow> string" where
  "before_last c s = rev (tl (dropWhile (\<lambda>x. x \<noteq> c) (rev s)))"

definition after_last :: "char \<Rightarrow> string \<Rightarrow> string" where
  "after_last c s = rev (takeWhile (\<lambda>x. x \<noteq> c) (rev s))"

definition SplitHostPort :: "string \<Rightarrow> (string \<times> string) option" where
  "SplitHostPort s =
     (if CHR '':'' \<notin> set s then None
      else if take 1 s = ''['' then
        (if CHR '']'' \<notin> set s then None
         else let host = takeWhile (\<lambda>x. x \<noteq> CHR '']'') (tl s);
                  rest = tl (dropWhile (\<lambda>x. x \<noteq> CHR '']'') s);
                  port = tl rest
              in if take 1 rest = '':'' \<and> CHR '':'' \<notin> set port \<and> CHR ''['' \<notin> set (tl s) \<and> CHR '']'' \<notin> set rest
                 then Some (host, port) else None)
      else if CHR '':'' \<in> set (before_last CHR '':'' s) \<or> CHR ''['' \<in> set s \<or> CHR '']'' \<in> set s then None
      else Some (before_last CHR '':'' s, after_last CHR '':'' s))"

definition sourceOf :: "string \<Rightarrow> string" where
  "sourceOf remoteAddr = (case SplitHostPort remoteAddr of None \<Rightarrow> remoteAddr | Some (host, _) \<Rightarrow> host)"

section \<open>The mesh server\<close>

record mesh_request =
  mr_RemoteAddr :: string
  mr_Path :: string
  mr_Method :: string
  mr_Body :: string

text \<open>The answer for a share by its status code, the health check, or whatever the multiplexer says to
  a path that is not registered.\<close>

datatype mesh_answer = ShareStatus int | Healthy | NoRoute

definition serve_mesh ::
  "('s, 'g1, 'g2, 'gt) kyber \<Rightarrow> 'l rate_library \<Rightarrow> ('ip, 'net) netlib \<Rightarrow> server_options \<Rightarrow>
   (string \<Rightarrow> envelope option) \<Rightarrow> (envelope \<Rightarrow> 'n \<Rightarrow> bool \<times> 'n) \<Rightarrow> int \<Rightarrow> mesh_request \<Rightarrow>
   'l mesh_server \<times> 'n \<Rightarrow> mesh_answer \<times> 'l mesh_server \<times> 'n" where
  "serve_mesh K L N opts parse handle now r st =
     (if mr_Path r = SharePath
      then (let (code, st1) = serve_share K L N opts parse handle now
                  \<lparr>r_source = sourceOf (mr_RemoteAddr r), r_method = mr_Method r, r_body = mr_Body r\<rparr> st
            in (ShareStatus code, st1))
      else if mr_Path r = ''/healthz'' then (Healthy, st)
      else (NoRoute, st))"

text \<open>The client: its peers, the time limit of a post, and the connections it keeps and allows per peer.\<close>

record mesh_client =
  mc_peers :: "string list"
  mc_timeout :: duration
  mc_MaxIdleConnsPerHost :: int
  mc_MaxConnsPerHost :: int

definition NewClient :: "string list \<Rightarrow> duration \<Rightarrow> mesh_client" where
  "NewClient ps timeout =
     \<lparr>mc_peers = ps, mc_timeout = timeout, mc_MaxIdleConnsPerHost = 64, mc_MaxConnsPerHost = 128\<rparr>"

section \<open>The counters\<close>

text \<open>The gauges are functions read at scrape time, here of a state \<open>'n\<close>; each may be missing.\<close>

record 'n gauges =
  g_sessions :: "('n \<Rightarrow> int) option"
  g_parked :: "('n \<Rightarrow> int) option"
  g_balance :: "('n \<Rightarrow> int option) option"

definition no_gauges :: "'n gauges" where
  "no_gauges = \<lparr>g_sessions = None, g_parked = None, g_balance = None\<rparr>"

definition SetGauges :: "('n \<Rightarrow> int) \<Rightarrow> ('n \<Rightarrow> int) \<Rightarrow> 'n gauges \<Rightarrow> 'n gauges" where
  "SetGauges s p g = g\<lparr>g_sessions := Some s, g_parked := Some p\<rparr>"

definition SetBalanceGauge :: "('n \<Rightarrow> int option) \<Rightarrow> 'n gauges \<Rightarrow> 'n gauges" where
  "SetBalanceGauge read g = g\<lparr>g_balance := Some read\<rparr>"

type_synonym header = "(string \<times> string) list"

text \<open>\<open>Handler\<close>: the header fields and the text.\<close>

definition metrics_page :: "registry \<Rightarrow> int \<Rightarrow> 'n gauges \<Rightarrow> 'n \<Rightarrow> header \<times> string" where
  "metrics_page r uptime g x =
     ([(''Content-Type'', ''text/plain; version=0.0.4; charset=utf-8''),
       (''Access-Control-Allow-Origin'', ''*''), (''Cache-Control'', ''no-store'')],
      render r uptime (map_option (\<lambda>f. f x) (g_sessions g)) (map_option (\<lambda>f. f x) (g_parked g))
        (case g_balance g of None \<Rightarrow> None | Some read \<Rightarrow> read x))"

text \<open>How the daemon wires them: \<open>node.New\<close> sets the first two, \<open>main\<close> the balance.\<close>

definition daemon_gauges :: "(('g1, 'g2) node \<times> balance_cache) gauges" where
  "daemon_gauges =
     SetGauges (\<lambda>(n, b). Sessions n) (\<lambda>(n, b). Parked n) (SetBalanceGauge (\<lambda>(n, b). Last b) no_gauges)"

section \<open>The header fields of the status page\<close>

definition cors :: header where
  "cors =
     [(''Access-Control-Allow-Origin'', ''*''), (''Access-Control-Allow-Methods'', ''GET, HEAD, OPTIONS''),
      (''Access-Control-Allow-Headers'', ''ngrok-skip-browser-warning, bypass-tunnel-reminder, Content-Type''),
      (''Access-Control-Max-Age'', ''86400'')]"

text \<open>The fields \<open>http.Error\<close> adds.\<close>

definition error_fields :: header where
  "error_fields = [(''Content-Type'', ''text/plain; charset=utf-8''), (''X-Content-Type-Options'', ''nosniff'')]"

text \<open>Status code and fields of each answer; a type the server detects from the body is left out.\<close>

fun page_head :: "page \<Rightarrow> int \<times> header" where
  "page_head NoContent = (204, cors)"
| "page_head ReadOnly = (405, cors @ error_fields)"
| "page_head NotFound = (404, cors @ error_fields)"
| "page_head Ok = (200, cors)"
| "page_head (Listing k paths) = (200, cors @ [(''Content-Type'', ''application/json'')])"
| "page_head (Snapshot ops) = (200, cors @ [(''Content-Type'', ''application/json''), (''Cache-Control'', ''no-store'')])"
| "page_head (Metrics body) =
     (200, cors @ [(''Content-Type'', ''text/plain; version=0.0.4; charset=utf-8''), (''Cache-Control'', ''no-store'')])"
| "page_head Unreachable = (502, cors @ error_fields)"

section \<open>Lemmas\<close>

lemma split_at_last:
  "c \<notin> set b \<Longrightarrow> before_last c (a @ c # b) = a \<and> after_last c (a @ c # b) = b"
proof -
  assume "c \<notin> set b"
  then have "dropWhile (\<lambda>x. x \<noteq> c) (rev b @ c # rev a) = c # rev a"
    "takeWhile (\<lambda>x. x \<noteq> c) (rev b @ c # rev a) = rev b"
    by (subst dropWhile_append2 takeWhile_append2; auto)+
  then show ?thesis by (simp add: before_last_def after_last_def)
qed

definition plain :: "string \<Rightarrow> bool" where
  "plain s \<longleftrightarrow> CHR '':'' \<notin> set s \<and> CHR ''['' \<notin> set s \<and> CHR '']'' \<notin> set s"

lemma SplitHostPort_name:
  assumes "plain host" and "plain port"
  shows "SplitHostPort (host @ '':'' @ port) = Some (host, port)"
proof -
  have "take 1 (host @ '':'' @ port) \<noteq> ''[''" using assms(1) by (cases host) (auto simp: plain_def)
  moreover have "before_last CHR '':'' (host @ '':'' @ port) = host" "after_last CHR '':'' (host @ '':'' @ port) = port"
    using split_at_last[of "CHR '':''" port host] assms(2) by (simp_all add: plain_def)
  moreover have "CHR '':'' \<notin> set host" "CHR ''['' \<notin> set (host @ '':'' @ port)" "CHR '']'' \<notin> set (host @ '':'' @ port)"
    "CHR '':'' \<in> set (host @ '':'' @ port)"
    using assms by (simp_all add: plain_def)
  ultimately show ?thesis unfolding SplitHostPort_def by (simp only: if_False if_True simp_thms)
qed

lemma SplitHostPort_bracketed:
  assumes "CHR ''['' \<notin> set host" and "CHR '']'' \<notin> set host" and "plain port"
  shows "SplitHostPort (''['' @ host @ '']:'' @ port) = Some (host, port)"
proof -
  have "takeWhile (\<lambda>x. x \<noteq> CHR '']'') (host @ '']:'' @ port) = host"
    "dropWhile (\<lambda>x. x \<noteq> CHR '']'') (host @ '']:'' @ port) = '']:'' @ port"
    using assms(2) by (subst takeWhile_append2 dropWhile_append2; auto)+
  then show ?thesis using assms by (simp add: SplitHostPort_def plain_def Let_def)
qed

lemma sourceOf_host:
  assumes "plain port" and "plain host \<and> addr = host @ '':'' @ port \<or>
     CHR ''['' \<notin> set host \<and> CHR '']'' \<notin> set host \<and> addr = ''['' @ host @ '']:'' @ port"
  shows "sourceOf addr = host"
  using assms SplitHostPort_name[of host port] SplitHostPort_bracketed[of host port]
  by (auto simp: sourceOf_def simp del: append_Cons append_Nil)

section \<open>Properties\<close>

text \<open>
  The port a peer connects from does not matter.  Two requests from the same host, written as a name or
  address or as an IPv6 address in brackets, are answered alike whatever their ports: they
  share one bucket of the throttle and one entry of the allow list.
\<close>

theorem one_source_per_host:
  assumes "plain p" and "plain q"
    and "plain host \<and> a = host @ '':'' @ p \<and> b = host @ '':'' @ q \<or>
         CHR ''['' \<notin> set host \<and> CHR '']'' \<notin> set host \<and>
           a = ''['' @ host @ '']:'' @ p \<and> b = ''['' @ host @ '']:'' @ q"
  shows "serve_mesh K L N opts parse handle now (r\<lparr>mr_RemoteAddr := a\<rparr>) st =
         serve_mesh K L N opts parse handle now (r\<lparr>mr_RemoteAddr := b\<rparr>) st"
proof -
  have "sourceOf a = host" using assms by (intro sourceOf_host[OF assms(1)]) blast
  moreover have "sourceOf b = host" using assms by (intro sourceOf_host[OF assms(2)]) blast
  ultimately show ?thesis by (simp add: serve_mesh_def)
qed

theorem one_source_per_host_witness:
  "sourceOf ''198.51.100.7:51234'' = ''198.51.100.7'' \<and> sourceOf ''[2001:db8::7]:443'' = ''2001:db8::7'' \<and>
   sourceOf ''@'' = ''@'' \<and>
   serve_mesh small_kyber L N opts parse handle now (r\<lparr>mr_RemoteAddr := ''a:1''\<rparr>) st =
   serve_mesh small_kyber L N opts parse handle now (r\<lparr>mr_RemoteAddr := ''a:2''\<rparr>) st"
proof -
  have "sourceOf ''198.51.100.7:51234'' = ''198.51.100.7''" "sourceOf ''[2001:db8::7]:443'' = ''2001:db8::7''"
    "sourceOf ''@'' = ''@''"
    by (simp_all add: sourceOf_def SplitHostPort_def before_last_def after_last_def Let_def)
  moreover have "serve_mesh small_kyber L N opts parse handle now (r\<lparr>mr_RemoteAddr := ''a:1''\<rparr>) st =
     serve_mesh small_kyber L N opts parse handle now (r\<lparr>mr_RemoteAddr := ''a:2''\<rparr>) st"
    by (rule one_source_per_host[of "''1''" "''2''" "''a''"]) (simp_all add: plain_def)
  ultimately show ?thesis by blast
qed

text \<open>
  The health check is free: any path but the one for shares leaves the throttle and the node alone.
\<close>

theorem other_paths_change_nothing:
  "mr_Path r \<noteq> SharePath \<longrightarrow> snd (serve_mesh K L N opts parse handle now r st) = st \<and>
     (fst (serve_mesh K L N opts parse handle now r st) = Healthy \<longleftrightarrow> mr_Path r = ''/healthz'')"
  by (simp add: serve_mesh_def)

text \<open>
  A scrape shows the node as it is: the page of the daemon reports the number of sessions and of parked
  requests of the node at that moment, never more than the memory of early shares allows, and the
  balance that was last read.
\<close>

theorem scrape_shows_the_node:
  assumes "0 < Operators cfg" and "reachable K cfg derive (n, ts)"
  shows "snd (metrics_page r uptime daemon_gauges (n, b)) =
       render r uptime (Some (Sessions n)) (Some (Parked n)) (Last b) \<and> Parked n \<le> 256"
proof -
  have "parked_ok cfg n" using reachable_parked[OF assms(2,1)] by simp
  then have "Parked n \<le> 256" using Parked_length[of cfg n] by (simp add: parked_ok_def)
  then show ?thesis
    by (simp add: metrics_page_def daemon_gauges_def SetGauges_def SetBalanceGauge_def no_gauges_def)
qed

theorem scrape_shows_the_node_witness:
  "Parked (new_node None :: (gf11, gf11) node) \<le> 256"
proof -
  have o: "0 < Operators cfg_demo" by (simp add: cfg_demo_def)
  have "reachable small_kyber cfg_demo demo_derive (new_node None :: (gf11, gf11) node, [])" by (rule reachable.start)
  from scrape_shows_the_node[OF o this] show ?thesis by blast
qed

text \<open>
  Anyone may read the page from a browser, and nobody may do more: every answer carries the fields for
  other origins, and only a read succeeds.
\<close>

theorem status_answers_are_readable:
  "take 4 (snd (page_head p)) = cors \<and>
   (fst (page_head (fst (serve upstreams get verb path))) = 200 \<longrightarrow> verb \<in> {''GET'', ''HEAD''})"
proof
  show "take 4 (snd (page_head p)) = cors" by (cases p) (simp_all add: cors_def)
  show "fst (page_head (fst (serve upstreams get verb path))) = 200 \<longrightarrow> verb \<in> {''GET'', ''HEAD''}"
    by (auto simp: serve_def Let_def)
qed

end
