(* ===== verification/Daemon_Ports.thy ===== *)
theory Daemon_Ports
  imports Daemon Endpoints
begin

text \<open>
  The daemon with its two ports, and how it ends (\<open>node/cmd/vrfnode/main.go\<close>): the share server in front
  of \<open>OnPeerShare\<close>, the counters served on the other port, the listeners that stop the daemon when they
  fail, and the exit status.
\<close>

section \<open>The ports\<close>

text \<open>
  A share the endpoint lets through is handed to a handler that runs as a goroutine of its own; whether
  it is filed or refused is that goroutine's last event.  The status 202 of the model stands for
  both answers of the handler.
\<close>

definition hand_over :: "envelope \<Rightarrow> ('g1, 'g2) daemon \<Rightarrow> bool \<times> ('g1, 'g2) daemon" where
  "hand_over e d = (False, d\<lparr>d_tasks := d_tasks d @ [Sharing e Share_Start]\<rparr>)"

text \<open>The share port, as \<open>main\<close> sets it up.\<close>

definition share_options :: "('s, 'g1, 'g2) started \<Rightarrow> server_options" where
  "share_options up = with_defaults (st_server up)"

definition share_port ::
  "('s, 'g1, 'g2, 'gt) kyber \<Rightarrow> 'l rate_library \<Rightarrow> ('ip, 'net) netlib \<Rightarrow> (string \<Rightarrow> envelope option) \<Rightarrow>
   ('s, 'g1, 'g2) started \<Rightarrow> int \<Rightarrow> mesh_request \<Rightarrow> 'l mesh_server \<times> ('g1, 'g2) daemon \<Rightarrow>
   mesh_answer \<times> 'l mesh_server \<times> ('g1, 'g2) daemon" where
  "share_port K L N parse up now r st = serve_mesh K L N (share_options up) parse hand_over now r st"

text \<open>The metrics port: every path is answered with the page, whatever the request is.\<close>

definition metrics_port :: "int \<Rightarrow> ('g1, 'g2) daemon \<Rightarrow> header \<times> string" where
  "metrics_port uptime d =
     metrics_page (the (counters (d_node d))) uptime daemon_gauges (d_node d, fst (d_money d))"

text \<open>
  A run with the share port open: what \<open>daemon_run\<close> has, with requests to the port in place of shares out
  of nowhere, and the answers given so far.
\<close>

inductive open_daemon ::
  "('s, 'g1, 'g2, 'gt) kyber \<Rightarrow> 'l rate_library \<Rightarrow> ('ip, 'net) netlib \<Rightarrow> (string \<Rightarrow> envelope option) \<Rightarrow>
   (int \<Rightarrow> byte list \<Rightarrow> byte list) \<Rightarrow> ('s, 'g1, 'g2) started \<Rightarrow>
   watch_event list \<Rightarrow> (mesh_request \<times> mesh_answer) list \<Rightarrow> 'l mesh_server \<Rightarrow> ('g1, 'g2) daemon \<Rightarrow> bool"
  for K L N parse derive up where
  opened: "open_daemon K L N parse derive up [] [] (new_mesh_server L (share_options up)) (initial_daemon up)"
| called_back: "open_daemon K L N parse derive up evs served srv d \<Longrightarrow>
     open_daemon K L N parse derive up (evs @ [e]) served srv (dispatch (st_floor up) M now e d)"
| requested: "open_daemon K L N parse derive up evs served srv d \<Longrightarrow>
     share_port K L N parse up now r (srv, d) = (a, srv1, d1) \<Longrightarrow>
     open_daemon K L N parse derive up evs (served @ [(r, a)]) srv1 d1"
| section_run: "open_daemon K L N parse derive up evs served srv d \<Longrightarrow> d_tasks d = pre @ t # post \<Longrightarrow> answer_ok w \<Longrightarrow>
     task_step K (st_config up) derive w t (d_node d) = (new, n1) \<Longrightarrow>
     open_daemon K L N parse derive up evs served srv (d\<lparr>d_node := n1, d_tasks := pre @ new @ post, d_money := m\<rparr>)"

section \<open>How it ends\<close>

text \<open>
  What cancels the context: a signal, or a listener that stopped.  \<open>Watch\<close> returns with an error once
  it is cancelled; \<open>main\<close> calls that a failure only when nothing had cancelled it.
\<close>

datatype stop_cause = Signalled | ListenerStopped string

definition listener_end :: "string \<Rightarrow> string option \<Rightarrow> stop_cause list" where
  "listener_end a err =
     (case err of None \<Rightarrow> [] | Some e \<Rightarrow> if e = ''http: Server closed'' then [] else [ListenerStopped a])"

definition main_exit :: "(start_error + ('s, 'g1, 'g2) started) \<Rightarrow> stop_cause list \<Rightarrow> string option \<Rightarrow> nat" where
  "main_exit start causes watched =
     (case start of
        Inl e \<Rightarrow> 1
      | Inr up \<Rightarrow> if watched \<noteq> None \<and> causes = [] then 1 else 0)"

section \<open>Lemmas\<close>

lemma serve_mesh_cases:
  assumes "serve_mesh K L N opts parse hand_over now r (srv, d) = (a, srv1, d1)"
  obtains (through) e where "a = ShareStatus 202" "d1 = d\<lparr>d_tasks := d_tasks d @ [Sharing e Share_Start]\<rparr>"
      "mr_Path r = SharePath" "mr_Method r = ''POST''" "parse (mr_Body r) = Some e" "\<exists>x. Decode K e = Inr x"
      "env_RequestID e \<noteq> [] \<and> env_Seed e \<noteq> [] \<and> env_Partial e \<noteq> []"
      "parseCIDRs N (AllowedSources opts) = [] \<or>
         permitted N (parseCIDRs N (AllowedSources opts)) (sourceOf (mr_RemoteAddr r))"
  | (stopped) "a \<noteq> ShareStatus 202" "d1 = d"
  using assms
  by (auto simp: serve_mesh_def serve_share_def hand_over_def Let_def
      split: if_splits prod.splits option.splits sum.splits)

text \<open>What comes in through the port is a share posted by anyone, as far as the daemon goes.\<close>

lemma open_daemon_run:
  "open_daemon K L N parse derive up evs served srv d \<Longrightarrow> daemon_run K derive up evs d"
proof (induction rule: open_daemon.induct)
  case opened
  show ?case by (rule started)
next
  case (called_back evs served srv d e M now)
  then show ?case by (intro callback)
next
  case (requested evs served srv d now r a srv1 d1)
  from requested.hyps(2) show ?case
    unfolding share_port_def by (rule serve_mesh_cases) (use requested.IH posted in auto)
next
  case (section_run evs served srv d pre t post w new n1 m)
  then show ?case by (intro goroutine)
qed

fun is_answer :: "event \<Rightarrow> bool" where
  "is_answer (Answered r) = True"
| "is_answer _ = False"

fun is_sharing :: "'g1 task \<Rightarrow> bool" where
  "is_sharing (Sharing e pc) = True"
| "is_sharing _ = False"

definition answers :: "event list \<Rightarrow> nat" where
  "answers tr = length (filter is_answer tr)"

definition handling :: "'g1 task list \<Rightarrow> nat" where
  "handling ts = length (filter is_sharing ts)"

lemma answers_simps [simp]: "answers [] = 0" "answers (xs @ ys) = answers xs + answers ys"
  "answers [e] = (if is_answer e then 1 else 0)"
  by (simp_all add: answers_def)

lemma handling_simps [simp]: "handling [] = 0" "handling (xs @ ys) = handling xs + handling ys"
  "handling (t # ts) = (if is_sharing t then 1 else 0) + handling ts"
  by (simp_all add: handling_def)

text \<open>What the node's operations add to the answers: nothing, unless they emit one.\<close>

lemma answers_frame:
  "answers (trace (count f n)) = answers (trace n)" "answers (trace (forget k n)) = answers (trace n)"
  "answers (trace (park cfg k e n)) = answers (trace n)" "answers (trace (OnFulfilled i n)) = answers (trace n)"
  "answers (trace (emit ev n)) = answers (trace n) + (if is_answer ev then 1 else 0)"
  by (simp_all add: count_def forget_def park_def OnFulfilled_def emit_def Let_def
      split: option.splits list.splits prod.splits)

lemma answers_calls:
  "takeParked k n = (hs, n1) \<Longrightarrow> answers (trace n1) = answers (trace n)"
  "sessionFor cfg i seed n = (a, n1) \<Longrightarrow> answers (trace n1) = answers (trace n)"
  "add_at K a p n = (r, n1) \<Longrightarrow> answers (trace n1) = answers (trace n)"
  by (auto simp: takeParked_def sessionFor_def add_at_def set_session_def Let_def
      split: option.splits prod.splits)

lemma answers_file_held: "answers (trace (file_held K seed a e n)) = answers (trace n)"
  by (auto simp: file_held_def answers_frame dest: answers_calls(3) split: sum.splits prod.splits bool.splits)

lemma answers_offer:
  "offer_share K cfg i seed a n = (t, n1) \<Longrightarrow> answers (trace n1) = answers (trace n) \<and> \<not> is_sharing t"
  by (auto simp: offer_share_def answers_frame Let_def split: option.splits sum.splits)

lemma publish_answers:
  "publish_step K cfg w i a pc n = (r, n1) \<Longrightarrow> answers (trace n1) = answers (trace n)"
  by (cases pc) (auto simp: answers_frame Let_def split: if_splits sum.splits)

lemma request_answers:
  assumes "request_step K cfg derive req pc n = (r, n1)"
  shows "answers (trace n1) = answers (trace n) \<and> handling (case r of None \<Rightarrow> [] | Some t \<Rightarrow> [t]) = 0"
proof (cases pc)
  case (Req_File seed a hs)
  then show ?thesis using assms by (cases hs) (auto simp: answers_file_held)
qed (use assms in \<open>auto simp: answers_frame Let_def dest: answers_calls answers_offer
      split: if_splits prod.splits sum.splits\<close>)

lemma share_answers:
  assumes "share_step K cfg e pc n = (new, n1)"
  shows "answers (trace n1) + handling new = answers (trace n) + 1"
proof (cases pc)
  case (Share_Add i a p)
  obtain r n2 where add: "add_at K a p n = (r, n2)" by (cases "add_at K a p n")
  show ?thesis using assms answers_calls(3)[OF add]
    by (auto simp: Share_Add add answers_frame split: sum.splits if_splits)
qed (use assms in \<open>auto simp: refuse_def answers_frame split: sum.splits option.splits prod.splits if_splits\<close>)

text \<open>A section either answers the request it handles or goes on handling it.\<close>

lemma task_answers:
  assumes "task_step K cfg derive w t n = (new, n1)"
  shows "answers (trace n1) + handling new = answers (trace n) + handling [t]"
proof (cases t)
  case (Requesting req pc)
  then show ?thesis using assms request_answers[of K cfg derive req pc n] by (auto split: prod.splits option.splits)
next
  case (Chasing i a e attempt pc)
  then show ?thesis using assms by (cases pc) (auto simp: answers_frame split: if_splits)
next
  case (Publishing i a pc cont)
  obtain r n2 where p: "publish_step K cfg w i a pc n = (r, n2)" by (cases "publish_step K cfg w i a pc n")
  have "n2 = n1" "handling new = 0" using assms p
    by (auto simp: Publishing resume_def split: option.splits)
  then show ?thesis using publish_answers[OF p] by (simp add: Publishing)
next
  case (Sharing e pc)
  then show ?thesis using share_answers[of K cfg e pc n new n1] assms by simp
qed

definition let_through :: "(mesh_request \<times> mesh_answer) list \<Rightarrow> nat" where
  "let_through served = length (filter (\<lambda>(r, a). a = ShareStatus 202) served)"

lemma answers_dispatch:
  "answers (trace (d_node (dispatch limit M now e d))) = answers (trace (d_node d)) \<and>
   handling (d_tasks (dispatch limit M now e d)) = handling (d_tasks d)"
  by (cases e) (auto simp: dispatch_def answers_frame)

lemma open_daemon_answers:
  assumes "trace (st_node up) = []"
  shows "open_daemon K L N parse derive up evs served srv d \<Longrightarrow>
    answers (trace (d_node d)) + handling (d_tasks d) = let_through served"
proof (induction rule: open_daemon.induct)
  case opened
  show ?case using assms by (simp add: initial_daemon_def let_through_def)
next
  case (called_back evs served srv d e M now)
  then show ?case by (simp add: answers_dispatch)
next
  case (requested evs served srv d now r a srv1 d1)
  from requested.hyps(2) show ?case
    unfolding share_port_def by (rule serve_mesh_cases) (use requested.IH in \<open>auto simp: let_through_def\<close>)
next
  case (section_run evs served srv d pre t post w new n1 m)
  from task_answers[OF section_run.hyps(4)] section_run.hyps(2) section_run.IH show ?case by simp
qed

lemma let_through_proper:
  assumes "open_daemon K R N parse derive up evs served srv d"
  shows "\<forall>(r, a) \<in> set served. a = ShareStatus 202 \<longrightarrow> mr_Path r = SharePath \<and> mr_Method r = ''POST'' \<and>
      (\<exists>e x. parse (mr_Body r) = Some e \<and> Decode K e = Inr x \<and>
         env_RequestID e \<noteq> [] \<and> env_Seed e \<noteq> [] \<and> env_Partial e \<noteq> []) \<and>
      (let allowed = parseCIDRs N (AllowedSources (share_options up))
       in allowed = [] \<or> permitted N allowed (sourceOf (mr_RemoteAddr r)))"
  using assms
proof (induction rule: open_daemon.induct)
  case (requested evs served srv d now r a srv1 d1)
  from requested.hyps(2) show ?case
    unfolding share_port_def by (rule serve_mesh_cases) (use requested.IH in \<open>auto simp: Let_def\<close>)
qed auto

definition demo_envelope :: envelope where
  "demo_envelope = envelope_of (hexID 31) (replicate 32 7) 0
     (case SignatureBytes small_kyber 3 of Inl e \<Rightarrow> [] | Inr raw \<Rightarrow> raw)"

definition demo_post :: mesh_request where
  "demo_post = \<lparr>mr_RemoteAddr = ''198.51.100.7:51234'', mr_Path = SharePath, mr_Method = ''POST'', mr_Body = ''{}''\<rparr>"

lemma demo_envelope_decodes:
  "Decode small_kyber demo_envelope = Inr (replicate 32 7, \<lparr>Index = 0, Sig = Some 3\<rparr>)"
proof -
  obtain raw where "SignatureBytes small_kyber 3 = Inr raw"
    using SignatureBytes_ok[of small_kyber 3] small_kyber_laws unfolding kyber_laws_def by metis
  moreover have "g1_codec small_kyber" using small_kyber_laws by (simp add: kyber_laws_def)
  ultimately show ?thesis by (simp add: demo_envelope_def Decode_envelope_of)
qed

lemma demo_envelope_complete:
  "env_RequestID demo_envelope \<noteq> []" "env_Seed demo_envelope \<noteq> []" "env_Partial demo_envelope \<noteq> []"
  by (simp_all add: demo_envelope_def envelope_of_def hexID_def text16_def)

section \<open>Properties\<close>

text \<open>
  C21.  Nothing gets past the door, and nobody is left without an answer.  In any run of the daemon with its
  share port open, the answers its handlers have given and the handlers still running are together exactly
  the requests the port has let through, and each of those was a POST of a complete share (with a request, a seed
  and a partial) that decodes, from a source on the allow list when there is one.
\<close>

theorem shares_are_answered_once:
  assumes "start_node K L disk W pass key f = Inr up"
    and "open_daemon K R N parse derive up evs served srv d"
  shows "answers (trace (d_node d)) + handling (d_tasks d) = let_through served \<and>
    (\<forall>(r, a) \<in> set served. a = ShareStatus 202 \<longrightarrow> mr_Path r = SharePath \<and> mr_Method r = ''POST'' \<and>
      (\<exists>e x. parse (mr_Body r) = Some e \<and> Decode K e = Inr x \<and>
         env_RequestID e \<noteq> [] \<and> env_Seed e \<noteq> [] \<and> env_Partial e \<noteq> []) \<and>
      (let allowed = parseCIDRs N (splitPeers (nf_allow f))
       in allowed = [] \<or> permitted N allowed (sourceOf (mr_RemoteAddr r))))"
proof -
  have "AllowedSources (share_options up) = splitPeers (nf_allow f)"
    using assms(1) by (rule start_node_cases) (simp add: share_options_def with_defaults_def node_server_def Let_def)
  with let_through_proper[OF assms(2)] open_daemon_answers[OF started_facts(5)[OF assms(1)] assms(2)]
  show ?thesis by simp
qed

theorem shares_are_answered_once_witness:
  "\<exists>up srv d. open_daemon small_kyber \<lparr>new_limiter = (\<lambda>q b. ()), limiter_allow = (\<lambda>t l. (True, l))\<rparr>
     (\<lparr>parse_ip = (\<lambda>s. None), parse_cidr = (\<lambda>s. None), host_net = (\<lambda>i. ()), net_contains = (\<lambda>n i. False)\<rparr> :: (unit, unit) netlib)
     (\<lambda>s. Some demo_envelope) demo_derive up [] [(demo_post, ShareStatus 202)] srv d \<and>
     answers (trace (d_node d)) + handling (d_tasks d) = 1"
proof -
  obtain disk where "Load small_kyber plain_keystore disk ''op.json'' ''secret'' = Inr solo_share"
    using solo_disk by blast
  then obtain up where up: "start_node small_kyber plain_keystore disk solo_world ''secret'' ''0xabc'' solo_flags = Inr up"
    using solo_starts by metis
  let ?L = "\<lparr>new_limiter = (\<lambda>q b. ()), limiter_allow = (\<lambda>t l. (True, l))\<rparr> :: unit rate_library"
    and ?N = "\<lparr>parse_ip = (\<lambda>s. None), parse_cidr = (\<lambda>s. None), host_net = (\<lambda>i. ()), net_contains = (\<lambda>n i. False)\<rparr> :: (unit, unit) netlib"
    and ?p = "\<lambda>s. Some demo_envelope"
  have "parseCIDRs ?N es = []" for es by (induction es) (simp_all add: Let_def)
  then obtain srv d where step: "share_port small_kyber ?L ?N ?p up 0 demo_post
      (new_mesh_server ?L (share_options up), initial_daemon up) = (ShareStatus 202, srv, d)"
    using demo_envelope_decodes demo_envelope_complete
    by (simp add: share_port_def serve_mesh_def serve_share_def demo_post_def hand_over_def allow_def new_mesh_server_def
        MaxTrackedSources_def Let_def)
  have run: "open_daemon small_kyber ?L ?N ?p demo_derive up [] [(demo_post, ShareStatus 202)] srv d"
    using requested[OF opened step] by simp
  from shares_are_answered_once[OF up run] run show ?thesis by (auto simp: let_through_def)
qed

text \<open>
  What the port lets in is harmless.  Anything that is true of the daemon whoever posts shares in whatever
  way is true of it behind its port: every run with the port open is one of the runs considered there.
\<close>

theorem port_adds_nothing:
  assumes "open_daemon K R N parse derive up evs served srv d"
  shows "daemon_run K derive up evs d"
  by (rule open_daemon_run[OF assms])

text \<open>
  A daemon whose listener dies ends well.  The context is cancelled by a listener that could not be
  opened just as by a signal, and the exit status is 0 in both cases; only a start that fails gives 1, since
  \<open>Watch\<close> never returns before the context is cancelled.
\<close>

theorem dead_listener_exits_clean:
  assumes "err \<noteq> ''http: Server closed''"
  shows "main_exit (Inr up) (listener_end addr (Some err) @ causes) watched = 0"
  using assms by (simp add: main_exit_def listener_end_def)

text \<open>
  A small \<open>-share-rate\<close> allows a large burst: below one share per second the burst computed from it is zero,
  which the server takes as not given and replaces by 1000.
\<close>

theorem small_rate_large_burst:
  assumes "0 < nf_shareRate f" and "nf_shareRate f < 1"
  shows "Burst (with_defaults (node_server f)) = 1000 \<and> RatePerSecond (with_defaults (node_server f)) = nf_shareRate f"
proof -
  have "trunc (nf_shareRate f) = 0" using assms by (simp add: trunc_def floor_eq_iff)
  then show ?thesis using assms by (simp add: with_defaults_def node_server_def Let_def)
qed

theorem small_rate_large_burst_witness:
  "Burst (with_defaults (node_server (default_flags\<lparr>nf_shareRate := 1 / 2\<rparr>))) = 1000"
  using small_rate_large_burst[of "default_flags\<lparr>nf_shareRate := 1 / 2\<rparr>"] by simp

end
