(* ===== verification/Dkg_Board.thy ===== *)
theory Dkg_Board
  imports Dkg_Run
begin

text \<open>
  The board that carries a ceremony between participants: \<open>node/internal/dkgnet/board.go\<close>.  Three
  buffered channels, a mutex and a closed flag; the endpoint that feeds them; the delivery to peers
  with its retries.

  The mutex is held across the channel send in \<open>push\<close>.  A send into a full channel blocks, so the
  state records the bundle whose sender is waiting inside the critical section; while there is one,
  nobody else can take the mutex.
\<close>

section \<open>State\<close>

datatype ('s, 'g2) ceremony_bundle =
    DealB "'g2 deal_bundle"
  | RespB response_bundle
  | JustB "'s justification_bundle"

datatype channel = DealsC | RespsC | JustsC

fun channel_of :: "('s, 'g2) ceremony_bundle \<Rightarrow> channel" where
  "channel_of (DealB _) = DealsC"
| "channel_of (RespB _) = RespsC"
| "channel_of (JustB _) = JustsC"

text \<open>The three channels are one function from their names; \<open>waiting\<close> is the blocked sender.\<close>

record ('s, 'g2) board =
  b_peers :: "string list"
  b_capacity :: nat
  b_chan :: "channel \<Rightarrow> ('s, 'g2) ceremony_bundle list"
  b_waiting :: "('s, 'g2) ceremony_bundle option"
  b_closed :: bool
  b_retryWindow :: duration

definition BundlePath :: string where "BundlePath = ''/v1/dkg''"

definition DefaultRetryWindow :: duration where "DefaultRetryWindow = seconds 45"

definition NewBoard :: "string list \<Rightarrow> int \<Rightarrow> ('s, 'g2) board" where
  "NewBoard peers buffer =
     \<lparr> b_peers = peers, b_capacity = nat (if buffer < 8 then 8 else buffer), b_chan = (\<lambda>c. []),
       b_waiting = None, b_closed = False, b_retryWindow = DefaultRetryWindow \<rparr>"

section \<open>Operations\<close>

datatype deliver_error = Undecodable wire_error | CeremonyIsOver

text \<open>
  \<open>Deliver\<close> before the lock: the kind, then the decoder of that kind.
\<close>

definition decode_bundle ::
  "('s, 'g1, 'g2, 'gt) kyber \<Rightarrow> json_library \<Rightarrow> byte list \<Rightarrow> wire_error + ('s, 'g2) ceremony_bundle" where
  "decode_bundle K J raw =
     (case KindOf J raw of
        Inl e \<Rightarrow> Inl e
      | Inr kind \<Rightarrow>
          if kind = ''deals'' then map_sum id DealB (DecodeDeals K J raw)
          else if kind = ''responses'' then map_sum id RespB (DecodeResponses J raw)
          else map_sum id JustB (DecodeJustifications K J raw))"

definition append_bundle :: "('s, 'g2) ceremony_bundle \<Rightarrow> ('s, 'g2) board \<Rightarrow> ('s, 'g2) board" where
  "append_bundle x b =
     b\<lparr>b_chan := (b_chan b)(channel_of x := b_chan b (channel_of x) @ [x])\<rparr>"

text \<open>
  \<open>push\<close> with the mutex taken: refused when closed, sent when the channel has room, otherwise
  waiting.  The answer is the error the caller gets, or that it got none (yet).
\<close>

definition push :: "('s, 'g2) ceremony_bundle \<Rightarrow> ('s, 'g2) board \<Rightarrow> deliver_error option \<times> ('s, 'g2) board" where
  "push x b =
     (if b_closed b then (Some CeremonyIsOver, b)
      else if length (b_chan b (channel_of x)) < b_capacity b then (None, append_bundle x b)
      else (None, b\<lparr>b_waiting := Some x\<rparr>))"

text \<open>\<open>Deliver\<close>, run when the mutex is free.\<close>

definition Deliver ::
  "('s, 'g1, 'g2, 'gt) kyber \<Rightarrow> json_library \<Rightarrow> byte list \<Rightarrow> ('s, 'g2) board \<Rightarrow>
    deliver_error option \<times> ('s, 'g2) board" where
  "Deliver K J raw b =
     (case decode_bundle K J raw of
        Inl e \<Rightarrow> (Some (Undecodable e), b)
      | Inr x \<Rightarrow> push x b)"

text \<open>
  The protocol receives from a channel: the oldest bundle.  When a sender waits for that channel,
  its bundle takes the freed place and the mutex is released.
\<close>

definition receive :: "channel \<Rightarrow> ('s, 'g2) board \<Rightarrow> (('s, 'g2) ceremony_bundle \<times> ('s, 'g2) board) option" where
  "receive c b =
     (case b_chan b c of
        [] \<Rightarrow> None
      | x # xs \<Rightarrow>
          let b1 = b\<lparr>b_chan := (b_chan b)(c := xs)\<rparr> in
          Some (x, case b_waiting b of
            None \<Rightarrow> b1
          | Some w \<Rightarrow> if channel_of w = c then append_bundle w (b1\<lparr>b_waiting := None\<rparr>) else b1))"

definition SetRetryWindow :: "duration \<Rightarrow> ('s, 'g2) board \<Rightarrow> ('s, 'g2) board" where
  "SetRetryWindow d b = b\<lparr>b_retryWindow := d\<rparr>"

definition board_SetPeers :: "string list \<Rightarrow> ('s, 'g2) board \<Rightarrow> ('s, 'g2) board" where
  "board_SetPeers peers b = b\<lparr>b_peers := peers\<rparr>"

text \<open>\<open>Close\<close> under the mutex; the wait for the deliveries still running follows.\<close>

definition Close :: "('s, 'g2) board \<Rightarrow> ('s, 'g2) board" where
  "Close b = b\<lparr>b_closed := True\<rparr>"

text \<open>
  The endpoint: status code and the board.  The body is \<open>None\<close> when it is longer than \<open>2 ^ 20\<close> bytes or
  cannot be read.
\<close>

definition board_handler ::
  "('s, 'g1, 'g2, 'gt) kyber \<Rightarrow> json_library \<Rightarrow> string \<Rightarrow> byte list option \<Rightarrow> ('s, 'g2) board \<Rightarrow>
    int \<times> ('s, 'g2) board" where
  "board_handler K J verb body b =
     (if verb \<noteq> ''POST'' then (405, b)
      else case body of
        None \<Rightarrow> (400, b)
      | Some raw \<Rightarrow> (case Deliver K J raw b of
          (Some e, b1) \<Rightarrow> (400, b1)
        | (None, b1) \<Rightarrow> (202, b1)))"

text \<open>
  \<open>PushDeals\<close>, \<open>PushResponses\<close> and \<open>PushJustifications\<close>: encode, deliver to oneself, broadcast.  The
  result lists the deliveries started, each with its peer, the text and the retry window.
\<close>

definition broadcast :: "('s, 'g2) board \<Rightarrow> byte list \<Rightarrow> (string \<times> byte list \<times> duration) list" where
  "broadcast b raw = map (\<lambda>peer. (peer, raw, b_retryWindow b)) (b_peers b)"

definition push_encoded ::
  "('s, 'g1, 'g2, 'gt) kyber \<Rightarrow> json_library \<Rightarrow> (wire_error + byte list) \<Rightarrow> ('s, 'g2) board \<Rightarrow>
    (string \<times> byte list \<times> duration) list \<times> ('s, 'g2) board" where
  "push_encoded K J encoded b =
     (case encoded of
        Inl e \<Rightarrow> ([], b)
      | Inr raw \<Rightarrow> (broadcast (snd (Deliver K J raw b)) raw, snd (Deliver K J raw b)))"

definition PushDeals where "PushDeals K J d b = push_encoded K J (EncodeDeals K J d) b"
definition PushResponses where "PushResponses K J r b = push_encoded K J (EncodeResponses J r) b"
definition PushJustifications where
  "PushJustifications K J j b = push_encoded K J (EncodeJustifications K J j) b"

section \<open>Runs of a board\<close>

text \<open>
  What can happen to a board, each event with its answer: a bundle is delivered (by the endpoint
  or by the participant itself), the protocol receives, the retry window is set, the board is
  closed.  Everything but a receive and a failing decode needs the mutex.
\<close>

datatype ('s, 'g2) board_event =
    Delivered "byte list" "deliver_error option"
  | Received channel "('s, 'g2) ceremony_bundle"
  | WindowSet duration
  | Closed

inductive board_step ::
  "('s, 'g1, 'g2, 'gt) kyber \<Rightarrow> json_library \<Rightarrow> ('s, 'g2) board \<Rightarrow> ('s, 'g2) board_event \<Rightarrow>
    ('s, 'g2) board \<Rightarrow> bool"
  for K J where
  deliver: "b_waiting b = None \<Longrightarrow> Deliver K J raw b = (r, b') \<Longrightarrow> board_step K J b (Delivered raw r) b'"
| garbage: "decode_bundle K J raw = Inl e \<Longrightarrow> board_step K J b (Delivered raw (Some (Undecodable e))) b"
| receives: "receive c b = Some (x, b') \<Longrightarrow> board_step K J b (Received c x) b'"
| window: "b_waiting b = None \<Longrightarrow> board_step K J b (WindowSet d) (SetRetryWindow d b)"
| close: "b_waiting b = None \<Longrightarrow> board_step K J b Closed (Close b)"

inductive board_run ::
  "('s, 'g1, 'g2, 'gt) kyber \<Rightarrow> json_library \<Rightarrow> ('s, 'g2) board \<Rightarrow> ('s, 'g2) board_event list \<Rightarrow>
    ('s, 'g2) board \<Rightarrow> bool"
  for K J b where
  start: "board_run K J b [] b"
| next_step: "board_run K J b es b' \<Longrightarrow> board_step K J b' e b'' \<Longrightarrow> board_run K J b (es @ [e]) b''"

inductive_cases board_stepE: "board_step K J b e b'"
inductive_cases board_step_ClosedE: "board_step K J b Closed b'"

text \<open>What a run accepted for a channel, and what the protocol received from it.\<close>

fun accepted_by ::
  "('s, 'g1, 'g2, 'gt) kyber \<Rightarrow> json_library \<Rightarrow> channel \<Rightarrow> ('s, 'g2) board_event \<Rightarrow> ('s, 'g2) ceremony_bundle list" where
  "accepted_by K J c (Delivered raw None) =
     (case decode_bundle K J raw of Inl e \<Rightarrow> [] | Inr x \<Rightarrow> if channel_of x = c then [x] else [])"
| "accepted_by K J c _ = []"

fun received_from :: "channel \<Rightarrow> ('s, 'g2) board_event \<Rightarrow> ('s, 'g2) ceremony_bundle list" where
  "received_from c (Received c' x) = (if c' = c then [x] else [])"
| "received_from c _ = []"

definition accepted where "accepted K J c es = concat (map (accepted_by K J c) es)"
definition received where "received c es = concat (map (received_from c) es)"

text \<open>What a channel still holds, with the bundle whose sender waits.\<close>

definition pending :: "channel \<Rightarrow> ('s, 'g2) board \<Rightarrow> ('s, 'g2) ceremony_bundle list" where
  "pending c b = b_chan b c @ (case b_waiting b of Some w \<Rightarrow> if channel_of w = c then [w] else [] | None \<Rightarrow> [])"

text \<open>Well-formed boards: no channel above its capacity, and a sender waits only for a full channel of an open board.\<close>

definition board_ok :: "('s, 'g2) board \<Rightarrow> bool" where
  "board_ok b \<longleftrightarrow> 0 < b_capacity b \<and> (\<forall>c. length (b_chan b c) \<le> b_capacity b) \<and>
     (\<forall>w. b_waiting b = Some w \<longrightarrow> \<not> b_closed b \<and> length (b_chan b (channel_of w)) = b_capacity b)"

section \<open>Lemmas\<close>

lemma board_ok_New: "board_ok (NewBoard peers buffer)"
  by (simp add: board_ok_def NewBoard_def)

lemma capacity_New: "b_capacity (NewBoard peers buffer) = nat (max 8 buffer)"
  by (simp add: NewBoard_def)

lemma board_ok_push:
  "board_ok b \<Longrightarrow> b_waiting b = None \<Longrightarrow> board_ok (snd (push x b))"
  by (auto simp: board_ok_def push_def append_bundle_def)
     (metis le_antisym not_less)

lemma board_ok_Deliver:
  "board_ok b \<Longrightarrow> b_waiting b = None \<Longrightarrow> board_ok (snd (Deliver K J raw b))"
  by (simp add: Deliver_def board_ok_push split: sum.splits)

lemma receive_cases:
  assumes "receive c b = Some (x, b')"
  obtains (quiet) xs where "b_chan b c = x # xs" "\<forall>w. b_waiting b = Some w \<longrightarrow> channel_of w \<noteq> c"
      "b' = b\<lparr>b_chan := (b_chan b)(c := xs)\<rparr>"
  | (release) xs w where "b_chan b c = x # xs" "b_waiting b = Some w" "channel_of w = c"
      "b' = b\<lparr>b_chan := (b_chan b)(c := xs @ [w]), b_waiting := None\<rparr>"
proof -
  obtain xs where xs: "b_chan b c = x # xs"
    using assms by (cases "b_chan b c") (auto simp: receive_def Let_def)
  show ?thesis
  proof (cases "\<exists>w. b_waiting b = Some w \<and> channel_of w = c")
    case True
    then obtain w where "b_waiting b = Some w" "channel_of w = c" by blast
    with xs assms show ?thesis
      by (intro release[OF xs, of w]) (auto simp: receive_def append_bundle_def Let_def)
  next
    case False
    with xs assms show ?thesis
      by (intro quiet[OF xs]) (auto simp: receive_def Let_def split: option.splits)
  qed
qed

lemma board_ok_receive:
  assumes "board_ok b" and "receive c b = Some (x, b')" shows "board_ok b'"
  using assms(2)
proof (cases rule: receive_cases)
  case (quiet xs)
  then have "length xs \<le> b_capacity b" using assms(1) unfolding board_ok_def by (metis Suc_leD length_Cons)
  with quiet assms(1) show ?thesis by (auto simp: board_ok_def)
next
  case (release xs w)
  then have "Suc (length xs) = b_capacity b" using assms(1) by (auto simp: board_ok_def)
  with release assms(1) show ?thesis by (auto simp: board_ok_def)
qed

lemma board_ok_step: "board_step K J b e b' \<Longrightarrow> board_ok b \<Longrightarrow> board_ok b'"
proof (induction rule: board_step.induct)
  case (deliver b raw r b')
  then show ?case using board_ok_Deliver[of b K J raw] by simp
next
  case (receives c b x b')
  then show ?case using board_ok_receive by blast
qed (auto simp: board_ok_def SetRetryWindow_def Close_def)

lemma board_ok_run: "board_run K J b es b' \<Longrightarrow> board_ok b \<Longrightarrow> board_ok b'"
  by (induction rule: board_run.induct) (auto intro: board_ok_step)

lemma pending_New: "pending c (NewBoard peers buffer) = []"
  by (simp add: pending_def NewBoard_def)

lemma pending_append: "b_waiting b = None \<Longrightarrow>
    pending c (append_bundle x b) = pending c b @ (if channel_of x = c then [x] else [])"
  by (simp add: pending_def append_bundle_def)

lemma pending_push:
  "b_waiting b = None \<Longrightarrow> push x b = (r, b') \<Longrightarrow>
   pending c b' = pending c b @ (if r = None \<and> channel_of x = c then [x] else [])"
  by (auto simp: push_def pending_append split: if_splits) (auto simp: pending_def)

lemma pending_receive:
  assumes "receive c b = Some (x, b')"
  shows "pending d b = (if d = c then [x] else []) @ pending d b'"
  using assms by (cases rule: receive_cases) (auto simp: pending_def split: option.splits)

text \<open>One step of the board is one step of an unbounded queue per channel.\<close>

lemma board_step_queue:
  "board_step K J b e b' \<Longrightarrow>
   pending c b @ accepted_by K J c e = received_from c e @ pending c b'"
proof (induction rule: board_step.induct)
  case (deliver b raw r b')
  show ?case
  proof (cases "decode_bundle K J raw")
    case (Inl e)
    with deliver show ?thesis by (auto simp: Deliver_def)
  next
    case (Inr x)
    with deliver have "push x b = (r, b')" by (simp add: Deliver_def)
    from pending_push[OF deliver(1) this, of c] Inr show ?thesis by (cases r) auto
  qed
next
  case (receives c' b x b')
  then show ?case using pending_receive[OF receives, of c] by simp
qed (simp_all add: pending_def SetRetryWindow_def Close_def)

lemma board_run_queue:
  "board_run K J b es b' \<Longrightarrow> pending c b @ accepted K J c es = received c es @ pending c b'"
proof (induction rule: board_run.induct)
  case (next_step es b' e b'')
  have "pending c b @ accepted K J c (es @ [e]) = received c es @ pending c b' @ accepted_by K J c e"
    using next_step.IH by (simp add: accepted_def)
  also have "\<dots> = received c (es @ [e]) @ pending c b''"
    using board_step_queue[OF next_step.hyps(2), of c] by (simp add: received_def)
  finally show ?case .
qed (simp add: accepted_def received_def)

lemma closed_step:
  "board_step K J b e b' \<Longrightarrow> b_closed b \<Longrightarrow> b_closed b' \<and> accepted_by K J c e = []"
proof (induction rule: board_step.induct)
  case (receives c' b x b')
  from receives(1) show ?case using receives(2) by (cases rule: receive_cases) auto
qed (auto simp: Deliver_def push_def SetRetryWindow_def Close_def split: sum.splits if_splits)

lemma closed_run:
  "board_run K J b es b' \<Longrightarrow> b_closed b \<Longrightarrow> b_closed b' \<and> accepted K J c es = []"
  by (induction rule: board_run.induct) (auto simp: accepted_def dest: closed_step[where c = c])

lemma waiting_step:
  assumes "board_step K J b e b'" and "b_waiting b = Some w" and "\<forall>y. e \<noteq> Received (channel_of w) y"
  shows "b_waiting b' = Some w \<and> e \<noteq> Closed \<and> b_closed b' = b_closed b"
  using assms
proof (induction rule: board_step.induct)
  case (receives c b x b')
  from receives(1) show ?case using receives(2,3) by (cases rule: receive_cases) auto
qed auto

lemma waiting_run:
  "board_run K J b es b' \<Longrightarrow> b_waiting b = Some w \<Longrightarrow> \<forall>y. Received (channel_of w) y \<notin> set es \<Longrightarrow>
   b_waiting b' = Some w \<and> Closed \<notin> set es \<and> b_closed b' = b_closed b"
proof (induction rule: board_run.induct)
  case (next_step es b' e b'')
  then have "b_waiting b' = Some w \<and> Closed \<notin> set es \<and> b_closed b' = b_closed b" by auto
  moreover have "b_waiting b'' = Some w \<and> e \<noteq> Closed \<and> b_closed b'' = b_closed b'"
    using next_step calculation by (intro waiting_step[OF next_step.hyps(2)]) auto
  ultimately show ?case by auto
qed simp

text \<open>Filling a channel that nobody reads: \<open>n\<close> bundles take their places, one more makes its sender wait.\<close>

lemma filling_run:
  assumes "decode_bundle K J raw = Inr x" and "n \<le> b_capacity (NewBoard peers buffer)"
  shows "board_run K J (NewBoard peers buffer) (replicate n (Delivered raw None))
    ((NewBoard peers buffer)\<lparr>b_chan := (\<lambda>_. [])(channel_of x := replicate n x)\<rparr>)"
  using assms(2)
proof (induction n)
  case 0
  then show ?case by (simp add: board_run.start fun_upd_idem NewBoard_def)
next
  case (Suc n)
  let ?b = "(NewBoard peers buffer)\<lparr>b_chan := (\<lambda>_. [])(channel_of x := replicate n x)\<rparr>"
  have "board_step K J ?b (Delivered raw None)
      ((NewBoard peers buffer)\<lparr>b_chan := (\<lambda>_. [])(channel_of x := replicate (Suc n) x)\<rparr>)"
    using assms(1) Suc.prems
    by (intro board_step.deliver)
       (simp_all add: NewBoard_def Deliver_def push_def append_bundle_def replicate_append_same)
  from board_run.next_step[OF Suc.IH[OF Suc_leD[OF Suc.prems]] this] show ?case
    by (simp only: replicate_append_same replicate_Suc)
qed

lemma overfull_run:
  assumes "decode_bundle K J raw = Inr x"
  shows "\<exists>b. board_run K J (NewBoard peers buffer)
      (replicate (b_capacity (NewBoard peers buffer :: ('s, 'g2) board) + 1) (Delivered raw None)) b \<and>
    b_waiting b = Some (x :: ('s, 'g2) ceremony_bundle)"
proof -
  let ?n = "b_capacity (NewBoard peers buffer :: ('s, 'g2) board)"
  let ?b = "(NewBoard peers buffer)\<lparr>b_chan := (\<lambda>_. [])(channel_of x := replicate ?n x)\<rparr>"
  have "board_step K J ?b (Delivered raw None) (?b\<lparr>b_waiting := Some x\<rparr>)"
    using assms by (intro board_step.deliver) (simp_all add: NewBoard_def Deliver_def push_def)
  from board_run.next_step[OF filling_run[OF assms order_refl] this]
  have "board_run K J (NewBoard peers buffer) (replicate (?n + 1) (Delivered raw None)) (?b\<lparr>b_waiting := Some x\<rparr>)"
    by (simp add: replicate_append_same)
  then show ?thesis by (intro exI[of _ "?b\<lparr>b_waiting := Some x\<rparr>"]) simp
qed

section \<open>Delivery with retries\<close>

text \<open>\<open>post\<close>: the URL, and whether the peer's answer counts as an error.\<close>

definition post_target :: "string \<Rightarrow> string" where
  "post_target peer = trim_suffix ''/'' peer @ BundlePath"

definition post_error :: "(string \<Rightarrow> string + int) \<Rightarrow> string \<Rightarrow> string option" where
  "post_error endpoint peer =
     (case endpoint (post_target peer) of
        Inl e \<Rightarrow> Some e
      | Inr status \<Rightarrow> if 400 \<le> status then Some ''status'' else None)"

text \<open>
  What one round of \<open>deliver\<close> observes: the error of its post, the clock after it, and whether the
  board is closed by then.  The loop returns the number of posts made and the error, if any.
\<close>

record attempt =
  a_error :: "string option"
  a_now :: int
  a_closed :: bool

definition next_delay :: "duration \<Rightarrow> duration" where
  "next_delay delay = (if delay < seconds 4 then delay * 2 else delay)"

partial_function (option) deliver_loop ::
  "(nat \<Rightarrow> attempt) \<Rightarrow> int \<Rightarrow> nat \<Rightarrow> duration \<Rightarrow> (nat \<times> string option) option" where
  "deliver_loop world deadline k delay =
     (case a_error (world k) of
        None \<Rightarrow> Some (k + 1, None)
      | Some e \<Rightarrow>
          if deadline < a_now (world k) + delay \<or> a_closed (world k) then Some (k + 1, Some e)
          else deliver_loop world deadline (k + 1) (next_delay delay))"

definition deliver_bundle ::
  "(nat \<Rightarrow> attempt) \<Rightarrow> int \<Rightarrow> duration \<Rightarrow> (nat \<times> string option) option" where
  "deliver_bundle world started window =
     deliver_loop world (started + window) 0 (milliseconds 250)"

text \<open>The delay after attempt \<open>k\<close>, and the time slept before it.\<close>

fun delay_after :: "nat \<Rightarrow> duration" where
  "delay_after 0 = milliseconds 250"
| "delay_after (Suc k) = next_delay (delay_after k)"

definition slept_before :: "nat \<Rightarrow> duration" where
  "slept_before k = sum_list (map delay_after [0..<k])"

text \<open>A sleep lasts at least as long as it was asked to.\<close>

definition sleeps :: "(nat \<Rightarrow> attempt) \<Rightarrow> int \<Rightarrow> bool" where
  "sleeps world started \<longleftrightarrow>
     started \<le> a_now (world 0) \<and> (\<forall>k. a_now (world k) + delay_after k \<le> a_now (world (k + 1)))"

text \<open>Attempt \<open>k\<close> is the last one.\<close>

definition gives_up :: "(nat \<Rightarrow> attempt) \<Rightarrow> int \<Rightarrow> nat \<Rightarrow> bool" where
  "gives_up world deadline k \<longleftrightarrow>
     a_error (world k) = None \<or> deadline < a_now (world k) + delay_after k \<or> a_closed (world k)"

lemma delay_after_pos: "0 < delay_after k"
  by (induction k) (simp_all add: next_delay_def)

lemma slept_before_Suc: "slept_before (Suc k) = slept_before k + delay_after k"
  by (simp add: slept_before_def)

lemma sleeps_now: "sleeps world started \<Longrightarrow> started + slept_before k \<le> a_now (world k)"
proof (induction k)
  case (Suc k)
  then have "started + slept_before k \<le> a_now (world k)" by simp
  moreover have "a_now (world k) + delay_after k \<le> a_now (world (Suc k))"
    using Suc.prems by (simp add: sleeps_def)
  ultimately show ?case by (simp add: slept_before_Suc)
qed (simp add: sleeps_def slept_before_def)

lemma deliver_loop_until:
  "\<forall>i \<in> {k..<m}. \<not> gives_up world deadline i \<Longrightarrow> k \<le> m \<Longrightarrow> gives_up world deadline m \<Longrightarrow>
   deliver_loop world deadline k (delay_after k) = Some (m + 1, a_error (world m))"
proof (induction "m - k" arbitrary: k)
  case 0
  then have "k = m" by simp
  with 0 show ?case
    by (subst deliver_loop.simps) (auto simp: gives_up_def split: option.splits)
next
  case (Suc d)
  then have "k < m" by simp
  then have "\<not> gives_up world deadline k" using Suc.prems by simp
  moreover have "deliver_loop world deadline (Suc k) (delay_after (Suc k)) = Some (m + 1, a_error (world m))"
    using Suc \<open>k < m\<close> by (intro Suc.hyps(1)) auto
  ultimately show ?case
    by (subst deliver_loop.simps) (auto simp: gives_up_def split: option.splits)
qed

lemma gives_up_exists:
  assumes "sleeps world started" and "window < slept_before (Suc m)"
  shows "gives_up world (started + window) m"
  using sleeps_now[OF assms(1), of m] assms(2) by (simp add: gives_up_def slept_before_Suc)

section \<open>Concrete runs\<close>

definition demo_responses :: response_bundle where
  "demo_responses = \<lparr>rb_ShareIndex = 1, rb_Responses = [\<lparr>r_DealerIndex = 0, r_Status = True\<rparr>],
     rb_SessionID = [7], rb_Signature = [8, 9]\<rparr>"

definition demo_raw :: "byte list" where
  "demo_raw = the (print_responses tagged_json
     \<lparr>wrb_Kind = ''responses'', wrb_ShareIndex = 1,
      wrb_Responses = [\<lparr>wr_DealerIndex = 0, wr_Status = True\<rparr>],
      wrb_SessionID = toHex [7], wrb_Signature = toHex [8, 9]\<rparr>)"

lemma demo_raw_decodes: "decode_bundle small_kyber tagged_json demo_raw = Inr (RespB demo_responses)"
proof -
  have "EncodeResponses tagged_json demo_responses = Inr demo_raw"
    by (simp add: EncodeResponses_def demo_responses_def demo_raw_def tagged_json_def printed_def)
  with responses_roundtrip[OF tagged_json_laws, of demo_responses]
  show ?thesis by (auto simp: decode_bundle_def)
qed

section \<open>Properties\<close>

text \<open>
  C28.  Each channel of the board is a first-in first-out queue.  Over any run of deliveries, receives,
  window changes and closing, from a fresh board, the bundles the board took in for a channel are,
  in order, those the protocol received from it followed by those the board still holds: none
  is lost, doubled or overtaken.  No channel ever holds more than its capacity.
\<close>

theorem board_is_a_queue:
  assumes "board_run K J (NewBoard peers buffer) es b"
  shows "accepted K J c es = received c es @ pending c b \<and>
         length (b_chan b c) \<le> nat (max 8 buffer) \<and> length (pending c b) \<le> nat (max 8 buffer) + 1"
proof -
  have fixed: "b_capacity b = nat (max 8 buffer)"
    using assms
  proof (induction rule: board_run.induct)
    case (next_step es b' e b'')
    have "b_capacity b'' = b_capacity b'"
      using next_step.hyps(2)
    proof (cases rule: board_step.cases)
      case (receives c x)
      from receives(2) show ?thesis by (cases rule: receive_cases) auto
    qed (auto simp: Deliver_def push_def append_bundle_def SetRetryWindow_def Close_def
        split: sum.splits if_splits)
    with next_step.IH show ?case by simp
  qed (simp add: NewBoard_def)
  have "length (b_chan b c) \<le> b_capacity b"
    using board_ok_run[OF assms board_ok_New] by (simp add: board_ok_def)
  then have "length (b_chan b c) \<le> nat (max 8 buffer)" using fixed by simp
  moreover have "accepted K J c es = received c es @ pending c b"
    using board_run_queue[OF assms, of c] by (simp add: pending_New)
  ultimately show ?thesis by (auto simp: pending_def split: option.splits)
qed

theorem board_is_a_queue_witness:
  "accepted small_kyber tagged_json RespsC [Delivered demo_raw None, Received RespsC (RespB demo_responses)] =
     [RespB demo_responses] \<and>
   (\<exists>b. board_run small_kyber tagged_json (NewBoard [] 9)
      [Delivered demo_raw None, Received RespsC (RespB demo_responses)] b \<and> pending RespsC b = [])"
proof -
  let ?K = small_kyber and ?J = tagged_json and ?x = "RespB demo_responses"
  let ?b0 = "NewBoard [] 9 :: (gf11, gf11) board"
  let ?b1 = "append_bundle ?x ?b0"
  have "board_step ?K ?J ?b0 (Delivered demo_raw None) ?b1"
    by (rule board_step.deliver) (simp_all add: NewBoard_def Deliver_def push_def demo_raw_decodes)
  moreover obtain b2 where "receive RespsC ?b1 = Some (?x, b2)"
    by (simp add: receive_def append_bundle_def NewBoard_def)
  then have "board_step ?K ?J ?b1 (Received RespsC ?x) b2" by (rule board_step.receives)
  ultimately have run: "board_run ?K ?J ?b0 [Delivered demo_raw None, Received RespsC ?x] b2"
    using board_run.next_step[OF board_run.next_step[OF board_run.start]] by fastforce
  have "accepted ?K ?J RespsC [Delivered demo_raw None, Received RespsC ?x] = [?x]"
    by (simp add: accepted_def demo_raw_decodes)
  moreover from this have "pending RespsC b2 = []"
    using board_is_a_queue[OF run, of RespsC] by (simp add: received_def)
  ultimately show ?thesis using run by blast
qed

text \<open>
  C31.  A channel that nobody reads keeps the board from closing.  After as many copies of one
  decodable bundle as the channel has places, and one more, the sender of the last waits inside
  the mutex; from then on, as long as the protocol does not read that channel, the board
  is never closed, whatever else happens.  \<open>Close\<close>, which the ceremony calls after the
  protocol has ended and before it saves the share, does not return.
\<close>

theorem unread_channel_blocks_close:
  assumes "decode_bundle K J raw = Inr x"
  shows "\<exists>b. board_run K J (NewBoard peers buffer) (replicate (nat (max 8 buffer) + 1) (Delivered raw None)) b \<and>
     (\<forall>es b'. board_run K J b es b' \<longrightarrow> (\<forall>y. Received (channel_of x) y \<notin> set es) \<longrightarrow>
        Closed \<notin> set es \<and> \<not> b_closed b')"
proof -
  obtain b where b: "board_run K J (NewBoard peers buffer)
      (replicate (nat (max 8 buffer) + 1) (Delivered raw None)) b" "b_waiting b = Some x"
    using overfull_run[OF assms, of peers buffer] unfolding capacity_New by blast
  have "\<not> b_closed b"
    using board_ok_run[OF b(1) board_ok_New] b(2) by (auto simp: board_ok_def)
  with b show ?thesis by (intro exI[of _ b]) (auto dest: waiting_run)
qed

theorem unread_channel_blocks_close_witness:
  "\<exists>b. board_run small_kyber tagged_json (NewBoard [] 28) (replicate 29 (Delivered demo_raw None)) b \<and>
     (\<forall>es b'. board_run small_kyber tagged_json b es b' \<longrightarrow> (\<forall>y. Received RespsC y \<notin> set es) \<longrightarrow>
        Closed \<notin> set es \<and> \<not> b_closed b')"
  using unread_channel_blocks_close[OF demo_raw_decodes, of "[]" 28] by simp

text \<open>
  A closed board takes nothing in.  From a closing on, every delivery is refused, and what the board
  held before can still be received.
\<close>

theorem closed_board_accepts_nothing:
  assumes "board_run K J b (es @ [Closed]) b1" and "board_run K J b1 es' b2"
  shows "b_closed b2 \<and> accepted K J c es' = [] \<and> pending c b1 = received c es' @ pending c b2"
proof -
  have "b_closed b1"
    using assms(1) by (cases rule: board_run.cases) (auto elim!: board_step_ClosedE simp: Close_def)
  with closed_run[OF assms(2)] board_run_queue[OF assms(2), of c] show ?thesis by auto
qed

theorem closed_board_accepts_nothing_witness:
  "\<exists>b1. board_run small_kyber tagged_json (NewBoard [] 9 :: (gf11, gf11) board) ([] @ [Closed]) b1 \<and>
     accepted small_kyber tagged_json RespsC [Delivered demo_raw (Some CeremonyIsOver)] = []"
proof -
  let ?b0 = "NewBoard [] 9 :: (gf11, gf11) board"
  have "board_run small_kyber tagged_json ?b0 ([] @ [Closed]) (Close ?b0)"
    by (intro board_run.next_step[OF board_run.start] board_step.close) (simp add: NewBoard_def)
  moreover have "board_run small_kyber tagged_json (Close ?b0) ([] @ [Delivered demo_raw (Some CeremonyIsOver)]) (Close ?b0)"
    by (intro board_run.next_step[OF board_run.start] board_step.deliver)
       (simp_all add: NewBoard_def Close_def Deliver_def push_def demo_raw_decodes)
  ultimately show ?thesis
    using closed_board_accepts_nothing[of small_kyber tagged_json ?b0 "[]" "Close ?b0" "[] @ [Delivered demo_raw (Some CeremonyIsOver)]" "Close ?b0" RespsC]
    by auto
qed

text \<open>A board that is open, with a free mutex and a free place in a channel.\<close>

definition has_room :: "('s, 'g2) board \<Rightarrow> channel \<Rightarrow> bool" where
  "has_room b c \<longleftrightarrow> b_waiting b = None \<and> \<not> b_closed b \<and> length (b_chan b c) < b_capacity b"

lemma push_encoded_arrives:
  assumes "enc = Inr raw" and "decode_bundle K J raw = Inr x" and "has_room b (channel_of x)"
  shows "push_encoded K J enc b = (map (\<lambda>peer. (peer, raw, b_retryWindow b)) (b_peers b), append_bundle x b)"
    and "has_room b' (channel_of x) \<Longrightarrow> Deliver K J raw b' = (None, append_bundle x b')"
  using assms by (simp_all add: push_encoded_def broadcast_def Deliver_def push_def has_room_def append_bundle_def)

text \<open>
  What a participant pushes is what every other participant gets.  Pushing a bundle of any kind
  to an open board with nobody waiting appends it to the participant's own channel or leaves
  its sender waiting for a place there, and starts one delivery per peer; that text, delivered to any
  open board with room, appends the very same bundle there.
\<close>

theorem pushed_bundle_arrives:
  assumes "json_laws J" and "g2_codec K" and "scalar_codec K" and "\<forall>c. has_room b c" and "\<forall>c. has_room b' c"
  shows "(\<exists>raw. PushDeals K J d b = (map (\<lambda>peer. (peer, raw, b_retryWindow b)) (b_peers b), append_bundle (DealB d) b) \<and>
            Deliver K J raw b' = (None, append_bundle (DealB d) b')) \<and>
         (\<exists>raw. PushResponses K J r b = (map (\<lambda>peer. (peer, raw, b_retryWindow b)) (b_peers b), append_bundle (RespB r) b) \<and>
            Deliver K J raw b' = (None, append_bundle (RespB r) b')) \<and>
         (\<exists>raw. PushJustifications K J j b = (map (\<lambda>peer. (peer, raw, b_retryWindow b)) (b_peers b), append_bundle (JustB j) b) \<and>
            Deliver K J raw b' = (None, append_bundle (JustB j) b'))"
proof (intro conjI)
  obtain raw where e: "EncodeDeals K J d = Inr raw" and k: "decode_bundle K J raw = Inr (DealB d)"
    using deals_roundtrip[OF assms(1,2), of d] by (auto simp: decode_bundle_def)
  show "\<exists>raw. PushDeals K J d b = (map (\<lambda>peer. (peer, raw, b_retryWindow b)) (b_peers b), append_bundle (DealB d) b) \<and>
            Deliver K J raw b' = (None, append_bundle (DealB d) b')"
    using push_encoded_arrives[OF e k] assms(4,5) unfolding PushDeals_def by blast
next
  obtain raw where e: "EncodeResponses J r = Inr raw" and k: "decode_bundle K J raw = Inr (RespB r)"
    using responses_roundtrip[OF assms(1), of r] by (auto simp: decode_bundle_def)
  show "\<exists>raw. PushResponses K J r b = (map (\<lambda>peer. (peer, raw, b_retryWindow b)) (b_peers b), append_bundle (RespB r) b) \<and>
            Deliver K J raw b' = (None, append_bundle (RespB r) b')"
    using push_encoded_arrives[OF e k] assms(4,5) unfolding PushResponses_def by blast
next
  obtain raw where e: "EncodeJustifications K J j = Inr raw" and k: "decode_bundle K J raw = Inr (JustB j)"
    using justifications_roundtrip[OF assms(1,3), of j] by (auto simp: decode_bundle_def)
  show "\<exists>raw. PushJustifications K J j b = (map (\<lambda>peer. (peer, raw, b_retryWindow b)) (b_peers b), append_bundle (JustB j) b) \<and>
            Deliver K J raw b' = (None, append_bundle (JustB j) b')"
    using push_encoded_arrives[OF e k] assms(4,5) unfolding PushJustifications_def by blast
qed

theorem pushed_bundle_arrives_witness:
  "\<exists>raw. fst (PushResponses small_kyber tagged_json demo_responses (NewBoard [''a'', ''b''] 0)) =
      [(''a'', raw, seconds 45), (''b'', raw, seconds 45)] \<and>
    Deliver small_kyber tagged_json raw (NewBoard [] 0 :: (gf11, gf11) board) =
      (None, append_bundle (RespB demo_responses) (NewBoard [] 0))"
proof -
  have room: "\<forall>c. has_room (NewBoard ps 0 :: (gf11, gf11) board) c" for ps
    by (simp add: has_room_def NewBoard_def)
  from pushed_bundle_arrives[OF tagged_json_laws small_codecs room room]
  have "\<exists>raw. PushResponses small_kyber tagged_json demo_responses (NewBoard [''a'', ''b''] 0) =
      (map (\<lambda>peer. (peer, raw, b_retryWindow (NewBoard [''a'', ''b''] 0 :: (gf11, gf11) board)))
        (b_peers (NewBoard [''a'', ''b''] 0 :: (gf11, gf11) board)),
       append_bundle (RespB demo_responses) (NewBoard [''a'', ''b''] 0)) \<and>
    Deliver small_kyber tagged_json raw (NewBoard [] 0 :: (gf11, gf11) board) =
      (None, append_bundle (RespB demo_responses) (NewBoard [] 0))"
    by blast
  then show ?thesis by (auto simp: NewBoard_def DefaultRetryWindow_def)
qed

text \<open>
  C36.  Delivery to a peer ends, and says how.  For a clock in which sleeps last at least as long as
  asked, the loop returns after finitely many posts, at the first one that is accepted, comes too
  late for another wait inside the window, or finds the board closed; it reports success
  exactly when that post was accepted.  All waiting together stays inside the window, and with the default window
  there are at most fifteen posts.
\<close>

theorem delivery_ends:
  assumes "sleeps world started" and "0 \<le> window"
  shows "\<exists>m. deliver_bundle world started window = Some (m + 1, a_error (world m)) \<and>
     gives_up world (started + window) m \<and> (\<forall>i < m. \<not> gives_up world (started + window) i) \<and>
     slept_before m \<le> window \<and> (window = DefaultRetryWindow \<longrightarrow> m + 1 \<le> 15)"
proof -
  have grows: "int k \<le> slept_before k" for k
  proof (induction k)
    case (Suc k)
    then show ?case using delay_after_pos[of k] by (simp add: slept_before_Suc)
  qed (simp add: slept_before_def)
  have "window < slept_before (Suc (nat window))"
    using grows[of "Suc (nat window)"] assms(2) by simp
  then have ex: "\<exists>m. gives_up world (started + window) m" using gives_up_exists[OF assms(1)] by blast
  define m where "m = (LEAST m. gives_up world (started + window) m)"
  have m: "gives_up world (started + window) m" "\<forall>i < m. \<not> gives_up world (started + window) i"
    unfolding m_def using ex by (auto intro: LeastI_ex dest: not_less_Least)
  then have "deliver_bundle world started window = Some (m + 1, a_error (world m))"
    using deliver_loop_until[of 0 m world "started + window"] by (simp add: deliver_bundle_def)
  moreover have bound: "slept_before m \<le> window"
  proof (cases m)
    case (Suc i)
    then have "\<not> gives_up world (started + window) i" using m by simp
    then show ?thesis using gives_up_exists[OF assms(1), of window i] Suc by (meson not_less)
  qed (use assms(2) in \<open>simp add: slept_before_def\<close>)
  moreover have "m + 1 \<le> 15" if w: "window = DefaultRetryWindow"
  proof (rule ccontr)
    have mono: "slept_before i \<le> slept_before (i + d)" for i d
    proof (induction d)
      case (Suc d)
      then show ?case using delay_after_pos[of "i + d"] by (simp add: slept_before_Suc)
    qed simp
    assume "\<not> m + 1 \<le> 15"
    then have "slept_before 15 \<le> slept_before m" using mono[of 15 "m - 15"] by simp
    moreover have "slept_before 15 > DefaultRetryWindow"
      by (simp add: slept_before_def DefaultRetryWindow_def next_delay_def eval_nat_numeral)
    ultimately show False using bound w by simp
  qed
  ultimately show ?thesis using m by blast
qed

text \<open>A peer that comes up with the third post; each post takes no time and each sleep its full length.\<close>

definition demo_world :: "nat \<Rightarrow> attempt" where
  "demo_world k = \<lparr>a_error = (if k < 2 then Some ''connection refused'' else None),
     a_now = slept_before k, a_closed = False\<rparr>"

theorem delivery_ends_witness:
  "deliver_bundle demo_world 0 DefaultRetryWindow = Some (3, None)"
proof -
  have s: "sleeps demo_world 0"
    by (simp add: sleeps_def demo_world_def slept_before_Suc slept_before_def[of 0])
  have g: "\<not> gives_up demo_world DefaultRetryWindow 0" "\<not> gives_up demo_world DefaultRetryWindow 1"
    "gives_up demo_world DefaultRetryWindow 2"
    by (simp_all add: gives_up_def demo_world_def slept_before_def DefaultRetryWindow_def next_delay_def)
  obtain m where m: "deliver_bundle demo_world 0 DefaultRetryWindow = Some (m + 1, a_error (demo_world m))"
    "gives_up demo_world DefaultRetryWindow m" "\<forall>i < m. \<not> gives_up demo_world DefaultRetryWindow i"
    using delivery_ends[OF s, of DefaultRetryWindow] by (auto simp: DefaultRetryWindow_def)
  have "m \<noteq> 0" using m(2) g(1) by (intro notI) simp
  moreover have "m \<noteq> 1" using m(2) g(2) by (intro notI) simp
  moreover have "\<not> 2 < m" using m(3) g(3) by blast
  ultimately have "m = 2" by simp
  with m(1) show ?thesis by (simp add: demo_world_def)
qed

end
