(* ===== verification/Tool_Ceremony.thy ===== *)
theory Tool_Ceremony
  imports Dkg_Board Keystore Blsvrf
begin

text \<open>
  The command that takes part in a networked ceremony: \<open>node/cmd/vrfceremony/main.go\<close>.  Its files, the
  identity it takes part with, the parameters it hands to the ceremony, and the order of what
  follows.  Flags are arguments; JSON parsing, the file contents and the ceremony's protocol are
  arguments as before; printing is left out.
\<close>

section \<open>Files\<close>

record memberJSON =
  mj_Index :: u32
  mj_Public :: string
  mj_URL :: string

record oldGroup =
  og_Threshold :: int
  og_Members :: "memberJSON list"
  og_Commits :: "string list"

record ceremonyConfig =
  cc_Epoch :: u64
  cc_Threshold :: int
  cc_Members :: "memberJSON list"
  cc_Old :: "oldGroup option"

record identityFile =
  if_Index :: u32
  if_Public :: string
  if_Private :: string

record ceremony_json =
  parse_config :: "byte list \<Rightarrow> ceremonyConfig option"
  print_identity :: "identityFile \<Rightarrow> byte list option"
  parse_identity :: "byte list \<Rightarrow> identityFile option"

datatype tool_error =
    FlagsRequired
  | PassphraseNotSet
  | CannotRead string
  | CannotWrite string
  | BadJson
  | SenselessThreshold int nat
  | KeystoreError keystore_error
  | NoIdentityInKeystore
  | ToolHex hex_error
  | ToolMarshal
  | ToolUnmarshal
  | MemberError u32 tool_error
  | RunError ceremony_error
  | KeyError bls_error

section \<open>Reading\<close>

definition readConfig :: "ceremony_json \<Rightarrow> (string \<Rightarrow> byte list option) \<Rightarrow> string \<Rightarrow> tool_error + ceremonyConfig" where
  "readConfig J disk path =
     (case disk path of
        None \<Rightarrow> Inl (CannotRead path)
      | Some raw \<Rightarrow> (case parse_config J raw of
          None \<Rightarrow> Inl BadJson
        | Some cfg \<Rightarrow>
            if cc_Threshold cfg < 1 \<or> int (length (cc_Members cfg)) < cc_Threshold cfg
            then Inl (SenselessThreshold (cc_Threshold cfg) (length (cc_Members cfg)))
            else Inr cfg))"

definition tool_decodePoint :: "('s, 'g1, 'g2, 'gt) kyber \<Rightarrow> string \<Rightarrow> tool_error + 'g2" where
  "tool_decodePoint K s =
     (case hex_decode (trim_prefix ''0x'' s) of
        Inl e \<Rightarrow> Inl (ToolHex e)
      | Inr raw \<Rightarrow> (case unmarshal_g2 K raw of None \<Rightarrow> Inl ToolUnmarshal | Some p \<Rightarrow> Inr p))"

definition toMembers ::
  "('s, 'g1, 'g2, 'gt) kyber \<Rightarrow> memberJSON list \<Rightarrow> tool_error + ('s, 'g2) member list" where
  "toMembers K ms = collect_all (\<lambda>m. case tool_decodePoint K (mj_Public m) of
       Inl e \<Rightarrow> Inl (MemberError (mj_Index m) e)
     | Inr point \<Rightarrow> Inr \<lparr>member_Index = mj_Index m, Longterm = None, Public = Some point\<rparr>) ms"

definition toPoints :: "('s, 'g1, 'g2, 'gt) kyber \<Rightarrow> string list \<Rightarrow> tool_error + 'g2 list" where
  "toPoints K ss = collect_all (tool_decodePoint K) ss"

text \<open>The loop of \<open>peerURLs\<close>: the URLs seen so far, and the result.\<close>

fun add_urls :: "u32 \<Rightarrow> (string, bool) gomap \<times> string list \<Rightarrow> memberJSON list \<Rightarrow>
    (string, bool) gomap \<times> string list" where
  "add_urls self (seen, out) [] = (seen, out)"
| "add_urls self (seen, out) (m # ms) =
     (if mj_Index m = self \<or> mj_URL m = '''' \<or> mget seen (mj_URL m) = Some True
      then add_urls self (seen, out) ms
      else add_urls self (mput seen (mj_URL m) True, out @ [mj_URL m]) ms)"

definition peerURLs :: "ceremonyConfig \<Rightarrow> u32 \<Rightarrow> string list" where
  "peerURLs cfg self =
     (let first = add_urls self (mempty, []) (cc_Members cfg) in
      snd (case cc_Old cfg of None \<Rightarrow> first | Some old \<Rightarrow> add_urls self first (og_Members old)))"

section \<open>Identities\<close>

text \<open>The text of a fresh identity file around the scalar \<open>longterm\<close>.\<close>

definition writeIdentity ::
  "('s, 'g1, 'g2, 'gt) kyber \<Rightarrow> ceremony_json \<Rightarrow> 's \<Rightarrow> os_answer \<Rightarrow> string \<Rightarrow> u32 \<Rightarrow>
    (string \<Rightarrow> byte list option) \<Rightarrow> tool_error option \<times> (string \<Rightarrow> byte list option)" where
  "writeIdentity K J longterm os path index disk =
     (case marshal_scalar K longterm of None \<Rightarrow> (Some ToolMarshal, disk) | Some secret \<Rightarrow>
      (case marshal_g2 K (mul_g2 K longterm (base_g2 K)) of None \<Rightarrow> (Some ToolMarshal, disk) | Some public \<Rightarrow>
      (case print_identity J \<lparr>if_Index = index, if_Public = ''0x'' @ hex_encode public,
                if_Private = ''0x'' @ hex_encode secret\<rparr> of
         None \<Rightarrow> (Some BadJson, disk)
       | Some body \<Rightarrow>
           (case os of
              Fine \<Rightarrow> (None, fs_apply (WriteTo path (body @ [10])) Fine disk)
            | Broken e n \<Rightarrow> (Some (CannotWrite e), fs_apply (WriteTo path (body @ [10])) (Broken e n) disk)))))"

definition loadSelf ::
  "('s, 'g1, 'g2, 'gt) kyber \<Rightarrow> ceremony_json \<Rightarrow> keystore_library \<Rightarrow> (string \<Rightarrow> byte list option) \<Rightarrow>
    string \<Rightarrow> string \<Rightarrow> string \<Rightarrow> u32 \<Rightarrow> tool_error + (('s, 'g2) member \<times> ('s, 'g2) share option)" where
  "loadSelf K J L disk identityPath oldKeystore passphrase index =
     (if oldKeystore \<noteq> '''' then
        (case Load K L disk oldKeystore passphrase of
           Inl e \<Rightarrow> Inl (KeystoreError e)
         | Inr share \<Rightarrow> (case Longterm (Member share) of
             None \<Rightarrow> Inl NoIdentityInKeystore
           | Some _ \<Rightarrow> Inr (Member share, Some share)))
      else
        (case disk identityPath of None \<Rightarrow> Inl (CannotRead identityPath) | Some raw \<Rightarrow>
        (case parse_identity J raw of None \<Rightarrow> Inl BadJson | Some f \<Rightarrow>
        (case hex_decode (trim_prefix ''0x'' (if_Private f)) of Inl e \<Rightarrow> Inl (ToolHex e) | Inr secret \<Rightarrow>
        (case unmarshal_scalar K secret of None \<Rightarrow> Inl ToolUnmarshal | Some l \<Rightarrow>
           Inr (\<lparr>member_Index = index, Longterm = Some l, Public = Some (mul_g2 K l (base_g2 K))\<rparr>, None))))))"

section \<open>Taking part\<close>

definition ceremony_params ::
  "('s, 'g1, 'g2, 'gt) kyber \<Rightarrow> ceremonyConfig \<Rightarrow> ('s, 'g2) member \<Rightarrow> ('s, 'g2) share option \<Rightarrow> duration \<Rightarrow>
    tool_error + ('s, 'g2) params" where
  "ceremony_params K cfg self old phase =
     (case toMembers K (cc_Members cfg) of Inl e \<Rightarrow> Inl e | Inr members \<Rightarrow>
      let p = \<lparr>Self = self, p_Members = members, p_Threshold = cc_Threshold cfg, Epoch = cc_Epoch cfg,
               PhasePeriod = phase, Old = old, OldMembers = [], OldThreshold = 0, OldCommits = None\<rparr> in
      (case cc_Old cfg of None \<Rightarrow> Inr p | Some g \<Rightarrow>
       (case toMembers K (og_Members g) of Inl e \<Rightarrow> Inl e | Inr oldMembers \<Rightarrow>
        (case toPoints K (og_Commits g) of Inl e \<Rightarrow> Inl e | Inr commits \<Rightarrow>
           Inr (p\<lparr>OldMembers := oldMembers, OldThreshold := og_Threshold g, OldCommits := Some commits\<rparr>)))))"

definition board_buffer :: "ceremonyConfig \<Rightarrow> int" where
  "board_buffer cfg = 4 * int (length (cc_Members cfg)) + 16"

text \<open>
  The board a participant listens on: the peers, four places per member and sixteen more, and the
  phase period as the retry window when it is the longer one.
\<close>

definition ceremony_board :: "ceremonyConfig \<Rightarrow> u32 \<Rightarrow> duration \<Rightarrow> ('s, 'g2) board" where
  "ceremony_board cfg index phase =
     (let b = NewBoard (peerURLs cfg index) (board_buffer cfg) in
      if DefaultRetryWindow < phase then SetRetryWindow phase b else b)"

text \<open>
  \<open>main\<close> after the flags, without \<open>-generate-identity\<close>.  \<open>closes\<close> says whether \<open>board.Close\<close> returns; when
  it does not, neither does \<open>main\<close>.
\<close>

definition ceremony_main ::
  "('s, 'g1, 'g2, 'gt) kyber \<Rightarrow> (byte list \<Rightarrow> byte list) \<Rightarrow> ceremony_json \<Rightarrow> keystore_library \<Rightarrow>
    (('s, 'g2) dkg_config \<Rightarrow> duration \<Rightarrow> ('s, 'g2) protocol_outcome) \<Rightarrow> bool \<Rightarrow>
    (string + byte list) \<times> (string + byte list) \<Rightarrow> (nat \<Rightarrow> os_answer) \<Rightarrow>
    string \<Rightarrow> string \<Rightarrow> string \<Rightarrow> string \<Rightarrow> string \<Rightarrow> u32 \<Rightarrow> duration \<Rightarrow>
    (string \<Rightarrow> byte list option) \<Rightarrow> ((tool_error + nat list) \<times> (string \<Rightarrow> byte list option)) option" where
  "ceremony_main K keccak J L protocol closes rnd os identity configPath out oldKey passphrase index phase disk =
     (if configPath = '''' \<or> out = '''' then Some (Inl FlagsRequired, disk)
      else if passphrase = '''' then Some (Inl PassphraseNotSet, disk)
      else case readConfig J disk configPath of Inl e \<Rightarrow> Some (Inl e, disk) | Inr cfg \<Rightarrow>
      (case loadSelf K J L disk identity oldKey passphrase index of Inl e \<Rightarrow> Some (Inl e, disk) | Inr (self, old) \<Rightarrow>
      (case ceremony_params K cfg self old phase of Inl e \<Rightarrow> Some (Inl e, disk) | Inr p \<Rightarrow>
       let result = Run K keccak protocol p in
       if \<not> closes then None
       else (case result of Inl e \<Rightarrow> Some (Inl (RunError e), disk) | Inr share \<Rightarrow>
      (case Save K L rnd os out passphrase share disk of (Some e, disk1) \<Rightarrow> Some (Inl (KeystoreError e), disk1)
       | (None, disk1) \<Rightarrow>
      (case SerializeG2 K (GroupPublic share) of Inl e \<Rightarrow> Some (Inl (KeyError e), disk1)
       | Inr pk \<Rightarrow> Some (Inr pk, disk1)))))))"

section \<open>Lemmas\<close>

lemma add_urls_invariant:
  "\<forall>u. mget seen u = Some True \<longleftrightarrow> u \<in> set out \<Longrightarrow> distinct out \<Longrightarrow>
   add_urls self (seen, out) ms = (seen', out') \<Longrightarrow>
   (\<forall>u. mget seen' u = Some True \<longleftrightarrow> u \<in> set out') \<and> distinct out' \<and>
   set out' = set out \<union> {mj_URL m |m. m \<in> set ms \<and> mj_Index m \<noteq> self \<and> mj_URL m \<noteq> ''''}"
proof (induction ms arbitrary: seen out)
  case (Cons m ms)
  show ?case
  proof (cases "mj_Index m = self \<or> mj_URL m = '''' \<or> mget seen (mj_URL m) = Some True")
    case True
    then have "add_urls self (seen, out) ms = (seen', out')" using Cons.prems(3) by simp
    from Cons.IH[OF Cons.prems(1,2) this] True Cons.prems(1) show ?thesis by auto
  next
    case False
    then have run: "add_urls self (mput seen (mj_URL m) True, out @ [mj_URL m]) ms = (seen', out')"
      using Cons.prems(3) by simp
    have a: "\<forall>u. mget (mput seen (mj_URL m) True) u = Some True \<longleftrightarrow> u \<in> set (out @ [mj_URL m])"
      using Cons.prems(1) by simp
    have "distinct (out @ [mj_URL m])" using False Cons.prems(1,2) by auto
    from Cons.IH[OF a this run] False show ?thesis by auto
  qed
qed simp

lemma Load_identity:
  "Load K L disk path pass = Inr sh \<Longrightarrow>
   Public (Member sh) = map_option (\<lambda>l. mul_g2 K l (base_g2 K)) (Longterm (Member sh))"
  by (auto simp: Load_def load_file_def unmarshalSecrets_def split: option.splits sum.splits if_splits)

lemma loadSelf_identity:
  assumes "loadSelf K J L disk identityPath oldKeystore passphrase index = Inr (self, old)"
  shows "Public self = map_option (\<lambda>l. mul_g2 K l (base_g2 K)) (Longterm self)"
proof (cases "oldKeystore = ''''")
  case True
  with assms show ?thesis by (auto simp: loadSelf_def split: option.splits sum.splits)
next
  case False
  then obtain sh where "Load K L disk oldKeystore passphrase = Inr sh" "self = Member sh"
    using assms by (auto simp: loadSelf_def split: option.splits sum.splits)
  then show ?thesis using Load_identity by blast
qed

lemma save_success_loads:
  assumes "keystore_laws L" and "scalar_codec K" and "g2_codec K" and "length nonce = gcm_nonce_size"
    and "Save K L (Inr salt, Inr nonce) os path pass sh disk = (None, disk')"
  shows "Load K L disk' path pass =
    Inr (sh\<lparr>Member := (Member sh)\<lparr>Public := map_option (\<lambda>l. mul_g2 K l (base_g2 K)) (Longterm (Member sh))\<rparr>\<rparr>)"
proof -
  obtain body where body: "save_body K L (Inr salt, Inr nonce) pass sh = Inr body"
    using assms(5) by (auto simp: Save_def split: sum.splits)
  then have "pass \<noteq> ''''" by (auto simp: save_body_def)
  then obtain d where d: "Save K L (Inr salt, Inr nonce) (\<lambda>k. Fine) path pass sh disk = (None, d)"
    "Load K L d path pass =
      Inr (sh\<lparr>Member := (Member sh)\<lparr>Public := map_option (\<lambda>l. mul_g2 K l (base_g2 K)) (Longterm (Member sh))\<rparr>\<rparr>)"
    using saved_share_loads[OF assms(1-3) _ assms(4), of pass "\<lambda>k. Fine" salt path sh disk] by auto
  have "disk' path = Some body" "d path = Some body"
    using assms(5) d(1) body by (auto simp: Save_def fs_run_save split: os_answer.splits)
  with d(2) show ?thesis by (simp add: Load_def)
qed

section \<open>Properties\<close>

text \<open>
  An identity that has been generated is the one taken part with.  After \<open>-generate-identity\<close> has
  written its file, reading it back for a first ceremony gives a member with the same
  long-term key and the public key that belongs to it, under the index given on the command
  line, and no old share.
\<close>

theorem identity_roundtrip:
  assumes "scalar_codec K" and "g2_codec K"
    and "\<forall>f. ascii (if_Public f) \<longrightarrow> ascii (if_Private f) \<longrightarrow>
       (\<exists>raw. print_identity J f = Some raw \<and> parse_identity J (raw @ [10]) = Some f)"
  shows "\<exists>disk'. writeIdentity K J l Fine path i disk = (None, disk') \<and>
     loadSelf K J L disk' path '''' pass index =
       Inr (\<lparr>member_Index = index, Longterm = Some l, Public = Some (mul_g2 K l (base_g2 K))\<rparr>, None)"
proof -
  obtain s where s: "marshal_scalar K l = Some s" "unmarshal_scalar K s = Some l"
    using assms(1) unfolding scalar_codec_def by blast
  obtain g where g: "marshal_g2 K (mul_g2 K l (base_g2 K)) = Some g"
    using assms(2) unfolding g2_codec_def by blast
  let ?f = "\<lparr>if_Index = i, if_Public = ''0x'' @ hex_encode g, if_Private = ''0x'' @ hex_encode s\<rparr>"
  have "ascii (if_Public ?f)" "ascii (if_Private ?f)"
    using ascii_hex_encode[of g] ascii_hex_encode[of s] by (auto simp: ascii_def)
  then obtain raw where "print_identity J ?f = Some raw" "parse_identity J (raw @ [10]) = Some ?f"
    using assms(3) by blast
  then show ?thesis
    using s g by (simp add: writeIdentity_def loadSelf_def trim_prefix_def)
qed

definition demo_ceremony_json :: ceremony_json where
  "demo_ceremony_json = \<lparr>parse_config = (\<lambda>bs. Some \<lparr>cc_Epoch = 1, cc_Threshold = 1,
       cc_Members = [\<lparr>mj_Index = 0, mj_Public = ''0x'' @ hex_encode (encode64 3 @ encode64 3), mj_URL = ''http://op0''\<rparr>],
       cc_Old = None\<rparr>),
     print_identity = (\<lambda>f. Some (put_word (if_Index f) @ put_string (if_Public f) @ put_string (if_Private f))),
     parse_identity = (\<lambda>bs. case get_word bs of None \<Rightarrow> None | Some (i, r) \<Rightarrow>
        (case get_string r of None \<Rightarrow> None | Some (p, r1) \<Rightarrow>
        (case get_string r1 of None \<Rightarrow> None | Some (s, r2) \<Rightarrow> Some \<lparr>if_Index = i, if_Public = p, if_Private = s\<rparr>)))\<rparr>"

lemma demo_ceremony_json_law:
  "\<exists>raw. print_identity demo_ceremony_json f = Some raw \<and> parse_identity demo_ceremony_json (raw @ [10]) = Some f"
  by (simp add: demo_ceremony_json_def)

theorem identity_roundtrip_witness:
  "\<exists>disk. writeIdentity small_kyber demo_ceremony_json 3 Fine ''identity.json'' 5 (\<lambda>p. None) = (None, disk) \<and>
     loadSelf small_kyber demo_ceremony_json plain_keystore disk ''identity.json'' '''' ''secret'' 5 =
       Inr (\<lparr>member_Index = 5, Longterm = Some 3, Public = Some 3\<rparr>, None)"
  using identity_roundtrip[OF small_codecs(2,1), of demo_ceremony_json 3 "''identity.json''" 5 "\<lambda>p. None" plain_keystore
      "''secret''" 5] demo_ceremony_json_law
  by (simp add: small_kyber_sel)

text \<open>
  A participant talks to everyone else, once.  The peers of a ceremony are the URLs of all old and new
  members under another index than its own, as far as they have one; each appears once
  even when it is in both groups.
\<close>

theorem peers_are_everyone_else:
  "distinct (peerURLs cfg self) \<and>
   set (peerURLs cfg self) =
     {mj_URL m |m. m \<in> set (cc_Members cfg) \<union> (case cc_Old cfg of None \<Rightarrow> {} | Some old \<Rightarrow> set (og_Members old)) \<and>
        mj_Index m \<noteq> self \<and> mj_URL m \<noteq> ''''}"
proof -
  obtain seen out where f: "add_urls self (mempty, []) (cc_Members cfg) = (seen, out)" by (metis prod.exhaust)
  then have i: "\<forall>u. mget seen u = Some True \<longleftrightarrow> u \<in> set out" "distinct out"
    "set out = {mj_URL m |m. m \<in> set (cc_Members cfg) \<and> mj_Index m \<noteq> self \<and> mj_URL m \<noteq> ''''}"
    using add_urls_invariant[of mempty "[]" self "cc_Members cfg" seen out] by auto
  show ?thesis
  proof (cases "cc_Old cfg")
    case None
    with f i show ?thesis by (simp add: peerURLs_def)
  next
    case (Some old)
    obtain seen' out' where g: "add_urls self (seen, out) (og_Members old) = (seen', out')" by (metis prod.exhaust)
    from add_urls_invariant[OF i(1,2) g] i(3) Some f g show ?thesis by (auto simp: peerURLs_def)
  qed
qed

text \<open>
  C27.  What the command prints belongs to what it has saved.  When it ends with a group key, the ceremony
  has returned a share, the file it wrote loads under the passphrase to exactly this share, and
  the printed key is the share's group key.
\<close>

theorem printed_key_is_saved:
  assumes "keystore_laws L" and "scalar_codec K" and "g2_codec K" and "length nonce = gcm_nonce_size"
    and "ceremony_main K keccak J L protocol closes (Inr salt, Inr nonce) os identity configPath out oldKey
           passphrase index phase disk = Some (Inr pk, disk')"
  shows "\<exists>p share. Run K keccak protocol p = Inr share \<and> Load K L disk' out passphrase = Inr share \<and>
     SerializeG2 K (GroupPublic share) = Inr pk"
proof -
  obtain cfg self old p share where s: "loadSelf K J L disk identity oldKey passphrase index = Inr (self, old)"
    "ceremony_params K cfg self old phase = Inr p" "Run K keccak protocol p = Inr share"
    "Save K L (Inr salt, Inr nonce) os out passphrase share disk = (None, disk')"
    "SerializeG2 K (GroupPublic share) = Inr pk"
    using assms(5) unfolding ceremony_main_def Let_def
    by (auto split: if_splits sum.splits option.splits prod.splits)
  have "Self p = self"
    using s(2) by (auto simp: ceremony_params_def Let_def split: sum.splits option.splits)
  then have "Member share = self"
    using s(3) by (auto simp: Run_def split: if_splits sum.splits protocol_outcome.splits)
  then have "share\<lparr>Member := (Member share)\<lparr>Public := map_option (\<lambda>l. mul_g2 K l (base_g2 K)) (Longterm (Member share))\<rparr>\<rparr> = share"
    using loadSelf_identity[OF s(1)] by simp
  with save_success_loads[OF assms(1-4) s(4)] s(3,5) show ?thesis by metis
qed

definition demo_protocol :: "(gf11, gf11) dkg_config \<Rightarrow> duration \<Rightarrow> (gf11, gf11) protocol_outcome" where
  "demo_protocol c d = Finished \<lparr>key_V = 5, key_Public = 7, key_Commits = [7]\<rparr>"

definition demo_disk :: "string \<Rightarrow> byte list option" where
  "demo_disk = [''id.json'' \<mapsto> put_word 0 @ put_string [] @ put_string (''0x'' @ hex_encode (encode64 3)) @ [10],
     ''ceremony.json'' \<mapsto> []]"

lemma demo_ceremony:
  "\<exists>pk disk'. ceremony_main small_kyber id demo_ceremony_json plain_keystore demo_protocol True
     (Inr [1], Inr (replicate 12 9)) (\<lambda>k. Fine) ''id.json'' ''ceremony.json'' ''out.json'' '''' ''secret'' 0 0 demo_disk =
     Some (Inr pk, disk')"
proof -
  let ?self = "\<lparr>member_Index = 0, Longterm = Some 3, Public = Some 3\<rparr> :: (gf11, gf11) member"
  let ?ms = "[\<lparr>member_Index = 0, Longterm = None, Public = Some 3\<rparr>] :: (gf11, gf11) member list"
  obtain cfg where c: "readConfig demo_ceremony_json demo_disk ''ceremony.json'' = Inr cfg"
    "cc_Members cfg = [\<lparr>mj_Index = 0, mj_Public = ''0x'' @ hex_encode (encode64 3 @ encode64 3), mj_URL = ''http://op0''\<rparr>]"
    "cc_Old cfg = None" "cc_Threshold cfg = 1"
    by (simp add: readConfig_def demo_disk_def demo_ceremony_json_def)
  have self: "loadSelf small_kyber demo_ceremony_json plain_keystore demo_disk ''id.json'' '''' ''secret'' 0 = Inr (?self, None)"
    by (simp add: loadSelf_def demo_disk_def demo_ceremony_json_def trim_prefix_def small_kyber_def)
  have "tool_decodePoint small_kyber (''0x'' @ hex_encode (encode64 3 @ encode64 3)) = Inr 3"
    by (simp add: tool_decodePoint_def trim_prefix_def small_kyber_def)
  then have "toMembers small_kyber (cc_Members cfg) = Inr ?ms" using c(2) by (simp add: toMembers_def)
  then obtain p where p: "ceremony_params small_kyber cfg ?self None 0 = Inr p" "p_Members p = ?ms" "p_Threshold p = 1"
    "Self p = ?self" "OldMembers p = []"
    using c(3,4) by (simp add: ceremony_params_def)
  have "\<exists>nonce. SessionNonce small_kyber id (Epoch p) (nonce_members p) = Inr nonce"
    using session_preimage_eq[OF small_codecs(1), of ?ms "Epoch p"] p
    by (simp add: SessionNonce_def nonce_members_def)
  then obtain share where r: "Run small_kyber id demo_protocol p = Inr share"
    using p by (auto simp: Run_def demo_protocol_def)
  obtain d where "Save small_kyber plain_keystore (Inr [1], Inr (replicate 12 9)) (\<lambda>k. Fine) ''out.json'' ''secret'' share demo_disk = (None, d)"
    using saved_share_loads[OF plain_keystore_laws small_codecs(2,1), of "''secret''" "replicate 12 9" "\<lambda>k. Fine"
        "[1]" "''out.json''" share demo_disk]
    by (auto simp: gcm_nonce_size_def)
  moreover obtain pk where "SerializeG2 small_kyber (GroupPublic share) = Inr pk"
    by (simp add: SerializeG2_def small_kyber_def)
  ultimately show ?thesis
    using c(1) self p(1) r by (simp add: ceremony_main_def)
qed

theorem printed_key_is_saved_witness:
  "\<exists>pk disk' p share. ceremony_main small_kyber id demo_ceremony_json plain_keystore demo_protocol True
     (Inr [1], Inr (replicate 12 9)) (\<lambda>k. Fine) ''id.json'' ''ceremony.json'' ''out.json'' '''' ''secret'' 0 0 demo_disk =
     Some (Inr pk, disk') \<and> Run small_kyber id demo_protocol p = Inr share \<and>
     Load small_kyber plain_keystore disk' ''out.json'' ''secret'' = Inr share"
proof -
  obtain pk disk' where m: "ceremony_main small_kyber id demo_ceremony_json plain_keystore demo_protocol True
     (Inr [1], Inr (replicate 12 9)) (\<lambda>k. Fine) ''id.json'' ''ceremony.json'' ''out.json'' '''' ''secret'' 0 0 demo_disk =
     Some (Inr pk, disk')"
    using demo_ceremony by blast
  have "length (replicate 12 (9 :: byte)) = gcm_nonce_size" by (simp add: gcm_nonce_size_def)
  from printed_key_is_saved[OF plain_keystore_laws small_codecs(2,1) this m] m show ?thesis by blast
qed

text \<open>
  Without \<open>-index\<close> a rotation excludes the wrong peer: the list leaves out operator 0, whatever the
  index in the keystore is.
\<close>

lemma default_index_leaves_out_operator_0:
  assumes "cc_Members cfg = [\<lparr>mj_Index = 0, mj_Public = p0, mj_URL = ''http://op0''\<rparr>,
     \<lparr>mj_Index = 3, mj_Public = p3, mj_URL = ''http://op3''\<rparr>]" and "cc_Old cfg = None"
  shows "peerURLs cfg 0 = [''http://op3'']" and "peerURLs cfg 3 = [''http://op0'']"
  using assms by (simp_all add: peerURLs_def)

end
