(* ===== verification/Tools_Files.thy ===== *)
theory Tools_Files
  imports Tools_Dkg Tool_Ceremony
begin

text \<open>
  What the ceremony commands leave on the disk beside the keystores, and how they end: \<open>group.json\<close>
  of \<open>node/cmd/vrfdkg/main.go\<close>, the vector file of \<open>node/cmd/gen-dkg-vector/main.go\<close>, and the two uses
  of \<open>node/cmd/vrfceremony/main.go\<close>.  The JSON printer is an argument.
\<close>

section \<open>The group file of vrfdkg\<close>

record group_file =
  gf_Epoch :: u64
  gf_Threshold :: int
  gf_Operators :: nat
  gf_GroupPublicKey :: "string list"
  gf_ConstructorArgs :: string

datatype vrfdkg_error =
    BeforeTheGroupFile dkg_tool_error
  | GroupFileJson
  | GroupFileError string

definition constructor_args :: "nat list \<Rightarrow> string" where
  "constructor_args pk =
     ''['' @ dec_of_nat (pk ! 0) @ '','' @ dec_of_nat (pk ! 1) @ '','' @ dec_of_nat (pk ! 2) @ '','' @
       dec_of_nat (pk ! 3) @ '']''"

definition group_of :: "u64 \<Rightarrow> int \<Rightarrow> nat \<Rightarrow> nat list \<Rightarrow> group_file" where
  "group_of epoch quorum operators pk =
     \<lparr>gf_Epoch = epoch, gf_Threshold = quorum, gf_Operators = operators,
      gf_GroupPublicKey = [''0x'' @ text16 (int (pk ! 0)), ''0x'' @ text16 (int (pk ! 1)),
                           ''0x'' @ text16 (int (pk ! 2)), ''0x'' @ text16 (int (pk ! 3))],
      gf_ConstructorArgs = constructor_args pk\<rparr>"

definition group_path :: "string \<Rightarrow> string" where
  "group_path dir = dir @ ''/group.json''"

definition write_group ::
  "(group_file \<Rightarrow> byte list option) \<Rightarrow> os_answer \<Rightarrow> string \<Rightarrow> group_file \<Rightarrow>
    (string \<Rightarrow> byte list option) \<Rightarrow> vrfdkg_error option \<times> (string \<Rightarrow> byte list option)" where
  "write_group print os dir g disk =
     (case print g of
        None \<Rightarrow> (Some GroupFileJson, disk)
      | Some body \<Rightarrow>
          ((case os of Fine \<Rightarrow> None | Broken e n \<Rightarrow> Some (GroupFileError e)),
           fs_apply (WriteTo (group_path dir) (body @ [10])) os disk))"

text \<open>The whole command: the keystores, then the group file; an error of either is exit status 1.\<close>

definition vrfdkg_main ::
  "('s, 'g1, 'g2, 'gt) kyber \<Rightarrow> (byte list \<Rightarrow> byte list) \<Rightarrow> ('h, 's, 'g2) dkg_library \<Rightarrow> (nat \<Rightarrow> 's) \<Rightarrow>
    keystore_library \<Rightarrow> (nat \<Rightarrow> (string + byte list) \<times> (string + byte list)) \<Rightarrow>
    (nat \<Rightarrow> nat \<Rightarrow> os_answer) \<Rightarrow> os_answer \<Rightarrow> (group_file \<Rightarrow> byte list option) \<Rightarrow> os_answer \<Rightarrow>
    nat \<Rightarrow> int \<Rightarrow> u64 \<Rightarrow> string \<Rightarrow> string \<Rightarrow> string \<Rightarrow> (string \<Rightarrow> byte list option) \<Rightarrow>
    vrfdkg_error option \<times> (string \<Rightarrow> byte list option)" where
  "vrfdkg_main K keccak D random L rnd os mkdir print os_group operators quorum epoch dir given env disk =
     (case dkg_main K keccak D random L rnd os mkdir operators quorum epoch dir given env disk of
        (Inl e, disk1) \<Rightarrow> (Some (BeforeTheGroupFile e), disk1)
      | (Inr pk, disk1) \<Rightarrow> write_group print os_group dir (group_of epoch quorum operators pk) disk1)"

section \<open>The vector file of gen-dkg-vector\<close>

datatype generator_error =
    NoVector vector_error
  | VectorDirectory string
  | VectorJson
  | VectorFile string

definition vector_path :: "string \<Rightarrow> string" where
  "vector_path out = (if out = '''' then ''../test/vectors/dkg.json'' else out)"

definition write_vector ::
  "(vector \<Rightarrow> byte list option) \<Rightarrow> os_answer \<Rightarrow> os_answer \<Rightarrow> string \<Rightarrow> vector \<Rightarrow>
    (string \<Rightarrow> byte list option) \<Rightarrow> generator_error option \<times> (string \<Rightarrow> byte list option)" where
  "write_vector print mkdir os out v disk =
     (case mkdir of Broken e _ \<Rightarrow> (Some (VectorDirectory e), disk) | Fine \<Rightarrow>
      (case print v of None \<Rightarrow> (Some VectorJson, disk) | Some body \<Rightarrow>
       ((case os of Fine \<Rightarrow> None | Broken e n \<Rightarrow> Some (VectorFile e)),
        fs_apply (WriteTo (vector_path out) (body @ [10])) os disk)))"

text \<open>\<open>main\<close>: the exit status and the disk.\<close>

definition generator_main ::
  "('s, 'g1, 'g2, 'gt) kyber \<Rightarrow> (byte list \<Rightarrow> byte list) \<Rightarrow> ('h, 's, 'g2) dkg_library \<Rightarrow> (nat \<Rightarrow> 's) \<Rightarrow>
    's \<Rightarrow> (vector \<Rightarrow> byte list option) \<Rightarrow> os_answer \<Rightarrow> os_answer \<Rightarrow> nat \<Rightarrow> nat \<Rightarrow> u64 \<Rightarrow> string \<Rightarrow>
    (string \<Rightarrow> byte list option) \<Rightarrow> nat \<times> (string \<Rightarrow> byte list option)" where
  "generator_main K keccak D random fresh print mkdir os n t epoch out disk =
     (let (e, disk1) = (case run_vector K keccak D random fresh n t epoch of
            Inl e \<Rightarrow> (Some (NoVector e), disk)
          | Inr v \<Rightarrow> write_vector print mkdir os out v disk) in
      ((case e of None \<Rightarrow> 0 | Some _ \<Rightarrow> 1), disk1))"

section \<open>The two uses of vrfceremony\<close>

text \<open>
  With \<open>-generate-identity\<close> the command writes an identity and ends; every other flag but \<open>-identity\<close>
  and \<open>-index\<close> is ignored.  The index on the command line is narrowed to 32 bits.
\<close>

definition vrfceremony_main ::
  "('s, 'g1, 'g2, 'gt) kyber \<Rightarrow> (byte list \<Rightarrow> byte list) \<Rightarrow> ceremony_json \<Rightarrow> keystore_library \<Rightarrow>
    (('s, 'g2) dkg_config \<Rightarrow> duration \<Rightarrow> ('s, 'g2) protocol_outcome) \<Rightarrow> bool \<Rightarrow>
    (string + byte list) \<times> (string + byte list) \<Rightarrow> (nat \<Rightarrow> os_answer) \<Rightarrow> 's \<Rightarrow> bool \<Rightarrow>
    string \<Rightarrow> string \<Rightarrow> string \<Rightarrow> string \<Rightarrow> string \<Rightarrow> u64 \<Rightarrow> duration \<Rightarrow>
    (string \<Rightarrow> byte list option) \<Rightarrow> ((tool_error + nat list option) \<times> (string \<Rightarrow> byte list option)) option" where
  "vrfceremony_main K keccak J L protocol closes rnd os fresh generate identity configPath out oldKey passphrase
       index phase disk =
     (if generate then
        (case writeIdentity K J fresh (os 0) identity (ucast index) disk of
           (Some e, disk1) \<Rightarrow> Some (Inl e, disk1)
         | (None, disk1) \<Rightarrow> Some (Inr None, disk1))
      else
        (case ceremony_main K keccak J L protocol closes rnd os identity configPath out oldKey passphrase
                (ucast index) phase disk of
           None \<Rightarrow> None
         | Some (Inl e, disk1) \<Rightarrow> Some (Inl e, disk1)
         | Some (Inr pk, disk1) \<Rightarrow> Some (Inr (Some pk), disk1)))"

section \<open>Lemmas\<close>

lemma dec_of_nat_no_comma [simp]: "CHR '','' \<notin> set (dec_of_nat n)"
proof
  assume "CHR '','' \<in> set (dec_of_nat n)"
  from dec_of_nat_digits[OF this] obtain d where "d < 10" "CHR '','' = decdigit d" by blast
  then show False unfolding all_lt_10 by (elim conjE insertE emptyE) (simp_all add: decdigit_def)
qed

text \<open>The constructor argument lists the four coordinates: between the brackets they can be read off.\<close>

lemma constructor_args_read:
  "length pk = 4 \<Longrightarrow> map (dec_digits 0) (split_on (CHR '','') (butlast (tl (constructor_args pk)))) = map Some pk"
  by (auto simp: constructor_args_def split_on_append split_on_none butlast_append numeral_eq_Suc length_Suc_conv)

lemma group_key_read:
  "length pk = 4 \<Longrightarrow> map (\<lambda>s. set_string16 (trim_prefix ''0x'' s)) (gf_GroupPublicKey (group_of e q n pk)) = map (Some \<circ> int) pk"
  by (auto simp: group_of_def trim_prefix_def numeral_eq_Suc length_Suc_conv)

lemma group_path_apart [simp]:
  "keystore_path dir i \<noteq> group_path dir" "group_path dir \<noteq> keystore_path dir i"
  by (simp_all add: keystore_path_def group_path_def)

lemma write_group_elsewhere: "p \<noteq> group_path dir \<Longrightarrow> snd (write_group print os dir g disk) p = disk p"
  by (cases os) (auto simp: write_group_def split: option.splits)

section \<open>Properties\<close>

text \<open>
  C26.  The group file is the key of the keystores beside it.  When the ceremony succeeds and the file
  system does what it is asked to, the command ends without an error; \<open>group.json\<close> holds the threshold and
  the epoch of the command, its four hexadecimal texts and its constructor argument both read back as the
  four coordinates of the group key, and writing it has left every keystore readable.
\<close>

theorem group_file_is_the_key:
  assumes "keystore_laws L" and "scalar_codec K" and "g2_codec K" and "tool_passphrase given env = Inr pass"
    and "\<forall>k. \<exists>salt nonce. rnd k = (Inr salt, Inr nonce) \<and> length nonce = gcm_nonce_size" and "\<forall>k j. os k j = Fine"
    and "n \<le> 2 ^ 32" and "RunLocal K keccak D random n t epoch = Inr shares"
    and "\<forall>g. print g \<noteq> None"
  shows "\<exists>pk disk' g. SerializeG2 K (GroupPublic (hd shares)) = Inr pk \<and>
     vrfdkg_main K keccak D random L rnd os Fine print Fine n t epoch dir given env disk = (None, disk') \<and>
     disk' (group_path dir) = map_option (\<lambda>body. body @ [10]) (print g) \<and>
     gf_Threshold g = t \<and> gf_Epoch g = epoch \<and>
     map (\<lambda>s. set_string16 (trim_prefix ''0x'' s)) (gf_GroupPublicKey g) = map (Some \<circ> int) pk \<and>
     map (dec_digits 0) (split_on (CHR '','') (butlast (tl (gf_ConstructorArgs g)))) = map Some pk \<and>
     (\<forall>s \<in> set shares. Load K L disk' (keystore_path dir (share_Index s)) pass = Inr s)"
proof -
  obtain pk disk1 where d: "dkg_main K keccak D random L rnd os Fine n t epoch dir given env disk = (Inr pk, disk1)"
    "length pk = 4" "SerializeG2 K (GroupPublic (hd shares)) = Inr pk"
    "\<forall>s \<in> set shares. Load K L disk1 (keystore_path dir (share_Index s)) pass = Inr s"
    using dkg_main_loads[OF assms(1-8)] by blast
  let ?g = "group_of epoch t n pk"
  obtain body where b: "print ?g = Some body" using assms(9)[rule_format, of ?g] by auto
  let ?disk = "disk1(group_path dir \<mapsto> body @ [10])"
  have "vrfdkg_main K keccak D random L rnd os Fine print Fine n t epoch dir given env disk = (None, ?disk)"
    using d(1) b by (simp add: vrfdkg_main_def write_group_def)
  moreover have "\<forall>s \<in> set shares. Load K L ?disk (keystore_path dir (share_Index s)) pass = Inr s"
    using d(4) by (simp add: Load_def)
  moreover have "gf_ConstructorArgs ?g = constructor_args pk" "gf_Threshold ?g = t" "gf_Epoch ?g = epoch"
    by (simp_all add: group_of_def)
  ultimately show ?thesis
    using d(2,3) b group_key_read[OF d(2)] constructor_args_read[OF d(2)]
    by (intro exI[of _ pk] exI[of _ ?disk] exI[of _ ?g]) simp
qed

theorem group_file_is_the_key_witness:
  "\<exists>disk'. vrfdkg_main small_kyber id demo_library of_nat plain_keystore (\<lambda>k. (Inr [1], Inr (replicate 12 0)))
      (\<lambda>k j. Fine) Fine (\<lambda>g. Some []) Fine 3 2 1 ''keys'' '''' ''secret'' (\<lambda>p. None) = (None, disk') \<and>
      disk' (group_path ''keys'') = Some [10]"
proof -
  obtain shares where "RunLocal small_kyber id demo_library of_nat 3 2 1 = Inr shares"
    using demo_ceremony_of_three by blast
  from group_file_is_the_key[where given = "''''" and env = "''secret''" and pass = "''secret''" and
      rnd = "\<lambda>k. (Inr [1], Inr (replicate 12 0))" and os = "\<lambda>k j. Fine" and dir = "''keys''" and disk = "\<lambda>p. None" and
      print = "\<lambda>g. Some []", OF plain_keystore_laws small_codecs(2,1) _ _ _ _ this]
  show ?thesis by (auto simp: tool_passphrase_def gcm_nonce_size_def)
qed

text \<open>
  A failed group file does not undo the ceremony.  Whatever becomes of \<open>group.json\<close>, the command has by
  then written the keystores, and they stay as they are: the key of the group is on the disk although the
  exit status says otherwise.
\<close>

theorem group_file_failure_keeps_keystores:
  assumes "dkg_main K keccak D random L rnd os mkdir n t epoch dir given env disk = (Inr pk, disk1)"
  shows "Load K L (snd (vrfdkg_main K keccak D random L rnd os mkdir print os_group n t epoch dir given env disk))
     (keystore_path dir i) pass = Load K L disk1 (keystore_path dir i) pass"
proof -
  have "snd (write_group print os_group dir g disk1) (keystore_path dir i) = disk1 (keystore_path dir i)" for g
    by (rule write_group_elsewhere) simp
  then show ?thesis using assms by (simp add: vrfdkg_main_def Load_def)
qed

text \<open>
  The generator says whether there is a vector.  Exit status 0 means that the file holds the printed
  vector of this run, under \<open>../test/vectors/dkg.json\<close> when no path is given; with status 1 no file but
  that one has changed, and not even that one unless the writing itself broke off.
\<close>

theorem generator_exit_is_truthful:
  "case generator_main K keccak D random fresh print mkdir os n t epoch out disk of (status, disk') \<Rightarrow>
     (status = 0 \<longleftrightarrow> (\<exists>v body. run_vector K keccak D random fresh n t epoch = Inr v \<and> mkdir = Fine \<and>
        print v = Some body \<and> os = Fine \<and> disk' = disk(vector_path out \<mapsto> body @ [10]))) \<and>
     (status = 0 \<or> disk' = disk \<or> os \<noteq> Fine \<and> (\<exists>bs. disk' = disk(vector_path out \<mapsto> bs)))"
proof (cases "run_vector K keccak D random fresh n t epoch")
  case (Inl e)
  then show ?thesis by (simp add: generator_main_def)
next
  case (Inr v)
  have w: "generator_main K keccak D random fresh print mkdir os n t epoch out disk =
      (case write_vector print mkdir os out v disk of (e, d) \<Rightarrow> ((case e of None \<Rightarrow> 0 | Some _ \<Rightarrow> 1), d))"
    by (simp add: generator_main_def Inr Let_def split: prod.split)
  show ?thesis
    unfolding w Inr by (cases mkdir; cases os; cases "print v") (auto simp: write_vector_def)
qed

text \<open>
  \<open>-generate-identity\<close> wins over everything else.  With it no ceremony is run and no keystore is touched,
  whatever the other flags are: only the identity file changes, and one that is there is replaced.
\<close>

theorem generating_only_writes_the_identity:
  "\<exists>e disk'. vrfceremony_main K keccak J L protocol closes rnd os fresh True identity configPath out oldKey passphrase
       index phase disk = Some (e, disk') \<and> (\<forall>p. p \<noteq> identity \<longrightarrow> disk' p = disk p)"
  by (auto simp: vrfceremony_main_def writeIdentity_def split: option.splits os_answer.splits)

text \<open>An index of 2^32 on the command line is operator 0.\<close>

lemma wide_index_is_narrowed:
  "vrfceremony_main K keccak J L protocol closes rnd os fresh generate identity configPath out oldKey passphrase
       (2 ^ 32) phase disk =
   vrfceremony_main K keccak J L protocol closes rnd os fresh generate identity configPath out oldKey passphrase
       0 phase disk"
proof -
  have narrow: "(ucast (2 ^ 32 :: u64) :: u32) = 0"
    by (simp only: word_uint_eq_iff) simp
  show ?thesis unfolding vrfceremony_main_def narrow by simp
qed

end
