(* ===== verification/Tool_Load.thy ===== *)
theory Tool_Load
  imports Prelude "HOL-Library.Multiset"
begin

text \<open>
  The load generator: \<open>node/cmd/vrfload/main.go\<close>.  The watcher that notes when each fulfilment was first
  seen, the loop that matches requests with what was seen, the report, and the sending of a burst with
  its retries.  RPC, ABI decoding and signing are arguments; printing is left out.

  An instant is the number of nanoseconds since Go's zero time, which is 0; \<open>Time.Sub\<close> saturates.
  Latencies are kept as durations instead of being converted to floating point seconds.
\<close>

section \<open>Watching for fulfilments\<close>

type_synonym instant = int

record settlement =
  st_at :: instant
  st_callbackOK :: bool

record fulfilment_log =
  fl_Topics :: "byte list list"
  fl_Data :: "byte list"

text \<open>
  One tick of the watcher: the head, the logs of a range of blocks, and the clock after the scan.
  Any of the two calls may fail.
\<close>

record watch_tick =
  wt_head :: "string + u64"
  wt_logs :: "u64 \<Rightarrow> u64 \<Rightarrow> string + fulfilment_log list"
  wt_now :: instant

text \<open>The id of a request is the number in the second topic (the code keys its map by the decimal text).\<close>

definition log_id :: "fulfilment_log \<Rightarrow> int" where
  "log_id l = int (be_value (fl_Topics l ! 1))"

fun record_logs ::
  "(byte list \<Rightarrow> bool option) \<Rightarrow> instant \<Rightarrow> fulfilment_log list \<Rightarrow> (int, settlement) gomap \<Rightarrow>
    (int, settlement) gomap" where
  "record_logs unpack now [] into = into"
| "record_logs unpack now (l # ls) into =
     (if length (fl_Topics l) < 2 then record_logs unpack now ls into
      else if mget into (log_id l) \<noteq> None then record_logs unpack now ls into
      else case unpack (fl_Data l) of
        None \<Rightarrow> record_logs unpack now ls into
      | Some success \<Rightarrow>
          record_logs unpack now ls (mput into (log_id l) \<lparr>st_at = now, st_callbackOK = success\<rparr>))"

definition watch_tick_step ::
  "(byte list \<Rightarrow> bool option) \<Rightarrow> watch_tick \<Rightarrow> u64 \<times> (int, settlement) gomap \<Rightarrow>
    u64 \<times> (int, settlement) gomap" where
  "watch_tick_step unpack t = (\<lambda>(next, into).
     case wt_head t of
       Inl _ \<Rightarrow> (next, into)
     | Inr head \<Rightarrow>
         if head < next then (next, into)
         else case wt_logs t next head of
           Inl _ \<Rightarrow> (next, into)
         | Inr logs \<Rightarrow> (head + 1, record_logs unpack (wt_now t) logs into))"

text \<open>\<open>watchFulfilments\<close> for as many ticks as its context lives.\<close>

definition watchFulfilments ::
  "(byte list \<Rightarrow> bool option) \<Rightarrow> u64 \<Rightarrow> watch_tick list \<Rightarrow> u64 \<times> (int, settlement) gomap" where
  "watchFulfilments unpack start ticks = fold (watch_tick_step unpack) ticks (start, mempty)"

section \<open>Matching\<close>

record outcome =
  oc_id :: int
  oc_fired :: instant
  oc_settled :: instant
  oc_fulfilled :: bool
  oc_callback :: bool

text \<open>One round of the waiting loop over the results.\<close>

definition match_one :: "(int, settlement) gomap \<Rightarrow> outcome \<Rightarrow> outcome" where
  "match_one seen r =
     (if oc_fulfilled r then r
      else case mget seen (oc_id r) of
        None \<Rightarrow> r
      | Some s \<Rightarrow> r\<lparr>oc_fulfilled := True, oc_callback := st_callbackOK s, oc_settled := st_at s\<rparr>)"

fun match_round :: "(int, settlement) gomap \<Rightarrow> outcome list \<Rightarrow> int \<Rightarrow> outcome list \<times> int" where
  "match_round seen [] pending = ([], pending)"
| "match_round seen (r # rs) pending =
     (let r1 = match_one seen r;
          p1 = (if oc_fulfilled r1 \<and> \<not> oc_fulfilled r then pending - 1 else pending);
          (rs1, p2) = match_round seen rs p1 in
      (r1 # rs1, p2))"

text \<open>The loop: one view of the watcher's table per round, until nothing is pending or time is up.\<close>

fun match_rounds :: "(int, settlement) gomap list \<Rightarrow> outcome list \<Rightarrow> int \<Rightarrow> outcome list \<times> int" where
  "match_rounds [] rs pending = (rs, pending)"
| "match_rounds (seen # views) rs pending =
     (if 0 < pending then (let (rs1, p1) = match_round seen rs pending in match_rounds views rs1 p1)
      else (rs, pending))"

text \<open>The direct reads at the end; a request found only by one has no settlement time.\<close>

fun direct_reads :: "(int \<Rightarrow> bool \<times> bool) \<Rightarrow> outcome list \<Rightarrow> int \<Rightarrow> outcome list \<times> int" where
  "direct_reads state [] pending = ([], pending)"
| "direct_reads state (r # rs) pending =
     (let (r1, p1) =
        (if oc_fulfilled r then (r, pending)
         else if fst (state (oc_id r))
              then (r\<lparr>oc_fulfilled := True, oc_callback := snd (state (oc_id r))\<rparr>, pending - 1)
              else (r, pending));
          (rs1, p2) = direct_reads state rs p1 in
      (r1 # rs1, p2))"

definition exit_code :: "int \<Rightarrow> int" where
  "exit_code pending = (if 0 < pending then 1 else 0)"

section \<open>The report\<close>

definition time_sub :: "instant \<Rightarrow> instant \<Rightarrow> duration" where
  "time_sub a b = max (- (2 ^ 63)) (min (2 ^ 63 - 1) (a - b))"

definition pct :: "duration list \<Rightarrow> nat \<Rightarrow> duration" where
  "pct xs p = (if length xs = 0 then 0 else xs ! (p * (length xs - 1) div 100))"

record load_report =
  lr_requests :: nat
  lr_fulfilled :: nat
  lr_never :: nat
  lr_callbackFailed :: nat
  lr_latencies :: "duration list"
  lr_percentiles :: "duration list"

fun report_loop :: "outcome list \<Rightarrow> nat \<times> nat \<times> duration list \<times> instant \<Rightarrow> nat \<times> nat \<times> duration list \<times> instant" where
  "report_loop [] acc = acc"
| "report_loop (r # rs) (fulfilled, failed, latencies, final) =
     (if \<not> oc_fulfilled r then report_loop rs (fulfilled, failed, latencies, final)
      else let failed1 = (if \<not> oc_callback r then failed + 1 else failed) in
        if oc_settled r = 0 then report_loop rs (fulfilled + 1, failed1, latencies, final)
        else report_loop rs (fulfilled + 1, failed1, latencies @ [time_sub (oc_settled r) (oc_fired r)],
               if final < oc_settled r then oc_settled r else final))"

definition report :: "outcome list \<Rightarrow> load_report" where
  "report results =
     (let (fulfilled, failed, latencies, final) = report_loop results (0, 0, [], 0);
          sorted = sort latencies in
      \<lparr> lr_requests = length results, lr_fulfilled = fulfilled, lr_never = length results - fulfilled,
        lr_callbackFailed = failed, lr_latencies = sorted,
        lr_percentiles = map (pct sorted) [50, 95, 99] \<rparr>)"

text \<open>A row of the JSON file: id, fulfilled, callback, and the latency when fulfilled.\<close>

definition json_row :: "outcome \<Rightarrow> int \<times> bool \<times> bool \<times> duration option" where
  "json_row r = (oc_id r, oc_fulfilled r, oc_callback r,
     if oc_fulfilled r then Some (time_sub (oc_settled r) (oc_fired r)) else None)"

section \<open>Sending a burst\<close>

datatype load_error = RpcError string | EstimateRefused string | SendRefused string | ContextEnded | Reverted | NeverMined

text \<open>
  The two retry loops of \<open>send\<close>: at most six attempts, with a wait of \<open>2 ^ attempt\<close> seconds before the
  next.  \<open>world k\<close> is the answer to attempt \<open>k\<close>; \<open>alive k\<close> says that the context outlives the wait
  after it.  The result comes with the number of attempts and the time waited.
\<close>

function load_retry ::
  "(string \<Rightarrow> load_error) \<Rightarrow> (nat \<Rightarrow> string + 'a) \<Rightarrow> (nat \<Rightarrow> bool) \<Rightarrow> nat \<Rightarrow> duration \<Rightarrow>
    (load_error + 'a) \<times> nat \<times> duration" where
  "load_retry err world alive attempt waited =
     (case world attempt of
        Inr x \<Rightarrow> (Inr x, attempt + 1, waited)
      | Inl e \<Rightarrow>
          if 5 \<le> attempt then (Inl (err e), attempt + 1, waited)
          else if \<not> alive attempt then (Inl ContextEnded, attempt + 1, waited)
          else load_retry err world alive (attempt + 1) (waited + seconds (2 ^ attempt)))"
  by pat_completeness auto
termination by (relation "measure (\<lambda>(_, _, _, attempt, _). 6 - attempt)") auto

text \<open>The wait for the receipt: 300 reads, a tenth of a second apart.\<close>

fun await_receipt :: "nat \<Rightarrow> (nat \<Rightarrow> nat option) \<Rightarrow> nat \<Rightarrow> load_error option" where
  "await_receipt 0 receipt i = Some NeverMined"
| "await_receipt (Suc n) receipt i =
     (case receipt i of
        Some status \<Rightarrow> if status \<noteq> 1 then Some Reverted else None
      | None \<Rightarrow> await_receipt n receipt (i + 1))"

record load_tx =
  lt_nonce :: u64
  lt_feeCap :: int
  lt_gas :: u64
  lt_data :: "byte list"

record load_world =
  lw_nonce :: "string + u64"
  lw_chainID :: "string + int"
  lw_baseFee :: "string + int"
  lw_estimate :: "nat \<Rightarrow> string + u64"
  lw_alive :: "nat \<Rightarrow> bool"
  lw_sign :: "load_tx \<Rightarrow> string + byte list"
  lw_send :: "nat \<Rightarrow> byte list \<Rightarrow> string option"
  lw_receipt :: "nat \<Rightarrow> nat option"

definition load_send :: "load_world \<Rightarrow> byte list \<Rightarrow> load_error option" where
  "load_send w data =
     (case lw_nonce w of Inl e \<Rightarrow> Some (RpcError e) | Inr nonce \<Rightarrow>
      (case lw_chainID w of Inl e \<Rightarrow> Some (RpcError e) | Inr chainID \<Rightarrow>
      (case lw_baseFee w of Inl e \<Rightarrow> Some (RpcError e) | Inr baseFee \<Rightarrow>
      (case fst (load_retry EstimateRefused (lw_estimate w) (lw_alive w) 0 0) of Inl e \<Rightarrow> Some e | Inr gas \<Rightarrow>
      (case lw_sign w \<lparr>lt_nonce = nonce, lt_feeCap = 4 * baseFee, lt_gas = gas + gas div 5, lt_data = data\<rparr> of
         Inl e \<Rightarrow> Some (RpcError e)
       | Inr raw \<Rightarrow>
      (case fst (load_retry SendRefused
              (\<lambda>k. case lw_send w k raw of None \<Rightarrow> Inr () | Some e \<Rightarrow> Inl e) (lw_alive w) 0 0) of
         Inl e \<Rightarrow> Some e
       | Inr _ \<Rightarrow> await_receipt 300 (lw_receipt w) 0))))))"

section \<open>Lemmas\<close>

definition add_log ::
  "(byte list \<Rightarrow> bool option) \<Rightarrow> instant \<Rightarrow> fulfilment_log \<Rightarrow> (int, settlement) gomap \<Rightarrow> (int, settlement) gomap" where
  "add_log unpack now l into =
     (if length (fl_Topics l) < 2 \<or> mget into (log_id l) \<noteq> None then into
      else case unpack (fl_Data l) of
        None \<Rightarrow> into
      | Some success \<Rightarrow> mput into (log_id l) \<lparr>st_at = now, st_callbackOK = success\<rparr>)"

lemma record_logs_fold: "record_logs unpack now ls into = fold (add_log unpack now) ls into"
  by (induction ls arbitrary: into) (auto simp: add_log_def split: option.splits)

lemma add_log_keeps: "mget into i = Some s \<Longrightarrow> mget (add_log unpack now l into) i = Some s"
  by (auto simp: add_log_def split: option.splits)

lemma record_logs_keeps:
  "mget into i = Some s \<Longrightarrow> mget (record_logs unpack now ls into) i = Some s"
  unfolding record_logs_fold by (induction ls arbitrary: into) (simp_all add: add_log_keeps)

lemma record_logs_records:
  "l \<in> set ls \<Longrightarrow> 2 \<le> length (fl_Topics l) \<Longrightarrow> unpack (fl_Data l) \<noteq> None \<Longrightarrow>
   mget (record_logs unpack now ls into) (log_id l) \<noteq> None"
proof (induction ls arbitrary: into)
  case (Cons l' ls)
  show ?case
  proof (cases "l \<in> set ls")
    case True
    then show ?thesis using Cons.IH[of "add_log unpack now l' into"] Cons.prems(2,3)
      by (simp add: record_logs_fold)
  next
    case False
    then have "l' = l" using Cons.prems(1) by simp
    then obtain s where "mget (add_log unpack now l' into) (log_id l) = Some s"
      using Cons.prems(2,3) by (cases "mget into (log_id l)") (auto simp: add_log_def)
    from record_logs_keeps[OF this, of unpack now ls] show ?thesis by (simp add: record_logs_fold)
  qed
qed simp

lemma record_logs_new:
  "mget (record_logs unpack now ls into) i = Some s \<Longrightarrow> mget into i = None \<Longrightarrow>
   \<exists>l \<in> set ls. log_id l = i \<and> st_at s = now \<and> unpack (fl_Data l) = Some (st_callbackOK s)"
proof (induction ls arbitrary: into)
  case (Cons l ls)
  have run: "mget (record_logs unpack now ls (add_log unpack now l into)) i = Some s"
    using Cons.prems(1) by (simp add: record_logs_fold)
  show ?case
  proof (cases "mget (add_log unpack now l into) i")
    case None
    from Cons.IH[OF run None] show ?thesis by auto
  next
    case (Some s')
    then have "s' = s" using run record_logs_keeps[OF Some, of unpack now ls] by simp
    moreover have "log_id l = i \<and> st_at s' = now \<and> unpack (fl_Data l) = Some (st_callbackOK s')"
      using Some Cons.prems(2) by (auto simp: add_log_def split: option.splits if_splits)
    ultimately show ?thesis by auto
  qed
qed (simp add: record_logs_fold)

lemma tick_keeps:
  "mget (snd st) i = Some s \<Longrightarrow> mget (snd (watch_tick_step unpack t st)) i = Some s"
  by (cases st) (auto simp: watch_tick_step_def record_logs_keeps split: sum.splits)

lemma ticks_keep:
  "mget (snd st) i = Some s \<Longrightarrow> mget (snd (fold (watch_tick_step unpack) ts st)) i = Some s"
  by (induction ts arbitrary: st) (auto simp: tick_keeps)

lemma match_round_map:
  "match_round seen rs p =
     (map (match_one seen) rs, p - int (length (filter (\<lambda>r. \<not> oc_fulfilled r \<and> oc_fulfilled (match_one seen r)) rs)))"
  by (induction rs arbitrary: p) (auto simp: Let_def)

definition unfulfilled :: "outcome list \<Rightarrow> int" where
  "unfulfilled rs = int (length (filter (\<lambda>r. \<not> oc_fulfilled r) rs))"

lemma match_one_keeps: "oc_fulfilled r \<Longrightarrow> match_one seen r = r"
  by (simp add: match_one_def)

lemma unfulfilled_map:
  assumes "\<And>r. oc_fulfilled r \<Longrightarrow> oc_fulfilled (f r)"
  shows "unfulfilled (map f rs) =
    unfulfilled rs - int (length (filter (\<lambda>r. \<not> oc_fulfilled r \<and> oc_fulfilled (f r)) rs))"
  using assms by (induction rs) (auto simp: unfulfilled_def)

lemma match_round_pending:
  "match_round seen rs (unfulfilled rs) = (rs', p) \<Longrightarrow> rs' = map (match_one seen) rs \<and> p = unfulfilled rs'"
  by (auto simp: match_round_map unfulfilled_map match_one_keeps)

definition direct_one :: "(int \<Rightarrow> bool \<times> bool) \<Rightarrow> outcome \<Rightarrow> outcome" where
  "direct_one state r =
     (if oc_fulfilled r \<or> \<not> fst (state (oc_id r)) then r
      else r\<lparr>oc_fulfilled := True, oc_callback := snd (state (oc_id r))\<rparr>)"

lemma direct_reads_map:
  "direct_reads state rs p =
     (map (direct_one state) rs, p - int (length (filter (\<lambda>r. \<not> oc_fulfilled r \<and> oc_fulfilled (direct_one state r)) rs)))"
  by (induction rs arbitrary: p) (auto simp: direct_one_def Let_def)

text \<open>The first view that has the request.\<close>

fun first_seen :: "(int, settlement) gomap list \<Rightarrow> int \<Rightarrow> settlement option" where
  "first_seen [] i = None"
| "first_seen (view # views) i = (case mget view i of Some s \<Rightarrow> Some s | None \<Rightarrow> first_seen views i)"

lemma first_seen_iff: "first_seen views i \<noteq> None \<longleftrightarrow> (\<exists>view \<in> set views. mget view i \<noteq> None)"
  by (induction views) (auto split: option.splits)

definition match_first :: "(int, settlement) gomap list \<Rightarrow> outcome \<Rightarrow> outcome" where
  "match_first views r =
     (if oc_fulfilled r then r
      else case first_seen views (oc_id r) of
        None \<Rightarrow> r
      | Some s \<Rightarrow> r\<lparr>oc_fulfilled := True, oc_callback := st_callbackOK s, oc_settled := st_at s\<rparr>)"

lemma match_first_Cons: "match_first (seen # views) r = match_first views (match_one seen r)"
  by (auto simp: match_first_def match_one_def split: option.splits)

lemma unfulfilled_0: "\<not> 0 < unfulfilled rs \<longleftrightarrow> (\<forall>r \<in> set rs. oc_fulfilled r)"
  by (auto simp: unfulfilled_def filter_empty_conv)

text \<open>The loop may stop early, but then every result has been matched.\<close>

lemma match_rounds_first:
  "match_rounds views rs (unfulfilled rs) = (rs', p) \<Longrightarrow> rs' = map (match_first views) rs \<and> p = unfulfilled rs'"
proof (induction views arbitrary: rs)
  case Nil
  have "match_first [] r = r" for r by (simp add: match_first_def)
  with Nil show ?case by (auto simp: map_idI)
next
  case (Cons seen views)
  show ?case
  proof (cases "0 < unfulfilled rs")
    case True
    obtain rs1 p1 where m: "match_round seen rs (unfulfilled rs) = (rs1, p1)" by (metis prod.exhaust)
    then have 1: "rs1 = map (match_one seen) rs" "p1 = unfulfilled rs1" using match_round_pending by auto
    have "match_rounds views rs1 (unfulfilled rs1) = (rs', p)" using Cons.prems True m 1 by simp
    from Cons.IH[OF this] show ?thesis by (simp add: 1(1) match_first_Cons comp_def)
  next
    case False
    then have "match_first (seen # views) r = r" if "r \<in> set rs" for r
      using that unfulfilled_0 by (auto simp: match_first_def)
    then have "map (match_first (seen # views)) rs = rs" by (rule map_idI)
    with False Cons.prems show ?thesis by auto
  qed
qed

lemma report_loop_counts:
  "report_loop rs (f, c, l, t) =
   (f + length (filter oc_fulfilled rs),
    c + length (filter (\<lambda>r. oc_fulfilled r \<and> \<not> oc_callback r) rs),
    l @ map (\<lambda>r. time_sub (oc_settled r) (oc_fired r)) (filter (\<lambda>r. oc_fulfilled r \<and> oc_settled r \<noteq> 0) rs),
    fold (\<lambda>r t. if oc_fulfilled r \<and> oc_settled r \<noteq> 0 \<and> t < oc_settled r then oc_settled r else t) rs t)"
  by (induction rs arbitrary: f c l t) (simp_all add: Let_def)

lemma load_retry_bounds:
  assumes "attempt \<le> 5"
  shows "load_retry err world alive attempt waited = (r, n, slept) \<Longrightarrow>
    n \<le> 6 \<and> slept \<le> waited + seconds (2 ^ 5 - 2 ^ attempt)"
  using assms
proof (induction err world alive attempt waited arbitrary: r n slept rule: load_retry.induct)
  case (1 err world alive attempt waited)
  have pow: "(2 :: int) ^ attempt \<le> 2 ^ 5" using 1(3) by (intro power_increasing) auto
  show ?case
  proof (cases "world attempt")
    case (Inr x)
    with 1(2,3) pow show ?thesis by simp
  next
    case (Inl e)
    show ?thesis
    proof (cases "5 \<le> attempt \<or> \<not> alive attempt")
      case True
      with Inl 1(2,3) pow show ?thesis by (auto split: if_splits)
    next
      case False
      then have "load_retry err world alive (attempt + 1) (waited + seconds (2 ^ attempt)) = (r, n, slept)"
        using Inl 1(2) by simp
      moreover have "attempt + 1 \<le> 5" using False by simp
      ultimately show ?thesis using 1(1)[OF Inl] False by fastforce
    qed
  qed
qed

section \<open>Properties\<close>

text \<open>
  A settlement is stamped once.  Once the watcher has noted a request, later ticks do not change
  what it noted, however often the log is delivered again; and what a scan adds comes from a log of
  that scan, with the clock of the scan and the callback flag of the log.
\<close>

theorem first_sighting_is_kept:
  "(mget (snd (watchFulfilments unpack start ts)) i = Some s \<longrightarrow>
      mget (snd (watchFulfilments unpack start (ts @ ts'))) i = Some s) \<and>
   (mget into i = None \<longrightarrow> mget (snd (watch_tick_step unpack t (next, into))) i = Some s \<longrightarrow>
      st_at s = wt_now t \<and> (\<exists>head logs l. wt_head t = Inr head \<and> wt_logs t next head = Inr logs \<and>
        l \<in> set logs \<and> log_id l = i \<and> unpack (fl_Data l) = Some (st_callbackOK s)))"
proof (intro conjI impI)
  assume "mget (snd (watchFulfilments unpack start ts)) i = Some s"
  then show "mget (snd (watchFulfilments unpack start (ts @ ts'))) i = Some s"
    using ticks_keep by (simp add: watchFulfilments_def)
next
  assume none: "mget into i = None" and some: "mget (snd (watch_tick_step unpack t (next, into))) i = Some s"
  then obtain head logs where h: "wt_head t = Inr head" "wt_logs t next head = Inr logs"
    "mget (record_logs unpack (wt_now t) logs into) i = Some s"
    by (auto simp: watch_tick_step_def split: sum.splits if_splits)
  from record_logs_new[OF h(3) none] show "st_at s = wt_now t"
    "\<exists>head logs l. wt_head t = Inr head \<and> wt_logs t next head = Inr logs \<and>
        l \<in> set logs \<and> log_id l = i \<and> unpack (fl_Data l) = Some (st_callbackOK s)"
    using h(1,2) by auto
qed

definition demo_tick :: "u64 \<Rightarrow> instant \<Rightarrow> watch_tick" where
  "demo_tick head now = \<lparr>wt_head = Inr head,
     wt_logs = (\<lambda>a b. Inr [\<lparr>fl_Topics = [[1], [9]], fl_Data = [1]\<rparr>]), wt_now = now\<rparr>"

theorem first_sighting_is_kept_witness:
  "mget (snd (watchFulfilments (\<lambda>d. Some True) 5 ([demo_tick 6 100] @ [demo_tick 8 200]))) 9 =
     Some \<lparr>st_at = 100, st_callbackOK = True\<rparr>"
proof -
  have "mget (snd (watchFulfilments (\<lambda>d. Some True) 5 [demo_tick 6 100])) 9 = Some \<lparr>st_at = 100, st_callbackOK = True\<rparr>"
    by (simp add: watchFulfilments_def watch_tick_step_def demo_tick_def log_id_def be_value_def)
  then show ?thesis
    using first_sighting_is_kept[of "\<lambda>d. Some True" 5 "[demo_tick 6 100]" 9 "\<lparr>st_at = 100, st_callbackOK = True\<rparr>"
        "[demo_tick 8 200]"] by blast
qed

text \<open>
  A percentile is one of the values.  For a percentage up to one hundred the index stays inside the
  list, so the percentile of a non-empty list is one of its elements, and of a sorted one a higher percentage gives
  no smaller value.
\<close>

lemma pct_in_list:
  assumes "xs \<noteq> []" and "p \<le> 100"
  shows "pct xs p \<in> set xs"
proof -
  have "p * (length xs - 1) \<le> 100 * (length xs - 1)" using assms(2) by (rule mult_le_mono1)
  then have "p * (length xs - 1) div 100 \<le> length xs - 1" by (metis div_le_mono nonzero_mult_div_cancel_left zero_neq_numeral)
  moreover have "0 < length xs" using assms(1) by simp
  ultimately have "p * (length xs - 1) div 100 < length xs" by linarith
  then show ?thesis using assms(1) by (simp add: pct_def)
qed

lemma pct_mono:
  assumes "sorted xs" and "p \<le> q" and "q \<le> 100"
  shows "pct xs p \<le> pct xs q"
proof (cases "xs = []")
  case False
  have "q * (length xs - 1) \<le> 100 * (length xs - 1)" using assms(3) by (rule mult_le_mono1)
  then have "q * (length xs - 1) div 100 \<le> length xs - 1" by (metis div_le_mono nonzero_mult_div_cancel_left zero_neq_numeral)
  moreover have "0 < length xs" using False by simp
  ultimately have "q * (length xs - 1) div 100 < length xs" by linarith
  moreover have "p * (length xs - 1) div 100 \<le> q * (length xs - 1) div 100"
    using assms(2) by (intro div_le_mono mult_le_mono1)
  ultimately show ?thesis using assms(1) False by (simp add: pct_def sorted_nth_mono)
qed (simp add: pct_def)

text \<open>
  A request found by a direct read gets a nonsense latency in the JSON file: it has no settlement
  time, and the row subtracts the start from the zero time all the same, which saturates at the
  smallest duration, about minus 292 years.  The latencies of the report leave such a
  request out.
\<close>

theorem direct_read_row_is_nonsense:
  assumes "oc_settled r = 0" and "\<not> oc_fulfilled r" and "fst (state (oc_id r))" and "2 ^ 63 \<le> oc_fired r"
  shows "json_row (direct_one state r) = (oc_id r, True, snd (state (oc_id r)), Some (- (2 ^ 63))) \<and>
     lr_latencies (report [direct_one state r]) = []"
  using assms by (simp add: json_row_def direct_one_def time_sub_def report_def)

theorem direct_read_row_is_nonsense_witness:
  "json_row (direct_one (\<lambda>i. (True, True))
      \<lparr>oc_id = 7, oc_fired = 2 ^ 65, oc_settled = 0, oc_fulfilled = False, oc_callback = False\<rparr>) =
   (7, True, True, Some (- (2 ^ 63)))"
  using direct_read_row_is_nonsense[of "\<lparr>oc_id = 7, oc_fired = 2 ^ 65, oc_settled = 0, oc_fulfilled = False,
      oc_callback = False\<rparr>" "\<lambda>i. (True, True)"] by simp

text \<open>
  The retries are bounded: an operation is tried at most six times, with at most 31 seconds of
  waiting in between, and succeeds when one of the attempts that are made does.
\<close>

lemma load_retry_bounded:
  assumes "load_retry err world alive 0 0 = (r, n, slept)"
  shows "n \<le> 6 \<and> slept \<le> seconds 31"
  using load_retry_bounds[OF _ assms] by simp

end
