(* ===== verification/Tool_Load_Run.thy ===== *)
theory Tool_Load_Run
  imports Tool_Load Keystore Complex_Main
begin

text \<open>
  The load generator from start to exit (\<open>main\<close> of \<open>node/cmd/vrfload/main.go\<close>): the checks before the
  first burst, the bursts, reading the ids back, the direct reads and the exit status.  The RPC
  endpoint, the ABI library and the key parser are arguments; printing is left out.
\<close>

section \<open>Calls\<close>

datatype load_stop =
    MissingFlags
  | NoDeployerKey
  | BadDeployerKey string
  | DialFailed string
  | NoHead string
  | CallFailed string
  | CountUndecoded string
  | IdsUndecoded string
  | PackFailed string
  | BurstFailed nat load_error
  | Panicked

text \<open>A message of a call: sender (the zero address when unset), target and data (\<open>call.go\<close>).\<close>

record call_msg =
  msg_From :: "byte list"
  msg_To :: "byte list"
  msg_Data :: "byte list"

definition ethereumCall :: "byte list \<Rightarrow> byte list \<Rightarrow> call_msg" where
  "ethereumCall to data = \<lparr>msg_From = replicate 20 0, msg_To = to, msg_Data = data\<rparr>"

definition ethereumCallFrom :: "byte list \<Rightarrow> byte list \<Rightarrow> byte list \<Rightarrow> call_msg" where
  "ethereumCallFrom source to data = \<lparr>msg_From = source, msg_To = to, msg_Data = data\<rparr>"

type_synonym eth_call = "call_msg \<Rightarrow> string + byte list"

definition load_call :: "eth_call \<Rightarrow> byte list \<Rightarrow> byte list \<Rightarrow> load_stop + byte list" where
  "load_call eth to data =
     (case eth (ethereumCall to data) of Inl e \<Rightarrow> Inl (CallFailed e) | Inr out \<Rightarrow> Inr out)"

text \<open>The two contracts as the tool sees them: packing a call (its error is discarded), unpacking the results.\<close>

record load_abi =
  pack_requestCount :: "byte list"
  unpack_requestCount :: "byte list \<Rightarrow> string + int"
  pack_requestsFrom :: "int \<Rightarrow> int \<Rightarrow> byte list"
  unpack_requestsFrom :: "byte list \<Rightarrow> string + int list"
  pack_requests :: "int \<Rightarrow> byte list"
  unpack_requests :: "byte list \<Rightarrow> string + bool \<times> bool"
  pack_fire :: "u32 \<Rightarrow> u32 \<Rightarrow> u32 \<Rightarrow> string + byte list"

definition readCount :: "eth_call \<Rightarrow> load_abi \<Rightarrow> byte list \<Rightarrow> load_stop + int" where
  "readCount eth A contract =
     (case load_call eth contract (pack_requestCount A) of
        Inl e \<Rightarrow> Inl e
      | Inr out \<Rightarrow> (case unpack_requestCount A out of Inl e \<Rightarrow> Inl (CountUndecoded e) | Inr v \<Rightarrow> Inr (wrap64 v)))"

definition readIds :: "eth_call \<Rightarrow> load_abi \<Rightarrow> byte list \<Rightarrow> int \<Rightarrow> int \<Rightarrow> load_stop + int list" where
  "readIds eth A contract start many =
     (case load_call eth contract (pack_requestsFrom A start many) of
        Inl e \<Rightarrow> Inl e
      | Inr out \<Rightarrow> (case unpack_requestsFrom A out of Inl e \<Rightarrow> Inl (IdsUndecoded e) | Inr ids \<Rightarrow> Inr ids))"

text \<open>Whether a request is fulfilled and its callback ran; an answer that does not decode says neither.\<close>

definition requestState :: "eth_call \<Rightarrow> load_abi \<Rightarrow> byte list \<Rightarrow> int \<Rightarrow> load_stop + (bool \<times> bool)" where
  "requestState eth A contract i =
     (case load_call eth contract (pack_requests A i) of
        Inl e \<Rightarrow> Inl e
      | Inr out \<Rightarrow> (case unpack_requests A out of Inl e \<Rightarrow> Inr (False, False) | Inr v \<Rightarrow> Inr v))"

section \<open>The bursts\<close>

record load_flags =
  lf_rpc :: string
  lf_generator :: string
  lf_coordinator :: string
  lf_bursts :: int
  lf_size :: int
  lf_words :: int
  lf_callbackGas :: int

text \<open>\<open>clock b\<close> is the time at which burst \<open>b\<close> starts and \<open>world b\<close> what \<open>send\<close> meets.\<close>

fun fire_bursts ::
  "(nat \<Rightarrow> string + byte list) \<Rightarrow> (nat \<Rightarrow> instant) \<Rightarrow> (nat \<Rightarrow> load_world) \<Rightarrow> nat \<Rightarrow> nat \<Rightarrow> instant list \<Rightarrow>
   load_stop + instant list" where
  "fire_bursts packed clock world b 0 firedAt = Inr firedAt"
| "fire_bursts packed clock world b (Suc k) firedAt =
     (case packed b of
        Inl e \<Rightarrow> Inl (PackFailed e)
      | Inr data \<Rightarrow>
          (case load_send (world b) data of
             Some e \<Rightarrow> Inl (BurstFailed b e)
           | None \<Rightarrow> fire_bursts packed clock world (b + 1) k (firedAt @ [clock b])))"

text \<open>\<open>i/size%len\<close> as Go computes it: it panics on zero, and on a negative index.\<close>

definition burst_index :: "int \<Rightarrow> int \<Rightarrow> int \<Rightarrow> int option" where
  "burst_index per n i =
     (if per = 0 \<or> n = 0 then None
      else let q = quot i per; r = q - n * quot q n in if r < 0 then None else Some r)"

fun label_results :: "int \<Rightarrow> instant list \<Rightarrow> int \<Rightarrow> int list \<Rightarrow> outcome list option" where
  "label_results per firedAt i [] = Some []"
| "label_results per firedAt i (x # xs) =
     (case burst_index per (int (length firedAt)) i of
        None \<Rightarrow> None
      | Some b \<Rightarrow>
          map_option ((#) \<lparr>oc_id = x, oc_fired = firedAt ! nat b, oc_settled = 0, oc_fulfilled = False,
                           oc_callback = False\<rparr>)
            (label_results per firedAt (i + 1) xs))"

section \<open>The whole run\<close>

record load_env =
  le_key :: string
  le_parse_key :: "string \<Rightarrow> string option"
  le_dial :: "string option"
  le_head :: "string + u64"
  le_eth :: eth_call
  le_abi :: load_abi
  le_generator :: "byte list"
  le_coordinator :: "byte list"
  le_clock :: "nat \<Rightarrow> instant"
  le_world :: "nat \<Rightarrow> load_world"

text \<open>Up to the wait: the block watching starts at, the times of the bursts, the unmatched results.\<close>

definition load_setup :: "load_flags \<Rightarrow> load_env \<Rightarrow> load_stop + (u64 \<times> instant list \<times> outcome list)" where
  "load_setup f E =
     (if lf_rpc f = [] \<or> lf_generator f = [] \<or> lf_coordinator f = [] then Inl MissingFlags
      else let keyHex = trim_prefix ''0x'' (le_key E) in
      if keyHex = [] then Inl NoDeployerKey
      else case le_parse_key E keyHex of Some e \<Rightarrow> Inl (BadDeployerKey e) | None \<Rightarrow>
      (case le_dial E of Some e \<Rightarrow> Inl (DialFailed e) | None \<Rightarrow>
      (case le_head E of Inl e \<Rightarrow> Inl (NoHead e) | Inr firedBlock \<Rightarrow>
      (case readCount (le_eth E) (le_abi E) (le_generator E) of Inl e \<Rightarrow> Inl e | Inr before \<Rightarrow>
      (let total = wrap64 (lf_bursts f * lf_size f);
           packed = (\<lambda>b. pack_fire (le_abi E) (word_of_int (lf_size f)) (word_of_int (lf_words f))
                           (word_of_int (lf_callbackGas f)))
       in case fire_bursts packed (le_clock E) (le_world E) 0 (nat (lf_bursts f)) [] of
            Inl e \<Rightarrow> Inl e
          | Inr firedAt \<Rightarrow>
              if firedAt = [] then Inl Panicked
              else (case readIds (le_eth E) (le_abi E) (le_generator E) before total of
                      Inl e \<Rightarrow> Inl e
                    | Inr ids \<Rightarrow>
                        (case label_results (lf_size f) firedAt 0 ids of
                           None \<Rightarrow> Inl Panicked
                         | Some results \<Rightarrow> Inr (firedBlock, firedAt, results))))))))"

text \<open>The direct reads; a call that fails ends the program.\<close>

fun checked_reads ::
  "(int \<Rightarrow> load_stop + (bool \<times> bool)) \<Rightarrow> outcome list \<Rightarrow> int \<Rightarrow> load_stop + (outcome list \<times> int)" where
  "checked_reads state [] pending = Inr ([], pending)"
| "checked_reads state (r # rs) pending =
     (case (if oc_fulfilled r then Inr (r, pending)
            else case state (oc_id r) of
                   Inl e \<Rightarrow> Inl e
                 | Inr (fulfilled, callbackOK) \<Rightarrow>
                     if fulfilled then Inr (r\<lparr>oc_fulfilled := True, oc_callback := callbackOK\<rparr>, pending - 1)
                     else Inr (r, pending)) of
        Inl e \<Rightarrow> Inl e
      | Inr (r1, p1) \<Rightarrow>
          (case checked_reads state rs p1 of Inl e \<Rightarrow> Inl e | Inr (rs1, p2) \<Rightarrow> Inr (r1 # rs1, p2)))"

text \<open>\<open>views\<close> is what the waiting loop sees of the watcher's table in each round.\<close>

definition load_main ::
  "load_flags \<Rightarrow> load_env \<Rightarrow> (u64 \<Rightarrow> (int, settlement) gomap list) \<Rightarrow> load_stop + (load_report \<times> int)" where
  "load_main f E views =
     (case load_setup f E of
        Inl e \<Rightarrow> Inl e
      | Inr (firedBlock, firedAt, results) \<Rightarrow>
          (let (rs1, p1) = match_rounds (views firedBlock) results (int (length results)) in
           case (if 0 < p1 then checked_reads (requestState (le_eth E) (le_abi E) (le_coordinator E)) rs1 p1
                 else Inr (rs1, p1)) of
             Inl e \<Rightarrow> Inl e
           | Inr (rs2, p2) \<Rightarrow> Inr (report rs2, exit_code p2)))"

section \<open>The end of the report\<close>

text \<open>
  Fulfilments per second from the first burst to the last settlement (a fraction where the code has a floating
  point number); nothing when that span is not positive.  Reached only when some latency is known.
\<close>

definition sustained :: "outcome list \<Rightarrow> rat option" where
  "sustained results =
     (let (fulfilled, failed, latencies, final) = report_loop results (0, 0, [], 0) in
      if latencies = [] then None
      else let span = time_sub final (oc_fired (hd results)) in
           if 0 < span then Some (of_nat fulfilled * of_int (seconds 1) / of_int span) else None)"

text \<open>
  The raw results: the rows written to the path, if there is one.  An error of the file system is discarded, and the
  line that names the path is printed all the same.
\<close>

definition raw_results :: "((int \<times> bool \<times> bool \<times> duration option) list \<Rightarrow> byte list) \<Rightarrow> os_answer \<Rightarrow> string \<Rightarrow> outcome list \<Rightarrow>
    (string \<Rightarrow> byte list option) \<Rightarrow> bool \<times> (string \<Rightarrow> byte list option)" where
  "raw_results print os jsonPath results disk =
     (if lr_latencies (report results) = [] \<or> jsonPath = [] then (False, disk)
      else (True, fs_apply (WriteTo jsonPath (print (map json_row results))) os disk))"

section \<open>Lemmas\<close>

lemma fire_bursts_times:
  "fire_bursts packed clock world b k firedAt = Inr ts \<Longrightarrow> ts = firedAt @ map clock [b..<b + k]"
proof (induction k arbitrary: b firedAt)
  case (Suc k)
  from Suc.prems have "fire_bursts packed clock world (b + 1) k (firedAt @ [clock b]) = Inr ts"
    by (simp split: sum.splits option.splits)
  then have "ts = (firedAt @ [clock b]) @ map clock [b + 1..<b + 1 + k]" by (rule Suc.IH)
  moreover have "[b..<b + Suc k] = b # [b + 1..<b + 1 + k]" by (simp add: upt_conv_Cons)
  ultimately show ?case by simp
qed simp

lemma burst_index_div:
  assumes "0 < per" and "0 < n" and "0 \<le> i"
  shows "burst_index per n i = Some (i div per mod n)"
proof -
  have "quot i per = i div per" using assms by (simp add: quot_pos)
  moreover have "quot (i div per) n = i div per div n" using assms by (simp add: quot_pos pos_imp_zdiv_nonneg_iff)
  moreover have "n * (i div per div n) \<le> i div per"
    using assms(2) by (simp add: minus_mod_eq_mult_div[symmetric])
  ultimately show ?thesis using assms by (simp add: burst_index_def Let_def minus_mult_div_eq_mod)
qed

lemma label_results_nth:
  assumes "0 < per" and "firedAt \<noteq> []"
  shows "0 \<le> i \<Longrightarrow> \<exists>rs. label_results per firedAt i ids = Some rs \<and> length rs = length ids \<and>
     (\<forall>k < length ids. oc_id (rs ! k) = ids ! k \<and> \<not> oc_fulfilled (rs ! k) \<and>
        oc_fired (rs ! k) = firedAt ! nat ((i + int k) div per mod int (length firedAt)))"
proof (induction ids arbitrary: i)
  case (Cons x ids)
  obtain rs where rs: "label_results per firedAt (i + 1) ids = Some rs" "length rs = length ids"
    "\<forall>k < length ids. oc_id (rs ! k) = ids ! k \<and> \<not> oc_fulfilled (rs ! k) \<and>
        oc_fired (rs ! k) = firedAt ! nat ((i + 1 + int k) div per mod int (length firedAt))"
    using Cons.IH[of "i + 1"] Cons.prems by auto
  let ?b = "i div per mod int (length firedAt)"
  let ?r = "\<lparr>oc_id = x, oc_fired = firedAt ! nat ?b, oc_settled = 0, oc_fulfilled = False, oc_callback = False\<rparr>"
  have run: "label_results per firedAt i (x # ids) = Some (?r # rs)"
    using assms Cons.prems by (simp add: burst_index_div rs(1))
  have "oc_id ((?r # rs) ! k) = (x # ids) ! k \<and> \<not> oc_fulfilled ((?r # rs) ! k) \<and>
      oc_fired ((?r # rs) ! k) = firedAt ! nat ((i + int k) div per mod int (length firedAt))"
    if "k < length (x # ids)" for k
    using rs(3) that by (cases k) (auto simp: algebra_simps)
  with run rs(2) show ?case by auto
qed simp

lemma checked_reads_direct:
  "(\<And>r. r \<in> set rs \<Longrightarrow> \<not> oc_fulfilled r \<Longrightarrow> state (oc_id r) = Inr (answers (oc_id r))) \<Longrightarrow>
   checked_reads state rs pending = Inr (direct_reads answers rs pending)"
  by (induction rs arbitrary: pending) (auto simp: Let_def split: prod.splits)

lemma checked_reads_answered:
  "checked_reads state rs pending = Inr x \<Longrightarrow> r \<in> set rs \<Longrightarrow> \<not> oc_fulfilled r \<Longrightarrow> \<exists>a. state (oc_id r) = Inr a"
  by (induction rs arbitrary: pending x) (auto split: sum.splits if_splits prod.splits)

text \<open>The reads that succeed, one by one.\<close>

definition read_answer :: "(int \<Rightarrow> load_stop + (bool \<times> bool)) \<Rightarrow> int \<Rightarrow> bool \<times> bool" where
  "read_answer state i = (case state i of Inl e \<Rightarrow> (False, False) | Inr a \<Rightarrow> a)"

lemma checked_reads_map:
  assumes "checked_reads state rs (unfulfilled rs) = Inr (rs', p)"
  shows "rs' = map (direct_one (read_answer state)) rs \<and> p = unfulfilled rs'"
proof -
  have "state (oc_id r) = Inr (read_answer state (oc_id r))" if "r \<in> set rs" "\<not> oc_fulfilled r" for r
    using checked_reads_answered[OF assms that] by (auto simp: read_answer_def)
  from checked_reads_direct[of rs state "read_answer state", OF this] assms
  have "direct_reads (read_answer state) rs (unfulfilled rs) = (rs', p)" by simp
  then have rs': "rs' = map (direct_one (read_answer state)) rs" and "p = unfulfilled rs -
      int (length (filter (\<lambda>r. \<not> oc_fulfilled r \<and> oc_fulfilled (direct_one (read_answer state) r)) rs))"
    by (simp_all add: direct_reads_map)
  moreover have "oc_fulfilled r \<Longrightarrow> oc_fulfilled (direct_one (read_answer state) r)" for r by (simp add: direct_one_def)
  ultimately show ?thesis by (simp add: unfulfilled_map)
qed

lemma label_results_fresh:
  "label_results per firedAt i ids = Some rs \<Longrightarrow> map oc_id rs = ids \<and> (\<forall>r \<in> set rs. \<not> oc_fulfilled r)"
  by (induction ids arbitrary: i rs) (auto split: option.splits)

text \<open>What the run knows of a request in the end: the watcher saw it, or a direct read says that it is fulfilled.\<close>

definition came_back :: "load_env \<Rightarrow> (int, settlement) gomap list \<Rightarrow> int \<Rightarrow> bool" where
  "came_back E views i \<longleftrightarrow> (\<exists>view \<in> set views. mget view i \<noteq> None) \<or>
     (\<exists>ok. requestState (le_eth E) (le_abi E) (le_coordinator E) i = Inr (True, ok))"

text \<open>And whether its callback failed: as first seen by the watcher, else as read.\<close>

definition callback_failed :: "load_env \<Rightarrow> (int, settlement) gomap list \<Rightarrow> int \<Rightarrow> bool" where
  "callback_failed E views i \<longleftrightarrow> (case first_seen views i of
     Some s \<Rightarrow> \<not> st_callbackOK s
   | None \<Rightarrow> requestState (le_eth E) (le_abi E) (le_coordinator E) i = Inr (True, False))"

definition final_outcome :: "load_env \<Rightarrow> (int, settlement) gomap list \<Rightarrow> outcome \<Rightarrow> outcome" where
  "final_outcome E views r =
     direct_one (read_answer (requestState (le_eth E) (le_abi E) (le_coordinator E))) (match_first views r)"

lemma load_main_results:
  assumes "load_setup f E = Inr (firedBlock, firedAt, results)" and "load_main f E views = Inr (rep, code)"
  shows "rep = report (map (final_outcome E (views firedBlock)) results)"
    "code = exit_code (unfulfilled (map (final_outcome E (views firedBlock)) results))"
proof -
  let ?state = "requestState (le_eth E) (le_abi E) (le_coordinator E)"
  obtain ids where "label_results (lf_size f) firedAt 0 ids = Some results"
    using assms(1) by (auto simp: load_setup_def Let_def split: if_splits option.splits sum.splits)
  then have fresh: "int (length results) = unfulfilled results"
    using label_results_fresh by (auto simp: unfulfilled_def)
  obtain rs1 p1 where m: "match_rounds (views firedBlock) results (unfulfilled results) = (rs1, p1)" by (metis prod.exhaust)
  from match_rounds_first[OF m] have 1: "rs1 = map (match_first (views firedBlock)) results" "p1 = unfulfilled rs1" by auto
  obtain rs2 p2 where end_: "rep = report rs2" "code = exit_code p2"
    "(if 0 < p1 then checked_reads ?state rs1 p1 else Inr (rs1, p1)) = Inr (rs2, p2)"
    using assms(1,2) m by (auto simp: load_main_def fresh split: sum.splits)
  have "rs2 = map (direct_one (read_answer ?state)) rs1 \<and> p2 = unfulfilled rs2"
  proof (cases "0 < p1")
    case True
    then show ?thesis using end_(3) checked_reads_map[of ?state rs1 rs2 p2] 1(2) by simp
  next
    case False
    then have "direct_one (read_answer ?state) r = r" if "r \<in> set rs1" for r
      using that 1(2) unfulfilled_0[of rs1] by (simp add: direct_one_def)
    then have "map (direct_one (read_answer ?state)) rs1 = rs1" by (rule map_idI)
    with False end_(3) 1(2) show ?thesis by auto
  qed
  then have "rs2 = map (final_outcome E (views firedBlock)) results" "p2 = unfulfilled rs2"
    by (simp_all add: 1(1) final_outcome_def comp_def)
  with end_(1,2) show "rep = report (map (final_outcome E (views firedBlock)) results)"
    "code = exit_code (unfulfilled (map (final_outcome E (views firedBlock)) results))" by simp_all
qed

text \<open>What the matching makes of one request.\<close>

lemma final_outcome_found:
  assumes "\<not> oc_fulfilled r"
  shows "oc_fulfilled (final_outcome E views r) \<longleftrightarrow> came_back E views (oc_id r)"
    "oc_fulfilled (final_outcome E views r) \<and> \<not> oc_callback (final_outcome E views r) \<longleftrightarrow>
       callback_failed E views (oc_id r)"
  using assms first_seen_iff[of views "oc_id r"]
  by (cases "first_seen views (oc_id r)"; cases "requestState (le_eth E) (le_abi E) (le_coordinator E) (oc_id r)";
      auto simp: final_outcome_def match_first_def direct_one_def read_answer_def came_back_def callback_failed_def)+

lemma filter_outcomes:
  assumes "\<forall>r \<in> set rs. P (h r) \<longleftrightarrow> Q (oc_id r)"
  shows "length (filter P (map h rs)) = length (filter Q (map oc_id rs))"
  using assms by (induction rs) auto

lemma report_counts:
  "lr_requests (report rs) = length rs" "lr_fulfilled (report rs) = length (filter oc_fulfilled rs)"
  "lr_callbackFailed (report rs) = length (filter (\<lambda>r. oc_fulfilled r \<and> \<not> oc_callback r) rs)"
  "lr_never (report rs) = length rs - length (filter oc_fulfilled rs)"
  by (simp_all add: report_def report_loop_counts Let_def)

lemma direct_reads_none: "\<forall>r \<in> set rs. oc_fulfilled r \<Longrightarrow> direct_reads state rs pending = (rs, pending)"
  by (induction rs arbitrary: pending) auto

section \<open>Properties\<close>

text \<open>
  Every request is timed from its own burst.  When the tool reaches the wait, there is one result per id, in
  order; if the generator returned all of them, request \<open>j\<close> of burst \<open>b\<close> is timed from the start of
  burst \<open>b\<close>, which was taken before the burst was sent.
\<close>

theorem requests_timed_from_their_burst:
  assumes "load_setup f E = Inr (firedBlock, firedAt, results)" and "0 < lf_size f"
    and "b < nat (lf_bursts f)" and "int j < lf_size f" and "b * nat (lf_size f) + j < length results"
  shows "firedAt = map (le_clock E) [0..<nat (lf_bursts f)] \<and>
     oc_fired (results ! (b * nat (lf_size f) + j)) = le_clock E b"
proof -
  let ?size = "lf_size f" and ?n = "nat (lf_bursts f)"
  obtain before packed ids where
    fired: "fire_bursts packed (le_clock E) (le_world E) 0 ?n [] = Inr firedAt" "firedAt \<noteq> []" and
    label: "label_results ?size firedAt 0 ids = Some results"
    using assms(1) by (auto simp: load_setup_def Let_def split: if_splits option.splits sum.splits)
  have times: "firedAt = map (le_clock E) [0..<?n]" using fire_bursts_times[OF fired(1)] by simp
  obtain rs where rs: "label_results ?size firedAt 0 ids = Some rs" "length rs = length ids"
    "\<forall>k < length ids. oc_id (rs ! k) = ids ! k \<and> \<not> oc_fulfilled (rs ! k) \<and>
        oc_fired (rs ! k) = firedAt ! nat ((0 + int k) div ?size mod int (length firedAt))"
    using label_results_nth[OF assms(2) fired(2), of 0 ids] by auto
  let ?k = "b * nat ?size + j"
  have "int ?k div ?size = int b"
    using assms(2,4) by (simp add: add.commute[of _ "int j"])
  moreover have "int b mod int (length firedAt) = int b" using assms(3) by (simp add: times)
  ultimately have "oc_fired (results ! ?k) = firedAt ! b" using rs label assms(5) by simp
  then show ?thesis using assms(3) by (simp add: times)
qed

text \<open>
  C34.  The exit status tells whether every recorded request came back.  When the tool gets to its report, the results are those of the
  ids the generator returned for the bursts.  Then the counts of the report are exactly the ids that came back, that is, that some view of
  the watcher's table has or that a direct read says are fulfilled, those that did not, and those whose callback failed, by the
  first view that has the id or else by the read; and the status is 0 if every one of them came back, and 1 otherwise.  Requests the generator did not
  record are not among them (\<open>unrecorded_requests_exit_clean\<close>).
\<close>

theorem exit_status_is_truthful:
  assumes "load_setup f E = Inr (firedBlock, firedAt, results)" and "load_main f E views = Inr (rep, code)"
  shows "\<exists>before ids. readCount (le_eth E) (le_abi E) (le_generator E) = Inr before \<and>
     readIds (le_eth E) (le_abi E) (le_generator E) before (wrap64 (lf_bursts f * lf_size f)) = Inr ids \<and>
     code = (if \<forall>i \<in> set ids. came_back E (views firedBlock) i then 0 else 1) \<and>
     lr_requests rep = length ids \<and>
     lr_fulfilled rep = length (filter (came_back E (views firedBlock)) ids) \<and>
     lr_never rep = length (filter (\<lambda>i. \<not> came_back E (views firedBlock) i) ids) \<and>
     lr_callbackFailed rep = length (filter (callback_failed E (views firedBlock)) ids)"
proof -
  let ?h = "final_outcome E (views firedBlock)" and ?found = "came_back E (views firedBlock)"
  obtain before ids where ids: "readCount (le_eth E) (le_abi E) (le_generator E) = Inr before"
    "readIds (le_eth E) (le_abi E) (le_generator E) before (wrap64 (lf_bursts f * lf_size f)) = Inr ids"
    "label_results (lf_size f) firedAt 0 ids = Some results"
    using assms(1) by (auto simp: load_setup_def Let_def split: if_splits option.splits sum.splits)
  have fresh: "ids = map oc_id results" "\<forall>r \<in> set results. \<not> oc_fulfilled r" using label_results_fresh[OF ids(3)] by auto
  have 1: "length (filter oc_fulfilled (map ?h results)) = length (filter ?found ids)"
    unfolding fresh(1) using fresh(2) final_outcome_found(1) by (intro filter_outcomes) blast
  have 2: "length (filter (\<lambda>r. \<not> oc_fulfilled r) (map ?h results)) = length (filter (\<lambda>i. \<not> ?found i) ids)"
    unfolding fresh(1) using fresh(2) final_outcome_found(1) by (intro filter_outcomes) blast
  have 3: "length (filter (\<lambda>r. oc_fulfilled r \<and> \<not> oc_callback r) (map ?h results)) =
      length (filter (callback_failed E (views firedBlock)) ids)"
    unfolding fresh(1) using fresh(2) final_outcome_found(2) by (intro filter_outcomes) blast
  have code: "code = (if \<forall>i \<in> set ids. ?found i then 0 else 1)"
    unfolding load_main_results(2)[OF assms] unfulfilled_def 2 by (auto simp: exit_code_def filter_empty_conv)
  have parts: "length (filter ?found ids) + length (filter (\<lambda>i. \<not> ?found i) ids) = length ids"
    by (rule sum_length_filter_compl)
  have "length results = length ids" by (simp add: fresh(1))
  then have "lr_requests rep = length ids" "lr_fulfilled rep = length (filter ?found ids)"
    "lr_never rep = length (filter (\<lambda>i. \<not> ?found i) ids)"
    "lr_callbackFailed rep = length (filter (callback_failed E (views firedBlock)) ids)"
    using parts unfolding load_main_results(1)[OF assms] report_counts 1 3 by simp_all
  with ids(1,2) code show ?thesis by blast
qed

text \<open>
  Requests that the generator never recorded do not count as lost.  If the generator returns fewer ids than
  were fired, even none at all, and those it returns are all found fulfilled by the watcher, the tool
  exits with 0.
\<close>

theorem unrecorded_requests_exit_clean:
  assumes "load_setup f E = Inr (firedBlock, firedAt, [])"
  shows "load_main f E views = Inr (report [], 0)"
proof -
  have "match_rounds vs [] 0 = ([], 0)" for vs by (cases vs) simp_all
  with assms show ?thesis by (simp add: load_main_def exit_code_def)
qed

text \<open>
  A single failed call at the end throws the report away: when a request is still outstanding after the wait and
  the endpoint refuses the direct read of the first such request, the tool exits without having
  reported anything.
\<close>

theorem failed_read_discards_the_report:
  assumes "load_setup f E = Inr (firedBlock, firedAt, results)"
    and "match_rounds (views firedBlock) results (int (length results)) = (r # rs, p)" and "0 < p"
    and "\<not> oc_fulfilled r" and "le_eth E (ethereumCall (le_coordinator E) (pack_requests (le_abi E) (oc_id r))) = Inl e"
  shows "load_main f E views = Inl (CallFailed e)"
  using assms by (simp add: load_main_def requestState_def load_call_def)

section \<open>A run\<close>

definition demo_load_world :: load_world where
  "demo_load_world =
     \<lparr>lw_nonce = Inr 0, lw_chainID = Inr 1, lw_baseFee = Inr 1, lw_estimate = (\<lambda>_. Inr 50), lw_alive = (\<lambda>_. True),
      lw_sign = (\<lambda>_. Inr [1]), lw_send = (\<lambda>_ _. None), lw_receipt = (\<lambda>_. Some 1)\<rparr>"

definition demo_load_env :: "int list \<Rightarrow> load_env" where
  "demo_load_env ids =
     \<lparr>le_key = ''0xab'', le_parse_key = (\<lambda>_. None), le_dial = None, le_head = Inr 9, le_eth = (\<lambda>_. Inr []),
      le_abi = \<lparr>pack_requestCount = [], unpack_requestCount = (\<lambda>_. Inr 0), pack_requestsFrom = (\<lambda>_ _. []),
        unpack_requestsFrom = (\<lambda>_. Inr ids), pack_requests = (\<lambda>_. []), unpack_requests = (\<lambda>_. Inr (True, True)),
        pack_fire = (\<lambda>_ _ _. Inr [])\<rparr>,
      le_generator = [], le_coordinator = [], le_clock = (\<lambda>b. int b * 1000), le_world = (\<lambda>_. demo_load_world)\<rparr>"

definition demo_load_flags :: load_flags where
  "demo_load_flags = \<lparr>lf_rpc = ''r'', lf_generator = ''g'', lf_coordinator = ''c'', lf_bursts = 2, lf_size = 2,
     lf_words = 1, lf_callbackGas = 100000\<rparr>"

lemma demo_load_sends: "load_send demo_load_world [] = None"
proof -
  have "await_receipt 300 (\<lambda>_. Some 1) 0 = None" by (simp add: numeral_eq_Suc)
  then show ?thesis by (simp add: load_send_def demo_load_world_def)
qed

lemma demo_load_setup:
  "load_setup demo_load_flags (demo_load_env ids) =
     (case label_results 2 [0, 1000] 0 ids of None \<Rightarrow> Inl Panicked | Some rs \<Rightarrow> Inr (9, [0, 1000], rs))"
proof -
  have "fire_bursts (\<lambda>b. Inr []) (\<lambda>b. int b * 1000) (\<lambda>_. demo_load_world) 0 2 [] = Inr [0, 1000]"
    by (simp add: numeral_2_eq_2 demo_load_sends)
  then show ?thesis
    by (simp add: load_setup_def demo_load_flags_def demo_load_env_def trim_prefix_def readCount_def readIds_def
        load_call_def wrap64_def)
qed

theorem requests_timed_from_their_burst_witness:
  "\<exists>results. load_setup demo_load_flags (demo_load_env [5, 6, 7, 8]) = Inr (9, [0, 1000], results) \<and>
     oc_fired (results ! 3) = 1000"
proof -
  obtain results where r: "label_results 2 [0, 1000] 0 [5, 6, 7, 8] = Some results" "length results = 4"
    using label_results_nth[of 2 "[0, 1000]" 0 "[5, 6, 7, 8]"] by auto
  have s: "load_setup demo_load_flags (demo_load_env [5, 6, 7, 8]) = Inr (9, [0, 1000], results)"
    unfolding demo_load_setup r(1) by simp
  have "oc_fired (results ! (1 * nat (lf_size demo_load_flags) + 1)) = le_clock (demo_load_env [5, 6, 7, 8]) 1"
    by (rule requests_timed_from_their_burst[OF s, THEN conjunct2]) (simp_all add: demo_load_flags_def r(2))
  then show ?thesis using s by (simp add: demo_load_flags_def demo_load_env_def)
qed

theorem exit_status_is_truthful_witness:
  "\<exists>rep. load_main demo_load_flags ((demo_load_env [5, 6])\<lparr>le_eth := (\<lambda>m. Inr (msg_Data m)),
       le_abi := (le_abi (demo_load_env [5, 6]))\<lparr>unpack_requests := (\<lambda>_. Inr (False, False))\<rparr>\<rparr>)
     (\<lambda>_. [[], [(5, \<lparr>st_at = 7, st_callbackOK = False\<rparr>)]]) = Inr (rep, 1) \<and>
     lr_fulfilled rep = 1 \<and> lr_never rep = 1 \<and> lr_callbackFailed rep = 1"
proof -
  let ?E = "(demo_load_env [5, 6])\<lparr>le_eth := (\<lambda>m. Inr (msg_Data m)),
    le_abi := (le_abi (demo_load_env [5, 6]))\<lparr>unpack_requests := (\<lambda>_. Inr (False, False))\<rparr>\<rparr>"
  let ?views = "\<lambda>_ :: u64. [[], [(5 :: int, \<lparr>st_at = 7, st_callbackOK = False\<rparr>)]]"
  have fires: "fire_bursts (\<lambda>b. Inr []) (\<lambda>b. int b * 1000) (\<lambda>_. demo_load_world) 0 2 [] = Inr [0, 1000]"
    by (simp add: numeral_2_eq_2 demo_load_sends)
  obtain results where r: "label_results 2 [0, 1000] 0 [5, 6] = Some results"
    using label_results_nth[of 2 "[0, 1000]" 0 "[5, 6]"] by auto
  have s: "load_setup demo_load_flags ?E = Inr (9, [0, 1000], results)"
    using fires r by (simp add: load_setup_def demo_load_flags_def demo_load_env_def trim_prefix_def readCount_def readIds_def
        load_call_def ethereumCall_def wrap64_def)
  have state: "requestState (le_eth ?E) (le_abi ?E) (le_coordinator ?E) = (\<lambda>i. Inr (False, False))"
    by (rule ext) (simp add: demo_load_env_def requestState_def load_call_def)
  have "checked_reads (\<lambda>i. Inr (False, False)) rs p = Inr (rs, p)" for rs p
    by (induction rs arbitrary: p) simp_all
  moreover obtain rs1 p1 where "match_rounds (?views 9) results (int (length results)) = (rs1, p1)" by (metis prod.exhaust)
  ultimately have "load_main demo_load_flags ?E ?views = Inr (report rs1, exit_code p1)"
    unfolding load_main_def s state by simp
  then obtain rep code where main: "load_main demo_load_flags ?E ?views = Inr (rep, code)" by blast
  have fate: "came_back ?E (?views 9) = (\<lambda>i. i = 5)" "callback_failed ?E (?views 9) = (\<lambda>i. i = 5)"
    unfolding came_back_def callback_failed_def state by (auto simp: mget_def fun_eq_iff)
  obtain before ids where ids: "readIds (le_eth ?E) (le_abi ?E) (le_generator ?E) before
      (wrap64 (lf_bursts demo_load_flags * lf_size demo_load_flags)) = Inr ids"
    and out: "code = (if \<forall>i \<in> set ids. i = 5 then 0 else 1)" "lr_fulfilled rep = length (filter (\<lambda>i. i = 5) ids)"
      "lr_never rep = length (filter (\<lambda>i. i \<noteq> 5) ids)" "lr_callbackFailed rep = length (filter (\<lambda>i. i = 5) ids)"
    using exit_status_is_truthful[OF s main] unfolding fate by blast
  have "ids = [5, 6]" using ids by (simp add: readIds_def load_call_def demo_load_env_def)
  then have "code = 1" "lr_fulfilled rep = 1" "lr_never rep = 1" "lr_callbackFailed rep = 1" using out by simp_all
  with main show ?thesis by blast
qed

theorem unrecorded_requests_exit_clean_witness:
  "load_main demo_load_flags (demo_load_env []) (\<lambda>_. []) = Inr (report [], 0)"
  by (rule unrecorded_requests_exit_clean) (simp add: demo_load_setup)

theorem failed_read_discards_the_report_witness:
  "load_main demo_load_flags
     ((demo_load_env [5])\<lparr>le_eth := (\<lambda>m. if msg_To m = [9] then Inl ''busy'' else Inr []), le_coordinator := [9]\<rparr>)
     (\<lambda>_. []) = Inl (CallFailed ''busy'')"
proof -
  let ?E = "(demo_load_env [5])\<lparr>le_eth := (\<lambda>m. if msg_To m = [9] then Inl ''busy'' else Inr []), le_coordinator := [9]\<rparr>"
  let ?r = "\<lparr>oc_id = 5, oc_fired = 0, oc_settled = 0, oc_fulfilled = False, oc_callback = False\<rparr>"
  have fires: "fire_bursts (\<lambda>b. Inr []) (\<lambda>b. int b * 1000) (\<lambda>_. demo_load_world) 0 2 [] = Inr [0, 1000]"
    by (simp add: numeral_2_eq_2 demo_load_sends)
  have s: "load_setup demo_load_flags ?E = Inr (9, [0, 1000], [?r])"
    using fires by (simp add: load_setup_def demo_load_flags_def demo_load_env_def trim_prefix_def readCount_def readIds_def
        load_call_def ethereumCall_def wrap64_def burst_index_div)
  show ?thesis
    by (rule failed_read_discards_the_report[OF s, of _ ?r "[]" 1])
       (simp_all add: demo_load_env_def ethereumCall_def)
qed

lemma report_latencies:
  "lr_latencies (report results) = [] \<longleftrightarrow> (\<forall>r \<in> set results. oc_fulfilled r \<longrightarrow> oc_settled r = 0)"
proof -
  have "sort xs = [] \<longleftrightarrow> xs = []" for xs :: "duration list" by (metis length_0_conv length_sort)
  then show ?thesis by (auto simp: report_def report_loop_counts Let_def filter_empty_conv)
qed

text \<open>
  Raw results are missing when they are most wanted.  When no settlement was seen by the watcher, because every request
  was found by a direct read or none was fulfilled, the file asked for is not written, although there are results; in
  every other case the report says that it was, whether or not the file system let it.
\<close>

theorem raw_results_need_a_latency:
  "raw_results print os path results disk =
     (if (\<exists>r \<in> set results. oc_fulfilled r \<and> oc_settled r \<noteq> 0) \<and> path \<noteq> []
      then (True, fs_apply (WriteTo path (print (map json_row results))) os disk) else (False, disk))"
  by (auto simp: raw_results_def report_latencies)

text \<open>The rate is the count of fulfilments over the span, so it is positive as soon as it is given.\<close>

theorem sustained_positive:
  assumes "sustained results = Some q"
  shows "0 < q"
proof -
  obtain f c l t where loop: "report_loop results (0, 0, [], 0) = (f, c, l, t)" by (metis prod.exhaust)
  then have l: "l \<noteq> []" and q: "q = of_nat f * of_int (seconds 1) / of_int (time_sub t (oc_fired (hd results)))"
    "0 < time_sub t (oc_fired (hd results))"
    using assms by (auto simp: sustained_def Let_def split: if_splits)
  have "\<exists>r \<in> set results. oc_fulfilled r"
    using report_loop_counts[of results 0 0 "[]" 0] loop l by (auto simp: filter_empty_conv)
  moreover have "f = length (filter oc_fulfilled results)"
    using report_loop_counts[of results 0 0 "[]" 0] loop by simp
  ultimately have "0 < f" by (auto simp: filter_empty_conv)
  then show ?thesis using q by simp
qed

theorem sustained_positive_witness:
  "\<exists>q. sustained [\<lparr>oc_id = 5, oc_fired = 1, oc_settled = 1000000001, oc_fulfilled = True, oc_callback = True\<rparr>] = Some q \<and> 0 < q"
proof -
  have s: "sustained [\<lparr>oc_id = 5, oc_fired = 1, oc_settled = 1000000001, oc_fulfilled = True, oc_callback = True\<rparr>] = Some 1"
    by (simp add: sustained_def time_sub_def)
  from sustained_positive[OF s] s show ?thesis by blast
qed

end
