(* ===== verification/Tool_Sweep.thy ===== *)
theory Tool_Sweep
  imports Prelude
begin

text \<open>
  The command that empties a publishing account: \<open>node/cmd/vrfsweep/main.go\<close>.  First the earned fees are
  withdrawn to the destination, then whatever the account holds, less the price of the transfer, is
  sent there.  The endpoint, address parsing, Keccak-256 and signing are arguments; every \<open>log.Fatal\<close>
  is an error value.
\<close>

section \<open>Definitions\<close>

record sweep_tx =
  sx_nonce :: u64
  sx_to :: "byte list"
  sx_value :: int
  sx_gas :: u64
  sx_gasPrice :: int
  sx_data :: "byte list"

text \<open>
  The endpoint, as one run of the command sees it: \<open>k\<close> counts the transactions sent.  A receipt is
  asked for until one comes or the context ends: \<open>sw_receipts\<close> lists the answers before that, where \<open>None\<close>
  is no receipt yet and \<open>Some status\<close> a receipt.  \<open>sw_key\<close> is \<open>crypto.HexToECDSA\<close> and the address of the key.
\<close>

record sweep_world =
  sw_key :: "string \<Rightarrow> string + byte list"
  sw_dial :: "string \<Rightarrow> string option"
  sw_chainID :: "string + int"
  sw_isHex :: "string \<Rightarrow> bool"
  sw_address :: "string \<Rightarrow> byte list"
  sw_checksum :: "byte list \<Rightarrow> string"
  sw_keccak :: "byte list \<Rightarrow> byte list"
  sw_gasPrice :: "string + int"
  sw_call :: "byte list \<Rightarrow> byte list \<Rightarrow> string + byte list"
  sw_estimate :: "byte list \<Rightarrow> byte list \<Rightarrow> string + u64"
  sw_balance :: "string + int"
  sw_nonce :: "nat \<Rightarrow> string + u64"
  sw_sign :: "sweep_tx \<Rightarrow> string option"
  sw_send :: "nat \<Rightarrow> sweep_tx \<Rightarrow> string option"
  sw_receipts :: "nat \<Rightarrow> nat option list"

datatype sweep_error =
    ArgumentsMissing
  | NotAnAddress
  | ChecksumFails
  | KeyMissing
  | BadKey string
  | DialError string
  | EndpointError string
  | NonceError string
  | SignError string
  | SendError string
  | ReceiptTimeout
  | SweepReverted

definition selector :: "sweep_world \<Rightarrow> string \<Rightarrow> byte list" where
  "selector w sig = take 4 (sw_keccak w (map (\<lambda>c. word_of_nat (of_char c)) sig))"

fun wait_receipt :: "nat option list \<Rightarrow> sweep_error option" where
  "wait_receipt [] = Some ReceiptTimeout"
| "wait_receipt (None # rs) = wait_receipt rs"
| "wait_receipt (Some status # rs) = (if status \<noteq> 1 then Some SweepReverted else None)"

text \<open>The closure \<open>send\<close>: nothing in a dry run.  The transactions sent so far are threaded through.\<close>

definition sweep_send ::
  "sweep_world \<Rightarrow> bool \<Rightarrow> int \<Rightarrow> byte list \<Rightarrow> int \<Rightarrow> byte list \<Rightarrow> u64 \<Rightarrow> sweep_tx list \<Rightarrow>
    sweep_error option \<times> sweep_tx list" where
  "sweep_send w dry gasPrice target value data gas sent =
     (if dry then (None, sent)
      else case sw_nonce w (length sent) of
        Inl e \<Rightarrow> (Some (NonceError e), sent)
      | Inr nonce \<Rightarrow>
          let tx = \<lparr>sx_nonce = nonce, sx_to = target, sx_value = value, sx_gas = gas,
                    sx_gasPrice = gasPrice, sx_data = data\<rparr> in
          (case sw_sign w tx of
             Some e \<Rightarrow> (Some (SignError e), sent)
           | None \<Rightarrow> (case sw_send w (length sent) tx of
               Some e \<Rightarrow> (Some (SendError e), sent)
             | None \<Rightarrow> (wait_receipt (sw_receipts w (length sent)), sent @ [tx]))))"

text \<open>Step one: the fees.\<close>

definition sweep_fees ::
  "sweep_world \<Rightarrow> bool \<Rightarrow> int \<Rightarrow> byte list \<Rightarrow> byte list \<Rightarrow> string \<Rightarrow> sweep_tx list \<Rightarrow>
    sweep_error option \<times> sweep_tx list" where
  "sweep_fees w dry gasPrice from dest subs sent =
     (if subs = '''' then (None, sent)
      else let sub = sw_address w subs in
        (case sw_call w sub (selector w ''withdrawableOf(address)'' @ left_pad from 32) of
           Inl e \<Rightarrow> (Some (EndpointError e), sent)
         | Inr out \<Rightarrow>
             if 0 < be_value out
             then let data = selector w ''withdraw(address)'' @ left_pad dest 32 in
               (case sw_estimate w sub data of
                  Inl e \<Rightarrow> (Some (EndpointError e), sent)
                | Inr gas \<Rightarrow> sweep_send w dry gasPrice sub 0 data (gas + gas div 4) sent)
             else (None, sent)))"

text \<open>Step two: whatever is left, minus what moving it costs.\<close>

definition sweep_rest ::
  "sweep_world \<Rightarrow> bool \<Rightarrow> int \<Rightarrow> byte list \<Rightarrow> sweep_tx list \<Rightarrow> sweep_error option \<times> sweep_tx list" where
  "sweep_rest w dry gasPrice dest sent =
     (case sw_balance w of
        Inl e \<Rightarrow> (Some (EndpointError e), sent)
      | Inr balance \<Rightarrow>
          let fee = 21000 * gasPrice; value = balance - fee in
          if value \<le> 0 then (None, sent) else sweep_send w dry gasPrice dest value [] 21000 sent)"

text \<open>\<open>main\<close>, with the environment variable and the flags as arguments.\<close>

definition sweep_main ::
  "sweep_world \<Rightarrow> bool \<Rightarrow> string \<Rightarrow> string \<Rightarrow> string \<Rightarrow> string \<Rightarrow> sweep_error option \<times> sweep_tx list" where
  "sweep_main w dry env rpc dest_text subs =
     (if rpc = '''' \<or> dest_text = '''' then (Some ArgumentsMissing, [])
      else if \<not> sw_isHex w dest_text then (Some NotAnAddress, [])
      else let dest = sw_address w dest_text in
        if sw_checksum w dest \<noteq> dest_text then (Some ChecksumFails, [])
        else let raw = trim_space env in
        if raw = '''' then (Some KeyMissing, [])
        else case sw_key w (trim_prefix ''0x'' raw) of
          Inl e \<Rightarrow> (Some (BadKey e), [])
        | Inr from \<Rightarrow>
        (case sw_dial w rpc of
          Some e \<Rightarrow> (Some (DialError e), [])
        | None \<Rightarrow>
        (case sw_chainID w of
          Inl e \<Rightarrow> (Some (EndpointError e), [])
        | Inr chainID \<Rightarrow>
        (case sw_gasPrice w of
          Inl e \<Rightarrow> (Some (EndpointError e), [])
        | Inr suggested \<Rightarrow>
            let gasPrice = suggested * 3 in
            (case sweep_fees w dry gasPrice from dest subs [] of
               (Some e, sent) \<Rightarrow> (Some e, sent)
             | (None, sent) \<Rightarrow> sweep_rest w dry gasPrice dest sent)))))"

section \<open>Lemmas\<close>

lemma sweep_send_sent:
  assumes "sweep_send w dry gasPrice target value data gas sent = (r, sent')"
  shows "sent' = sent \<or> (\<not> dry \<and> (\<exists>nonce. sw_nonce w (length sent) = Inr nonce \<and> sent' = sent @
    [\<lparr>sx_nonce = nonce, sx_to = target, sx_value = value, sx_gas = gas, sx_gasPrice = gasPrice, sx_data = data\<rparr>]))"
  using assms by (auto simp: sweep_send_def Let_def split: if_splits sum.splits option.splits)

definition is_withdrawal :: "sweep_world \<Rightarrow> string \<Rightarrow> byte list \<Rightarrow> sweep_tx \<Rightarrow> bool" where
  "is_withdrawal w subs dest tx \<longleftrightarrow> subs \<noteq> '''' \<and> sx_to tx = sw_address w subs \<and> sx_value tx = 0 \<and>
     sx_data tx = selector w ''withdraw(address)'' @ left_pad dest 32"

definition is_transfer :: "sweep_world \<Rightarrow> byte list \<Rightarrow> sweep_tx \<Rightarrow> bool" where
  "is_transfer w dest tx \<longleftrightarrow> sx_to tx = dest \<and> sx_data tx = [] \<and> sx_gas tx = 21000 \<and> 0 < sx_value tx \<and>
     (\<exists>balance. sw_balance w = Inr balance \<and> sx_value tx + 21000 * sx_gasPrice tx = balance)"

lemma sweep_fees_sent:
  assumes "sweep_fees w dry gasPrice from dest subs [] = (r, sent)"
  shows "sent = [] \<or> (\<not> dry \<and> (\<exists>tx. sent = [tx] \<and> is_withdrawal w subs dest tx))"
  using assms
  by (auto simp: sweep_fees_def is_withdrawal_def Let_def split: if_splits sum.splits dest!: sweep_send_sent)

lemma sweep_rest_sent:
  assumes "sweep_rest w dry gasPrice dest sent = (r, sent')"
  shows "sent' = sent \<or> (\<not> dry \<and> (\<exists>tx. sent' = sent @ [tx] \<and> is_transfer w dest tx \<and> sx_gasPrice tx = gasPrice))"
  using assms
  by (auto simp: sweep_rest_def is_transfer_def Let_def split: if_splits sum.splits dest!: sweep_send_sent)

definition pays_only :: "sweep_world \<Rightarrow> string \<Rightarrow> byte list \<Rightarrow> sweep_tx list \<Rightarrow> bool" where
  "pays_only w subs dest sent \<longleftrightarrow>
     (\<exists>withdrawals transfers. sent = withdrawals @ transfers \<and> length withdrawals \<le> 1 \<and> length transfers \<le> 1 \<and>
        (\<forall>tx \<in> set withdrawals. is_withdrawal w subs dest tx) \<and>
        (\<forall>tx \<in> set transfers. is_transfer w dest tx))"

lemma pays_only_fees:
  "sent = [] \<or> (\<not> dry \<and> (\<exists>tx. sent = [tx] \<and> is_withdrawal w subs dest tx)) \<Longrightarrow>
     pays_only w subs dest sent \<and> length sent \<le> 1 \<and> (sent \<noteq> [] \<longrightarrow> \<not> dry)"
  unfolding pays_only_def
  by (elim disjE conjE exE; hypsubst; intro conjI exI[of _ sent] exI[of _ "[]"]; simp)

lemma pays_only_rest:
  assumes "sent = [] \<or> (\<not> dry \<and> (\<exists>tx. sent = [tx] \<and> is_withdrawal w subs dest tx))"
    and "is_transfer w dest tx" and "\<not> dry"
  shows "pays_only w subs dest (sent @ [tx])"
  using assms unfolding pays_only_def by (intro exI[of _ sent] exI[of _ "[tx]"]) auto

lemma sweep_main_cases:
  assumes "sweep_main w dry env rpc dest_text subs = (r, sent)" and "sent \<noteq> []"
  obtains g origin e1 sent1 where "sw_checksum w (sw_address w dest_text) = dest_text"
    "sweep_fees w dry g origin (sw_address w dest_text) subs [] = (e1, sent1)"
    "sent = sent1 \<or> sweep_rest w dry g (sw_address w dest_text) sent1 = (r, sent)"
  using assms unfolding sweep_main_def Let_def
  by (auto split: if_splits sum.splits prod.splits option.splits)

section \<open>Properties\<close>

text \<open>
  C33.  A sweep pays only the address that was typed.  Whatever the endpoint answers, everything the command
  sends is at most one withdrawal, of no value, to the subscription contract with the destination as its argument,
  followed by at most one plain transfer to the destination, whose value and fee are
  together exactly the balance read; nothing is sent in a dry run or when the destination is not
  in its checksummed form.
\<close>

theorem sweep_pays_only_the_destination:
  assumes "sweep_main w dry env rpc dest_text subs = (r, sent)"
  shows "(sent \<noteq> [] \<longrightarrow> \<not> dry \<and> sw_checksum w (sw_address w dest_text) = dest_text) \<and>
     (\<exists>withdrawals transfers. sent = withdrawals @ transfers \<and> length withdrawals \<le> 1 \<and> length transfers \<le> 1 \<and>
        (\<forall>tx \<in> set withdrawals. is_withdrawal w subs (sw_address w dest_text) tx) \<and>
        (\<forall>tx \<in> set transfers. is_transfer w (sw_address w dest_text) tx))"
proof (cases "sent = []")
  case False
  let ?dest = "sw_address w dest_text"
  obtain g origin e1 sent1 where check: "sw_checksum w ?dest = dest_text"
    and fees: "sweep_fees w dry g origin ?dest subs [] = (e1, sent1)"
    and rest: "sent = sent1 \<or> sweep_rest w dry g ?dest sent1 = (r, sent)"
    using assms False by (rule sweep_main_cases)
  have "pays_only w subs ?dest sent \<and> \<not> dry"
  proof (cases "sent = sent1")
    case True
    then show ?thesis using pays_only_fees[OF sweep_fees_sent[OF fees]] False by blast
  next
    case moved: False
    then obtain tx where "sent = sent1 @ [tx]" "is_transfer w ?dest tx" "\<not> dry"
      using rest sweep_rest_sent by blast
    then show ?thesis using pays_only_rest[OF sweep_fees_sent[OF fees]] by blast
  qed
  with check show ?thesis unfolding pays_only_def by blast
qed simp

definition demo_sweep :: sweep_world where
  "demo_sweep = \<lparr>sw_key = (\<lambda>s. Inr (replicate 20 1)), sw_dial = (\<lambda>s. None), sw_chainID = Inr 1, sw_isHex = (\<lambda>s. True), sw_address = (\<lambda>s. replicate 20 (of_nat (length s))),
     sw_checksum = (\<lambda>b. if hd b = 4 then ''0xD1'' else ''''), sw_keccak = id, sw_gasPrice = Inr 2,
     sw_call = (\<lambda>a b. Inr [1]), sw_estimate = (\<lambda>a b. Inr 100), sw_balance = Inr 1000000,
     sw_nonce = (\<lambda>k. Inr (of_nat k)), sw_sign = (\<lambda>t. None), sw_send = (\<lambda>k t. None), sw_receipts = (\<lambda>k. [None, Some 1])\<rparr>"

theorem sweep_pays_only_the_destination_witness:
  "\<exists>a b. sweep_main demo_sweep False '' 0xabc'' ''rpc'' ''0xD1'' ''sub'' = (None, [a, b]) \<and>
     sx_value b = 874000 \<and>
     (\<exists>withdrawals transfers. [a, b] = withdrawals @ transfers \<and> length withdrawals \<le> 1 \<and> length transfers \<le> 1 \<and>
        (\<forall>tx \<in> set withdrawals. is_withdrawal demo_sweep ''sub'' (replicate 20 4) tx) \<and>
        (\<forall>tx \<in> set transfers. is_transfer demo_sweep (replicate 20 4) tx))"
proof -
  obtain a b where m: "sweep_main demo_sweep False '' 0xabc'' ''rpc'' ''0xD1'' ''sub'' = (None, [a, b])"
    "sx_value b = 874000"
    by (simp add: sweep_main_def sweep_fees_def sweep_rest_def sweep_send_def demo_sweep_def be_value_def Let_def trim_space_def is_space_def trim_prefix_def)
  moreover have "sw_address demo_sweep ''0xD1'' = replicate 20 4" by (simp add: demo_sweep_def)
  ultimately show ?thesis using sweep_pays_only_the_destination[OF m(1)] by auto
qed

end
