(* ===== verification/Spec2Isabelle.thy ===== *)
theory Spec2Isabelle
  imports Node_Types Founding Chain_Rpc Daemon_Ports Dkg_Board Tools_Files Tool_Load_Run Tool_Sweep
begin

text \<open>
  \<^bold>\<open>A verification development for the operator daemon of threshold-vrf-bn254.\<close>

  The program is a threshold VRF.  \<open>n\<close> operators share a BLS key on BN254; for every request the
  coordinator contract announces, each operator signs a seed that is derived from the request,
  sends its partial signature to the others, and any \<open>t\<close> partials combine to the one group
  signature that the contract verifies.  The Go code under \<open>node/\<close> is one operator; this
  development models its core logic.

  \<^bold>\<open>Theories and code.\<close>  In the order in which they build on each other (paths below
  \<open>node/internal/\<close>):

  \<^item> \<open>Prelude\<close>: Go's integers, durations and maps, hexadecimal text, big-endian numbers.
  \<^item> \<open>Field_Poly\<close>, \<open>Kyber\<close>: polynomials over a field with interpolation at zero, and what the
    code relies on of the group library (go.dedis.ch/kyber) as a record of operations with named
    laws.  The laws are shown to be satisfiable by a concrete small group, on which all witnesses run.
  \<^item> \<open>Blsvrf\<close>: \<open>blsvrf/blsvrf.go\<close>.  \<open>Threshold\<close>: \<open>threshold/threshold.go\<close>.
  \<^item> \<open>Session\<close>, \<open>Session_Props\<close>: \<open>session/session.go\<close>, one request's collection of partials.
  \<^item> \<open>Mesh\<close>: \<open>mesh/mesh.go\<close>, the envelope, the share endpoint with its admission checks and throttle,
    the fan-out.
  \<^item> \<open>Metrics\<close>: the counters of \<open>metrics/metrics.go\<close>.
  \<^item> \<open>Chain_Events\<close>: the reading half of \<open>chain/chain.go\<close> (seed formula, range splitting, decoding,
    scan).  \<open>Chain_Watch\<close>: the polling loop and the subscription's reconnection (\<open>Watch\<close>,
    \<open>waitOrNudge\<close>, \<open>subscribe.go\<close>).  \<open>Chain_Client\<close>: the writing half (gas limits, fee cache, nonces,
    \<open>send\<close>, \<open>Fulfill\<close>, \<open>Claim\<close>; \<open>earnings.go\<close>).  \<open>Balance\<close>: \<open>balance.go\<close> and \<open>checkBalance\<close> of
    \<open>cmd/vrfnode/main.go\<close>.  \<open>Chain_Rpc\<close>: the plain calls, the wait for a receipt, and the websocket that
    feeds the nudges.
  \<^item> \<open>Dkg\<close>, \<open>Dkg_Run\<close>: \<open>dkg/dkg.go\<close>, \<open>nonce.go\<close> (the ceremonies of one process) and \<open>dkgnet/run.go\<close> (one
    participant of a networked one).  \<open>Dkg_Dealing\<close>: what the ceremonies of one process hand out, from what the
    handlers of \<open>kyber/share/dkg\<close> are documented to achieve.  \<open>Dkg_Wire\<close>: \<open>dkgnet/wire.go\<close>.  \<open>Dkg_Board\<close>: \<open>dkgnet/board.go\<close>, the bounded
    channels, the endpoint that fills them, closing, and delivery to peers with retries.
  \<^item> \<open>Keystore\<close>: \<open>keystore/keystore.go\<close>, the file format, loading, and saving as operations of the file system.
  \<^item> \<open>Go_Text\<close>: decimal numbers and splitting.  \<open>Metrics_Text\<close>: the text of a scrape in \<open>metrics/metrics.go\<close>.
    \<open>Status\<close>: \<open>status/status.go\<close> and \<open>cmd/vrfstatus\<close>.  \<open>Endpoints\<close>: routes and sources of the share server, the
    client's settings, the gauges and the page of counters, the header fields of the status page.
  \<^item> \<open>Node_State\<close>, \<open>Node_Memory\<close>: the state of \<open>node/node.go\<close> and the operations under its mutex.
    \<open>Node_Tasks\<close>: \<open>OnRequest\<close>, \<open>OnPeerShare\<close>, \<open>chaseQuorum\<close> and \<open>maybePublish\<close> as goroutines of
    atomic sections.  \<open>Node_Safety\<close>, \<open>Node_Publish\<close>: invariants over every interleaving.
    \<open>Node_Props\<close>, \<open>Node_Peers\<close>, \<open>Node_Types\<close>: the node's properties, early and late shares among them.
    \<open>Node_Live\<close>, \<open>Node_Quorum\<close>: that a quorum is never forgotten and that an honest one ends on the chain.
  \<^item> \<open>Fleet\<close>, \<open>Fleet_Live\<close>: the operators of a group side by side, each with its own goroutines; that they agree,
    and that together they get a request to the chain.
  \<^item> \<open>Daemon\<close>: \<open>cmd/vrfnode/main.go\<close>, from the flags and the keystore to a run in which the polling loop, the
    goroutines and the peers interleave.  \<open>Daemon_Ports\<close>: the same behind its share port, the metrics port, and
    how it ends.  \<open>Daemon_Budget\<close>: the callback budget from the announcement to the transaction.
    \<open>Daemon_Money\<close>: the same run with the one client and balance cache that sending and the checks share, and a
    log of what they send.
  \<^item> \<open>Founding\<close>: from the files \<open>vrfdkg\<close> writes to a fleet of daemons started on them, and from a group to the
    group after a rotation.
  \<^item> \<open>Tools_Dkg\<close>, \<open>Tool_Ceremony\<close>, \<open>Tools_Files\<close>, \<open>Tool_Load\<close>, \<open>Tool_Load_Run\<close>, \<open>Tool_Sweep\<close>: the commands \<open>vrfdkg\<close> and \<open>gen-dkg-vector\<close>,
    \<open>vrfceremony\<close>, \<open>vrfload\<close> and \<open>vrfsweep\<close> under \<open>node/cmd/\<close>.

  \<^bold>\<open>State.\<close>  A Go struct is a record.  A map is an association list with distinct keys and the
  operations \<open>mget\<close>, \<open>mput\<close>, \<open>mdel\<close>; where the code ranges over a map, the order is an argument.
  A session is shared by pointer, so sessions live in a heap and the node's table holds
  addresses.  Errors are the left side of a sum; a loop that may not end is \<open>None\<close> (\<open>chunk_loop\<close>).

  \<^bold>\<open>Concurrency.\<close>  \<open>node_step\<close> lets any goroutine run its next critical section, wait or call, lets
  the environment announce any request, deliver any envelope and report any request as settled or block as
  scanned.
  \<open>reachable\<close> closes this from the empty node.  The invariants (\<open>all_ok\<close>, \<open>publications_ok\<close>,
  \<open>parked_ok\<close>) are preserved by every step; \<open>task_weight\<close> decreases with every section a goroutine
  runs, so no fuel is needed to bound a run.  \<open>run_tasks\<close> is the run without interference, with
  one answer of the environment per section.  \<open>daemon_run\<close> ties the announcements to the events of the polling
  loop; its states are reachable in the sense above.  \<open>account_run\<close> is \<open>daemon_run\<close> with the calls of the client written
  out, each as one step; forgetting the money gives back \<open>daemon_run\<close> (\<open>account_run_daemon\<close>).  The board of a ceremony is a step relation of its own, with
  the sender that waits inside the mutex as part of the state.  \<open>open_daemon\<close> puts the share port in front of
  \<open>daemon_run\<close>; \<open>fleet_step\<close> runs any number of nodes, with any envelope delivered to any of them.  \<open>calm_run\<close>
  is a run in which the operators are honest and the chain answers for one request, in any order, with the set of
  operators whose share counts (its own when the request is announced, one that arrives while the session is open, one that
  was parked when \<open>OnRequest\<close> takes what is parked, but not one that is parked only afterwards), and
  \<open>live_fleet\<close> a fleet whose shares come from its own nodes and whose chain keeps the request open until somebody
  has sent it; what is to come of them is
  stated of the states in which the goroutines have ended, and \<open>goroutines_end\<close> says that they do.

  \<^bold>\<open>What the lemmas show.\<close>  A session cannot be steered: what it signs is the group signature
  whatever is added to it, at a cost of at most one pairing per operator.  The node publishes only
  group signatures on derived seeds, in at most one campaign of bounded length per request; it
  shows its share only on derived seeds; a session with a quorum has been claimed for publication or a goroutine
  is on its way to claim it, and when the honest shares of at least \<open>t\<close> operators count at a node whose chain answers, it
  publishes exactly once; a fleet gets such a request to the chain; the operators of a fleet never publish different signatures for a request; all its goroutines
  end; its memories of strangers' shares
  and of settled requests are bounded.  The polling loop hands every event of every block to the
  node once and in order, over restarts too; transactions never repeat a nonce; claims pay.  Everything the daemon's account sends is a fulfilment sized for
  the announced callback budget or a claim, and its metrics count what was accepted.  The two ceremonies drive the handlers so
  that the shares are those of one polynomial; a group founded by one
  answers on the chain under the key that was printed, and a rotation does not change what is sent.  A saved share
  comes back, saving is all or nothing, and a daemon started on a saved share publishes group signatures only;
  its counters agree with the chain, and its port lets through only complete shares from permitted
  sources, each answered once.  The exit status of the load test is what the watcher and the direct reads saw of the
  requests the generator recorded.  Ceremony bundles survive the wire, the board's channels are
  queues, participants agree on the session exactly when they agree on epoch and members, and every tool's result
  belongs to what it has written.  Several theorems record
  where the code does less than its comments promise (spent attempts, recorded equivocation, the
  open allow list, the stranded share, repeated claims, retried balance reads, the range split
  at the top of the number range, the channel nobody reads, the unauthenticated half of a keystore, the
  threshold flag, the index flag of a rotation, the parking lot that duplicates and late shares fill, the exit
  status of a daemon that cannot listen and of a load test whose requests are lost).

  \<^bold>\<open>Parameters.\<close>  The group library, Keccak-256, ABI decoding and encoding, JSON, address parsing, the
  token bucket, the RPC endpoint, transaction signing, the protocol of the key generation, scrypt, AES-GCM, the
  file system's answers and the randomness are arguments.  What is assumed of them
  is stated as named predicates (\<open>kyber_laws\<close>, \<open>additive\<close>, \<open>faithful\<close>, \<open>pending_truthful\<close>,
  \<open>answer_ok\<close>, \<open>keystore_laws\<close>, \<open>scalar_codec\<close>, \<open>g2_codec\<close>, \<open>endpoints_count\<close>, and \<open>dkg_laws\<close> for the key generation: participants configured
  alike that exchange all their deals and answers end with shares of one polynomial, in a rotation with the old constant term) and holds
  in the witnesses, for \<open>dkg_laws\<close> with the library \<open>small_dealer\<close>.

  \<^bold>\<open>Bounds.\<close>  Counters, block numbers, indices and nonces are words of the code's width and wrap;
  durations are 64-bit with the wrap written out (\<open>wrap64\<close>); Go's \<open>int\<close> used as a count of elements
  is an unbounded integer.

  \<^bold>\<open>Not modelled:\<close> sockets and connections (time limits, TLS, the shutdown that waits for them), the time budget
  of a ceremony, the interleaving of two calls of the client inside one another (each is one step),
  \<open>BalanceCache.SetClock\<close> (time is an argument
  throughout), flag parsing, and the lines the tools print.  Left out: logging, ABI text, and everything that is
  not Go (contracts, web code, deployment).
\<close>

section \<open>From one operator to another\<close>

text \<open>
  C24.  A share that one operator offers is counted by another.  The envelope an operator with a
  dealt share sends for a request, handled by any node whose open session for that request is on
  the same seed and the same commitments and has neither a partial of that operator nor a spent
  attempt under its index: the handler answers without error, the session holds one partial
  more, and a publication is started.
\<close>

theorem offered_share_is_counted:
  assumes "operator_of K cfgA poly" and "SignatureBytes K (Sign K (Secret (Share cfgA)) seed) = Inr raw"
    and "length seed = 32" and "existingSession n (hexID i) = Some a" and "a < length (heap n)"
    and "session_inv K (heap n ! a)" and "s_seed (heap n ! a) = seed"
    and "s_commits (heap n ! a) = Commits (Share cfgA)" and "s_operators (heap n ! a) = Operators cfgA"
    and "mget (s_partials (heap n ! a)) (share_Index (Share cfgA)) = None"
    and "mget (s_spent (heap n ! a)) (share_Index (Share cfgA)) = None"
  shows "\<exists>n1. run_tasks K cfg derive [w, w, w]
       [Sharing (envelope_of (hexID i) seed (share_Index (Share cfgA)) raw) Share_Start] n =
         ([Publishing i a Pub_Start None], n1) \<and>
     Collected (heap n1 ! a) = Collected (heap n ! a) + 1 \<and> trace n1 = trace n @ [Answered None]"
proof -
  let ?i = "share_Index (Share cfgA)" and ?e = "envelope_of (hexID i) seed (share_Index (Share cfgA)) raw"
  let ?p = "own_partial K cfgA seed"
  have K: "kyber_laws K" "g1_codec K" "Commits (Share cfgA) = commits_of K poly"
    and idx: "uint ?i < Operators cfgA"
    using assms(1) by (auto simp: operator_of_def dealt_def kyber_laws_def)
  have dec: "Decode K ?e = Inr (seed, ?p)"
    using Decode_envelope_of[OF assms(3,2) K(2)] by (simp add: own_partial_def)
  have ver: "VerifyPartial K (commits_of K poly) ?i seed (Sign K (Secret (Share cfgA)) seed)"
    using K(1) assms(1) by (simp add: VerifyPartial_iff operator_of_def)
  obtain s1 where add: "Add K (heap n ! a) ?p = (Inr True, s1)"
    using assms(7-11) idx ver K(3) by (simp add: Add_def own_partial_def Let_def)
  have "Collected s1 = Collected (heap n ! a) + 1"
    using Collected_Add[OF assms(6), of ?p] add by simp
  then show ?thesis
    using assms(4,5,7) dec
    by (simp add: add add_at_def set_session_def frame Seed_def envelope_of_def)
qed

theorem offered_share_is_counted_witness:
  "\<exists>n1 raw. run_tasks small_kyber cfg_demo demo_derive [quiet (Inr []), quiet (Inr []), quiet (Inr [])]
       [Sharing (envelope_of (hexID 31) (req_Seed demo_request) 1 raw) Share_Start]
       ((new_node None)\<lparr>sessions := [(hexID 31, 0)],
          heap := [new_session cfg_demo (req_Seed demo_request)]\<rparr>) = ([Publishing 31 0 Pub_Start None], n1) \<and>
     Collected (heap n1 ! 0) = 1"
proof -
  let ?seed = "req_Seed demo_request"
  let ?n = "(new_node None)\<lparr>sessions := [(hexID 31, 0)], heap := [new_session cfg_demo ?seed]\<rparr>"
  obtain raw where raw: "SignatureBytes small_kyber (Sign small_kyber (Secret (Share cfg_demo)) ?seed) = Inr raw"
    using SignatureBytes_ok[of small_kyber] small_kyber_laws unfolding kyber_laws_def by metis
  have len: "length ?seed = 32" by (simp add: demo_request_def demo_seed_length)
  have i: "share_Index (Share cfg_demo) = 1" by (simp add: cfg_demo_def share_Index_def)
  have s: "existingSession ?n (hexID 31) = Some 0" "0 < length (heap ?n)"
    "session_inv small_kyber (heap ?n ! 0)" "s_seed (heap ?n ! 0) = ?seed"
    "s_commits (heap ?n ! 0) = Commits (Share cfg_demo)" "s_operators (heap ?n ! 0) = Operators cfg_demo"
    "mget (s_partials (heap ?n ! 0)) (share_Index (Share cfg_demo)) = None"
    "mget (s_spent (heap ?n ! 0)) (share_Index (Share cfg_demo)) = None"
    "Collected (heap ?n ! 0) = 0"
    by (simp_all add: existingSession_def mget_def new_session_def session_inv_New Collected_def
        mempty_def mlen_def)
  from offered_share_is_counted[OF demo_operator raw len s(1-8), of cfg_demo demo_derive "quiet (Inr [])"]
  show ?thesis unfolding s(9) i by (metis add_0)
qed

end
